(* ===== verification/Prelude.thy ===== *)
theory Prelude
  imports Main "HOL-Library.Word"
begin

text \<open>
  Shared vocabulary of the development: bytes and C strings, the error numbers the
  programs test for, the machine-integer conversions of C (two's complement, LP64), the
  collections that carry the component proofs, and generic list lemmas.

  A C string is the \<^typ>\<open>string\<close> of its characters up to, and without, the terminating
  null byte; a byte buffer is a \<open>byte list\<close>. A library or system call that fails is a
  value \<open>Inl e\<close>, with \<open>e\<close> the \<open>errno\<close> it sets, and one that succeeds is \<open>Inr v\<close>.
\<close>

section \<open>Collections\<close>

named_theorems io_simps \<open>equations of the kernel objects and of the calls on them\<close>
named_theorems cstr_simps \<open>facts on C strings and their library functions\<close>
named_theorems inv_intros \<open>preservation of a component invariant by an operation\<close>
named_theorems step_simps \<open>inversion of the step relations\<close>

section \<open>Bytes, errors, results\<close>

type_synonym byte = char

abbreviation (input) NUL :: char where "NUL \<equiv> CHR 0x00"
abbreviation (input) LF :: char where "LF \<equiv> CHR 0x0A"

datatype errno =
    EINTR | EINVAL | EBADF | EAGAIN | EACCES | ENOENT | ENOMEM | EMFILE | ERANGE
  | EIO | EEXIST | ENOTDIR | ENOEXEC | EPERM | EIDRM | E2BIG | EFAULT | ECHILD
  | ESRCH | ENODATA | ENOTSUP | EFBIG | ENOSPC | EPIPE
  | EDEADLK | EOVERFLOW | ENOSYS | ENAMETOOLONG | ENOMSG | EMSGSIZE

text \<open>What a call of C returns: the error it sets, or its value.\<close>

type_synonym 'a result = "errno + 'a"

section \<open>Machine integers\<close>

text \<open>
  The conversion of an integer to a signed type of \<open>w\<close> bits keeps its residue modulo
  \<open>2 ^ w\<close>; to an unsigned type it is that residue. \<open>int\<close> has 32 bits, \<open>long\<close>, \<open>ssize_t\<close>
  and \<open>size_t\<close> have 64.
\<close>

definition to_signed :: "nat \<Rightarrow> int \<Rightarrow> int" where
  "to_signed w x = (x + 2 ^ (w - 1)) mod 2 ^ w - 2 ^ (w - 1)"

definition to_unsigned :: "nat \<Rightarrow> int \<Rightarrow> int" where
  "to_unsigned w x = x mod 2 ^ w"

abbreviation (input) INT_MAX :: int where "INT_MAX \<equiv> 2147483647"
abbreviation (input) INT_MIN :: int where "INT_MIN \<equiv> - 2147483648"
abbreviation (input) LONG_MAX :: int where "LONG_MAX \<equiv> 9223372036854775807"
abbreviation (input) LONG_MIN :: int where "LONG_MIN \<equiv> - 9223372036854775808"

lemma to_signed_id:
  assumes "0 < w" and "- (2 ^ (w - 1)) \<le> x" and "x < 2 ^ (w - 1)"
  shows "to_signed w x = x"
proof -
  have "(2::int) ^ w = 2 * 2 ^ (w - 1)"
    using assms(1) by (cases w) simp_all
  then have "(x + 2 ^ (w - 1)) mod 2 ^ w = x + 2 ^ (w - 1)"
    using assms by (intro mod_pos_pos_trivial) auto
  then show ?thesis by (simp add: to_signed_def)
qed

lemma to_signed_range:
  assumes "0 < w"
  shows "- (2 ^ (w - 1)) \<le> to_signed w x" and "to_signed w x < 2 ^ (w - 1)"
proof -
  have p: "(2::int) ^ w = 2 * 2 ^ (w - 1)"
    using assms by (cases w) simp_all
  have "0 \<le> (x + 2 ^ (w - 1)) mod 2 ^ w" "(x + 2 ^ (w - 1)) mod 2 ^ w < 2 ^ w"
    by simp_all
  with p show "- (2 ^ (w - 1)) \<le> to_signed w x" "to_signed w x < 2 ^ (w - 1)"
    by (simp_all add: to_signed_def)
qed

lemma to_signed32_id [simp]:
  "INT_MIN \<le> x \<Longrightarrow> x \<le> INT_MAX \<Longrightarrow> to_signed 32 x = x"
  by (rule to_signed_id) simp_all

lemma to_signed64_id [simp]:
  "LONG_MIN \<le> x \<Longrightarrow> x \<le> LONG_MAX \<Longrightarrow> to_signed 64 x = x"
  by (rule to_signed_id) simp_all

lemma to_unsigned_id [simp]: "0 \<le> x \<Longrightarrow> x < 2 ^ w \<Longrightarrow> to_unsigned w x = x"
  by (simp add: to_unsigned_def)

section \<open>Lists\<close>

text \<open>\<open>splitAt\<close> a separator: the part before its first occurrence, and what follows.\<close>

lemma takeWhile_append_hit:
  "\<forall>x\<in>set xs. P x \<Longrightarrow> \<not> P y \<Longrightarrow> takeWhile P (xs @ y # ys) = xs"
  by (induction xs) auto

lemma dropWhile_append_hit:
  "\<forall>x\<in>set xs. P x \<Longrightarrow> \<not> P y \<Longrightarrow> dropWhile P (xs @ y # ys) = y # ys"
  by (induction xs) auto

lemma take_snoc_cap:
  "take n (take n xs @ [x]) = take n (xs @ [x])"
  by (cases "length xs \<le> n") simp_all

end
