(* ===== verification/StreamIO.thy ===== *)
theory StreamIO
  imports Prelude
begin

text \<open>
  Byte streams over file descriptors: \<open>readn\<close> and \<open>writen\<close> (\<open>lib/rdwrn.c\<close>), \<open>readLine\<close>
  (\<open>lib/read_line.c\<close>) and \<open>readLineBuf\<close> (\<open>sockets/read_line_buf.c\<close>).

  The kernel side of a descriptor is a parameter: \<open>sys_read k n\<close> is what
  \<open>read(fd, buf, n)\<close> returns in kernel state \<open>k\<close>, the bytes it stores or the error it
  sets, with the next kernel state; \<open>sys_write\<close> likewise. What the programs rely on
  (partial transfers, \<open>EINTR\<close> before any byte is moved, end of file) is the contract of the
  locales \<open>input_fd\<close> and \<open>output_fd\<close>.
\<close>

section \<open>The kernel interface\<close>

type_synonym 'k reader = "'k \<Rightarrow> nat \<Rightarrow> byte list result \<times> 'k"
type_synonym 'k writer = "'k \<Rightarrow> byte list \<Rightarrow> nat result \<times> 'k"

text \<open>
  \<open>pending k\<close> is what the descriptor will deliver before its end, \<open>fault k\<close> the error it
  reports there instead of end of file, if any, and \<open>interrupts k\<close> bounds the number of
  calls a signal handler will still interrupt.
\<close>

locale input_fd =
  fixes sys_read :: "'k reader"
    and pending :: "'k \<Rightarrow> byte list"
    and fault :: "'k \<Rightarrow> errno option"
    and interrupts :: "'k \<Rightarrow> nat"
  assumes read_intr: "\<lbrakk>sys_read k n = (Inl EINTR, k'); 0 < n\<rbrakk> \<Longrightarrow>
      pending k' = pending k \<and> fault k' = fault k \<and> interrupts k' < interrupts k"
    and read_fail: "\<lbrakk>sys_read k n = (Inl e, k'); 0 < n; e \<noteq> EINTR\<rbrakk> \<Longrightarrow>
      pending k = [] \<and> fault k = Some e \<and> pending k' = pending k"
    and read_bytes: "\<lbrakk>sys_read k n = (Inr bs, k'); 0 < n\<rbrakk> \<Longrightarrow>
      length bs \<le> n \<and> pending k = bs @ pending k' \<and> fault k' = fault k \<and>
      interrupts k' \<le> interrupts k"
    and read_eof: "\<lbrakk>sys_read k n = (Inr [], k'); 0 < n\<rbrakk> \<Longrightarrow> pending k = [] \<and> fault k = None"

text \<open>
  \<open>written k\<close> is what the descriptor has accepted so far, \<open>room k\<close> how much more it takes
  before it fails (\<open>None\<close>: no limit).
\<close>

locale output_fd =
  fixes sys_write :: "'k writer"
    and written :: "'k \<Rightarrow> byte list"
    and room :: "'k \<Rightarrow> nat option"
    and interrupts :: "'k \<Rightarrow> nat"
  assumes write_intr: "\<lbrakk>sys_write k bs = (Inl EINTR, k'); bs \<noteq> []\<rbrakk> \<Longrightarrow>
      written k' = written k \<and> room k' = room k \<and> interrupts k' < interrupts k"
    and write_fail: "\<lbrakk>sys_write k bs = (Inl e, k'); bs \<noteq> []; e \<noteq> EINTR\<rbrakk> \<Longrightarrow>
      written k' = written k \<and> room k = Some 0"
    and write_bytes: "\<lbrakk>sys_write k bs = (Inr m, k'); bs \<noteq> []\<rbrakk> \<Longrightarrow>
      0 < m \<and> m \<le> length bs \<and> written k' = written k @ take m bs \<and>
      room k' = map_option (\<lambda>r. r - m) (room k) \<and>
      (\<forall>r. room k = Some r \<longrightarrow> m \<le> r) \<and> interrupts k' \<le> interrupts k"

section \<open>A scripted descriptor\<close>

text \<open>
  A kernel object that behaves as its script says: each \<open>Intr\<close> interrupts one call, each
  \<open>Chunk\<close> is a run of bytes that arrives together (a segment of a socket, a line of a
  terminal) and is delivered in calls of at most the size asked for.
\<close>

datatype event = Intr | Chunk "byte list"

record source =
  evs :: "event list"
  src_fault :: "errno option"

fun deliver :: "event list \<Rightarrow> nat \<Rightarrow> errno option \<Rightarrow> byte list result \<times> event list" where
  "deliver [] n f = ((case f of Some e \<Rightarrow> if e = EINTR then Inr [] else Inl e | None \<Rightarrow> Inr []), [])"
| "deliver (Intr # es) n f = (Inl EINTR, es)"
| "deliver (Chunk c # es) n f =
     (if c = [] then deliver es n f
      else if length c \<le> n then (Inr c, es)
      else (Inr (take n c), Chunk (drop n c) # es))"

definition src_read :: "source reader" where
  "src_read d n = (case deliver (evs d) n (src_fault d) of (r, es) \<Rightarrow> (r, d\<lparr>evs := es\<rparr>))"

fun ev_bytes :: "event list \<Rightarrow> byte list" where
  "ev_bytes [] = []"
| "ev_bytes (Intr # es) = ev_bytes es"
| "ev_bytes (Chunk c # es) = c @ ev_bytes es"

fun ev_intrs :: "event list \<Rightarrow> nat" where
  "ev_intrs [] = 0"
| "ev_intrs (Intr # es) = Suc (ev_intrs es)"
| "ev_intrs (Chunk c # es) = ev_intrs es"

definition src_ok_fault :: "source \<Rightarrow> errno option" where
  "src_ok_fault d = (if src_fault d = Some EINTR then None else src_fault d)"

text \<open>A sink takes at most the number of bytes its script gives for each call.\<close>

datatype take_ev = WIntr | Accept nat

record sink =
  accepts :: "take_ev list"
  sunk :: "byte list"
  space :: "nat option"

definition room_for :: "nat option \<Rightarrow> nat \<Rightarrow> nat" where
  "room_for sp n = (case sp of None \<Rightarrow> n | Some r \<Rightarrow> min r n)"

definition snk_write :: "sink writer" where
  "snk_write s bs =
     (case accepts s of
        WIntr # as \<Rightarrow> (Inl EINTR, s\<lparr>accepts := as\<rparr>)
      | as \<Rightarrow>
          (let want = (case as of Accept m # _ \<Rightarrow> max 1 (min m (length bs)) | _ \<Rightarrow> length bs);
               m = room_for (space s) want;
               s' = s\<lparr>accepts := tl as\<rparr>
           in if bs = [] then (Inr 0, s')
              else if m = 0 then (Inl ENOSPC, s')
              else (Inr m, s'\<lparr>sunk := sunk s @ take m bs,
                              space := map_option (\<lambda>r. r - m) (space s)\<rparr>)))"

fun wintrs :: "take_ev list \<Rightarrow> nat" where
  "wintrs [] = 0"
| "wintrs (WIntr # as) = Suc (wintrs as)"
| "wintrs (Accept m # as) = wintrs as"

section \<open>readn and writen\<close>

text \<open>
  \<open>readn_loop sys_read n totRead buf k\<close> is the loop of \<open>readn\<close> with \<open>totRead\<close> bytes so
  far, stored in \<open>buf\<close>; it yields the return value (\<open>Inl e\<close> for -1 with \<open>errno\<close> = \<open>e\<close>),
  the bytes placed in the caller's buffer, and the kernel state. \<open>None\<close> is not returning.
\<close>

partial_function (option) readn_loop ::
    "'k reader \<Rightarrow> nat \<Rightarrow> nat \<Rightarrow> byte list \<Rightarrow> 'k \<Rightarrow> (nat result \<times> byte list \<times> 'k) option" where
  "readn_loop sys_read n totRead buf k =
     (if totRead < n then
        (case sys_read k (n - totRead) of
           (Inr bs, k') \<Rightarrow>
             if bs = [] then Some (Inr totRead, buf, k')
             else readn_loop sys_read n (totRead + length bs) (buf @ bs) k'
         | (Inl e, k') \<Rightarrow>
             if e = EINTR then readn_loop sys_read n totRead buf k'
             else Some (Inl e, buf, k'))
      else Some (Inr totRead, buf, k))"

definition readn :: "'k reader \<Rightarrow> nat \<Rightarrow> 'k \<Rightarrow> (nat result \<times> byte list \<times> 'k) option" where
  "readn sys_read n k = readn_loop sys_read n 0 [] k"

text \<open>
  \<open>buffer\<close> is the caller's buffer, of which the first \<open>n\<close> bytes are to be written.
  \<open>err\<close> is the value of \<open>errno\<close>, which the failure return after a zero-byte write leaves
  as it was.
\<close>

partial_function (option) writen_loop ::
    "'k writer \<Rightarrow> nat \<Rightarrow> nat \<Rightarrow> byte list \<Rightarrow> errno \<Rightarrow> 'k \<Rightarrow> (nat result \<times> 'k) option" where
  "writen_loop sys_write n totWritten buf err k =
     (if totWritten < n then
        (case sys_write k (take (n - totWritten) buf) of
           (Inr m, k') \<Rightarrow>
             if m = 0 then Some (Inl err, k')
             else writen_loop sys_write n (totWritten + m) (drop m buf) err k'
         | (Inl e, k') \<Rightarrow>
             if e = EINTR then writen_loop sys_write n totWritten buf e k'
             else Some (Inl e, k'))
      else Some (Inr totWritten, k))"

definition writen ::
    "'k writer \<Rightarrow> byte list \<Rightarrow> nat \<Rightarrow> errno \<Rightarrow> 'k \<Rightarrow> (nat result \<times> 'k) option" where
  "writen sys_write buffer n err k = writen_loop sys_write n 0 buffer err k"

section \<open>readLine\<close>

text \<open>
  The loop of \<open>readLine\<close>; \<open>buf\<close> holds what has been stored, so that \<open>totRead\<close> is its
  length. The string returned in \<open>buffer\<close> is \<open>buf\<close> with a null byte after it; it is
  \<open>None\<close> where the function returns without writing that byte.
\<close>

partial_function (option) readLine_loop ::
    "'k reader \<Rightarrow> nat \<Rightarrow> nat \<Rightarrow> byte list \<Rightarrow> 'k \<Rightarrow>
       (nat result \<times> byte list option \<times> 'k) option" where
  "readLine_loop sys_read n totRead buf k =
     (case sys_read k 1 of
        (Inl e, k') \<Rightarrow>
          if e = EINTR then readLine_loop sys_read n totRead buf k'
          else Some (Inl e, None, k')
      | (Inr [], k') \<Rightarrow>
          if totRead = 0 then Some (Inr 0, None, k')
          else Some (Inr totRead, Some buf, k')
      | (Inr (ch # _), k') \<Rightarrow>
          (let totRead' = (if totRead < n - 1 then totRead + 1 else totRead);
               buf' = (if totRead < n - 1 then buf @ [ch] else buf)
           in if ch = LF then Some (Inr totRead', Some buf', k')
              else readLine_loop sys_read n totRead' buf' k'))"

definition readLine ::
    "'k reader \<Rightarrow> bool \<Rightarrow> nat \<Rightarrow> 'k \<Rightarrow> (nat result \<times> byte list option \<times> 'k) option" where
  "readLine sys_read buffer_is_null n k =
     (if n = 0 \<or> buffer_is_null then Some (Inl EINVAL, None, k)
      else readLine_loop sys_read n 0 [] k)"

section \<open>readLineBuf\<close>

text \<open>
  The structure of \<open>read_line_buf.h\<close>. The array \<open>buf\<close> is the list of the bytes the last
  \<open>read\<close> stored; \<open>len\<close> is -1 after a failed one. The descriptor is the kernel state.
\<close>

abbreviation (input) RL_MAX_BUF :: nat where "RL_MAX_BUF \<equiv> 10"

record ReadLineBuf =
  rl_buf :: "byte list"
  rl_next :: int
  rl_len :: int

definition readLineBufInit :: "byte list \<Rightarrow> ReadLineBuf" where
  "readLineBufInit old = \<lparr>rl_buf = old, rl_next = 0, rl_len = 0\<rparr>"

text \<open>The refill of the buffer: \<open>Inl\<close> the error, or whether there is input left.\<close>

definition rl_refill :: "'k reader \<Rightarrow> ReadLineBuf \<Rightarrow> 'k \<Rightarrow> bool result \<times> ReadLineBuf \<times> 'k" where
  "rl_refill sys_read r k =
     (if rl_next r \<ge> rl_len r then
        (case sys_read k RL_MAX_BUF of
           (Inl e, k') \<Rightarrow> (Inl e, r\<lparr>rl_len := - 1\<rparr>, k')
         | (Inr bs, k') \<Rightarrow>
             if bs = [] then (Inr False, r\<lparr>rl_len := 0\<rparr>, k')
             else (Inr True, r\<lparr>rl_buf := bs, rl_len := int (length bs), rl_next := 0\<rparr>, k'))
      else (Inr True, r, k))"

partial_function (option) readLineBuf_loop ::
    "'k reader \<Rightarrow> nat \<Rightarrow> byte list \<Rightarrow> ReadLineBuf \<Rightarrow> 'k \<Rightarrow>
       (nat result \<times> byte list \<times> ReadLineBuf \<times> 'k) option" where
  "readLineBuf_loop sys_read n out r k =
     (case rl_refill sys_read r k of
        (Inl e, r', k') \<Rightarrow> Some (Inl e, out, r', k')
      | (Inr got, r', k') \<Rightarrow>
          if \<not> got then Some (Inr (length out), out, r', k') else
          (let c = rl_buf r' ! nat (rl_next r');
               r'' = r'\<lparr>rl_next := rl_next r' + 1\<rparr>;
               out' = (if length out < n then out @ [c] else out)
           in if c = LF then Some (Inr (length out'), out', r'', k')
              else readLineBuf_loop sys_read n out' r'' k'))"

definition readLineBuf ::
    "'k reader \<Rightarrow> ReadLineBuf \<Rightarrow> bool \<Rightarrow> nat \<Rightarrow> 'k \<Rightarrow>
       (nat result \<times> byte list \<times> ReadLineBuf \<times> 'k) option" where
  "readLineBuf sys_read r buffer_is_null n k =
     (if n = 0 \<or> buffer_is_null then Some (Inl EINVAL, [], r, k)
      else readLineBuf_loop sys_read n [] r k)"

text \<open>The first line of a byte sequence, with its newline if it has one, and the rest.\<close>

definition first_line :: "byte list \<Rightarrow> byte list" where
  "first_line bs = takeWhile (\<lambda>c. c \<noteq> LF) bs @ take 1 (dropWhile (\<lambda>c. c \<noteq> LF) bs)"

definition after_line :: "byte list \<Rightarrow> byte list" where
  "after_line bs = drop 1 (dropWhile (\<lambda>c. c \<noteq> LF) bs)"

lemma first_line_Nil [simp]: "first_line [] = []" "after_line [] = []"
  by (simp_all add: first_line_def after_line_def)

lemma first_line_Cons [simp]:
  "first_line (c # bs) = (if c = LF then [c] else c # first_line bs)"
  "after_line (c # bs) = (if c = LF then bs else after_line bs)"
  by (simp_all add: first_line_def after_line_def)

lemma first_line_after_line: "first_line bs @ after_line bs = bs"
  by (induction bs) simp_all

section \<open>Correctness over any descriptor\<close>

text \<open>What asking for \<open>n\<close> bytes of the stream \<open>bs\<close>, ended by \<open>f\<close>, returns.\<close>

definition stream_result :: "nat \<Rightarrow> byte list \<Rightarrow> errno option \<Rightarrow> nat result" where
  "stream_result n bs f =
     (if n \<le> length bs then Inr n else case f of None \<Rightarrow> Inr (length bs) | Some e \<Rightarrow> Inl e)"

text \<open>
  What \<open>readLine\<close> returns, with \<open>buf\<close> stored so far and \<open>bs\<close> to come: the kept part of
  the line; the string is left unterminated when end of file comes before any kept byte.
\<close>

definition line_result :: "nat \<Rightarrow> byte list \<Rightarrow> byte list \<Rightarrow> nat result" where
  "line_result n buf bs = Inr (length (take (n - 1) (buf @ first_line bs)))"

definition line_string :: "nat \<Rightarrow> byte list \<Rightarrow> byte list \<Rightarrow> byte list option" where
  "line_string n buf bs =
     (if take (n - 1) (buf @ first_line bs) = [] \<and> LF \<notin> set bs then None
      else Some (take (n - 1) (buf @ first_line bs)))"

lemma line_Cons:
  assumes "length buf \<le> n - 1" and "c \<noteq> LF"
  shows line_result_Cons: "line_result n (if length buf < n - 1 then buf @ [c] else buf) bs =
      line_result n buf (c # bs)"
    and line_string_Cons: "line_string n (if length buf < n - 1 then buf @ [c] else buf) bs =
      line_string n buf (c # bs)"
proof -
  have "take (n - 1) ((if length buf < n - 1 then buf @ [c] else buf) @ first_line bs) =
      take (n - 1) (buf @ c # first_line bs)"
    using assms(1) by (auto simp: take_Cons')
  moreover have "LF \<notin> set bs \<longleftrightarrow> LF \<notin> set (c # bs)" using assms(2) by auto
  ultimately show
    "line_result n (if length buf < n - 1 then buf @ [c] else buf) bs = line_result n buf (c # bs)"
    "line_string n (if length buf < n - 1 then buf @ [c] else buf) bs = line_string n buf (c # bs)"
    using assms(2) by (simp_all only: line_result_def line_string_def first_line_Cons if_False)
qed

context input_fd
begin

text \<open>The four outcomes of a \<open>read\<close>, as a case rule.\<close>

lemma read_cases:
  assumes "0 < n"
  obtains (intr) k' where "sys_read k n = (Inl EINTR, k')" "pending k' = pending k"
      "fault k' = fault k" "interrupts k' < interrupts k"
    | (fail) e k' where "sys_read k n = (Inl e, k')" "e \<noteq> EINTR" "pending k = []"
      "fault k = Some e" "pending k' = []"
    | (eof) k' where "sys_read k n = (Inr [], k')" "pending k = []" "fault k = None"
      "pending k' = []" "fault k' = None"
    | (bytes) bs k' where "sys_read k n = (Inr bs, k')" "bs \<noteq> []" "length bs \<le> n"
      "pending k = bs @ pending k'" "fault k' = fault k" "interrupts k' \<le> interrupts k"
proof (cases "sys_read k n")
  case (Pair r k')
  show ?thesis
  proof (cases r)
    case (Inl e)
    show ?thesis
    proof (cases "e = EINTR")
      case True
      then show ?thesis using intr [of k'] read_intr [of k n k'] Pair Inl assms by simp
    next
      case False
      then show ?thesis using fail [of e k'] read_fail [of k n e k'] Pair Inl assms by simp
    qed
  next
    case (Inr bs)
    show ?thesis
    proof (cases "bs = []")
      case True
      then show ?thesis
        using eof [of k'] read_eof [of k n k'] read_bytes [of k n bs k'] Pair Inr assms by simp
    next
      case False
      then show ?thesis using bytes [of bs k'] read_bytes [of k n bs k'] Pair Inr assms by simp
    qed
  qed
qed

lemma readn_loop_correct:
  "length buf \<le> n \<Longrightarrow>
   \<exists>k'. readn_loop sys_read n (length buf) buf k =
          Some (stream_result n (buf @ pending k) (fault k), take n (buf @ pending k), k') \<and>
        pending k' = drop n (buf @ pending k)"
proof (induction "length (pending k) + interrupts k" arbitrary: buf k rule: less_induct)
  case less
  show ?case
  proof (cases "length buf < n")
    case False
    with less.prems show ?thesis by (subst readn_loop.simps) (simp add: stream_result_def)
  next
    case True
    then have "0 < n - length buf" by simp
    then show ?thesis
    proof (cases rule: read_cases [where k = k])
      case (intr k')
      with True less.hyps [of k' buf] show ?thesis
        by (subst readn_loop.simps) simp
    next
      case (fail e k')
      with True show ?thesis by (subst readn_loop.simps) (simp add: stream_result_def)
    next
      case (eof k')
      with True show ?thesis by (subst readn_loop.simps) (simp add: stream_result_def)
    next
      case (bytes bs k')
      have "length (pending k') + interrupts k' < length (pending k) + interrupts k"
        and "length (buf @ bs) \<le> n" using bytes True by (auto simp: neq_Nil_conv)
      from less.hyps [OF this] bytes True show ?thesis
        by (subst readn_loop.simps) simp
    qed
  qed
qed

lemma readn_total:
  "\<exists>k'. readn sys_read n k = Some (stream_result n (pending k) (fault k), take n (pending k), k') \<and>
        pending k' = drop n (pending k)"
  using readn_loop_correct [of "[]" n k] by (simp add: readn_def)

text \<open>
  \<open>readLine\<close> consumes exactly the first line and keeps its first \<open>n - 1\<close> bytes, whatever
  the pattern of interruptions.
\<close>

lemma readLine_loop_correct:
  "\<lbrakk>0 < n; length buf \<le> n - 1; fault k = None \<or> LF \<in> set (pending k)\<rbrakk> \<Longrightarrow>
   \<exists>k'. readLine_loop sys_read n (length buf) buf k =
          Some (line_result n buf (pending k), line_string n buf (pending k), k') \<and>
        pending k' = after_line (pending k)"
proof (induction "length (pending k) + interrupts k" arbitrary: buf k rule: less_induct)
  case less
  have "0 < (1::nat)" by simp
  then show ?case
  proof (cases rule: read_cases [where k = k])
    case (intr k')
    with less.hyps [of k' buf] less.prems show ?thesis
      by (subst readLine_loop.simps) simp
  next
    case (fail e k')
    with less.prems show ?thesis by simp
  next
    case (eof k')
    with less.prems show ?thesis
      by (subst readLine_loop.simps) (auto simp: line_result_def line_string_def)
  next
    case (bytes bs k')
    then obtain c where c: "bs = [c]" by (cases bs) auto
    let ?buf = "if length buf < n - 1 then buf @ [c] else buf"
    have l: "length ?buf = (if length buf < n - 1 then length buf + 1 else length buf)"
      by simp
    have step: "readLine_loop sys_read n (length buf) buf k =
        (if c = LF then Some (Inr (length ?buf), Some ?buf, k')
         else readLine_loop sys_read n (length ?buf) ?buf k')"
      using bytes c by (subst readLine_loop.simps) (simp add: l)
    show ?thesis
    proof (cases "c = LF")
      case True
      with step bytes c less.prems show ?thesis
        by (auto simp: line_result_def line_string_def min_def)
    next
      case False
      have "length (pending k') + interrupts k' < length (pending k) + interrupts k"
        "0 < n" "length ?buf \<le> n - 1" "fault k' = None \<or> LF \<in> set (pending k')"
        using bytes c False less.prems by auto
      from less.hyps [OF this] False show ?thesis
        by (simp add: step bytes(4) c line_result_Cons line_string_Cons less.prems del: One_nat_def)
    qed
  qed
qed

lemma readLine_total:
  assumes "0 < n" and "fault k = None \<or> LF \<in> set (pending k)"
  shows "\<exists>k'. readLine sys_read False n k =
           Some (line_result n [] (pending k), line_string n [] (pending k), k') \<and>
         pending k' = after_line (pending k)"
  using readLine_loop_correct [of n "[]" k] assms by (simp add: readLine_def)

end

text \<open>
  \<open>readLineBuf\<close>: the logical stream is what is left in the buffer followed by what the
  descriptor will deliver; a call takes one line off it.
\<close>

definition rl_ok :: "ReadLineBuf \<Rightarrow> bool" where
  "rl_ok r \<longleftrightarrow> 0 \<le> rl_next r \<and> rl_len r \<le> int (length (rl_buf r))"

definition rl_left :: "ReadLineBuf \<Rightarrow> byte list" where
  "rl_left r = drop (nat (rl_next r)) (take (nat (rl_len r)) (rl_buf r))"

lemma rl_left_empty: "rl_ok r \<Longrightarrow> rl_left r = [] \<longleftrightarrow> rl_len r \<le> rl_next r"
  by (auto simp: rl_ok_def rl_left_def)

lemma rl_ok_init [inv_intros]: "rl_ok (readLineBufInit old)"
  by (simp add: rl_ok_def readLineBufInit_def)

lemma rl_left_init: "rl_left (readLineBufInit old) = []"
  by (simp add: rl_left_def readLineBufInit_def)

lemma rl_left_step:
  assumes "rl_ok r" and "\<not> rl_len r \<le> rl_next r"
  shows "rl_left r = rl_buf r ! nat (rl_next r) # rl_left (r\<lparr>rl_next := rl_next r + 1\<rparr>)"
    and "rl_ok (r\<lparr>rl_next := rl_next r + 1\<rparr>)"
proof -
  have "nat (rl_next r) < nat (rl_len r)" "nat (rl_len r) \<le> length (rl_buf r)"
    "nat (rl_next r + 1) = Suc (nat (rl_next r))"
    using assms by (auto simp: rl_ok_def)
  then show "rl_left r = rl_buf r ! nat (rl_next r) # rl_left (r\<lparr>rl_next := rl_next r + 1\<rparr>)"
    by (simp add: rl_left_def Cons_nth_drop_Suc [symmetric])
  show "rl_ok (r\<lparr>rl_next := rl_next r + 1\<rparr>)" using assms by (simp add: rl_ok_def)
qed

context input_fd
begin

lemma rl_refill_correct:
  assumes "rl_ok r" "fault k = None" "interrupts k = 0"
  obtains (more) r' k' where "rl_refill sys_read r k = (Inr True, r', k')" "rl_ok r'"
      "rl_left r' \<noteq> []" "rl_left r @ pending k = rl_left r' @ pending k'"
      "fault k' = None" "interrupts k' = 0"
    | (eof) r' k' where "rl_refill sys_read r k = (Inr False, r', k')" "rl_ok r'"
      "rl_left r @ pending k = []" "rl_left r' @ pending k' = []"
      "fault k' = None" "interrupts k' = 0"
proof (cases "rl_len r \<le> rl_next r")
  case False
  with assms show ?thesis
    by (intro more [of r k]) (simp_all add: rl_refill_def rl_left_empty)
next
  case True
  have ten: "0 < RL_MAX_BUF" by simp
  show ?thesis
  proof (cases rule: read_cases [OF ten, where k = k])
    case (1 k')
    with assms show ?thesis by simp
  next
    case (2 e k')
    with assms show ?thesis by simp
  next
    case (3 k')
    have "interrupts k' = 0" using read_bytes [OF 3(1)] assms by simp
    with 3 True assms show ?thesis
      by (intro eof [of "r\<lparr>rl_len := 0\<rparr>" k'])
        (simp_all add: rl_refill_def rl_left_empty rl_ok_def rl_left_def)
  next
    case (4 bs k')
    with True assms show ?thesis
      by (intro more [of "r\<lparr>rl_buf := bs, rl_len := int (length bs), rl_next := 0\<rparr>" k'])
        (simp_all add: rl_refill_def rl_left_empty rl_ok_def rl_left_def)
  qed
qed

lemma readLineBuf_loop_correct:
  "\<lbrakk>rl_ok r; fault k = None; interrupts k = 0; length out \<le> n\<rbrakk> \<Longrightarrow>
   \<exists>r' k'. readLineBuf_loop sys_read n out r k =
     (let kept = take n (out @ first_line (rl_left r @ pending k))
      in Some (Inr (length kept), kept, r', k')) \<and>
     rl_ok r' \<and> rl_left r' @ pending k' = after_line (rl_left r @ pending k) \<and>
     fault k' = None \<and> interrupts k' = 0"
proof (induction "length (rl_left r @ pending k)" arbitrary: r k out rule: less_induct)
  case less
  from less.prems(1-3) show ?case
  proof (cases rule: rl_refill_correct)
    case (eof r' k')
    then show ?thesis
      using less.prems(4) by (subst readLineBuf_loop.simps) (simp add: Let_def)
  next
    case (more r1 k1)
    let ?c = "rl_buf r1 ! nat (rl_next r1)"
    let ?r = "r1\<lparr>rl_next := rl_next r1 + 1\<rparr>"
    let ?out = "if length out < n then out @ [?c] else out"
    have c: "rl_left r @ pending k = ?c # rl_left ?r @ pending k1" "rl_ok ?r"
      using more rl_left_step [of r1] rl_left_empty [of r1] by auto
    have step: "readLineBuf_loop sys_read n out r k =
        (if ?c = LF then Some (Inr (length ?out), ?out, ?r, k1)
         else readLineBuf_loop sys_read n ?out ?r k1)"
      using more by (subst readLineBuf_loop.simps) (simp add: Let_def)
    have t: "take n (?out @ xs) = take n (out @ ?c # xs)" for xs
      using less.prems(4) by (auto simp: take_Cons')
    have o: "length ?out \<le> n" using less.prems(4) by simp
    show ?thesis
    proof (cases "?c = LF")
      case True
      then show ?thesis using step c more o t [of "[]"] by (simp add: Let_def)
    next
      case False
      have "length (rl_left ?r @ pending k1) < length (rl_left r @ pending k)"
        unfolding c(1) by simp
      from less.hyps [OF this c(2) more(5,6) o] show ?thesis
        using False by (simp only: step c(1) t first_line_Cons if_False append_Cons Let_def)
    qed
  qed
qed

lemma readLineBuf_total:
  assumes "rl_ok r" "fault k = None" "interrupts k = 0" "0 < n"
  shows "\<exists>r' k'. readLineBuf sys_read r False n k =
      Some (Inr (length (take n (first_line (rl_left r @ pending k)))),
            take n (first_line (rl_left r @ pending k)), r', k') \<and>
      rl_ok r' \<and> rl_left r' @ pending k' = after_line (rl_left r @ pending k) \<and>
      fault k' = None \<and> interrupts k' = 0"
  using readLineBuf_loop_correct [of r k "[]" n] assms by (simp add: readLineBuf_def Let_def)

end

context output_fd
begin

lemma write_cases:
  assumes "bs \<noteq> []"
  obtains (intr) k' where "sys_write k bs = (Inl EINTR, k')" "written k' = written k"
      "room k' = room k" "interrupts k' < interrupts k"
    | (fail) e k' where "sys_write k bs = (Inl e, k')" "e \<noteq> EINTR" "written k' = written k"
      "room k = Some 0"
    | (bytes) m k' where "sys_write k bs = (Inr m, k')" "0 < m" "m \<le> length bs"
      "written k' = written k @ take m bs" "room k' = map_option (\<lambda>r. r - m) (room k)"
      "\<And>r. room k = Some r \<Longrightarrow> m \<le> r" "interrupts k' \<le> interrupts k"
proof (cases "sys_write k bs")
  case (Pair r k')
  show ?thesis
  proof (cases r)
    case (Inl e)
    show ?thesis
    proof (cases "e = EINTR")
      case True
      then show ?thesis using intr [of k'] write_intr [of k bs k'] Pair Inl assms by simp
    next
      case False
      then show ?thesis using fail [of e k'] write_fail [of k bs e k'] Pair Inl assms by simp
    qed
  next
    case (Inr m)
    then show ?thesis
      using bytes [of m k'] write_bytes [of k bs m k'] Pair assms by simp
  qed
qed

text \<open>
  While there is room, \<open>writen\<close> returns, reports all \<open>n\<close> bytes and has written exactly
  them, in order and once.
\<close>

lemma writen_loop_correct:
  "\<lbrakk>t \<le> n; n - t \<le> length buf; \<forall>r. room k = Some r \<longrightarrow> n - t \<le> r\<rbrakk> \<Longrightarrow>
   \<exists>k'. writen_loop sys_write n t buf err k = Some (Inr n, k') \<and>
        written k' = written k @ take (n - t) buf"
proof (induction "(n - t) + interrupts k" arbitrary: t buf err k rule: less_induct)
  case less
  show ?case
  proof (cases "t < n")
    case False
    with less.prems show ?thesis by (subst writen_loop.simps) simp
  next
    case True
    let ?bs = "take (n - t) buf"
    have ne: "?bs \<noteq> []" and len: "length ?bs = n - t" using True less.prems by auto
    from ne show ?thesis
    proof (cases rule: write_cases [where k = k])
      case (intr k')
      with True less.hyps [of t k' buf EINTR] less.prems show ?thesis
        by (subst writen_loop.simps) simp
    next
      case (fail e k')
      with True less.prems show ?thesis by auto
    next
      case (bytes m k')
      have "(n - (t + m)) + interrupts k' < (n - t) + interrupts k"
        "t + m \<le> n" "n - (t + m) \<le> length (drop m buf)"
        "\<forall>r. room k' = Some r \<longrightarrow> n - (t + m) \<le> r"
        using bytes True less.prems by (auto simp: less_diff_conv)
      from less.hyps [OF this, of err] bytes True ne show ?thesis
        by (subst writen_loop.simps) (auto simp: min_def simp flip: take_add)
    qed
  qed
qed

lemma writen_total:
  assumes "n \<le> length buffer" and "\<forall>r. room k = Some r \<longrightarrow> n \<le> r"
  shows "\<exists>k'. writen sys_write buffer n err k = Some (Inr n, k') \<and>
    written k' = written k @ take n buffer"
  using writen_loop_correct [of 0 n buffer k err] assms by (simp add: writen_def)

end

section \<open>The scripted descriptors meet the contracts\<close>

lemma deliver_spec:
  "\<lbrakk>deliver es n f = (r, es'); 0 < n\<rbrakk> \<Longrightarrow>
   (case r of
      Inl e \<Rightarrow>
        if e = EINTR then ev_bytes es' = ev_bytes es \<and> ev_intrs es' < ev_intrs es
        else ev_bytes es = [] \<and> ev_bytes es' = [] \<and> f = Some e
    | Inr bs \<Rightarrow>
        length bs \<le> n \<and> ev_bytes es = bs @ ev_bytes es' \<and> ev_intrs es' \<le> ev_intrs es \<and>
        (bs = [] \<longrightarrow> ev_bytes es = [] \<and> (f = None \<or> f = Some EINTR)))"
  by (induction es n f arbitrary: r es' rule: deliver.induct)
    (auto split: option.splits if_splits sum.splits)

interpretation script_in: input_fd src_read "\<lambda>d. ev_bytes (evs d)" src_ok_fault
    "\<lambda>d. ev_intrs (evs d)"
  by unfold_locales
    (force simp: src_read_def src_ok_fault_def dest: deliver_spec split: prod.splits if_splits)+

lemma snk_write_cases:
  "snk_write s bs = (r, s') \<Longrightarrow> bs \<noteq> [] \<Longrightarrow>
   (case r of
      Inl e \<Rightarrow>
        if e = EINTR then sunk s' = sunk s \<and> space s' = space s \<and>
          wintrs (accepts s') < wintrs (accepts s)
        else sunk s' = sunk s \<and> space s = Some 0
    | Inr m \<Rightarrow>
        0 < m \<and> m \<le> length bs \<and> sunk s' = sunk s @ take m bs \<and>
        space s' = map_option (\<lambda>x. x - m) (space s) \<and>
        (\<forall>x. space s = Some x \<longrightarrow> m \<le> x) \<and> wintrs (accepts s') \<le> wintrs (accepts s))"
  by (cases "accepts s"; cases "hd (accepts s)")
    (auto simp: snk_write_def room_for_def Let_def min_def max_def Suc_le_eq neq_Nil_conv
       split: option.splits if_splits)

interpretation script_out: output_fd snk_write sunk space "\<lambda>s. wintrs (accepts s)"
  by unfold_locales (auto dest!: snk_write_cases)

section \<open>Properties\<close>

lemma readn_correct:
  assumes "input_fd sys_read pending fault interrupts"
  shows "\<exists>k'. readn sys_read n k =
           Some (stream_result n (pending k) (fault k), take n (pending k), k') \<and>
         pending k' = drop n (pending k)"
  by (rule input_fd.readn_total [OF assms])

lemma writen_correct:
  assumes "output_fd sys_write written room interrupts"
    and "n \<le> length buffer" and "\<forall>r. room k = Some r \<longrightarrow> n \<le> r"
  shows "\<exists>k'. writen sys_write buffer n err k = Some (Inr n, k') \<and>
         written k' = written k @ take n buffer"
  using output_fd.writen_total [OF assms(1)] assms(2,3) by blast

text \<open>
  C1: over any descriptor that behaves as \<open>read(2)\<close> documents, however the data is split into
  partial reads and however often (finitely) a signal interrupts it, \<open>readn\<close> returns; it
  stores the first \<open>n\<close> bytes of the stream, leaves the rest for the next call, and returns
  \<open>n\<close>, the shorter length at end of file, or -1 with the error that ends the stream. Over any
  descriptor that behaves as \<open>write(2)\<close> documents and has room for \<open>n\<close> bytes, \<open>writen\<close> returns
  \<open>n\<close>, and the descriptor has received the first \<open>n\<close> bytes of the buffer, each once and in
  order, after what it held.
\<close>

theorem readn_writen_correct:
  "(input_fd sys_read pending fault interrupts \<longrightarrow>
     (\<exists>k'. readn sys_read n k = Some (stream_result n (pending k) (fault k), take n (pending k), k') \<and>
        pending k' = drop n (pending k))) \<and>
   (output_fd sys_write written room winterrupts \<and> m \<le> length buffer \<and> (\<forall>r. room w = Some r \<longrightarrow> m \<le> r) \<longrightarrow>
     (\<exists>w'. writen sys_write buffer m err w = Some (Inr m, w') \<and> written w' = written w @ take m buffer))"
  by (intro conjI impI, erule readn_correct, elim conjE, erule (2) writen_correct)

theorem readn_writen_correct_witness:
  "(\<exists>k'. readn src_read 4 \<lparr>evs = [Chunk ''ab'', Intr, Chunk ''cde''], src_fault = None\<rparr> =
      Some (Inr 4, ''abcd'', k') \<and> ev_bytes (evs k') = ''e'') \<and>
   (\<exists>k'. writen snk_write ''hello'' 4 EIO
        \<lparr>accepts = [Accept 1, WIntr, Accept 2], sunk = ''>'', space = Some 7\<rparr> =
      Some (Inr 4, k') \<and> sunk k' = ''>hell'')"
  using readn_writen_correct [THEN conjunct1, THEN mp, OF script_in.input_fd_axioms, of 4
      "\<lparr>evs = [Chunk ''ab'', Intr, Chunk ''cde''], src_fault = None\<rparr>"]
    readn_writen_correct [THEN conjunct2, THEN mp, OF conjI, OF script_out.output_fd_axioms, of 4 "''hello''"
      "\<lparr>accepts = [Accept 1, WIntr, Accept 2], sunk = ''>'', space = Some 7\<rparr>" EIO]
  by (simp add: stream_result_def)

lemma readLine_correct:
  assumes "input_fd sys_read pending fault interrupts"
    and "0 < n" and "fault k = None \<or> LF \<in> set (pending k)"
  shows "\<exists>k'. readLine sys_read False n k =
           (let kept = take (n - 1) (first_line (pending k))
            in Some (Inr (length kept),
                     if kept = [] \<and> LF \<notin> set (pending k) then None else Some kept, k')) \<and>
         pending k' = after_line (pending k)"
  using input_fd.readLine_total [OF assms(1-3)]
  by (simp only: line_result_def line_string_def Let_def append_Nil)

lemma readLineBuf_equiv:
  assumes "input_fd sys_read pending fault interrupts"
    and "rl_ok r" and "fault k = None" and "interrupts k = 0" and "0 < n"
    and "fault k0 = None" and "pending k0 = rl_left r @ pending k"
  shows "\<exists>line r' k' s k0'.
      readLineBuf sys_read r False n k = Some (Inr (length line), line, r', k') \<and>
      readLine sys_read False (Suc n) k0 = Some (Inr (length line), s, k0') \<and>
      (line \<noteq> [] \<longrightarrow> s = Some line) \<and>
      rl_ok r' \<and> rl_left r' @ pending k' = pending k0'"
  using input_fd.readLineBuf_total [OF assms(1-5)]
    input_fd.readLine_total [OF assms(1), of "Suc n" k0] assms(6,7)
  by (fastforce simp: line_result_def line_string_def)

text \<open>
  C3: \<open>readLine\<close> with a buffer of \<open>n\<close> bytes returns, consumes exactly one line of the stream,
  newline included, and returns its first \<open>n - 1\<close> bytes as a string; the excess is discarded.
  (The string is not terminated when end of file comes before any byte was kept.) The buffered
  \<open>readLineBuf\<close> is equivalent to \<open>readLine\<close> with one more byte of buffer (it stores no null
  byte): from the same logical stream, buffered bytes first, both return the same bytes and leave
  the same stream behind. The descriptor of \<open>readLineBuf\<close> must not be interrupted, since it does
  not restart its \<open>read\<close>.
\<close>

theorem line_functions_agree:
  assumes "input_fd sys_read pending fault interrupts" and "0 < n"
  shows "(fault k0 = None \<or> LF \<in> set (pending k0) \<longrightarrow>
      (\<exists>k'. readLine sys_read False n k0 =
           (let kept = take (n - 1) (first_line (pending k0))
            in Some (Inr (length kept),
                     if kept = [] \<and> LF \<notin> set (pending k0) then None else Some kept, k')) \<and>
         pending k' = after_line (pending k0))) \<and>
    (rl_ok r \<and> fault k = None \<and> interrupts k = 0 \<and> fault k0 = None \<and> pending k0 = rl_left r @ pending k \<longrightarrow>
      (\<exists>line r' k' s k0'.
        readLineBuf sys_read r False n k = Some (Inr (length line), line, r', k') \<and>
        readLine sys_read False (Suc n) k0 = Some (Inr (length line), s, k0') \<and>
        (line \<noteq> [] \<longrightarrow> s = Some line) \<and>
        rl_ok r' \<and> rl_left r' @ pending k' = pending k0'))"
  using readLine_correct [OF assms] readLineBuf_equiv [OF assms(1) _ _ _ assms(2)] by blast

theorem line_functions_agree_witness:
  "(\<exists>k'. readLine src_read False 4
        \<lparr>evs = [Intr, Chunk (''abcde'' @ [LF]), Chunk ''xy''], src_fault = Some EIO\<rparr> =
      Some (Inr 3, Some ''abc'', k') \<and> ev_bytes (evs k') = ''xy'') \<and>
   (\<exists>line r' k' s k0'.
      readLineBuf src_read (readLineBufInit []) False 3
        \<lparr>evs = [Chunk (''ab'' @ [LF] @ ''cd'')], src_fault = None\<rparr> =
        Some (Inr (length line), line, r', k') \<and>
      readLine src_read False (Suc 3)
        \<lparr>evs = [Intr, Chunk ''a'', Chunk (''b'' @ [LF] @ ''cd'')], src_fault = None\<rparr> =
        Some (Inr (length line), s, k0') \<and>
      (line \<noteq> [] \<longrightarrow> s = Some line) \<and>
      rl_ok r' \<and> rl_left r' @ ev_bytes (evs k') = ev_bytes (evs k0'))"
proof (rule conjI)
  show "\<exists>k'. readLine src_read False 4
        \<lparr>evs = [Intr, Chunk (''abcde'' @ [LF]), Chunk ''xy''], src_fault = Some EIO\<rparr> =
      Some (Inr 3, Some ''abc'', k') \<and> ev_bytes (evs k') = ''xy''"
    using line_functions_agree [THEN conjunct1, OF script_in.input_fd_axioms, of 4
        "\<lparr>evs = [Intr, Chunk (''abcde'' @ [LF]), Chunk ''xy''], src_fault = Some EIO\<rparr>"]
    by (simp add: Let_def eval_nat_numeral)
qed (rule line_functions_agree [THEN conjunct2, THEN mp, OF script_in.input_fd_axioms],
     simp_all add: src_ok_fault_def rl_left_init rl_ok_init)

end
