(* ===== verification/Memory.thy ===== *)
theory Memory
  imports Prelude
begin

text \<open>
  Byte-addressed memory, as the C programs that do their own pointer arithmetic see it: a
  store of an integer of \<open>n\<close> bytes changes exactly the bytes at \<open>a, \<dots>, a + n - 1\<close>, least
  significant first; a load reads them back. Addresses and \<open>size_t\<close> values are natural
  numbers below \<open>2 ^ 64\<close>, with the wrap-around of their arithmetic written out.
\<close>

type_synonym memory = "nat \<Rightarrow> nat"

fun store :: "nat \<Rightarrow> nat \<Rightarrow> nat \<Rightarrow> memory \<Rightarrow> memory" where
  "store 0 a v m = m"
| "store (Suc n) a v m = store n (Suc a) (v div 256) (m(a := v mod 256))"

fun load :: "nat \<Rightarrow> nat \<Rightarrow> memory \<Rightarrow> nat" where
  "load 0 a m = 0"
| "load (Suc n) a m = m a mod 256 + 256 * load n (Suc a) m"

definition wrap64 :: "nat \<Rightarrow> nat" where
  "wrap64 x = x mod 2 ^ 64"

lemma wrap64_id [simp]: "x < 2 ^ 64 \<Longrightarrow> wrap64 x = x"
  by (simp add: wrap64_def)

lemma wrap64_less [simp]: "wrap64 x < 2 ^ 64"
  by (simp add: wrap64_def)

lemma store_outside: "x < a \<or> a + n \<le> x \<Longrightarrow> store n a v m x = m x"
  by (induction n a v m rule: store.induct) auto

lemma load_cong: "(\<And>x. a \<le> x \<Longrightarrow> x < a + n \<Longrightarrow> m x = m' x) \<Longrightarrow> load n a m = load n a m'"
  by (induction n a m rule: load.induct) auto

lemma load_store_same: "load n a (store n a v m) = v mod 256 ^ n"
proof (induction n arbitrary: a v m)
  case (Suc n)
  have "store n (Suc a) (v div 256) (m(a := v mod 256)) a = v mod 256"
    by (simp add: store_outside)
  then show ?case by (simp add: Suc mod_mult2_eq)
qed simp

lemma load_store_other:
  "a + n \<le> b \<or> b + k \<le> a \<Longrightarrow> load n a (store k b v m) = load n a m"
  by (rule load_cong) (auto simp: store_outside)

lemma load_less: "load n a m < 256 ^ n"
proof (induction n a m rule: load.induct)
  case (2 n a m)
  have "m a mod 256 < 256" by simp
  with 2 show ?case by simp
qed simp

end
