(* ===== verification/Malloc.thy ===== *)
theory Malloc
  imports Memory
begin

text \<open>
  The allocator of \<open>07-memory-allocation/po_malloc_free.c\<close>: block headers in byte-addressed
  memory, the doubly linked free list, \<open>po_malloc\<close> (first fit with splitting, else the
  program break) and \<open>po_free\<close>. The system call \<open>sbrk\<close> is a parameter; its contract is the
  locale \<open>program_break\<close>.
\<close>

section \<open>Headers and the free list\<close>

text \<open>
  \<open>struct block_header\<close>: three fields of eight bytes. A header is its address; \<open>0\<close> is
  \<open>NULL\<close>. The state is the memory, the static \<open>free_ll_head\<close> and the kernel's state.
\<close>

abbreviation (input) HDR :: nat where "HDR \<equiv> 24"

definition block_length :: "memory \<Rightarrow> nat \<Rightarrow> nat" where
  "block_length m h = load 8 h m"

definition prev_free_chunk :: "memory \<Rightarrow> nat \<Rightarrow> nat" where
  "prev_free_chunk m h = load 8 (h + 8) m"

definition next_free_chunk :: "memory \<Rightarrow> nat \<Rightarrow> nat" where
  "next_free_chunk m h = load 8 (h + 16) m"

definition set_length :: "nat \<Rightarrow> nat \<Rightarrow> memory \<Rightarrow> memory" where
  "set_length h v = store 8 h v"

definition set_prev :: "nat \<Rightarrow> nat \<Rightarrow> memory \<Rightarrow> memory" where
  "set_prev h v = store 8 (h + 8) v"

definition set_next :: "nat \<Rightarrow> nat \<Rightarrow> memory \<Rightarrow> memory" where
  "set_next h v = store 8 (h + 16) v"

lemmas field_defs = block_length_def prev_free_chunk_def next_free_chunk_def
  set_length_def set_prev_def set_next_def

definition FREE_BLOCK_HEADER :: "nat \<Rightarrow> nat" where
  "FREE_BLOCK_HEADER p = wrap64 (p + (2 ^ 64 - HDR))"

definition FREE_BLOCK_MEMORY :: "nat \<Rightarrow> nat" where
  "FREE_BLOCK_MEMORY h = wrap64 (h + HDR)"

record 'k heap =
  mem :: memory
  free_ll_head :: nat
  kern :: 'k

definition ll_append :: "nat \<Rightarrow> nat \<Rightarrow> 'k heap \<Rightarrow> 'k heap" where
  "ll_append prev next s = s\<lparr>mem := set_prev next prev (set_next prev next (mem s))\<rparr>"

definition ll_remove :: "nat \<Rightarrow> 'k heap \<Rightarrow> 'k heap" where
  "ll_remove item s =
     (let m = mem s;
          s1 = (if prev_free_chunk m item = 0 then
                  (if next_free_chunk m item \<noteq> 0
                   then s\<lparr>free_ll_head := next_free_chunk m item\<rparr>
                   else s\<lparr>free_ll_head := 0\<rparr>)
                else s\<lparr>mem := set_next (prev_free_chunk m item) (next_free_chunk m item) m\<rparr>);
          m1 = mem s1
      in if next_free_chunk m1 item \<noteq> 0
         then s1\<lparr>mem := set_prev (next_free_chunk m1 item) (prev_free_chunk m1 item) m1\<rparr>
         else s1)"

definition ll_replace :: "nat \<Rightarrow> nat \<Rightarrow> 'k heap \<Rightarrow> 'k heap" where
  "ll_replace old new s =
     (let m = mem s;
          s1 = (if prev_free_chunk m old \<noteq> 0
                then s\<lparr>mem := set_next (prev_free_chunk m old) new m\<rparr>
                else s\<lparr>free_ll_head := new\<rparr>);
          m1 = mem s1;
          m2 = (if next_free_chunk m1 old \<noteq> 0
                then set_prev (next_free_chunk m1 old) new m1 else m1);
          m3 = set_prev new (prev_free_chunk m2 old) m2;
          m4 = set_next new (next_free_chunk m3 old) m3
      in s1\<lparr>mem := m4\<rparr>)"

section \<open>po\_malloc and po\_free\<close>

text \<open>
  \<open>sbrk d k\<close> is the address \<open>sbrk(d)\<close> returns, \<open>(void *) -1\<close> on failure, with the next
  kernel state.
\<close>

type_synonym 'k sbrk_call = "int \<Rightarrow> 'k \<Rightarrow> nat \<times> 'k"

abbreviation (input) VOID_M1 :: nat where "VOID_M1 \<equiv> 2 ^ 64 - 1"

datatype fault = Segfault

text \<open>
  The scan of the free list: the memory to use, once a block is found, or \<open>NULL\<close> at the end
  of the list. \<open>None\<close> is a scan that never ends.
\<close>

partial_function (option) po_malloc_scan ::
    "nat \<Rightarrow> nat \<Rightarrow> 'k heap \<Rightarrow> (nat option \<times> 'k heap) option" where
  "po_malloc_scan sz current s =
     (if current = 0 then Some (None, s)
      else if block_length (mem s) current \<ge> sz then
        (let memory_to_use = FREE_BLOCK_MEMORY current in
         if block_length (mem s) current > wrap64 (sz + HDR) then
           (let new_free = wrap64 (memory_to_use + sz);
                s1 = s\<lparr>mem := set_length new_free (block_length (mem s) current - sz) (mem s)\<rparr>
            in Some (Some memory_to_use, ll_replace current new_free s1))
         else Some (Some memory_to_use, ll_remove current s))
      else po_malloc_scan sz (next_free_chunk (mem s) current) s)"

text \<open>
  After the scan \<open>current_header\<close> is \<open>NULL\<close>, so the break moves by the sz plus a header.
  The code tests the result of \<open>sbrk\<close> against \<open>NULL\<close>; the stores to a header at
  \<open>(void *) -1\<close>, past the end of the address space, fault.
\<close>

definition po_malloc ::
    "'k sbrk_call \<Rightarrow> nat \<Rightarrow> 'k heap \<Rightarrow> ((fault + nat) \<times> 'k heap) option" where
  "po_malloc sbrk sz s =
     (case po_malloc_scan sz (free_ll_head s) s of
        None \<Rightarrow> None
      | Some (Some p, s') \<Rightarrow> Some (Inr p, s')
      | Some (None, s') \<Rightarrow>
          (let expand_size = wrap64 (sz + HDR);
               (block_header, k') = sbrk (to_signed 64 (int expand_size)) (kern s');
               memory_to_use = FREE_BLOCK_MEMORY block_header;
               s1 = s'\<lparr>kern := k'\<rparr>
           in if block_header = 0 then Some (Inr 0, s1)
              else if 2 ^ 64 < block_header + HDR then Some (Inl Segfault, s1)
              else Some (Inr memory_to_use,
                     s1\<lparr>mem := set_length block_header sz
                               (set_prev block_header 0 (set_next block_header 0 (mem s1)))\<rparr>)))"

definition po_free :: "nat \<Rightarrow> 'k heap \<Rightarrow> 'k heap" where
  "po_free ptr s =
     (let hdr = FREE_BLOCK_HEADER ptr;
          m = set_prev hdr 0 (mem s)
      in if free_ll_head s \<noteq> 0
         then s\<lparr>mem := set_prev (free_ll_head s) ptr (set_next hdr (free_ll_head s) m),
                free_ll_head := hdr\<rparr>
         else s\<lparr>mem := set_next hdr 0 m, free_ll_head := hdr\<rparr>)"

section \<open>Well-formed free lists\<close>

text \<open>Two headers do not overlap.\<close>

definition sep :: "nat \<Rightarrow> nat \<Rightarrow> bool" where
  "sep h h' \<longleftrightarrow> h + HDR \<le> h' \<or> h' + HDR \<le> h"

lemma sep_sym: "sep h h' \<longleftrightarrow> sep h' h"
  by (auto simp: sep_def)

lemma pow64: "(256::nat) ^ 8 = 2 ^ 64"
  by simp

lemma load8_less [simp]: "load 8 a m < 2 ^ 64"
  using load_less [of 8 a m] by (simp only: pow64)

lemma load8_store8 [simp]: "v < 2 ^ 64 \<Longrightarrow> load 8 a (store 8 a v m) = v"
  using load_store_same [of 8 a v m] by (simp only: pow64 mod_less)

lemma fields_less [simp]:
  "block_length m h < 2 ^ 64" "prev_free_chunk m h < 2 ^ 64" "next_free_chunk m h < 2 ^ 64"
  by (simp_all only: field_defs load8_less)

lemma fields_set_same [simp]:
  "v < 2 ^ 64 \<Longrightarrow> block_length (set_length h v m) h = v"
  "v < 2 ^ 64 \<Longrightarrow> prev_free_chunk (set_prev h v m) h = v"
  "v < 2 ^ 64 \<Longrightarrow> next_free_chunk (set_next h v m) h = v"
  by (simp_all only: field_defs load8_store8)

lemma fields_set_cross [simp]:
  "block_length (set_prev h v m) h = block_length m h"
  "block_length (set_next h v m) h = block_length m h"
  "prev_free_chunk (set_length h v m) h = prev_free_chunk m h"
  "prev_free_chunk (set_next h v m) h = prev_free_chunk m h"
  "next_free_chunk (set_length h v m) h = next_free_chunk m h"
  "next_free_chunk (set_prev h v m) h = next_free_chunk m h"
  by (simp_all add: field_defs load_store_other)

lemma fields_set_sep [simp]:
  assumes "sep h h'"
  shows "block_length (set_length h' v m) h = block_length m h"
    "block_length (set_prev h' v m) h = block_length m h"
    "block_length (set_next h' v m) h = block_length m h"
    "prev_free_chunk (set_length h' v m) h = prev_free_chunk m h"
    "prev_free_chunk (set_prev h' v m) h = prev_free_chunk m h"
    "prev_free_chunk (set_next h' v m) h = prev_free_chunk m h"
    "next_free_chunk (set_length h' v m) h = next_free_chunk m h"
    "next_free_chunk (set_prev h' v m) h = next_free_chunk m h"
    "next_free_chunk (set_next h' v m) h = next_free_chunk m h"
  using assms by (auto simp: field_defs sep_def intro!: load_store_other)

text \<open>
  \<open>chain m h xs\<close>: following \<open>next_free_chunk\<close> from \<open>h\<close> visits \<open>xs\<close> and ends at \<open>NULL\<close>.
  \<open>dll m p xs n\<close>: \<open>xs\<close> is a doubly linked segment between \<open>p\<close> and \<open>n\<close>.
\<close>

fun chain :: "memory \<Rightarrow> nat \<Rightarrow> nat list \<Rightarrow> bool" where
  "chain m h [] \<longleftrightarrow> h = 0"
| "chain m h (x # xs) \<longleftrightarrow> h = x \<and> x \<noteq> 0 \<and> chain m (next_free_chunk m x) xs"

fun dll :: "memory \<Rightarrow> nat \<Rightarrow> nat list \<Rightarrow> nat \<Rightarrow> bool" where
  "dll m p [] n \<longleftrightarrow> True"
| "dll m p (x # xs) n \<longleftrightarrow> x \<noteq> 0 \<and> prev_free_chunk m x = p \<and>
     next_free_chunk m x = hd (xs @ [n]) \<and> dll m x xs n"

fun headers_ok :: "nat list \<Rightarrow> bool" where
  "headers_ok [] \<longleftrightarrow> True"
| "headers_ok (x # xs) \<longleftrightarrow> x + HDR \<le> 2 ^ 64 \<and> (\<forall>y\<in>set xs. sep x y) \<and> headers_ok xs"

definition free_list :: "'k heap \<Rightarrow> nat list \<Rightarrow> bool" where
  "free_list s xs \<longleftrightarrow> free_ll_head s = hd (xs @ [0]) \<and> dll (mem s) 0 xs 0 \<and> headers_ok xs"

lemma dll_append:
  "dll m p (xs @ ys) n \<longleftrightarrow> dll m p xs (hd (ys @ [n])) \<and> dll m (last (p # xs)) ys n"
  by (induction m p xs n rule: dll.induct) auto

lemma dll_chain: "dll m p xs 0 \<Longrightarrow> chain m (hd (xs @ [0])) xs"
proof (induction xs arbitrary: p)
  case (Cons x xs)
  then show ?case by (auto dest: Cons.IH)
qed simp

lemma free_list_chain: "free_list s xs \<Longrightarrow> chain (mem s) (free_ll_head s) xs"
  by (auto simp: free_list_def dest: dll_chain)

lemma chain_frame:
  "\<forall>x\<in>set xs. next_free_chunk m' x = next_free_chunk m x \<Longrightarrow> chain m' h xs = chain m h xs"
  by (induction xs arbitrary: h) auto

lemma dll_frame:
  "\<forall>x\<in>set xs. next_free_chunk m' x = next_free_chunk m x \<and>
     prev_free_chunk m' x = prev_free_chunk m x \<Longrightarrow> dll m' p xs n = dll m p xs n"
  by (induction xs arbitrary: p) auto

lemma dll_set_outside:
  assumes "\<forall>x\<in>set xs. sep x h"
  shows "dll (set_next h v m) p xs n = dll m p xs n"
    and "dll (set_prev h v m) p xs n = dll m p xs n"
    and "dll (set_length h v m) p xs n = dll m p xs n"
  using assms by (auto intro!: dll_frame)

lemma headers_ok_append:
  "headers_ok (xs @ ys) \<longleftrightarrow>
     headers_ok xs \<and> headers_ok ys \<and> (\<forall>x\<in>set xs. \<forall>y\<in>set ys. sep x y)"
  by (induction xs) auto

lemma headers_ok_less: "headers_ok xs \<Longrightarrow> x \<in> set xs \<Longrightarrow> x < 2 ^ 64"
  by (induction xs) auto

lemma dll_nonzero: "dll m p zs n \<Longrightarrow> 0 \<notin> set zs"
  by (induction m p zs n rule: dll.induct) auto

text \<open>Redirecting the last \<open>next\<close> and the first \<open>prev\<close> pointer of a segment.\<close>

definition relink_next :: "nat list \<Rightarrow> nat \<Rightarrow> memory \<Rightarrow> memory" where
  "relink_next xs v m = (if xs = [] then m else set_next (last xs) v m)"

definition relink_prev :: "nat list \<Rightarrow> nat \<Rightarrow> memory \<Rightarrow> memory" where
  "relink_prev ys v m = (if ys = [] then m else set_prev (hd ys) v m)"

lemma dll_relink_next:
  assumes "dll m p xs n" "headers_ok xs" "v < 2 ^ 64"
  shows "dll (relink_next xs v m) p xs v"
proof (cases xs rule: rev_cases)
  case (snoc zs l)
  with assms show ?thesis
    by (simp add: relink_next_def dll_append headers_ok_append dll_set_outside)
qed simp

lemma dll_relink_prev:
  assumes "dll m p ys n" "headers_ok ys" "v < 2 ^ 64"
  shows "dll (relink_prev ys v m) v ys n"
proof (cases ys)
  case (Cons y zs)
  then have "\<forall>z\<in>set zs. sep z y" using assms(2) sep_sym by auto
  with Cons assms show ?thesis by (simp add: relink_prev_def dll_set_outside)
qed simp

lemma dll_relink_outside:
  assumes "\<forall>x\<in>set xs. \<forall>y\<in>set ys. sep x y"
  shows "dll (relink_next xs v m) p ys n = dll m p ys n"
    and "dll (relink_prev ys v m) p xs n = dll m p xs n"
proof -
  have "xs \<noteq> [] \<Longrightarrow> \<forall>y\<in>set ys. sep y (last xs)" using assms sep_sym last_in_set by metis
  then show "dll (relink_next xs v m) p ys n = dll m p ys n"
    by (simp add: relink_next_def dll_set_outside)
  have "ys \<noteq> [] \<Longrightarrow> \<forall>x\<in>set xs. sep x (hd ys)" using assms by simp
  then show "dll (relink_prev ys v m) p xs n = dll m p xs n"
    by (simp add: relink_prev_def dll_set_outside)
qed

lemma relink_fields:
  assumes "headers_ok (xs @ ys)" "\<forall>y\<in>set (xs @ ys). sep h y"
  shows "prev_free_chunk (relink_next xs v m) h = prev_free_chunk m h"
    and "next_free_chunk (relink_next xs v m) h = next_free_chunk m h"
    and "prev_free_chunk (relink_prev ys v m) h = prev_free_chunk m h"
    and "next_free_chunk (relink_prev ys v m) h = next_free_chunk m h"
  using assms(2) by (simp_all add: relink_next_def relink_prev_def)

section \<open>Unlinking and replacing\<close>

text \<open>
  A well-formed list around an element: both sides are segments, the element points to their
  ends, and the element is apart from both.
\<close>

lemma free_list_split:
  assumes "free_list s (xs @ x # ys)"
  shows "dll (mem s) 0 xs x" "dll (mem s) x ys 0" "x \<noteq> 0" "x + HDR \<le> 2 ^ 64"
    "prev_free_chunk (mem s) x = last (0 # xs)" "next_free_chunk (mem s) x = hd (ys @ [0])"
    "headers_ok (xs @ ys)" "\<forall>y\<in>set (xs @ ys). sep x y"
    "free_ll_head s = hd (xs @ [x])"
    "last (0 # xs) < 2 ^ 64" "hd (ys @ [0]) < 2 ^ 64"
    "last (0 # xs) = 0 \<longleftrightarrow> xs = []" "hd (ys @ [0]) = 0 \<longleftrightarrow> ys = []"
proof -
  have d: "dll (mem s) 0 xs x" "dll (mem s) (last (0 # xs)) (x # ys) 0"
    and h: "headers_ok xs" "headers_ok (x # ys)" "\<forall>a\<in>set xs. \<forall>b\<in>set (x # ys). sep a b"
    using assms by (simp_all add: free_list_def dll_append headers_ok_append)
  have f: "free_ll_head s = hd (xs @ [x])" using assms by (cases xs) (simp_all add: free_list_def)
  from d h f show "dll (mem s) 0 xs x" "dll (mem s) x ys 0" "x \<noteq> 0" "x + HDR \<le> 2 ^ 64"
    "prev_free_chunk (mem s) x = last (0 # xs)" "next_free_chunk (mem s) x = hd (ys @ [0])"
    "headers_ok (xs @ ys)" "free_ll_head s = hd (xs @ [x])"
    by (simp_all add: headers_ok_append)
  have "sep x y" if "y \<in> set xs" for y using h(3) that sep_sym by auto
  with h(2) show "\<forall>y\<in>set (xs @ ys). sep x y" by auto
  show "last (0 # xs) < 2 ^ 64" using headers_ok_less [OF h(1)] by simp
  show "hd (ys @ [0]) < 2 ^ 64" using h(2) by (cases ys) auto
  show "last (0 # xs) = 0 \<longleftrightarrow> xs = []" using dll_nonzero [OF d(1)]
    by (cases xs rule: rev_cases) auto
  show "hd (ys @ [0]) = 0 \<longleftrightarrow> ys = []" using dll_nonzero [OF d(2)] by (cases ys) auto
qed

lemma ll_remove_eq:
  assumes "free_list s (xs @ x # ys)"
  shows "ll_remove x s =
    s\<lparr>mem := relink_prev ys (last (0 # xs)) (relink_next xs (hd (ys @ [0])) (mem s)),
      free_ll_head := hd (xs @ ys @ [0])\<rparr>"
proof -
  note sp = free_list_split [OF assms]
  note rf = relink_fields [OF sp(7,8)]
  show ?thesis
  proof (cases "xs = []")
    case True
    then show ?thesis using sp
      by (cases ys) (simp_all add: ll_remove_def relink_next_def relink_prev_def Let_def)
  next
    case False
    then have "relink_next xs v (mem s) = set_next (prev_free_chunk (mem s) x) v (mem s)" for v
      using sp(5) by (simp add: relink_next_def)
    then show ?thesis using False sp rf
      by (cases ys) (auto simp: ll_remove_def relink_prev_def Let_def)
  qed
qed

lemma ll_remove_free_list [inv_intros]:
  assumes "free_list s (xs @ x # ys)"
  shows "free_list (ll_remove x s) (xs @ ys)"
proof -
  note sp = free_list_split [OF assms]
  let ?m1 = "relink_next xs (hd (ys @ [0])) (mem s)"
  let ?m2 = "relink_prev ys (last (0 # xs)) ?m1"
  have s: "headers_ok xs" "headers_ok ys" "\<forall>a\<in>set xs. \<forall>b\<in>set ys. sep a b"
    using sp(7) by (simp_all add: headers_ok_append)
  have "dll ?m1 0 xs (hd (ys @ [0]))" using dll_relink_next sp(1,11) s(1) by blast
  then have a: "dll ?m2 0 xs (hd (ys @ [0]))" using dll_relink_outside(2) s(3) by simp
  have "dll ?m1 x ys 0" using dll_relink_outside(1) s(3) sp(2) by simp
  then have b: "dll ?m2 (last (0 # xs)) ys 0" using dll_relink_prev sp(10) s(2) by blast
  show ?thesis unfolding ll_remove_eq [OF assms] free_list_def dll_append
    using a b sp(7) by simp
qed

lemma ll_replace_eq:
  assumes "free_list s (xs @ x # ys)" and "sep x new"
  shows "ll_replace x new s =
    s\<lparr>mem := set_next new (hd (ys @ [0])) (set_prev new (last (0 # xs))
               (relink_prev ys new (relink_next xs new (mem s)))),
      free_ll_head := hd (xs @ [new])\<rparr>"
proof -
  note sp = free_list_split [OF assms(1)]
  note rf = relink_fields [OF sp(7,8)]
  let ?m2 = "relink_prev ys new (relink_next xs new (mem s))"
  have e1: "(if prev_free_chunk (mem s) x \<noteq> 0
         then s\<lparr>mem := set_next (prev_free_chunk (mem s) x) new (mem s)\<rparr>
         else s\<lparr>free_ll_head := new\<rparr>) =
      s\<lparr>mem := relink_next xs new (mem s), free_ll_head := hd (xs @ [new])\<rparr>"
    using sp(5,9,12) by (cases xs) (auto simp: relink_next_def)
  have e2: "(if next_free_chunk (relink_next xs new (mem s)) x \<noteq> 0
      then set_prev (next_free_chunk (relink_next xs new (mem s)) x) new (relink_next xs new (mem s))
      else relink_next xs new (mem s)) = ?m2"
    using sp(6,13) rf by (cases ys) (auto simp: relink_prev_def)
  have e3: "prev_free_chunk ?m2 x = last (0 # xs)" "next_free_chunk ?m2 x = hd (ys @ [0])"
    using rf sp(5,6) by simp_all
  have "mem (s\<lparr>mem := relink_next xs new (mem s), free_ll_head := hd (xs @ [new])\<rparr>) =
      relink_next xs new (mem s)" by simp
  then show ?thesis unfolding ll_replace_def Let_def e1 using e2 e3 assms(2)
    by (simp only: fields_set_sep [OF assms(2)]) simp
qed

lemma ll_replace_free_list [inv_intros]:
  assumes "free_list s (xs @ x # ys)" and "new \<noteq> 0" "new + HDR \<le> 2 ^ 64"
    and "\<forall>y\<in>set (xs @ x # ys). sep y new"
  shows "free_list (ll_replace x new s) (xs @ new # ys)"
proof -
  note sp = free_list_split [OF assms(1)]
  let ?m1 = "relink_next xs new (mem s)"
  let ?m2 = "relink_prev ys new ?m1"
  let ?m3 = "set_next new (hd (ys @ [0])) (set_prev new (last (0 # xs)) ?m2)"
  have s: "headers_ok xs" "headers_ok ys" "\<forall>a\<in>set xs. \<forall>b\<in>set ys. sep a b"
    using sp(7) by (simp_all add: headers_ok_append)
  have new: "new < 2 ^ 64" "\<forall>a\<in>set xs. sep a new" "\<forall>a\<in>set ys. sep a new" "sep x new"
    using assms(3,4) by auto
  have "dll ?m1 0 xs new" using dll_relink_next sp(1) s(1) new(1) by blast
  then have "dll ?m2 0 xs new" using dll_relink_outside(2) s(3) by simp
  then have a: "dll ?m3 0 xs new" by (simp only: dll_set_outside [OF new(2)])
  have "dll ?m1 x ys 0" using dll_relink_outside(1) s(3) sp(2) by simp
  then have "dll ?m2 new ys 0" using dll_relink_prev new(1) s(2) by blast
  then have b: "dll ?m3 new ys 0" by (simp only: dll_set_outside [OF new(3)])
  have "prev_free_chunk ?m3 new = last (0 # xs)" "next_free_chunk ?m3 new = hd (ys @ [0])"
    using sp(10,11) by simp_all
  with a b assms(2,3) s new sep_sym show ?thesis
    unfolding ll_replace_eq [OF assms(1) new(4)] free_list_def
    by (auto simp: dll_append headers_ok_append hd_append simp del: last.simps)
qed

section \<open>The free list as an interface\<close>

text \<open>
  What \<open>po_malloc\<close> relies on in the list operations: \<open>unlink\<close> takes an element out and
  \<open>relink\<close> puts another in its place, in a structure that stands for the list \<open>xs\<close>.
\<close>

locale linked_list =
  fixes repr :: "'s \<Rightarrow> nat list \<Rightarrow> bool"
    and unlink :: "nat \<Rightarrow> 's \<Rightarrow> 's"
    and relink :: "nat \<Rightarrow> nat \<Rightarrow> 's \<Rightarrow> 's"
    and fits :: "nat \<Rightarrow> nat list \<Rightarrow> bool"
  assumes unlink_repr: "repr s (xs @ x # ys) \<Longrightarrow> repr (unlink x s) (xs @ ys)"
    and relink_repr: "repr s (xs @ x # ys) \<Longrightarrow> fits new (xs @ x # ys) \<Longrightarrow>
      repr (relink x new s) (xs @ new # ys)"
begin

lemma unlink_all: "repr s xs \<Longrightarrow> repr (fold unlink xs s) []"
proof (induction xs arbitrary: s)
  case (Cons x xs)
  then show ?case using unlink_repr [of s "[]" x xs] by simp
qed simp

lemma relink_then_unlink:
  assumes "repr s (xs @ x # ys)" and "fits new (xs @ x # ys)"
  shows "repr (unlink new (relink x new s)) (xs @ ys)"
  by (rule unlink_repr [OF relink_repr [OF assms]])

end

definition fits_header :: "nat \<Rightarrow> nat list \<Rightarrow> bool" where
  "fits_header new xs \<longleftrightarrow> new \<noteq> 0 \<and> new + HDR \<le> 2 ^ 64 \<and> (\<forall>y\<in>set xs. sep y new)"

interpretation free_ll: linked_list free_list ll_remove ll_replace fits_header
  by unfold_locales
    (use ll_remove_free_list in blast, use ll_replace_free_list fits_header_def in blast)

section \<open>The program break\<close>

text \<open>
  What \<open>po_malloc\<close> relies on in \<open>sbrk\<close>: a call that succeeds returns the old break and moves
  it by the increment, one that fails returns \<open>(void *) -1\<close> and leaves it.
\<close>

locale program_break =
  fixes sbrk :: "'k sbrk_call"
    and brk :: "'k \<Rightarrow> nat"
  assumes sbrk_ok: "\<lbrakk>sbrk d k = (p, k'); p \<noteq> VOID_M1; 0 \<le> d\<rbrakk> \<Longrightarrow>
      p = brk k \<and> brk k' = brk k + nat d \<and> brk k' < 2 ^ 64"
    and sbrk_fail: "sbrk d k = (VOID_M1, k') \<Longrightarrow> brk k' = brk k"
    and brk_nonzero: "brk k \<noteq> 0"

record data_segment =
  seg_brk :: nat
  seg_limit :: nat

definition seg_sbrk :: "data_segment sbrk_call" where
  "seg_sbrk d k =
     (let new = int (Suc (seg_brk k)) + d
      in if 0 < new \<and> new \<le> int (seg_limit k) \<and> new < 2 ^ 63 \<and> seg_brk k < 2 ^ 63
         then (Suc (seg_brk k), k\<lparr>seg_brk := nat new - 1\<rparr>)
         else (VOID_M1, k))"

lemma seg_sbrk_below:
  assumes "seg_sbrk d k = (p, k')" "p \<noteq> VOID_M1" "0 \<le> d"
  shows "p = Suc (seg_brk k) \<and> Suc (seg_brk k') = Suc (seg_brk k) + nat d \<and>
    Suc (seg_brk k') < 2 ^ 64"
  using assms by (auto simp: seg_sbrk_def Let_def split: if_splits)

interpretation data_seg: program_break seg_sbrk "\<lambda>k. Suc (seg_brk k)"
proof
  fix d k p k'
  assume "seg_sbrk d k = (p, k')" "p \<noteq> VOID_M1" "0 \<le> d"
  then show "p = Suc (seg_brk k) \<and> Suc (seg_brk k') = Suc (seg_brk k) + nat d \<and>
      Suc (seg_brk k') < 2 ^ 64"
    by (rule seg_sbrk_below)
next
  fix d k k'
  assume "seg_sbrk d k = (VOID_M1, k')"
  then show "Suc (seg_brk k') = Suc (seg_brk k)"
    by (auto simp: seg_sbrk_def Let_def split: if_splits)
qed simp

section \<open>First fit\<close>

text \<open>The scan passes the blocks that are too small and takes the first that is not.\<close>

lemma scan_skips:
  assumes "chain (mem s) c (xs @ ys)" and "\<forall>x\<in>set xs. block_length (mem s) x < sz"
  shows "po_malloc_scan sz c s = po_malloc_scan sz (hd (ys @ [0])) s"
  using assms
proof (induction xs arbitrary: c)
  case Nil
  then show ?case by (cases ys) simp_all
next
  case (Cons x xs)
  then have "po_malloc_scan sz c s = po_malloc_scan sz (next_free_chunk (mem s) x) s"
    by (subst po_malloc_scan.simps) simp
  with Cons show ?case by simp
qed

lemma scan_none:
  assumes "chain (mem s) c xs" and "\<forall>x\<in>set xs. block_length (mem s) x < sz"
  shows "po_malloc_scan sz c s = Some (None, s)"
  using scan_skips [of s c xs "[]" sz] assms by (simp add: po_malloc_scan.simps [of sz 0 s])

lemma scan_hit:
  assumes "chain (mem s) c (xs @ h # ys)" and "\<forall>x\<in>set xs. block_length (mem s) x < sz"
    and "sz \<le> block_length (mem s) h" and "h + HDR + block_length (mem s) h < 2 ^ 64"
  shows "po_malloc_scan sz c s =
    Some (Some (h + HDR),
      if block_length (mem s) h > sz + HDR
      then ll_replace h (h + HDR + sz)
             (s\<lparr>mem := set_length (h + HDR + sz) (block_length (mem s) h - sz) (mem s)\<rparr>)
      else ll_remove h s)"
proof -
  have "h \<noteq> 0" using assms(1) by (induction xs arbitrary: c) auto
  moreover have "po_malloc_scan sz c s = po_malloc_scan sz h s"
    using scan_skips [OF assms(1,2)] by simp
  moreover have "sz + HDR < 2 ^ 64 \<or> \<not> block_length (mem s) h > wrap64 (sz + HDR)"
    using assms(3,4) by simp
  ultimately show ?thesis using assms(3,4)
    by (auto simp: po_malloc_scan.simps [of sz h s] FREE_BLOCK_MEMORY_def Let_def)
qed

lemma free_list_set_length:
  assumes "free_list s xs" and "\<forall>x\<in>set xs. sep x h"
  shows "free_list (s\<lparr>mem := set_length h v (mem s)\<rparr>) xs"
  using assms by (simp add: free_list_def dll_set_outside)

lemma block_length_ll_replace:
  assumes "free_list s (xs @ x # ys)" and "\<forall>y\<in>set (xs @ x # ys). sep y new"
  shows "block_length (mem (ll_replace x new s)) new = block_length (mem s) new"
proof -
  have "sep x new" "xs \<noteq> [] \<Longrightarrow> sep new (last xs)" "ys \<noteq> [] \<Longrightarrow> sep new (hd ys)"
    using assms(2) sep_sym by auto
  then show ?thesis
    by (simp add: ll_replace_eq [OF assms(1)] relink_next_def relink_prev_def)
qed

lemma po_malloc_hit:
  assumes "free_list s (xs @ h # ys)" and "\<forall>x\<in>set xs. block_length (mem s) x < sz"
    and "sz \<le> block_length (mem s) h" and "h + HDR + block_length (mem s) h < 2 ^ 64"
    and "\<forall>y\<in>set (xs @ ys). y + HDR \<le> h \<or> h + HDR + block_length (mem s) h \<le> y"
  shows "\<exists>s'. po_malloc sbrk sz s = Some (Inr (h + HDR), s') \<and> kern s' = kern s \<and>
    (if sz + HDR < block_length (mem s) h
     then free_list s' (xs @ (h + HDR + sz) # ys) \<and>
          block_length (mem s') (h + HDR + sz) = block_length (mem s) h - sz
     else free_list s' (xs @ ys))"
proof -
  let ?new = "h + HDR + sz" and ?L = "block_length (mem s) h"
  let ?s1 = "s\<lparr>mem := set_length ?new (?L - sz) (mem s)\<rparr>"
  have scan: "po_malloc_scan sz (free_ll_head s) s = Some (Some (h + HDR),
      if ?L > sz + HDR then ll_replace h ?new ?s1 else ll_remove h s)"
    using scan_hit [OF free_list_chain [OF assms(1)] assms(2-4)] .
  have pm: "po_malloc sbrk sz s =
      Some (Inr (h + HDR), if ?L > sz + HDR then ll_replace h ?new ?s1 else ll_remove h s)"
    by (simp add: po_malloc_def scan)
  show ?thesis
  proof (cases "?L > sz + HDR")
    case False
    then show ?thesis using pm ll_remove_free_list [OF assms(1)]
      by (simp add: ll_remove_eq [OF assms(1)])
  next
    case True
    have sepn: "\<forall>y\<in>set (xs @ h # ys). sep y ?new"
    proof
      fix y
      assume "y \<in> set (xs @ h # ys)"
      then consider "y = h" | "y + HDR \<le> h \<or> h + HDR + ?L \<le> y" using assms(5) by auto
      then show "sep y ?new" using True by cases (auto simp: sep_def)
    qed
    have fl: "free_list ?s1 (xs @ h # ys)" by (rule free_list_set_length [OF assms(1) sepn])
    have "free_list (ll_replace h ?new ?s1) (xs @ ?new # ys)"
      using ll_replace_free_list [OF fl, of ?new] sepn assms(4) True by simp
    moreover have "block_length (mem (ll_replace h ?new ?s1)) ?new = ?L - sz"
      using block_length_ll_replace [OF fl sepn] less_imp_diff_less [OF fields_less(1)] by simp
    moreover have "kern (ll_replace h ?new ?s1) = kern s"
      using sepn by (simp add: ll_replace_eq [OF fl])
    ultimately show ?thesis using pm True by simp
  qed
qed

section \<open>Client runs\<close>

text \<open>
  A client is a sequence of calls; \<open>Free i\<close> frees the \<open>i\<close>-th pointer it got. The run ends
  with \<open>None\<close> when a call faults, fails or does not return.
\<close>

datatype call = Malloc nat | Free nat

fun run_heap ::
    "'k sbrk_call \<Rightarrow> call list \<Rightarrow> nat list \<Rightarrow> 'k heap \<Rightarrow> (nat list \<times> 'k heap) option" where
  "run_heap sbrk [] ps s = Some (ps, s)"
| "run_heap sbrk (Malloc sz # cs) ps s =
     (case po_malloc sbrk sz s of
        Some (Inr p, s') \<Rightarrow> if p = 0 then None else run_heap sbrk cs (ps @ [p]) s'
      | _ \<Rightarrow> None)"
| "run_heap sbrk (Free i # cs) ps s =
     (if i < length ps then run_heap sbrk cs ps (po_free (ps ! i) s) else None)"

context program_break
begin

lemma po_malloc_fresh:
  assumes "free_ll_head s = 0" and "sz + HDR < 2 ^ 63"
    and "po_malloc sbrk sz s = Some (Inr p, s')" and "p \<noteq> 0"
  shows "p = brk (kern s) + HDR" "brk (kern s') = brk (kern s) + sz + HDR"
    "free_ll_head s' = 0"
proof -
  obtain b k' where b: "sbrk (int (sz + HDR)) (kern s) = (b, k')" by fastforce
  have scan: "po_malloc_scan sz 0 s = Some (None, s)"
    using scan_none [of s 0 "[]" sz] by simp
  have ts: "to_signed 64 (int (wrap64 (sz + HDR))) = int (sz + HDR)"
    using assms(2) by (simp add: to_signed64_id)
  have r: "b \<noteq> 0" "b + HDR \<le> 2 ^ 64" "p = FREE_BLOCK_MEMORY b" "kern s' = k'"
    "free_ll_head s' = 0"
    using assms(1,3,4) b ts by (auto simp: po_malloc_def scan Let_def split: if_splits)
  then have "b \<noteq> VOID_M1" by auto
  with sbrk_ok [OF b] have k: "b = brk (kern s)" "brk k' = brk (kern s) + (sz + HDR)"
    "brk k' < 2 ^ 64" by auto
  with r show "p = brk (kern s) + HDR" "brk (kern s') = brk (kern s) + sz + HDR"
    "free_ll_head s' = 0" by (simp_all add: FREE_BLOCK_MEMORY_def)
qed

lemma run_mallocs_disjoint:
  assumes "free_ll_head s = 0" and "\<forall>sz\<in>set szs. sz + HDR < 2 ^ 63"
    and "run_heap sbrk (map Malloc szs) ps s = Some (qs, s')"
  shows "\<exists>rs. qs = ps @ rs \<and> length rs = length szs \<and>
    (\<forall>r\<in>set rs. brk (kern s) + HDR \<le> r) \<and>
    sorted_wrt (\<lambda>(p, a) (q, b). p + a + HDR \<le> q) (zip rs szs)"
  using assms
proof (induction szs arbitrary: s ps)
  case (Cons sz szs)
  then obtain p s1 where p: "po_malloc sbrk sz s = Some (Inr p, s1)" "p \<noteq> 0"
    and run: "run_heap sbrk (map Malloc szs) (ps @ [p]) s1 = Some (qs, s')"
    by (auto split: option.splits sum.splits prod.splits if_splits)
  have f: "p = brk (kern s) + HDR" "brk (kern s1) = brk (kern s) + sz + HDR"
    "free_ll_head s1 = 0"
    using po_malloc_fresh [OF Cons.prems(1) _ p] Cons.prems(2) by auto
  obtain rs where rs: "qs = (ps @ [p]) @ rs" "length rs = length szs"
    "\<forall>r\<in>set rs. brk (kern s1) + HDR \<le> r"
    "sorted_wrt (\<lambda>(p, a) (q, b). p + a + HDR \<le> q) (zip rs szs)"
    using Cons.IH [OF f(3) _ run] Cons.prems(2) by auto
  have "\<forall>(q, b)\<in>set (zip rs szs). p + sz + HDR \<le> q"
    using rs(3) f by (auto dest!: set_zip_leftD)
  then show ?case using rs f by (intro exI [of _ "p # rs"]) auto
qed simp

end

section \<open>Properties\<close>

text \<open>
  C5: on a well-formed free list \<open>po_malloc\<close> is first fit: it returns the memory of the first
  block that is long enough, does not move the program break, and leaves a well-formed free
  list, in which the block is gone or, if more than a header is left over, replaced by the
  remainder right behind the memory handed out. The list operations under the allocator keep the
  free list well formed: \<open>ll_remove\<close> takes exactly the given element out, and a header that
  \<open>ll_replace\<close> put in a place can be removed again, with the same list left.
\<close>

theorem po_malloc_first_fit:
  assumes "free_list s (xs @ h # ys)"
  shows "((\<forall>x\<in>set xs. block_length (mem s) x < sz) \<and> sz \<le> block_length (mem s) h \<and>
      h + HDR + block_length (mem s) h < 2 ^ 64 \<and>
      (\<forall>y\<in>set (xs @ ys). y + HDR \<le> h \<or> h + HDR + block_length (mem s) h \<le> y) \<longrightarrow>
      (\<exists>s'. po_malloc sbrk sz s = Some (Inr (h + HDR), s') \<and> kern s' = kern s \<and>
        (if sz + HDR < block_length (mem s) h
         then free_list s' (xs @ (h + HDR + sz) # ys) \<and>
              block_length (mem s') (h + HDR + sz) = block_length (mem s) h - sz
         else free_list s' (xs @ ys)))) \<and>
    free_list (ll_remove h s) (xs @ ys) \<and>
    (fits_header new (xs @ h # ys) \<longrightarrow>
       free_list (ll_replace h new s) (xs @ new # ys) \<and>
       free_list (ll_remove new (ll_replace h new s)) (xs @ ys))"
proof (intro conjI impI)
  show "\<exists>s'. po_malloc sbrk sz s = Some (Inr (h + HDR), s') \<and> kern s' = kern s \<and>
      (if sz + HDR < block_length (mem s) h
       then free_list s' (xs @ (h + HDR + sz) # ys) \<and>
            block_length (mem s') (h + HDR + sz) = block_length (mem s) h - sz
       else free_list s' (xs @ ys))"
    if "(\<forall>x\<in>set xs. block_length (mem s) x < sz) \<and> sz \<le> block_length (mem s) h \<and>
      h + HDR + block_length (mem s) h < 2 ^ 64 \<and>
      (\<forall>y\<in>set (xs @ ys). y + HDR \<le> h \<or> h + HDR + block_length (mem s) h \<le> y)"
    using that by (elim conjE) (rule po_malloc_hit [OF assms])
qed (use free_ll.unlink_repr [OF assms] free_ll.relink_repr [OF assms] free_ll.relink_then_unlink [OF assms] in blast)+

definition one_block :: "nat \<Rightarrow> nat \<Rightarrow> unit heap" where
  "one_block h len =
     \<lparr>mem = set_length h len (set_prev h 0 (set_next h 0 (\<lambda>_. 0))), free_ll_head = h, kern = ()\<rparr>"

theorem po_malloc_first_fit_witness:
  "(\<exists>s'. po_malloc (\<lambda>_ k. (0, k)) 40 (one_block 4096 100) = Some (Inr 4120, s') \<and>
    free_list s' [4160] \<and> block_length (mem s') 4160 = 60) \<and>
   free_list (ll_remove 4096 (one_block 4096 100)) [] \<and>
   free_list (ll_remove 4160 (ll_replace 4096 4160 (one_block 4096 100))) []"
  using po_malloc_first_fit [of "one_block 4096 100" "[]" 4096 "[]" 40 "\<lambda>_ k. (0, k)" 4160]
  by (simp add: one_block_def free_list_def fits_header_def sep_def)

lemma mallocs_disjoint:
  assumes "program_break sbrk brk" and "free_ll_head s = 0"
    and "\<forall>sz\<in>set szs. sz + HDR < 2 ^ 63"
    and "run_heap sbrk (map Malloc szs) [] s = Some (ps, s')"
  shows "length ps = length szs \<and>
    sorted_wrt (\<lambda>(p, a) (q, b). p + a + HDR \<le> q) (zip ps szs)"
  using program_break.run_mallocs_disjoint [OF assms] by auto

definition empty_heap :: "data_segment heap" where
  "empty_heap = \<lparr>mem = (\<lambda>_. 0), free_ll_head = 0,
     kern = \<lparr>seg_brk = 4095, seg_limit = 1000000\<rparr>\<rparr>"

lemmas heap_eval = po_malloc_def po_free_def FREE_BLOCK_HEADER_def FREE_BLOCK_MEMORY_def
  seg_sbrk_def wrap64_def ll_remove_def ll_replace_def po_malloc_scan.simps Let_def

lemma to_signed_small: "x < 2 ^ 63 \<Longrightarrow> to_signed 64 (int x) = int x"
  by simp

lemma FREE_BLOCK_HEADER_memory: "h + HDR \<le> 2 ^ 64 \<Longrightarrow> FREE_BLOCK_HEADER (h + HDR) = h"
  by (simp add: FREE_BLOCK_HEADER_def wrap64_def)

lemma two_freed:
  assumes "free_ll_head s = 0" and "a \<noteq> 0" "b \<noteq> 0" "sep a b"
    and "a + HDR < 2 ^ 64" "b + HDR < 2 ^ 64"
  defines "s2 \<equiv> po_free (b + HDR) (po_free (a + HDR) s)"
  shows "free_ll_head s2 = b" "next_free_chunk (mem s2) b = a" "next_free_chunk (mem s2) a = 0"
    "prev_free_chunk (mem s2) a = b + HDR" "block_length (mem s2) a = block_length (mem s) a"
    "block_length (mem s2) b = block_length (mem s) b"
  using assms sep_sym [of a b] FREE_BLOCK_HEADER_memory [of a] FREE_BLOCK_HEADER_memory [of b]
  by (simp_all add: po_free_def Let_def)

lemma remove_misses:
  assumes "prev_free_chunk (mem s) a = b + HDR" "next_free_chunk (mem s) a = 0" "b + HDR \<noteq> 0"
    and "b + 2 * HDR \<le> a \<or> a + HDR \<le> b"
  shows "free_ll_head (ll_remove a s) = free_ll_head s"
    "next_free_chunk (mem (ll_remove a s)) b = next_free_chunk (mem s) b"
    "block_length (mem (ll_remove a s)) b = block_length (mem s) b"
    "block_length (mem (ll_remove a s)) a = block_length (mem s) a"
proof -
  have "sep a (b + HDR)" "sep b (b + HDR)" using assms(4) by (auto simp: sep_def)
  then show "free_ll_head (ll_remove a s) = free_ll_head s"
    "next_free_chunk (mem (ll_remove a s)) b = next_free_chunk (mem s) b"
    "block_length (mem (ll_remove a s)) b = block_length (mem s) b"
    "block_length (mem (ll_remove a s)) a = block_length (mem s) a"
    using assms by (simp_all add: ll_remove_def Let_def)
qed

lemma scan_second:
  assumes "free_ll_head s = b" "next_free_chunk (mem s) b = a" "a \<noteq> 0" "b \<noteq> 0"
    and "block_length (mem s) b < sz" "sz \<le> block_length (mem s) a"
    and "block_length (mem s) a \<le> sz + HDR" "sz + HDR < 2 ^ 64" "a + HDR < 2 ^ 64"
  shows "po_malloc sbrk sz s = Some (Inr (a + HDR), ll_remove a s)"
proof -
  have "po_malloc_scan sz b s = po_malloc_scan sz a s"
    using assms by (subst po_malloc_scan.simps) simp
  also have "\<dots> = Some (Some (a + HDR), ll_remove a s)"
    using assms by (subst po_malloc_scan.simps) (simp add: FREE_BLOCK_MEMORY_def)
  finally show ?thesis using assms(1) by (simp add: po_malloc_def)
qed

lemma po_malloc_returns_block_twice:
  assumes "free_ll_head s = 0" and "a \<noteq> 0" "b \<noteq> 0" "a + HDR < 2 ^ 64" "b + HDR < 2 ^ 64"
    and "b + 2 * HDR \<le> a \<or> a + HDR \<le> b"
    and "block_length (mem s) b < sz" "sz \<le> block_length (mem s) a"
    and "block_length (mem s) a \<le> sz + HDR" "sz + HDR < 2 ^ 64"
  shows "\<exists>s3 s4.
    po_malloc sbrk sz (po_free (b + HDR) (po_free (a + HDR) s)) = Some (Inr (a + HDR), s3) \<and>
    po_malloc sbrk sz s3 = Some (Inr (a + HDR), s4)"
proof -
  let ?s2 = "po_free (b + HDR) (po_free (a + HDR) s)"
  have "sep a b" using assms(6) by (auto simp: sep_def)
  note t = two_freed [OF assms(1-3) this assms(4,5)]
  have "po_malloc sbrk sz ?s2 = Some (Inr (a + HDR), ll_remove a ?s2)"
    using t assms by (intro scan_second [where b = b]) simp_all
  moreover have "po_malloc sbrk sz (ll_remove a ?s2) =
      Some (Inr (a + HDR), ll_remove a (ll_remove a ?s2))"
    using t assms remove_misses [of ?s2 a b] by (intro scan_second [where b = b]) simp_all
  ultimately show ?thesis by blast
qed

definition two_blocks :: "nat \<Rightarrow> nat \<Rightarrow> nat \<Rightarrow> nat \<Rightarrow> unit heap" where
  "two_blocks a la b lb =
     \<lparr>mem = set_length b lb (set_length a la (\<lambda>_. 0)), free_ll_head = 0, kern = ()\<rparr>"



text \<open>
  A failed \<open>sbrk\<close> returns \<open>(void *) -1\<close>, which the test against \<open>NULL\<close> does not catch: when no
  free block is long enough and the break cannot move, \<open>po_malloc\<close> does not return \<open>NULL\<close> but
  writes a header at the last address, which faults.
\<close>

theorem po_malloc_out_of_memory:
  assumes "chain (mem s) (free_ll_head s) xs" and "\<forall>x\<in>set xs. block_length (mem s) x < sz"
    and "sbrk (to_signed 64 (int (wrap64 (sz + HDR)))) (kern s) = (VOID_M1, k')"
  shows "po_malloc sbrk sz s = Some (Inl Segfault, s\<lparr>kern := k'\<rparr>)"
  using scan_none [OF assms(1,2)] assms(3) by (simp add: po_malloc_def Let_def)

theorem po_malloc_out_of_memory_witness:
  "po_malloc seg_sbrk 2000000 empty_heap = Some (Inl Segfault, empty_heap\<lparr>kern := kern empty_heap\<rparr>)"
  by (rule po_malloc_out_of_memory [of _ "[]"])
    (simp_all add: empty_heap_def seg_sbrk_def wrap64_def)

end
