(* ===== verification/CString.thy ===== *)
theory CString
  imports Prelude
begin

text \<open>
  The functions of the C library on strings that the programs use: \<open>strchr\<close>, \<open>strtol\<close>,
  \<open>atoi\<close>, the conversions of \<open>printf\<close>, and \<open>getopt\<close>. They follow the C standard (in the C
  locale) and POSIX.
\<close>

unbundle bit_operations_syntax

section \<open>Characters\<close>

definition isspace :: "char \<Rightarrow> bool" where
  "isspace c \<longleftrightarrow> c \<in> {CHR '' '', CHR 0x09, CHR 0x0A, CHR 0x0B, CHR 0x0C, CHR 0x0D}"

definition digit_val :: "char \<Rightarrow> nat" where
  "digit_val c =
     (let n = of_char c in
      if 48 \<le> n \<and> n \<le> 57 then n - 48
      else if 97 \<le> n \<and> n \<le> 122 then n - 87
      else if 65 \<le> n \<and> n \<le> 90 then n - 55
      else 36)"

definition isdigit :: "char \<Rightarrow> bool" where
  "isdigit c \<longleftrightarrow> digit_val c < 10"

definition toupper :: "char \<Rightarrow> char" where
  "toupper c = (if 97 \<le> (of_char c :: nat) \<and> (of_char c :: nat) \<le> 122
                then char_of (of_char c - 32 :: nat) else c)"

definition isprint :: "char \<Rightarrow> bool" where
  "isprint c \<longleftrightarrow> 32 \<le> (of_char c :: nat) \<and> (of_char c :: nat) \<le> 126"

section \<open>Searching\<close>

text \<open>
  \<open>strchr s c\<close>: the part of \<open>s\<close> before the first \<open>c\<close>, and the part behind it; \<open>None\<close> when
  \<open>c\<close> does not occur.
\<close>

definition strchr :: "string \<Rightarrow> char \<Rightarrow> (string \<times> string) option" where
  "strchr s c =
     (if c \<in> set s then Some (takeWhile (\<lambda>x. x \<noteq> c) s, tl (dropWhile (\<lambda>x. x \<noteq> c) s)) else None)"

lemma strchr_None: "strchr s c = None \<longleftrightarrow> c \<notin> set s"
  by (simp add: strchr_def)

lemma strchr_miss [cstr_simps]: "c \<notin> set s \<Longrightarrow> strchr s c = None"
  by (simp add: strchr_def)

lemma strchr_hit [cstr_simps]: "c \<notin> set a \<Longrightarrow> strchr (a @ c # b) c = Some (a, b)"
  by (induction a) (auto simp: strchr_def)

lemma strchr_hd [cstr_simps]: "strchr (c # b) c = Some ([], b)"
  using strchr_hit [of c "[]" b] by simp

lemma strchr_Some: "strchr s c = Some (a, b) \<Longrightarrow> s = a @ c # b \<and> c \<notin> set a"
proof -
  assume *: "strchr s c = Some (a, b)"
  then have "c \<in> set s" by (simp add: strchr_def split: if_splits)
  then obtain x y where "s = x @ c # y" "c \<notin> set x" by (meson split_list_first)
  with * strchr_hit show ?thesis by auto
qed

section \<open>Numbers\<close>

definition strtol_value :: "nat \<Rightarrow> string \<Rightarrow> nat" where
  "strtol_value base ds = foldl (\<lambda>acc c. acc * base + digit_val c) 0 ds"

definition strtol_sign :: "string \<Rightarrow> bool \<times> string" where
  "strtol_sign s =
     (case s of
        [] \<Rightarrow> (False, [])
      | c # r \<Rightarrow> if c = CHR ''-'' then (True, r) else if c = CHR ''+'' then (False, r) else (False, s))"

definition strtol_base :: "nat \<Rightarrow> string \<Rightarrow> nat \<times> string" where
  "strtol_base base s =
     (if (base = 0 \<or> base = 16) \<and> 3 \<le> length s \<and> s ! 0 = CHR ''0'' \<and>
         (s ! 1 = CHR ''x'' \<or> s ! 1 = CHR ''X'') \<and> digit_val (s ! 2) < 16
      then (16, drop 2 s)
      else if base = 0 then (if s \<noteq> [] \<and> hd s = CHR ''0'' then 8 else 10, s)
      else (base, s))"

text \<open>
  \<open>strtol s base\<close>: the value, the text at \<open>*endptr\<close>, and whether \<open>errno\<close> is set to \<open>ERANGE\<close>.
\<close>

definition strtol :: "string \<Rightarrow> nat \<Rightarrow> int \<times> string \<times> bool" where
  "strtol s base =
     (let (neg, s1) = strtol_sign (dropWhile isspace s);
          (b, s2) = strtol_base base s1;
          ds = takeWhile (\<lambda>c. digit_val c < b) s2;
          v = (if neg then - int (strtol_value b ds) else int (strtol_value b ds))
      in if ds = [] then (0, s, False)
         else if v > LONG_MAX then (LONG_MAX, drop (length ds) s2, True)
         else if v < LONG_MIN then (LONG_MIN, drop (length ds) s2, True)
         else (v, drop (length ds) s2, False))"

definition atoi :: "string \<Rightarrow> int" where
  "atoi s = to_signed 32 (fst (strtol s 10))"

text \<open>The decimal text that \<open>%d\<close> and \<open>%ld\<close> print.\<close>

fun show_nat :: "nat \<Rightarrow> string" where
  "show_nat n =
     (if n < 10 then [char_of (48 + n)] else show_nat (n div 10) @ [char_of (48 + n mod 10)])"

declare show_nat.simps [simp del]

definition show_int :: "int \<Rightarrow> string" where
  "show_int z = (if z < 0 then CHR ''-'' # show_nat (nat (- z)) else show_nat (nat z))"

lemma digit_val_digit [simp]: "d < 10 \<Longrightarrow> digit_val (char_of (48 + d)) = d"
  by (simp add: digit_val_def)

lemma show_nat_digits: "c \<in> set (show_nat n) \<Longrightarrow> digit_val c < 10"
proof (induction n rule: show_nat.induct)
  case (1 n)
  show ?case
  proof (cases "n < 10")
    case True
    then show ?thesis using "1.prems" by (simp add: show_nat.simps [of n])
  next
    case False
    then show ?thesis using 1 by (auto simp: show_nat.simps [of n])
  qed
qed

lemma show_nat_nonempty [simp]: "show_nat n \<noteq> []"
  by (subst show_nat.simps) simp

lemma show_nat_length: "n < 10 ^ Suc k \<Longrightarrow> length (show_nat n) \<le> Suc k"
proof (induction k arbitrary: n)
  case (Suc k)
  then have "n div 10 < 10 ^ Suc k" by (simp add: div_less_iff_less_mult mult.commute)
  from Suc.IH [OF this] show ?case by (subst show_nat.simps) simp
qed (subst show_nat.simps; simp)

lemma strtol_value_show_nat: "strtol_value 10 (show_nat n) = n"
proof (induction n rule: show_nat.induct)
  case (1 n)
  then show ?case
    by (cases "n < 10") (simp_all add: show_nat.simps [of n] strtol_value_def)
qed

lemma digit_not_space: "digit_val c < 10 \<Longrightarrow> \<not> isspace c"
  by (auto simp: isspace_def digit_val_def)

lemma digit_not_sign: "digit_val c < 10 \<Longrightarrow> c \<noteq> CHR ''-'' \<and> c \<noteq> CHR ''+''"
  by (auto simp: digit_val_def)

lemma strtol_base_10 [simp]: "strtol_base 10 s = (10, s)"
  by (simp add: strtol_base_def)

lemma takeWhile_digits:
  assumes "rest = [] \<or> \<not> digit_val (hd rest) < 10"
  shows "takeWhile (\<lambda>c. digit_val c < 10) (show_nat n @ rest) = show_nat n"
  using assms show_nat_digits
  by (cases rest) (auto simp: takeWhile_append2 takeWhile_append_hit)

text \<open>Reading back a printed number, with any text that is not a digit behind it.\<close>

lemma strtol_show_int [cstr_simps]:
  assumes "LONG_MIN \<le> z" "z \<le> LONG_MAX" "rest = [] \<or> \<not> digit_val (hd rest) < 10"
  shows "strtol (show_int z @ rest) 10 = (z, rest, False)"
proof -
  define n where "n = nat \<bar>z\<bar>"
  obtain c cs where c: "show_nat n = c # cs" using show_nat_nonempty by (cases "show_nat n") auto
  then have d: "digit_val c < 10" using show_nat_digits [of c n] by simp
  have sign: "strtol_sign (show_nat n @ rest) = (False, show_nat n @ rest)"
    using digit_not_sign [OF d] by (simp add: strtol_sign_def c)
  have sp: "dropWhile isspace (show_int z @ rest) = show_int z @ rest"
    using digit_not_space [OF d] c by (auto simp: show_int_def n_def isspace_def abs_if)
  have "strtol_sign (show_int z @ rest) = (z < 0, show_nat n @ rest)"
  proof (cases "z < 0")
    case True
    then show ?thesis by (simp add: show_int_def n_def strtol_sign_def)
  next
    case False
    then have "show_int z = show_nat n" by (simp add: show_int_def n_def)
    with sign False show ?thesis by simp
  qed
  then show ?thesis using sp takeWhile_digits [OF assms(3), of n] assms(1,2)
    by (auto simp: strtol_def strtol_value_show_nat Let_def n_def)
qed

lemma atoi_show_int [cstr_simps]:
  "\<lbrakk>INT_MIN \<le> z; z \<le> INT_MAX\<rbrakk> \<Longrightarrow> atoi (show_int z) = z"
  using strtol_show_int [of z "[]"] by (simp add: atoi_def)

lemma show_int_chars: "c \<in> set (show_int z) \<Longrightarrow> digit_val c < 10 \<or> c = CHR ''-''"
  using show_nat_digits by (auto simp: show_int_def split: if_splits)

lemma show_int_nonempty [simp]: "show_int z \<noteq> []"
  by (simp add: show_int_def)

lemma strtol_range: "LONG_MIN \<le> fst (strtol s b) \<and> fst (strtol s b) \<le> LONG_MAX"
  by (auto simp: strtol_def Let_def split: prod.splits)

section \<open>getopt\<close>

text \<open>
  \<open>getopt spec args\<close>: the option characters that successive calls of \<open>getopt\<close> return, each
  with its argument, and the operands that remain (permuted to the end, as the GNU function
  does). \<open>spec c\<close> is \<open>None\<close> for a character that is no option, else whether it takes an
  argument. An unknown option, or one whose argument is missing, is reported as \<open>?\<close> with
  the character (\<open>optopt\<close>).
\<close>

fun getopt_cluster :: "(char \<Rightarrow> bool option) \<Rightarrow> string \<Rightarrow> (char \<times> string) list \<times> char option" where
  "getopt_cluster spec [] = ([], None)"
| "getopt_cluster spec (c # cs) =
     (case spec c of
        None \<Rightarrow> (case getopt_cluster spec cs of (es, r) \<Rightarrow> ((CHR ''?'', [c]) # es, r))
      | Some False \<Rightarrow> (case getopt_cluster spec cs of (es, r) \<Rightarrow> ((c, []) # es, r))
      | Some True \<Rightarrow> if cs = [] then ([], Some c) else ([(c, cs)], None))"

fun getopt :: "(char \<Rightarrow> bool option) \<Rightarrow> string list \<Rightarrow> (char \<times> string) list \<times> string list" where
  "getopt spec [] = ([], [])"
| "getopt spec (a # as) =
     (if a = ''--'' then ([], as)
      else if 2 \<le> length a \<and> hd a = CHR ''-'' then
        (case getopt_cluster spec (tl a) of
           (es, None) \<Rightarrow> (case getopt spec as of (es', ops) \<Rightarrow> (es @ es', ops))
         | (es, Some c) \<Rightarrow>
             (case as of
                [] \<Rightarrow> (es @ [(CHR ''?'', [c])], [])
              | b # bs \<Rightarrow> (case getopt spec bs of (es', ops) \<Rightarrow> (es @ (c, b) # es', ops))))
      else (case getopt spec as of (es', ops) \<Rightarrow> (es', a # ops)))"

text \<open>
  \<open>getopt_long spec longs args\<close>: the same with long options, each given by its name, whether it takes
  an argument, and the character that is returned for it. A name may be shortened as long as it is
  unique. A long option that is unknown or ambiguous, or whose argument is missing or not expected, is
  reported as \<open>?\<close>.
\<close>

type_synonym long_option = "string \<times> bool \<times> char"

definition find_long :: "long_option list \<Rightarrow> string \<Rightarrow> (bool \<times> char) option" where
  "find_long longs nm =
     (case map_of longs nm of
        Some r \<Rightarrow> Some r
      | None \<Rightarrow>
          (case filter (\<lambda>(n, _). take (length nm) n = nm) longs of [(_, r)] \<Rightarrow> Some r | _ \<Rightarrow> None))"

definition long_parts :: "string \<Rightarrow> string \<times> string option" where
  "long_parts a = (case strchr a CHR ''='' of None \<Rightarrow> (a, None) | Some (nm, v) \<Rightarrow> (nm, Some v))"

fun getopt_long ::
    "(char \<Rightarrow> bool option) \<Rightarrow> long_option list \<Rightarrow> string list \<Rightarrow> (char \<times> string) list \<times> string list" where
  "getopt_long spec longs [] = ([], [])"
| "getopt_long spec longs (a # as) =
     (if a = ''--'' then ([], as)
      else if take 2 a = ''--'' then
        (case long_parts (drop 2 a) of
           (nm, v) \<Rightarrow>
             (case find_long longs nm of
                None \<Rightarrow> (case getopt_long spec longs as of (es, ops) \<Rightarrow> ((CHR ''?'', []) # es, ops))
              | Some (False, c) \<Rightarrow>
                  (case getopt_long spec longs as of
                     (es, ops) \<Rightarrow> ((if v = None then (c, []) else (CHR ''?'', [c])) # es, ops))
              | Some (True, c) \<Rightarrow>
                  (case v of
                     Some w \<Rightarrow> (case getopt_long spec longs as of (es, ops) \<Rightarrow> ((c, w) # es, ops))
                   | None \<Rightarrow>
                       (case as of
                          [] \<Rightarrow> ([(CHR ''?'', [c])], [])
                        | b # bs \<Rightarrow> (case getopt_long spec longs bs of (es, ops) \<Rightarrow> ((c, b) # es, ops))))))
      else if 2 \<le> length a \<and> hd a = CHR ''-'' then
        (case getopt_cluster spec (tl a) of
           (es, None) \<Rightarrow> (case getopt_long spec longs as of (es', ops) \<Rightarrow> (es @ es', ops))
         | (es, Some c) \<Rightarrow>
             (case as of
                [] \<Rightarrow> (es @ [(CHR ''?'', [c])], [])
              | b # bs \<Rightarrow> (case getopt_long spec longs bs of (es', ops) \<Rightarrow> (es @ (c, b) # es', ops))))
      else (case getopt_long spec longs as of (es', ops) \<Rightarrow> (es', a # ops)))"

text \<open>An argument that is no option.\<close>

definition operand :: "string \<Rightarrow> bool" where
  "operand a \<longleftrightarrow> a = [] \<or> a = ''-'' \<or> hd a \<noteq> CHR ''-''"

lemma operand_shape: "operand a \<Longrightarrow> a \<noteq> ''--'' \<and> \<not> (2 \<le> length a \<and> hd a = CHR ''-'')"
  by (cases a) (auto simp: operand_def)

lemma getopt_operand [cstr_simps]: "operand a \<Longrightarrow> getopt spec (a # as) = map_prod id (Cons a) (getopt spec as)"
  using operand_shape [of a] by (cases "getopt spec as") auto

lemma getopt_flag [cstr_simps]:
  "\<lbrakk>c \<noteq> CHR ''-''; spec c = Some False\<rbrakk> \<Longrightarrow> getopt spec ([CHR ''-'', c] # as) = map_prod (Cons (c, [])) id (getopt spec as)"
  by (cases "getopt spec as") simp

lemma getopt_arg [cstr_simps]:
  "\<lbrakk>c \<noteq> CHR ''-''; spec c = Some True\<rbrakk> \<Longrightarrow>
     getopt spec ([CHR ''-'', c] # b # as) = map_prod (Cons (c, b)) id (getopt spec as)"
  by (cases "getopt spec as") simp

lemma getopt_Nil [cstr_simps]: "getopt spec [] = ([], [])"
  by simp

lemma getopt_long_operands: "\<forall>a\<in>set as. operand a \<Longrightarrow> getopt_long spec longs as = ([], as)"
proof (induction as)
  case (Cons a as)
  then have op: "operand a" by simp
  have "a \<noteq> ''--''" "take 2 a \<noteq> ''--''" "\<not> (2 \<le> length a \<and> hd a = CHR ''-'')"
    using op by (cases a; simp add: operand_def; force)+
  with Cons show ?case by auto
qed simp

section \<open>Lines\<close>

text \<open>\<open>fgets(buf, n, file)\<close>: up to \<open>n - 1\<close> bytes, to the end of the line; and what is left.\<close>

definition fgets :: "nat \<Rightarrow> string \<Rightarrow> (string \<times> string) option" where
  "fgets n input =
     (let m = min (n - 1) (length (takeWhile (\<lambda>c. c \<noteq> LF) input) + 1)
      in if input = [] then None else Some (take m input, drop m input))"

lemma fgets_Nil [cstr_simps]: "fgets n [] = None"
  by (simp add: fgets_def)

lemma fgets_line [cstr_simps]:
  assumes "LF \<notin> set l" "length l + 1 < n"
  shows "fgets n (l @ LF # rest) = Some (l @ [LF], rest)"
proof -
  have "takeWhile (\<lambda>c. c \<noteq> LF) (l @ LF # rest) = l"
    using assms(1) by (intro takeWhile_append_hit) auto
  moreover have "min (n - 1) (length l + 1) = length l + 1" using assms(2) by simp
  ultimately show ?thesis by (simp add: fgets_def)
qed

lemma fgets_shorter: "fgets n input = Some (l, rest) \<Longrightarrow> 1 < n \<Longrightarrow> length rest < length input"
  by (auto simp: fgets_def Let_def split: if_splits)

end
