(* ===== verification/ErrorFuns.thy ===== *)
theory ErrorFuns
  imports CString
begin

text \<open>
  The error reporting functions of \<open>lib/error_functions.c\<close> over the standard streams of the
  process, and the ways in which the programs of the book end. The error names
  (\<open>ename.c.inc\<close>, generated) and \<open>strerror\<close> are parameters.
\<close>

section \<open>Streams and termination\<close>

text \<open>\<open>pending_out\<close> is what \<open>stdout\<close> has buffered, \<open>out\<close> and \<open>err\<close> what has been written.\<close>

record stdio =
  pending_out :: string
  out :: string
  err :: string

definition fflush_stdout :: "stdio \<Rightarrow> stdio" where
  "fflush_stdout io = io\<lparr>out := out io @ pending_out io, pending_out := []\<rparr>"

definition put_err :: "string \<Rightarrow> stdio \<Rightarrow> stdio" where
  "put_err s io = io\<lparr>err := err io @ s\<rparr>"

text \<open>\<open>exit(3)\<close> flushes the streams, \<open>_exit(2)\<close> and \<open>abort(3)\<close> lose what is buffered.\<close>

datatype ending = Exited int | Quick_exited int | Aborted

definition end_process :: "ending \<Rightarrow> stdio \<Rightarrow> ending \<times> stdio" where
  "end_process how io =
     (how, case how of Exited _ \<Rightarrow> fflush_stdout io | _ \<Rightarrow> io\<lparr>pending_out := []\<rparr>)"

abbreviation (input) EXIT_FAILURE :: int where "EXIT_FAILURE \<equiv> 1"
abbreviation (input) EXIT_SUCCESS :: int where "EXIT_SUCCESS \<equiv> 0"

section \<open>The functions\<close>

definition terminate :: "(string \<rightharpoonup> string) \<Rightarrow> bool \<Rightarrow> stdio \<Rightarrow> ending \<times> stdio" where
  "terminate getenv useExit3 io =
     (case getenv ''EF_DUMPCORE'' of
        Some s \<Rightarrow>
          if s \<noteq> [] then end_process Aborted io
          else if useExit3 then end_process (Exited EXIT_FAILURE) io
          else end_process (Quick_exited EXIT_FAILURE) io
      | None \<Rightarrow>
          if useExit3 then end_process (Exited EXIT_FAILURE) io
          else end_process (Quick_exited EXIT_FAILURE) io)"

abbreviation (input) BUF_SIZE :: nat where "BUF_SIZE \<equiv> 500"

text \<open>\<open>snprintf\<close> into a buffer of \<open>n\<close> bytes keeps the first \<open>n - 1\<close> characters.\<close>

definition snprintf :: "nat \<Rightarrow> string \<Rightarrow> string" where
  "snprintf n s = take (n - 1) s"

text \<open>
  \<open>msg\<close> is the caller's format with its arguments filled in; \<open>ename\<close> is the table of error
  names, \<open>None\<close> outside its range.
\<close>

definition outputError ::
    "(int \<rightharpoonup> string) \<Rightarrow> (int \<Rightarrow> string) \<Rightarrow> bool \<Rightarrow> int \<Rightarrow> bool \<Rightarrow> string \<Rightarrow> stdio \<Rightarrow> stdio" where
  "outputError ename strerror useErr errn flushStdout msg io =
     (let userMsg = snprintf BUF_SIZE msg;
          errText = (if useErr then
              snprintf BUF_SIZE ('' ['' @
                (case ename errn of Some nm \<Rightarrow> nm | None \<Rightarrow> ''?UNKNOWN?'') @ '' '' @
                strerror errn @ '']'')
            else snprintf BUF_SIZE '':'');
          buf = snprintf BUF_SIZE (''ERROR'' @ errText @ '' '' @ userMsg @ [LF]);
          io1 = (if flushStdout then fflush_stdout io else io)
      in put_err buf io1)"

definition errMsg ::
    "(int \<rightharpoonup> string) \<Rightarrow> (int \<Rightarrow> string) \<Rightarrow> int \<Rightarrow> string \<Rightarrow> stdio \<Rightarrow> int \<times> stdio" where
  "errMsg ename strerror errn msg io =
     (let savedErrno = errn in (savedErrno, outputError ename strerror True errn True msg io))"

definition errExit ::
    "(string \<rightharpoonup> string) \<Rightarrow> (int \<rightharpoonup> string) \<Rightarrow> (int \<Rightarrow> string) \<Rightarrow> int \<Rightarrow> string \<Rightarrow> stdio \<Rightarrow>
       ending \<times> stdio" where
  "errExit getenv ename strerror errn msg io =
     terminate getenv True (outputError ename strerror True errn True msg io)"

definition err_exit ::
    "(string \<rightharpoonup> string) \<Rightarrow> (int \<rightharpoonup> string) \<Rightarrow> (int \<Rightarrow> string) \<Rightarrow> int \<Rightarrow> string \<Rightarrow> stdio \<Rightarrow>
       ending \<times> stdio" where
  "err_exit getenv ename strerror errn msg io =
     terminate getenv False (outputError ename strerror True errn False msg io)"

definition errExitEN ::
    "(string \<rightharpoonup> string) \<Rightarrow> (int \<rightharpoonup> string) \<Rightarrow> (int \<Rightarrow> string) \<Rightarrow> int \<Rightarrow> string \<Rightarrow> stdio \<Rightarrow>
       ending \<times> stdio" where
  "errExitEN getenv ename strerror errnum msg io =
     terminate getenv True (outputError ename strerror True errnum True msg io)"

definition fatal ::
    "(string \<rightharpoonup> string) \<Rightarrow> (int \<rightharpoonup> string) \<Rightarrow> (int \<Rightarrow> string) \<Rightarrow> string \<Rightarrow> stdio \<Rightarrow> ending \<times> stdio" where
  "fatal getenv ename strerror msg io =
     terminate getenv True (outputError ename strerror False 0 True msg io)"

definition usageErr :: "string \<Rightarrow> stdio \<Rightarrow> ending \<times> stdio" where
  "usageErr msg io =
     end_process (Exited EXIT_FAILURE) (put_err msg (put_err ''Usage: '' (fflush_stdout io)))"

definition cmdLineErr :: "string \<Rightarrow> stdio \<Rightarrow> ending \<times> stdio" where
  "cmdLineErr msg io =
     end_process (Exited EXIT_FAILURE)
       (put_err msg (put_err ''Command-line usage error: '' (fflush_stdout io)))"

text \<open>
  How a program model ends when it does not run to its end: the call it makes, with the
  caller's format string.
\<close>

datatype failure =
    ErrExit string errno
  | Fatal string
  | UsageErr string
  | CmdLineErr string
  | GnFailure string

section \<open>Properties\<close>

lemma end_process_out:
  "out (snd (end_process (Exited n) io)) = out io @ pending_out io"
  "err (snd (end_process how io)) = err io"
  by (auto simp: end_process_def fflush_stdout_def split: ending.splits)

lemma outputError_err:
  "err (outputError ename strerror useErr errn fl msg io) =
     err io @ take 499 (''ERROR'' @
       (if useErr then take 499 ('' ['' @ (case ename errn of Some nm \<Rightarrow> nm | None \<Rightarrow> ''?UNKNOWN?'') @
          '' '' @ strerror errn @ '']'') else '':'') @ '' '' @ take 499 msg @ [LF])"
  by (simp add: outputError_def Let_def put_err_def fflush_stdout_def snprintf_def)

lemma terminate_err: "err (snd (terminate getenv b io)) = err io"
  by (auto simp: terminate_def end_process_out split: option.splits)

text \<open>
  What \<open>errExit\<close> and \<open>err_exit\<close> do to the streams: both write one diagnostic that fits
  the 500-byte buffer, which is the whole text "ERROR [name text] message" when that is
  short enough; \<open>errExit\<close> flushes what \<open>stdout\<close> had buffered and ends with status 1 through
  \<open>exit\<close>, \<open>err_exit\<close> writes nothing of it and ends through \<open>_exit\<close>.
\<close>

theorem err_exit_functions:
  assumes "getenv ''EF_DUMPCORE'' = None"
  shows "\<exists>msgtext. length msgtext \<le> 499 \<and>
     (length nm + length (strerror errn) + length msg \<le> 488 \<and> ename errn = Some nm \<longrightarrow>
        msgtext = ''ERROR ['' @ nm @ '' '' @ strerror errn @ ''] '' @ msg @ [LF]) \<and>
     errExit getenv ename strerror errn msg io =
       (Exited EXIT_FAILURE,
        \<lparr>pending_out = [], out = out io @ pending_out io, err = err io @ msgtext\<rparr>) \<and>
     err_exit getenv ename strerror errn msg io =
       (Quick_exited EXIT_FAILURE,
        \<lparr>pending_out = [], out = out io, err = err io @ msgtext\<rparr>)"
proof -
  let ?t = "take 499 (''ERROR'' @ take 499 ('' ['' @
    (case ename errn of Some nm \<Rightarrow> nm | None \<Rightarrow> ''?UNKNOWN?'') @ '' '' @
    strerror errn @ '']'') @ '' '' @ take 499 msg @ [LF])"
  have "length ?t \<le> 499" by (simp only: length_take min.cobounded2)
  moreover have "length nm + length (strerror errn) + length msg \<le> 488 \<and> ename errn = Some nm \<longrightarrow>
      ?t = ''ERROR ['' @ nm @ '' '' @ strerror errn @ ''] '' @ msg @ [LF]"
  proof
    let ?e = "'' ['' @ nm @ '' '' @ strerror errn @ '']''"
    assume a: "length nm + length (strerror errn) + length msg \<le> 488 \<and> ename errn = Some nm"
    have "take 499 ?e = ?e" "take 499 msg = msg"
      and "take 499 (''ERROR'' @ ?e @ '' '' @ msg @ [LF]) = ''ERROR'' @ ?e @ '' '' @ msg @ [LF]"
      by (rule take_all; use a in simp)+
    with a show "?t = ''ERROR ['' @ nm @ '' '' @ strerror errn @ ''] '' @ msg @ [LF]"
      by (simp only: option.case) simp
  qed
  moreover have "errExit getenv ename strerror errn msg io =
      (Exited EXIT_FAILURE,
       \<lparr>pending_out = [], out = out io @ pending_out io, err = err io @ ?t\<rparr>)"
    using assms by (simp add: errExit_def terminate_def end_process_def outputError_def Let_def
        fflush_stdout_def put_err_def snprintf_def)
  moreover have "err_exit getenv ename strerror errn msg io =
      (Quick_exited EXIT_FAILURE, \<lparr>pending_out = [], out = out io, err = err io @ ?t\<rparr>)"
    using assms by (simp add: err_exit_def terminate_def end_process_def outputError_def Let_def
        put_err_def snprintf_def)
  ultimately show ?thesis by blast
qed

theorem err_exit_functions_witness:
  "errExit (\<lambda>_. None) [2 \<mapsto> ''ENOENT''] (\<lambda>_. ''No such file'') 2 ''open''
     \<lparr>pending_out = ''x'', out = [], err = []\<rparr> =
   (Exited 1, \<lparr>pending_out = [], out = ''x'',
      err = ''ERROR [ENOENT No such file] open'' @ [LF]\<rparr>)"
  using err_exit_functions [of "\<lambda>_. None" "''ENOENT''" "\<lambda>_. ''No such file''" 2 "''open''"
      "[2 \<mapsto> ''ENOENT'']" "\<lparr>pending_out = ''x'', out = [], err = []\<rparr>"]
  by auto

end
