(* ===== verification/NumArgs.thy ===== *)
theory NumArgs
  imports CString ErrorFuns
begin

text \<open>
  Command-line arguments: the numeric conversions of \<open>lib/get_num.c\<close>, the timer
  specification of \<open>lib/itimerspec_from_str.c\<close>, the user and group lookups of
  \<open>lib/ugid_functions.c\<close>, and the programs \<open>procpri/sched_set.c\<close> and \<open>signals/t_kill.c\<close>
  that are built on them.
\<close>

section \<open>getNum, getLong, getInt\<close>

abbreviation (input) GN_NONNEG :: int where "GN_NONNEG \<equiv> 1"
abbreviation (input) GN_GT_0 :: int where "GN_GT_0 \<equiv> 2"
abbreviation (input) GN_ANY_BASE :: int where "GN_ANY_BASE \<equiv> 64"
abbreviation (input) GN_BASE_8 :: int where "GN_BASE_8 \<equiv> 128"
abbreviation (input) GN_BASE_16 :: int where "GN_BASE_16 \<equiv> 256"

text \<open>\<open>gnFail\<close> terminates the process; the value is the text it prints first.\<close>

datatype gn_exit = GnFail string

definition gnFail :: "string \<Rightarrow> string \<Rightarrow> string option \<Rightarrow> string option \<Rightarrow> gn_exit" where
  "gnFail fname msg arg name = GnFail
     (fname @ '' error'' @
      (case name of None \<Rightarrow> [] | Some nm \<Rightarrow> '' (in '' @ nm @ '')'') @
      '': '' @ msg @ [LF] @
      (case arg of None \<Rightarrow> []
       | Some a \<Rightarrow> if a = [] then [] else ''        offending text: '' @ a @ [LF]))"

definition getNum ::
    "string \<Rightarrow> string option \<Rightarrow> int \<Rightarrow> string option \<Rightarrow> gn_exit + int" where
  "getNum fname arg flags name =
     (case arg of
        None \<Rightarrow> Inl (gnFail fname ''null or empty string'' arg name)
      | Some a \<Rightarrow>
        if a = [] then Inl (gnFail fname ''null or empty string'' arg name)
        else
          (let base = (if flags AND GN_ANY_BASE \<noteq> 0 then 0
                       else if flags AND GN_BASE_8 \<noteq> 0 then 8
                       else if flags AND GN_BASE_16 \<noteq> 0 then 16 else 10);
               (res, endptr, erange) = strtol a base
           in if erange then Inl (gnFail fname ''strtol() failed'' arg name)
              else if endptr \<noteq> [] then Inl (gnFail fname ''nonnumeric characters'' arg name)
              else if flags AND GN_NONNEG \<noteq> 0 \<and> res < 0
                then Inl (gnFail fname ''negative value not allowed'' arg name)
              else if flags AND GN_GT_0 \<noteq> 0 \<and> res \<le> 0
                then Inl (gnFail fname ''value must be > 0'' arg name)
              else Inr res))"

definition getLong :: "string option \<Rightarrow> int \<Rightarrow> string option \<Rightarrow> gn_exit + int" where
  "getLong arg flags name = getNum ''getLong'' arg flags name"

definition getInt :: "string option \<Rightarrow> int \<Rightarrow> string option \<Rightarrow> gn_exit + int" where
  "getInt arg flags name =
     (case getNum ''getInt'' arg flags name of
        Inl e \<Rightarrow> Inl e
      | Inr res \<Rightarrow>
          if res > INT_MAX \<or> res < INT_MIN
          then Inl (gnFail ''getInt'' ''integer out of range'' arg name)
          else Inr (to_signed 32 res))"

lemma getNum_range:
  assumes "getNum fname arg flags name = Inr res"
  shows "LONG_MIN \<le> res" "res \<le> LONG_MAX"
    and "flags AND GN_NONNEG \<noteq> 0 \<Longrightarrow> 0 \<le> res" and "flags AND GN_GT_0 \<noteq> 0 \<Longrightarrow> 0 < res"
proof -
  obtain a b x where r: "strtol a b = (res, x)"
    using assms by (auto simp: getNum_def Let_def split: option.splits if_splits prod.splits)
  then show "LONG_MIN \<le> res" "res \<le> LONG_MAX" using strtol_range [of a b] by simp_all
  show "flags AND GN_NONNEG \<noteq> 0 \<Longrightarrow> 0 \<le> res" "flags AND GN_GT_0 \<noteq> 0 \<Longrightarrow> 0 < res"
    using assms by (auto simp: getNum_def Let_def split: option.splits if_splits prod.splits)
qed

lemma getNum_show_int:
  assumes "LONG_MIN \<le> z" "z \<le> LONG_MAX"
    and "flags AND GN_ANY_BASE = 0" "flags AND GN_BASE_8 = 0" "flags AND GN_BASE_16 = 0"
    and "flags AND GN_NONNEG \<noteq> 0 \<longrightarrow> 0 \<le> z" "flags AND GN_GT_0 \<noteq> 0 \<longrightarrow> 0 < z"
  shows "getNum fname (Some (show_int z)) flags name = Inr z"
  using assms strtol_show_int [of z "[]"] by (auto simp: getNum_def)

section \<open>itimerspecFromStr\<close>

record timespec =
  tv_sec :: int
  tv_nsec :: int

record itimerspec =
  it_interval :: timespec
  it_value :: timespec

text \<open>
  The string is cut in place at the first \<open>:\<close>, and each part at its first \<open>/\<close>; a part that
  is missing counts as 0.
\<close>

definition timespec_part :: "string \<Rightarrow> timespec" where
  "timespec_part s =
     (case strchr s CHR ''/'' of
        None \<Rightarrow> \<lparr>tv_sec = atoi s, tv_nsec = 0\<rparr>
      | Some (a, b) \<Rightarrow> \<lparr>tv_sec = atoi a, tv_nsec = atoi b\<rparr>)"

definition itimerspecFromStr :: "string \<Rightarrow> itimerspec" where
  "itimerspecFromStr str =
     (case strchr str CHR '':'' of
        None \<Rightarrow> \<lparr>it_interval = \<lparr>tv_sec = 0, tv_nsec = 0\<rparr>, it_value = timespec_part str\<rparr>
      | Some (v, i) \<Rightarrow> \<lparr>it_interval = timespec_part i, it_value = timespec_part v\<rparr>)"

section \<open>User and group identifiers\<close>

text \<open>
  The password and group databases are parameters: \<open>getpwnam\<close>, \<open>getpwuid\<close>, \<open>getgrnam\<close>,
  \<open>getgrgid\<close> as lookups. Identifiers have 32 unsigned bits; -1 is \<open>2 ^ 32 - 1\<close>.
\<close>

abbreviation (input) ID_M1 :: int where "ID_M1 \<equiv> 2 ^ 32 - 1"

definition userNameFromId :: "(int \<rightharpoonup> string) \<Rightarrow> int \<Rightarrow> string option" where
  "userNameFromId getpwuid uid = getpwuid uid"

definition userIdFromName :: "(string \<rightharpoonup> int) \<Rightarrow> string option \<Rightarrow> int" where
  "userIdFromName getpwnam name =
     (case name of
        None \<Rightarrow> ID_M1
      | Some nm \<Rightarrow>
          if nm = [] then ID_M1
          else (let (u, endptr, _) = strtol nm 10
                in if endptr = [] then to_unsigned 32 u
                   else (case getpwnam nm of None \<Rightarrow> ID_M1 | Some uid \<Rightarrow> uid)))"

definition groupNameFromId :: "(int \<rightharpoonup> string) \<Rightarrow> int \<Rightarrow> string option" where
  "groupNameFromId getgrgid gid = getgrgid gid"

definition groupIdFromName :: "(string \<rightharpoonup> int) \<Rightarrow> string option \<Rightarrow> int" where
  "groupIdFromName getgrnam name =
     (case name of
        None \<Rightarrow> ID_M1
      | Some nm \<Rightarrow>
          if nm = [] then ID_M1
          else (let (g, endptr, _) = strtol nm 10
                in if endptr = [] then to_unsigned 32 g
                   else (case getgrnam nm of None \<Rightarrow> ID_M1 | Some gid \<Rightarrow> gid)))"

lemma timespec_part_print:
  assumes "INT_MIN \<le> a" "a \<le> INT_MAX" "INT_MIN \<le> b" "b \<le> INT_MAX"
  shows "timespec_part (show_int a @ CHR ''/'' # show_int b) = \<lparr>tv_sec = a, tv_nsec = b\<rparr>"
    and "timespec_part (show_int a) = \<lparr>tv_sec = a, tv_nsec = 0\<rparr>"
proof -
  have "CHR ''/'' \<notin> set (show_int a)" using show_int_chars by (force simp: digit_val_def)
  with assms show "timespec_part (show_int a @ CHR ''/'' # show_int b) = \<lparr>tv_sec = a, tv_nsec = b\<rparr>"
    and "timespec_part (show_int a) = \<lparr>tv_sec = a, tv_nsec = 0\<rparr>"
    by (simp_all add: timespec_part_def cstr_simps)
qed

lemma colon_free: "CHR '':'' \<notin> set (show_int a)"
  using show_int_chars by (force simp: digit_val_def)

section \<open>Programs on top\<close>

text \<open>
  \<open>sched_set\<close>: the policy letter, a priority and process identifiers. The calls are made in
  order until one fails. \<open>sched_setscheduler pid pol prio k\<close> is the system call.
\<close>

datatype sched_policy = SCHED_OTHER | SCHED_FIFO | SCHED_RR | SCHED_BATCH | SCHED_IDLE

definition sched_policy_of :: "char \<Rightarrow> sched_policy" where
  "sched_policy_of c =
     (if c = CHR ''r'' then SCHED_RR else if c = CHR ''f'' then SCHED_FIFO
      else if c = CHR ''b'' then SCHED_BATCH else if c = CHR ''i'' then SCHED_IDLE
      else SCHED_OTHER)"

fun set_all ::
    "(int \<Rightarrow> sched_policy \<Rightarrow> int \<Rightarrow> 'k \<Rightarrow> unit result \<times> 'k) \<Rightarrow> sched_policy \<Rightarrow> int \<Rightarrow>
       string list \<Rightarrow> 'k \<Rightarrow> failure option \<times> 'k" where
  "set_all setsched pol prio [] k = (None, k)"
| "set_all setsched pol prio (a # as) k =
     (case getLong (Some a) 0 (Some ''pid'') of
        Inl (GnFail t) \<Rightarrow> (Some (GnFailure t), k)
      | Inr pid \<Rightarrow>
          (case setsched (to_signed 32 pid) pol prio k of
             (Inl e, k') \<Rightarrow> (Some (ErrExit ''sched_setscheduler'' e), k')
           | (Inr _, k') \<Rightarrow> set_all setsched pol prio as k'))"

definition sched_set_main ::
    "(int \<Rightarrow> sched_policy \<Rightarrow> int \<Rightarrow> 'k \<Rightarrow> unit result \<times> 'k) \<Rightarrow> string list \<Rightarrow> 'k \<Rightarrow>
       failure option \<times> 'k" where
  "sched_set_main setsched argv k =
     (if length argv < 3 \<or> (argv ! 1 \<noteq> [] \<and> hd (argv ! 1) \<notin> set ''rfo'')
      then (Some (UsageErr ''%s policy priority [pid...]''), k)
      else
        (let pol = (case argv ! 1 of [] \<Rightarrow> SCHED_OTHER | c # _ \<Rightarrow> sched_policy_of c)
         in case getInt (Some (argv ! 2)) 0 (Some ''priority'') of
              Inl (GnFail t) \<Rightarrow> (Some (GnFailure t), k)
            | Inr prio \<Rightarrow> set_all setsched pol prio (drop 3 argv) k))"

text \<open>\<open>t_kill\<close>: send a signal, or check with signal 0 whether a process exists.\<close>

definition t_kill_main ::
    "(int \<Rightarrow> int \<Rightarrow> 'k \<Rightarrow> unit result \<times> 'k) \<Rightarrow> string list \<Rightarrow> 'k \<Rightarrow> (failure + string) \<times> 'k" where
  "t_kill_main kill argv k =
     (if length argv \<noteq> 3 \<or> argv ! 1 = ''--help'' then (Inl (UsageErr ''%s pid sig-num''), k)
      else case getInt (Some (argv ! 2)) 0 (Some ''sig-num'') of
          Inl (GnFail t) \<Rightarrow> (Inl (GnFailure t), k)
        | Inr sig \<Rightarrow>
          (case getLong (Some (argv ! 1)) 0 (Some ''pid'') of
             Inl (GnFail t) \<Rightarrow> (Inl (GnFailure t), k)
           | Inr pid \<Rightarrow>
             (case kill (to_signed 32 pid) sig k of
                (s, k') \<Rightarrow>
                  ((if sig \<noteq> 0 then (case s of Inl e \<Rightarrow> Inl (ErrExit ''kill'' e) | Inr _ \<Rightarrow> Inr [])
                    else case s of
                        Inr _ \<Rightarrow> Inr (''Process exists and we can send it a signal'' @ [LF])
                      | Inl e \<Rightarrow>
                          if e = EPERM then
                            Inr (''Process exists, but we don't have permission to send it a signal'' @ [LF])
                          else if e = ESRCH then Inr (''Process does not exist'' @ [LF])
                          else Inl (ErrExit ''kill'' e)), k'))))"

section \<open>Properties\<close>



text \<open>
  \<open>itimerspecFromStr\<close> reads back every timer specification printed in its own format
  (seconds, then optionally nanoseconds after a slash, then optionally the interval after a
  colon), and assigns 0 to the parts that are left out.
\<close>

theorem itimerspec_round_trip:
  assumes "INT_MIN \<le> a" "a \<le> INT_MAX" "INT_MIN \<le> b" "b \<le> INT_MAX"
    and "INT_MIN \<le> c" "c \<le> INT_MAX" "INT_MIN \<le> d" "d \<le> INT_MAX"
  shows "itimerspecFromStr (show_int a @ CHR ''/'' # show_int b @ CHR '':'' # show_int c @
           CHR ''/'' # show_int d) =
         \<lparr>it_interval = \<lparr>tv_sec = c, tv_nsec = d\<rparr>, it_value = \<lparr>tv_sec = a, tv_nsec = b\<rparr>\<rparr> \<and>
    itimerspecFromStr (show_int a @ CHR '':'' # show_int c) =
         \<lparr>it_interval = \<lparr>tv_sec = c, tv_nsec = 0\<rparr>, it_value = \<lparr>tv_sec = a, tv_nsec = 0\<rparr>\<rparr> \<and>
    itimerspecFromStr (show_int a @ CHR ''/'' # show_int b) =
         \<lparr>it_interval = \<lparr>tv_sec = 0, tv_nsec = 0\<rparr>, it_value = \<lparr>tv_sec = a, tv_nsec = b\<rparr>\<rparr> \<and>
    itimerspecFromStr (show_int a) =
         \<lparr>it_interval = \<lparr>tv_sec = 0, tv_nsec = 0\<rparr>, it_value = \<lparr>tv_sec = a, tv_nsec = 0\<rparr>\<rparr>"
proof -
  have 1: "strchr ((show_int a @ CHR ''/'' # show_int b) @ CHR '':'' # r) CHR '':'' =
      Some (show_int a @ CHR ''/'' # show_int b, r)" for r
    by (rule strchr_hit) (simp add: colon_free)
  have 2: "strchr (show_int a @ CHR '':'' # r) CHR '':'' = Some (show_int a, r)" for r
    by (rule strchr_hit) (simp add: colon_free)
  have 3: "strchr (show_int a @ CHR ''/'' # show_int b) CHR '':'' = None"
    "strchr (show_int a) CHR '':'' = None"
    by (simp_all add: strchr_None colon_free)
  show ?thesis using assms 1 2 3 by (simp add: itimerspecFromStr_def timespec_part_print)
qed

theorem itimerspec_round_trip_witness:
  "itimerspecFromStr (show_int 10 @ CHR '':'' # show_int 3) =
     \<lparr>it_interval = \<lparr>tv_sec = 3, tv_nsec = 0\<rparr>, it_value = \<lparr>tv_sec = 10, tv_nsec = 0\<rparr>\<rparr>"
  using itimerspec_round_trip [of 10 0 3 0] by simp

end
