(* ===== verification/Acl.thy ===== *)
theory Acl
  imports NumArgs
begin

text \<open>
  Access control lists: \<open>acl/acl_update.c\<close>, a subset of \<open>setfacl(1)\<close>. An \<open>acl_t\<close> is the list
  of its entries in order; the calls of the ACL library that read and write files or
  recompute and validate a whole list (\<open>acl_get_file\<close>, \<open>acl_set_file\<close>,
  \<open>acl_delete_def_file\<close>, \<open>acl_calc_mask\<close>, \<open>acl_valid\<close>) are parameters.
\<close>

section \<open>Entries\<close>

datatype acl_tag =
  ACL_USER_OBJ | ACL_USER | ACL_GROUP_OBJ | ACL_GROUP | ACL_MASK | ACL_OTHER

abbreviation (input) ACL_READ :: int where "ACL_READ \<equiv> 4"
abbreviation (input) ACL_WRITE :: int where "ACL_WRITE \<equiv> 2"
abbreviation (input) ACL_EXECUTE :: int where "ACL_EXECUTE \<equiv> 1"

text \<open>
  \<open>struct AccessControlEntry\<close>; \<open>perms\<close> is \<open>None\<close> where the parser leaves the field unset.
\<close>

record AccessControlEntry =
  tag :: acl_tag
  qual :: int
  perms :: "int option"

text \<open>An entry of an ACL in memory.\<close>

record acl_entry =
  e_tag :: acl_tag
  e_qual :: int
  e_perms :: int

type_synonym acl = "acl_entry list"

section \<open>Parsing\<close>

datatype parse_error =
    MissingColon string
  | PermsNotAllowed
  | PermsRequired
  | BadTag string
  | BadUser string
  | BadGroup string
  | BadPermChar char
  | TooManyEntries

fun parse_perms :: "string \<Rightarrow> int \<Rightarrow> parse_error + int" where
  "parse_perms [] acc = Inr acc"
| "parse_perms (p # ps) acc =
     (if p = CHR ''r'' then parse_perms ps (acc OR ACL_READ)
      else if p = CHR ''w'' then parse_perms ps (acc OR ACL_WRITE)
      else if p = CHR ''x'' then parse_perms ps (acc OR ACL_EXECUTE)
      else if p \<noteq> CHR ''-'' then Inl (BadPermChar p)
      else parse_perms ps acc)"

definition parse_tag :: "string \<Rightarrow> bool \<Rightarrow> acl_tag option" where
  "parse_tag t hasQual =
     (if t = ''u'' \<or> t = ''user'' then Some (if hasQual then ACL_USER else ACL_USER_OBJ)
      else if t = ''g'' \<or> t = ''group'' then Some (if hasQual then ACL_GROUP else ACL_GROUP_OBJ)
      else if t = ''o'' \<or> t = ''other'' then Some ACL_OTHER
      else if t = ''m'' \<or> t = ''mask'' then Some ACL_MASK
      else None)"

text \<open>
  \<open>rest\<close> is what follows the first colon, up to the second if there is one, and \<open>ps\<close> what
  follows that. The functions of the name databases are passed through.
\<close>

definition parse_qual ::
    "(string \<rightharpoonup> int) \<Rightarrow> (string \<rightharpoonup> int) \<Rightarrow> acl_tag \<Rightarrow> string \<Rightarrow> parse_error + int" where
  "parse_qual getpwnam getgrnam tg q =
     (if tg = ACL_USER then
        (let u = userIdFromName getpwnam (Some q)
         in if u = ID_M1 then Inl (BadUser q) else Inr u)
      else if tg = ACL_GROUP then
        (let g = groupIdFromName getgrnam (Some q)
         in if g = ID_M1 then Inl (BadGroup q) else Inr g)
      else Inr 0)"

definition parseEntrySpec ::
    "(string \<rightharpoonup> int) \<Rightarrow> (string \<rightharpoonup> int) \<Rightarrow> string \<Rightarrow> bool \<Rightarrow> parse_error + AccessControlEntry" where
  "parseEntrySpec getpwnam getgrnam entryStr permsReqd =
     (case strchr entryStr CHR '':'' of
        None \<Rightarrow> Inl (MissingColon entryStr)
      | Some (t, rest) \<Rightarrow>
          (let hasQual = (rest \<noteq> [] \<and> hd rest \<noteq> CHR '':'');
               colon2 = strchr rest CHR '':'';
               hasPerms = (case colon2 of None \<Rightarrow> False | Some (_, ps) \<Rightarrow> ps \<noteq> []);
               q = (case colon2 of None \<Rightarrow> rest | Some (q, _) \<Rightarrow> q);
               ps = (case colon2 of None \<Rightarrow> [] | Some (_, ps) \<Rightarrow> ps)
           in if hasPerms \<and> \<not> permsReqd then Inl PermsNotAllowed
              else if \<not> hasPerms \<and> permsReqd then Inl PermsRequired
              else case parse_tag t hasQual of
                  None \<Rightarrow> Inl (BadTag t)
                | Some tg \<Rightarrow>
                  (case parse_qual getpwnam getgrnam tg q of
                     Inl e \<Rightarrow> Inl e
                   | Inr qu \<Rightarrow>
                     if hasPerms then
                       (case parse_perms ps 0 of
                          Inl e \<Rightarrow> Inl e
                        | Inr m \<Rightarrow> Inr \<lparr>tag = tg, qual = qu, perms = Some m\<rparr>)
                     else Inr \<lparr>tag = tg, qual = qu, perms = None\<rparr>)))"

abbreviation (input) MAX_ENTRIES :: nat where "MAX_ENTRIES \<equiv> 10000"

text \<open>The loop of \<open>parseACL\<close>, with \<open>n\<close> entries parsed so far.\<close>

function parseACL_loop ::
    "(string \<rightharpoonup> int) \<Rightarrow> (string \<rightharpoonup> int) \<Rightarrow> bool \<Rightarrow> nat \<Rightarrow> string \<Rightarrow>
       parse_error + AccessControlEntry list" where
  "parseACL_loop pw gr permsReqd n nextEntry =
     (if n \<ge> MAX_ENTRIES then Inl TooManyEntries
      else case strchr nextEntry CHR '','' of
          None \<Rightarrow>
            (case parseEntrySpec pw gr nextEntry permsReqd of
               Inl e \<Rightarrow> Inl e
             | Inr a \<Rightarrow> Inr [a])
        | Some (entry, rest) \<Rightarrow>
            (case parseEntrySpec pw gr entry permsReqd of
               Inl e \<Rightarrow> Inl e
             | Inr a \<Rightarrow>
                 (case parseACL_loop pw gr permsReqd (n + 1) rest of
                    Inl e \<Rightarrow> Inl e
                  | Inr as \<Rightarrow> Inr (a # as))))"
  by pat_completeness auto
termination
  by (relation "measure (\<lambda>(_, _, _, _, s). length s)") (auto dest: strchr_Some)

declare parseACL_loop.simps [simp del]

definition parseACL ::
    "(string \<rightharpoonup> int) \<Rightarrow> (string \<rightharpoonup> int) \<Rightarrow> string \<Rightarrow> bool \<Rightarrow> parse_error + AccessControlEntry list" where
  "parseACL pw gr aclStr permsReqd = parseACL_loop pw gr permsReqd 0 aclStr"

section \<open>Entries of a list\<close>

text \<open>The index of the entry that matches, or \<open>None\<close>.\<close>

fun findEntry :: "acl \<Rightarrow> acl_tag \<Rightarrow> int \<Rightarrow> nat option" where
  "findEntry [] tg q = None"
| "findEntry (e # es) tg q =
     (if tg = e_tag e then
        (if tg = ACL_USER then
           (if q = e_qual e then Some 0 else map_option Suc (findEntry es tg q))
         else if tg = ACL_GROUP then
           (if q = e_qual e then Some 0 else map_option Suc (findEntry es tg q))
         else Some 0)
      else map_option Suc (findEntry es tg q))"

text \<open>Clear the permission set, then add the bits that are given.\<close>

definition setPerms :: "acl_entry \<Rightarrow> int \<Rightarrow> acl_entry" where
  "setPerms e p =
     (let p0 = 0;
          p1 = (if p AND ACL_READ \<noteq> 0 then p0 OR ACL_READ else p0);
          p2 = (if p AND ACL_WRITE \<noteq> 0 then p1 OR ACL_WRITE else p1);
          p3 = (if p AND ACL_EXECUTE \<noteq> 0 then p2 OR ACL_EXECUTE else p2)
      in e\<lparr>e_perms := p3\<rparr>)"

text \<open>
  One entry of the specification applied to a list: deleted if \<open>removeACL\<close>, else its
  permissions set, in a new entry if there is none.
\<close>

definition apply_entry :: "bool \<Rightarrow> AccessControlEntry \<Rightarrow> acl \<Rightarrow> acl" where
  "apply_entry removeACL a es =
     (case findEntry es (tag a) (qual a) of
        Some i \<Rightarrow>
          if removeACL then take i es @ drop (Suc i) es
          else es[i := setPerms (es ! i) (case perms a of None \<Rightarrow> 0 | Some p \<Rightarrow> p)]
      | None \<Rightarrow>
          if removeACL then es
          else es @ [setPerms \<lparr>e_tag = tag a,
                        e_qual = (if tag a = ACL_USER \<or> tag a = ACL_GROUP then qual a else 0),
                        e_perms = 0\<rparr> (case perms a of None \<Rightarrow> 0 | Some p \<Rightarrow> p)])"

section \<open>The program\<close>

datatype acl_type = ACL_TYPE_ACCESS | ACL_TYPE_DEFAULT

text \<open>The library and file system calls, over the state \<open>'k\<close> of the file system.\<close>

record 'k acl_lib =
  acl_get_file :: "string \<Rightarrow> acl_type \<Rightarrow> 'k \<Rightarrow> acl result"
  acl_set_file :: "string \<Rightarrow> acl_type \<Rightarrow> acl \<Rightarrow> 'k \<Rightarrow> unit result \<times> 'k"
  acl_delete_def_file :: "string \<Rightarrow> 'k \<Rightarrow> unit result \<times> 'k"
  acl_calc_mask :: "acl \<Rightarrow> acl result"
  acl_valid :: "acl \<Rightarrow> unit result"

record acl_opts =
  recalcMask :: bool
  useDefaultACL :: bool
  modifyACL :: bool
  removeACL :: bool
  removeDefaultACL :: bool
  checkValidity :: bool
  aclSpec :: string
  optCnt :: nat

definition default_opts :: acl_opts where
  "default_opts = \<lparr>recalcMask = True, useDefaultACL = False, modifyACL = False, removeACL = False,
     removeDefaultACL = False, checkValidity = False, aclSpec = [], optCnt = 0\<rparr>"

definition opt_spec :: "char \<Rightarrow> bool option" where
  "opt_spec c =
     (if c \<in> set ''mxV'' then Some True else if c \<in> set ''kdn'' then Some False else None)"

text \<open>The \<open>switch\<close> of the option loop; \<open>None\<close> is the call of \<open>usageError\<close>.\<close>

fun parse_opts :: "(char \<times> string) list \<Rightarrow> acl_opts \<Rightarrow> acl_opts option" where
  "parse_opts [] opt = Some opt"
| "parse_opts ((c, a) # es) opt =
     (if c = CHR ''m'' then parse_opts es (opt\<lparr>modifyACL := True, aclSpec := a, optCnt := optCnt opt + 1\<rparr>)
      else if c = CHR ''x'' then parse_opts es (opt\<lparr>removeACL := True, aclSpec := a, optCnt := optCnt opt + 1\<rparr>)
      else if c = CHR ''k'' then parse_opts es (opt\<lparr>removeDefaultACL := True, optCnt := optCnt opt + 1\<rparr>)
      else if c = CHR ''V'' then parse_opts es (opt\<lparr>checkValidity := True, aclSpec := a, optCnt := optCnt opt + 1\<rparr>)
      else if c = CHR ''d'' then parse_opts es (opt\<lparr>useDefaultACL := True\<rparr>)
      else if c = CHR ''n'' then parse_opts es (opt\<lparr>recalcMask := False\<rparr>)
      else None)"

text \<open>The inner loop over the entries of the specification, for one file.\<close>

fun update_file ::
    "'k acl_lib \<Rightarrow> acl_opts \<Rightarrow> acl_type \<Rightarrow> string \<Rightarrow> AccessControlEntry list \<Rightarrow> acl \<Rightarrow> 'k \<Rightarrow>
       (failure + acl) \<times> 'k" where
  "update_file lib opt ty f [] es k = (Inr es, k)"
| "update_file lib opt ty f (a # as) es k =
     (let es1 = apply_entry (removeACL opt) a es in
      case (if recalcMask opt then acl_calc_mask lib es1 else Inr es1) of
        Inl e \<Rightarrow> (Inl (ErrExit ''acl_calc_mask'' e), k)
      | Inr es2 \<Rightarrow>
          (case acl_valid lib es2 of
             Inl e \<Rightarrow> (Inl (ErrExit ''acl_valid'' e), k)
           | Inr _ \<Rightarrow>
               (case acl_set_file lib f ty es2 k of
                  (Inl e, k') \<Rightarrow> (Inl (ErrExit ''acl_set_file'' e), k')
                | (Inr _, k') \<Rightarrow> update_file lib opt ty f as es2 k')))"

fun update_files ::
    "'k acl_lib \<Rightarrow> acl_opts \<Rightarrow> acl_type \<Rightarrow> AccessControlEntry list \<Rightarrow> string list \<Rightarrow> 'k \<Rightarrow>
       failure option \<times> 'k" where
  "update_files lib opt ty as [] k = (None, k)"
| "update_files lib opt ty as (f # fs) k =
     (if removeDefaultACL opt then
        (case acl_delete_def_file lib f k of
           (Inl e, k') \<Rightarrow> (Some (ErrExit ''acl_delete_def_file: %s'' e), k')
         | (Inr _, k') \<Rightarrow> update_files lib opt ty as fs k')
      else if modifyACL opt \<or> removeACL opt then
        (case acl_get_file lib f ty k of
           Inl e \<Rightarrow> (Some (ErrExit ''acl_get_file'' e), k)
         | Inr es \<Rightarrow>
             (case update_file lib opt ty f as es k of
                (Inl x, k') \<Rightarrow> (Some x, k')
              | (Inr _, k') \<Rightarrow> update_files lib opt ty as fs k'))
      else (Some (Fatal ''Bad logic!''), k))"

definition acl_update_main ::
    "'k acl_lib \<Rightarrow> (string \<rightharpoonup> int) \<Rightarrow> (string \<rightharpoonup> int) \<Rightarrow> string list \<Rightarrow> 'k \<Rightarrow>
       failure option \<times> string \<times> 'k" where
  "acl_update_main lib pw gr argv k =
     (if length argv < 2 \<or> argv ! 1 = ''--help'' then (Some (UsageErr []), [], k)
      else case getopt opt_spec (tl argv) of (es, files) \<Rightarrow>
        (case parse_opts es default_opts of
           None \<Rightarrow> (Some (UsageErr ''Bad option''), [], k)
         | Some opt \<Rightarrow>
             if optCnt opt \<noteq> 1 then (Some (UsageErr ''Specify exactly one of -m, -x, -k, or -V''), [], k)
             else if checkValidity opt \<and> useDefaultACL opt
               then (Some (UsageErr ''Can't specify -d with -V''), [], k)
             else if checkValidity opt then
               (case parseACL pw gr (aclSpec opt) True of
                  Inl _ \<Rightarrow> (Some (Fatal ''Bad ACL entry specification''), [], k)
                | Inr _ \<Rightarrow> (None, ''ACL is valid'' @ [LF], k))
             else
               (case (if modifyACL opt \<or> removeACL opt then parseACL pw gr (aclSpec opt) (modifyACL opt)
                      else Inr []) of
                  Inl _ \<Rightarrow> (Some (UsageErr ''Bad ACL specification''), [], k)
                | Inr as \<Rightarrow>
                    (case update_files lib opt
                            (if useDefaultACL opt then ACL_TYPE_DEFAULT else ACL_TYPE_ACCESS) as files k of
                       (r, k') \<Rightarrow> (r, [], k')))))"

section \<open>Printing and parsing back\<close>

definition show_perms :: "int \<Rightarrow> string" where
  "show_perms m =
     [if m AND ACL_READ \<noteq> 0 then CHR ''r'' else CHR ''-'',
      if m AND ACL_WRITE \<noteq> 0 then CHR ''w'' else CHR ''-'',
      if m AND ACL_EXECUTE \<noteq> 0 then CHR ''x'' else CHR ''-'']"

fun show_tag :: "acl_tag \<Rightarrow> string" where
  "show_tag ACL_USER_OBJ = ''user''"
| "show_tag ACL_USER = ''user''"
| "show_tag ACL_GROUP_OBJ = ''group''"
| "show_tag ACL_GROUP = ''group''"
| "show_tag ACL_MASK = ''mask''"
| "show_tag ACL_OTHER = ''other''"

definition has_qual :: "acl_tag \<Rightarrow> bool" where
  "has_qual t \<longleftrightarrow> t = ACL_USER \<or> t = ACL_GROUP"

definition show_entry :: "AccessControlEntry \<Rightarrow> string" where
  "show_entry a =
     show_tag (tag a) @ CHR '':'' # (if has_qual (tag a) then show_int (qual a) else []) @
     (case perms a of None \<Rightarrow> [] | Some m \<Rightarrow> CHR '':'' # show_perms m)"

fun show_acl :: "AccessControlEntry list \<Rightarrow> string" where
  "show_acl [] = []"
| "show_acl [a] = show_entry a"
| "show_acl (a # as) = show_entry a @ CHR '','' # show_acl as"

definition wf_entry :: "bool \<Rightarrow> AccessControlEntry \<Rightarrow> bool" where
  "wf_entry permsReqd a \<longleftrightarrow>
     (if has_qual (tag a) then 0 \<le> qual a \<and> qual a < ID_M1 else qual a = 0) \<and>
     (if permsReqd then \<exists>m. perms a = Some m \<and> 0 \<le> m \<and> m \<le> 7 else perms a = None)"

lemma perm_range_cases: "\<lbrakk>(0::int) \<le> m; m \<le> 7\<rbrakk> \<Longrightarrow> m \<in> {0, 1, 2, 3, 4, 5, 6, 7}"
  by auto

lemma parse_show_perms: "\<lbrakk>0 \<le> m; m \<le> 7\<rbrakk> \<Longrightarrow> parse_perms (show_perms m) 0 = Inr m"
  by (drule (1) perm_range_cases) (auto simp: show_perms_def)

lemma id_of_show_int:
  assumes "0 \<le> q" "q < ID_M1"
  shows "userIdFromName pw (Some (show_int q)) = q" "groupIdFromName gr (Some (show_int q)) = q"
  using assms strtol_show_int [of q "[]"]
  by (simp_all add: userIdFromName_def groupIdFromName_def)

lemma show_tag_clean: "CHR '':'' \<notin> set (show_tag t)" "CHR '','' \<notin> set (show_tag t)"
  by (cases t; simp)+

lemma show_perms_clean: "CHR '':'' \<notin> set (show_perms m)" "CHR '','' \<notin> set (show_perms m)"
  by (simp_all add: show_perms_def)

lemma comma_free: "CHR '','' \<notin> set (show_int z)"
  using show_int_chars by (force simp: digit_val_def)

lemma show_int_hd: "hd (show_int z) \<noteq> CHR '':''"
  using colon_free [of z] hd_in_set [OF show_int_nonempty [of z]] by metis

lemma show_entry_no_comma: "CHR '','' \<notin> set (show_entry a)"
  using show_tag_clean show_perms_clean comma_free
  by (auto simp: show_entry_def split: option.splits)

lemma parse_show_entry:
  assumes "wf_entry permsReqd a"
  shows "parseEntrySpec pw gr (show_entry a) permsReqd = Inr a"
proof -
  let ?q = "if has_qual (tag a) then show_int (qual a) else []"
  let ?p = "case perms a of None \<Rightarrow> [] | Some m \<Rightarrow> CHR '':'' # show_perms m"
  have 1: "strchr (show_entry a) CHR '':'' = Some (show_tag (tag a), ?q @ ?p)"
    unfolding show_entry_def by (rule strchr_hit) (rule show_tag_clean)
  have 2: "strchr (?q @ ?p) CHR '':'' =
      (case perms a of None \<Rightarrow> None | Some m \<Rightarrow> Some (?q, show_perms m))"
    by (auto simp: cstr_simps colon_free split: option.split)
  have 3: "(?q @ ?p \<noteq> [] \<and> hd (?q @ ?p) \<noteq> CHR '':'') \<longleftrightarrow> has_qual (tag a)"
    using show_int_hd by (auto split: option.split)
  have 4: "parse_tag (show_tag (tag a)) (has_qual (tag a)) = Some (tag a)"
    by (cases "tag a") (simp_all add: parse_tag_def has_qual_def)
  have 5: "parse_qual pw gr (tag a) ?q = Inr (qual a)"
    using assms id_of_show_int
    by (cases "tag a") (auto simp: parse_qual_def has_qual_def wf_entry_def)
  have 6: "show_perms m \<noteq> []" for m by (simp add: show_perms_def)
  show ?thesis
  proof (cases permsReqd)
    case True
    with assms obtain m where "perms a = Some m" "0 \<le> m" "m \<le> 7" by (auto simp: wf_entry_def)
    with True 1 2 3 4 5 6 show ?thesis
      by (simp add: parseEntrySpec_def Let_def parse_show_perms)
  next
    case False
    with assms have "perms a = None" by (auto simp: wf_entry_def)
    with False 1 2 3 4 5 show ?thesis by (simp add: parseEntrySpec_def Let_def)
  qed
qed

lemma parseACL_loop_show:
  "\<lbrakk>as \<noteq> []; n + length as \<le> MAX_ENTRIES; \<forall>a\<in>set as. wf_entry permsReqd a\<rbrakk> \<Longrightarrow>
   parseACL_loop pw gr permsReqd n (show_acl as) = Inr as"
proof (induction as arbitrary: n rule: show_acl.induct)
  case (2 a)
  then show ?case
    by (subst parseACL_loop.simps) (simp add: cstr_simps show_entry_no_comma parse_show_entry)
next
  case (3 a b as)
  have "strchr (show_acl (a # b # as)) CHR '','' = Some (show_entry a, show_acl (b # as))"
    by (simp add: cstr_simps show_entry_no_comma)
  moreover have "parseACL_loop pw gr permsReqd (n + 1) (show_acl (b # as)) = Inr (b # as)"
    using 3 by simp
  ultimately show ?case using 3
    by (subst parseACL_loop.simps) (simp add: parse_show_entry del: show_acl.simps)
qed simp

section \<open>A list of entries as a map\<close>

text \<open>
  The abstract ACL: the permissions of each tag, or of each tag and qualifier for named
  users and groups.
\<close>

type_synonym acl_key = "acl_tag \<times> int"

definition key_of :: "acl_tag \<Rightarrow> int \<Rightarrow> acl_key" where
  "key_of t q = (t, if has_qual t then q else 0)"

definition ekey :: "acl_entry \<Rightarrow> acl_key" where
  "ekey e = key_of (e_tag e) (e_qual e)"

definition acl_abs :: "acl \<Rightarrow> (acl_key \<rightharpoonup> int)" where
  "acl_abs es = map_of (map (\<lambda>e. (ekey e, e_perms e)) es)"

definition acl_step :: "bool \<Rightarrow> AccessControlEntry \<Rightarrow> (acl_key \<rightharpoonup> int) \<Rightarrow> (acl_key \<rightharpoonup> int)" where
  "acl_step remove a m =
     (if remove then m(key_of (tag a) (qual a) := None)
      else m(key_of (tag a) (qual a) \<mapsto> (case perms a of None \<Rightarrow> 0 | Some p \<Rightarrow> p)))"

lemma findEntry_Cons:
  "findEntry (e # es) t q =
     (if ekey e = key_of t q then Some 0 else map_option Suc (findEntry es t q))"
  by (auto simp: ekey_def key_of_def has_qual_def)

declare findEntry.simps(2) [simp del]

lemma findEntry_None: "findEntry es t q = None \<longleftrightarrow> key_of t q \<notin> ekey ` set es"
  by (induction es) (auto simp: findEntry_Cons)

lemma findEntry_Some:
  "findEntry es t q = Some i \<Longrightarrow>
   i < length es \<and> ekey (es ! i) = key_of t q \<and> (\<forall>j<i. ekey (es ! j) \<noteq> key_of t q)"
  by (induction es arbitrary: i) (auto simp: findEntry_Cons less_Suc_eq_0_disj split: if_splits)

lemma map_of_update_first:
  "\<lbrakk>i < length xs; fst (xs ! i) = k; \<forall>j<i. fst (xs ! j) \<noteq> k\<rbrakk> \<Longrightarrow>
   map_of (xs[i := (k, v)]) = (map_of xs)(k \<mapsto> v)"
proof (induction xs arbitrary: i)
  case (Cons x xs)
  then show ?case by (cases i) (fastforce simp: fun_eq_iff)+
qed simp

lemma map_of_drop_nth:
  "\<lbrakk>i < length xs; fst (xs ! i) = k; distinct (map fst xs)\<rbrakk> \<Longrightarrow>
   map_of (take i xs @ drop (Suc i) xs) = (map_of xs)(k := None)"
proof (induction xs arbitrary: i)
  case (Cons x xs)
  show ?case
  proof (cases i)
    case 0
    with Cons.prems have "map_of xs k = None" by (auto simp: map_of_eq_None_iff)
    with 0 Cons.prems show ?thesis by (auto simp: fun_eq_iff)
  next
    case (Suc j)
    with Cons have "fst x \<noteq> k" by (force simp: in_set_conv_nth)
    with Suc Cons show ?thesis by (auto simp: fun_eq_iff)
  qed
qed simp

lemma setPerms_perms:
  assumes "0 \<le> p" "p \<le> 7"
  shows "e_perms (setPerms e p) = p" "ekey (setPerms e p) = ekey e"
  using perm_range_cases [OF assms] by (auto simp: setPerms_def ekey_def)

definition perms_ok :: "AccessControlEntry \<Rightarrow> bool" where
  "perms_ok a \<longleftrightarrow> (case perms a of None \<Rightarrow> True | Some p \<Rightarrow> 0 \<le> p \<and> p \<le> 7)"

lemma perms_okD:
  assumes "perms_ok a"
  shows "0 \<le> (case perms a of None \<Rightarrow> 0 | Some p \<Rightarrow> p)" "(case perms a of None \<Rightarrow> 0 | Some p \<Rightarrow> p) \<le> 7"
  using assms by (auto simp: perms_ok_def split: option.splits)

lemma apply_entry_refines:
  assumes "distinct (map ekey es)" and "perms_ok a"
  shows "acl_abs (apply_entry rm a es) = acl_step rm a (acl_abs es)"
    and "distinct (map ekey (apply_entry rm a es))"
proof -
  let ?p = "case perms a of None \<Rightarrow> 0 | Some p \<Rightarrow> p" and ?k = "key_of (tag a) (qual a)"
  let ?xs = "map (\<lambda>e. (ekey e, e_perms e)) es"
  note sp = setPerms_perms [OF perms_okD [OF assms(2)]]
  have "acl_abs (apply_entry rm a es) = acl_step rm a (acl_abs es) \<and>
      distinct (map ekey (apply_entry rm a es))"
  proof (cases "findEntry es (tag a) (qual a)")
    case None
    then have k: "?k \<notin> set (map ekey es)" using findEntry_None by simp
    then have "map_of ?xs ?k = None" by (auto simp: map_of_eq_None_iff image_iff)
    moreover have "ekey (setPerms \<lparr>e_tag = tag a,
        e_qual = (if tag a = ACL_USER \<or> tag a = ACL_GROUP then qual a else 0), e_perms = 0\<rparr> ?p) = ?k"
      unfolding sp by (simp add: ekey_def key_of_def has_qual_def)
    ultimately show ?thesis using None assms(1) k
      by (auto simp: apply_entry_def acl_abs_def acl_step_def sp fun_eq_iff map_add_def
          split: option.split)
  next
    case (Some i)
    then have i: "i < length es" "ekey (es ! i) = ?k" "\<forall>j<i. ekey (es ! j) \<noteq> ?k"
      using findEntry_Some by blast+
    show ?thesis
    proof (cases rm)
      case True
      have "map_of (take i ?xs @ drop (Suc i) ?xs) = (map_of ?xs)(?k := None)"
        using i assms(1) by (intro map_of_drop_nth) (simp_all add: comp_def)
      moreover have "distinct (take i (map ekey es) @ drop (Suc i) (map ekey es))"
        using assms(1) set_take_disj_set_drop_if_distinct [of "map ekey es" i "Suc i"] by simp
      ultimately show ?thesis using True Some
        by (simp add: apply_entry_def acl_abs_def acl_step_def take_map drop_map)
    next
      case False
      have "map_of (?xs[i := (?k, ?p)]) = (map_of ?xs)(?k \<mapsto> ?p)"
        using i by (intro map_of_update_first) simp_all
      moreover have "(map ekey es)[i := ?k] = map ekey es" using i by (metis list_update_id nth_map)
      ultimately show ?thesis using False Some i assms(1)
        by (simp add: apply_entry_def acl_abs_def acl_step_def map_update sp)
    qed
  qed
  then show "acl_abs (apply_entry rm a es) = acl_step rm a (acl_abs es)"
    and "distinct (map ekey (apply_entry rm a es))" by simp_all
qed

lemma update_file_fold:
  assumes "\<not> recalcMask opt" "update_file lib opt ty f as es k = (Inr es', k')"
  shows "es' = fold (apply_entry (removeACL opt)) as es"
  using assms(2)
proof (induction as arbitrary: es k)
  case (Cons a as)
  then show ?case using assms(1)
    by (auto simp: Let_def split: sum.splits prod.splits)
qed simp

lemma fold_apply_entry_refines:
  assumes "distinct (map ekey es)" "\<forall>a\<in>set as. perms_ok a"
  shows "acl_abs (fold (apply_entry rm) as es) = fold (acl_step rm) as (acl_abs es) \<and>
    distinct (map ekey (fold (apply_entry rm) as es))"
  using assms by (induction as arbitrary: es) (simp_all add: apply_entry_refines)

lemma parse_opts_count:
  "parse_opts es opt = Some opt' \<Longrightarrow>
   optCnt opt' = optCnt opt + length (filter (\<lambda>(c, _). c \<in> set ''mxkV'') es)"
  by (induction es opt rule: parse_opts.induct) (auto split: if_splits)

section \<open>Properties\<close>

lemma parseACL_round_trip:
  assumes "as \<noteq> []" and "length as \<le> MAX_ENTRIES" and "\<forall>a\<in>set as. wf_entry permsReqd a"
  shows "parseACL pw gr (show_acl as) permsReqd = Inr as"
  using parseACL_loop_show [of as 0 permsReqd] assms by (simp add: parseACL_def)

lemma acl_update_refines_map:
  assumes "\<not> recalcMask opt" and "update_file lib opt ty f as es k = (Inr es', k')"
    and "distinct (map ekey es)" and "\<forall>a\<in>set as. perms_ok a"
  shows "acl_abs es' = fold (acl_step (removeACL opt)) as (acl_abs es) \<and>
    distinct (map ekey es')"
  using update_file_fold [OF assms(1,2)] fold_apply_entry_refines [OF assms(3,4)] by simp


definition example_acl :: "AccessControlEntry list" where
  "example_acl = [\<lparr>tag = ACL_USER, qual = 1000, perms = Some 6\<rparr>,
                  \<lparr>tag = ACL_MASK, qual = 0, perms = Some 7\<rparr>]"

definition trivial_lib :: "acl acl_lib" where
  "trivial_lib = \<lparr>acl_get_file = (\<lambda>_ _ k. Inr k), acl_set_file = (\<lambda>_ _ es k. (Inr (), es)),
     acl_delete_def_file = (\<lambda>_ k. (Inr (), k)), acl_calc_mask = Inr, acl_valid = (\<lambda>_. Inr ())\<rparr>"


text \<open>
  A command line that does not give exactly one of \<open>-m\<close>, \<open>-x\<close>, \<open>-k\<close> and \<open>-V\<close> is refused
  with a usage message, and no ACL of any file is read or changed.
\<close>

theorem acl_update_needs_one_action:
  assumes "length (filter (\<lambda>(c, _). c \<in> set ''mxkV'') (fst (getopt opt_spec (tl argv)))) \<noteq> 1"
  shows "\<exists>msg. acl_update_main lib pw gr argv k = (Some (UsageErr msg), [], k)"
proof (cases "length argv < 2 \<or> argv ! 1 = ''--help''")
  case True
  then show ?thesis by (auto simp: acl_update_main_def)
next
  case False
  obtain es files where g: "getopt opt_spec (tl argv) = (es, files)" by fastforce
  show ?thesis
  proof (cases "parse_opts es default_opts")
    case None
    with False g show ?thesis by (auto simp: acl_update_main_def)
  next
    case (Some opt)
    then have "optCnt opt \<noteq> 1"
      using parse_opts_count [OF Some] assms g by (simp add: default_opts_def)
    with False g Some show ?thesis by (auto simp: acl_update_main_def)
  qed
qed

theorem acl_update_needs_one_action_witness:
  "\<exists>msg. acl_update_main trivial_lib Map.empty Map.empty [''acl_update'', ''-k'', ''-x'', ''u:'', ''f''] [] =
     (Some (UsageErr msg), [], [])"
  by (rule acl_update_needs_one_action) (simp add: opt_spec_def)

end
