(* ===== verification/Chattr.thy ===== *)
theory Chattr
  imports Prelude
begin

text \<open>
  \<open>15-file-attributes/chattr.c\<close>: the mode string (an operator and attribute letters) is
  validated, turned into a mask of \<open>FS_*_FL\<close> flags and applied to the flag word of each file.
\<close>

unbundle bit_operations_syntax

section \<open>The attribute table\<close>

abbreviation (input) ATTRS_LIST :: string where "ATTRS_LIST \<equiv> ''acdeijstuADT''"

record attr_table_entry =
  acode :: char
  fs_flag :: "32 word"

definition attr_entry :: "char \<Rightarrow> 32 word \<Rightarrow> attr_table_entry" where
  "attr_entry c f = \<lparr>acode = c, fs_flag = f\<rparr>"

definition fs_attrs :: "attr_table_entry list" where
  "fs_attrs =
     [attr_entry CHR ''a'' 0x00000020, attr_entry CHR ''c'' 0x00000004,
      attr_entry CHR ''d'' 0x00000040, attr_entry CHR ''e'' 0x00080000,
      attr_entry CHR ''i'' 0x00000010, attr_entry CHR ''j'' 0x00004000,
      attr_entry CHR ''s'' 0x00000001, attr_entry CHR ''t'' 0x00008000,
      attr_entry CHR ''u'' 0x00000002, attr_entry CHR ''A'' 0x00000080,
      attr_entry CHR ''D'' 0x00010000, attr_entry CHR ''T'' 0x00020000]"

fun lookup_in :: "attr_table_entry list \<Rightarrow> char \<Rightarrow> attr_table_entry option" where
  "lookup_in [] attr = None"
| "lookup_in (e # es) attr = (if acode e = attr then Some e else lookup_in es attr)"

definition lookup_attr_table_entry :: "char \<Rightarrow> attr_table_entry option" where
  "lookup_attr_table_entry attr = lookup_in fs_attrs attr"

fun in_list :: "string \<Rightarrow> char \<Rightarrow> bool" where
  "in_list [] attr = False"
| "in_list (c # cs) attr = (if c = attr then True else in_list cs attr)"

definition is_valid_attr :: "char \<Rightarrow> bool" where
  "is_valid_attr attr = in_list ATTRS_LIST attr"

text \<open>Both functions that check end the process with status 1; the value is what they print.\<close>

definition usage_text :: string where
  "usage_text = ''Usage: ./prog_chattr [mode] files'' @ [LF]"

fun validate_attrs :: "string \<Rightarrow> string option" where
  "validate_attrs [] = None"
| "validate_attrs (attr # attrs) =
     (if \<not> is_valid_attr attr
      then Some (''ERROR: Attribute '' @ [CHR 0x27, attr, CHR 0x27] @ '' is invalid'' @ [LF] @ usage_text)
      else validate_attrs attrs)"

definition validate_mode_string :: "string \<Rightarrow> string option" where
  "validate_mode_string mode_string =
     (if length mode_string < 2
      then Some (''ERROR: Invalid mode string specified (too short)'' @ [LF] @ usage_text)
      else validate_attrs (tl mode_string))"

fun get_mask_loop :: "string \<Rightarrow> 32 word \<Rightarrow> string + 32 word" where
  "get_mask_loop [] msk = Inr msk"
| "get_mask_loop (attr # attrs) msk =
     (case lookup_attr_table_entry attr of
        None \<Rightarrow> Inl (''ERROR: Invalid Attr '' @ [CHR 0x27, attr, CHR 0x27, LF])
      | Some entry \<Rightarrow> get_mask_loop attrs (msk OR fs_flag entry))"

definition get_mask_for_attrs :: "string \<Rightarrow> string + 32 word" where
  "get_mask_for_attrs attrs = get_mask_loop attrs 0"

definition transform_attrs_add :: "32 word \<Rightarrow> 32 word \<Rightarrow> 32 word" where
  "transform_attrs_add attrs msk = attrs OR msk"

definition transform_attrs_remove :: "32 word \<Rightarrow> 32 word \<Rightarrow> 32 word" where
  "transform_attrs_remove attrs msk =
     (let reversed_mask = NOT msk; new_attrs = attrs AND reversed_mask in new_attrs)"

definition transform_attrs_only :: "32 word \<Rightarrow> 32 word \<Rightarrow> 32 word" where
  "transform_attrs_only attrs msk = msk"

section \<open>The files\<close>

text \<open>
  What \<open>open\<close> and the two \<open>ioctl\<close> requests see: the flag word of each file, which files cannot
  be opened, read or changed, and the open descriptors by number.
\<close>

record attr_fs =
  a_flags :: "string \<Rightarrow> 32 word"
  a_noopen :: "string \<Rightarrow> bool"
  a_noget :: "string \<Rightarrow> bool"
  a_noset :: "string \<Rightarrow> bool"
  a_fds :: "string option list"

definition attr_open :: "string \<Rightarrow> attr_fs \<Rightarrow> int \<times> attr_fs" where
  "attr_open f fs =
     (if a_noopen fs f then (- 1, fs)
      else (int (length (a_fds fs)), fs\<lparr>a_fds := a_fds fs @ [Some f]\<rparr>))"

definition attr_fd :: "int \<Rightarrow> attr_fs \<Rightarrow> string option" where
  "attr_fd fd fs = (if 0 \<le> fd \<and> nat fd < length (a_fds fs) then a_fds fs ! nat fd else None)"

definition ioctl_getflags :: "int \<Rightarrow> attr_fs \<Rightarrow> 32 word option" where
  "ioctl_getflags fd fs =
     (case attr_fd fd fs of
        None \<Rightarrow> None | Some f \<Rightarrow> if a_noget fs f then None else Some (a_flags fs f))"

definition ioctl_setflags :: "int \<Rightarrow> 32 word \<Rightarrow> attr_fs \<Rightarrow> bool \<times> attr_fs" where
  "ioctl_setflags fd w fs =
     (case attr_fd fd fs of
        None \<Rightarrow> (False, fs)
      | Some f \<Rightarrow> if a_noset fs f then (False, fs) else (True, fs\<lparr>a_flags := (a_flags fs)(f := w)\<rparr>))"

definition attr_close :: "int \<Rightarrow> attr_fs \<Rightarrow> attr_fs" where
  "attr_close fd fs =
     (if attr_fd fd fs = None then fs else fs\<lparr>a_fds := (a_fds fs)[nat fd := None]\<rparr>)"

section \<open>do\_action and main\<close>

definition hexdigit :: "bool \<Rightarrow> nat \<Rightarrow> char" where
  "hexdigit up d = char_of (if d < 10 then 48 + d else if up then 55 + d else 87 + d)"

text \<open>\<open>%08x\<close> and \<open>%08X\<close>\<close>

definition hex8 :: "bool \<Rightarrow> 32 word \<Rightarrow> string" where
  "hex8 up w = map (\<lambda>i. hexdigit up (unat w div 16 ^ i mod 16)) [7, 6, 5, 4, 3, 2, 1, 0]"

datatype msg = Out string | Err string

text \<open>
  The descriptor is kept in a \<open>size_t\<close>, so that the test for a failed \<open>open\<close> is never true:
  \<open>fd\<close> is \<open>2 ^ 64 - 1\<close> then, and \<open>- 1\<close> again when it is passed on as an \<open>int\<close>.
\<close>

definition do_file ::
    "(32 word \<Rightarrow> 32 word \<Rightarrow> 32 word) \<Rightarrow> 32 word \<Rightarrow> string \<Rightarrow> attr_fs \<Rightarrow> msg list \<times> attr_fs" where
  "do_file transform_attrs msk filename fs =
     (let (r, fs1) = attr_open filename fs; fd = to_unsigned 64 r
      in if fd < 0 then ([Err (''ERROR: Unable to open '' @ filename @ '', skipping'' @ [LF])], fs1)
         else
           (case ioctl_getflags (to_signed 32 fd) fs1 of
              None \<Rightarrow>
                ([Err (''ERROR: Unable to get flags on '' @ filename @ '', skipping'' @ [LF])],
                 attr_close (to_signed 32 fd) fs1)
            | Some current_attrs \<Rightarrow>
                (let new_attrs = transform_attrs current_attrs msk;
                     (done, fs2) = ioctl_setflags (to_signed 32 fd) new_attrs fs1
                 in ([Out (''cur attrs: 0x'' @ hex8 False current_attrs @ '', mask: 0x'' @ hex8 True msk @ [LF]),
                      Out (''new attrs: 0x'' @ hex8 True new_attrs @ [LF])] @
                     (if done then []
                      else [Err (''ERROR: Unable to set flags on '' @ filename @ '', skipping'' @ [LF])]),
                     attr_close (to_signed 32 fd) fs2))))"

fun do_files ::
    "(32 word \<Rightarrow> 32 word \<Rightarrow> 32 word) \<Rightarrow> 32 word \<Rightarrow> string list \<Rightarrow> attr_fs \<Rightarrow> msg list \<times> attr_fs" where
  "do_files transform_attrs msk [] fs = ([], fs)"
| "do_files transform_attrs msk (f # files) fs =
     (let (m1, fs1) = do_file transform_attrs msk f fs;
          (m2, fs2) = do_files transform_attrs msk files fs1
      in (m1 @ m2, fs2))"

definition do_action ::
    "string \<Rightarrow> string list \<Rightarrow> (32 word \<Rightarrow> 32 word \<Rightarrow> 32 word) \<Rightarrow> attr_fs \<Rightarrow> int \<times> msg list \<times> attr_fs" where
  "do_action attrs files transform_attrs fs =
     (case get_mask_for_attrs attrs of
        Inl e \<Rightarrow> (1, [Err e], fs)
      | Inr msk \<Rightarrow> (0, do_files transform_attrs msk files fs))"

definition chattr_main :: "string list \<Rightarrow> attr_fs \<Rightarrow> int \<times> msg list \<times> attr_fs" where
  "chattr_main argv fs =
     (if length argv < 3 then (1, [Err usage_text], fs)
      else
        (let mode_string = argv ! 1; files = drop 2 argv
         in case validate_mode_string mode_string of
              Some e \<Rightarrow> (1, [Err e], fs)
            | None \<Rightarrow>
                (let action = hd mode_string; attrs = tl mode_string
                 in if action = CHR ''+'' then do_action attrs files transform_attrs_add fs
                    else if action = CHR ''-'' then do_action attrs files transform_attrs_remove fs
                    else if action = CHR ''='' then do_action attrs files transform_attrs_only fs
                    else (0, [], fs))))"

section \<open>Attributes as sets of letters\<close>

definition attr_bit :: "char \<Rightarrow> nat" where
  "attr_bit c =
     (if c = CHR ''a'' then 5 else if c = CHR ''c'' then 2 else if c = CHR ''d'' then 6
      else if c = CHR ''e'' then 19 else if c = CHR ''i'' then 4 else if c = CHR ''j'' then 14
      else if c = CHR ''s'' then 0 else if c = CHR ''t'' then 15 else if c = CHR ''u'' then 1
      else if c = CHR ''A'' then 7 else if c = CHR ''D'' then 16 else 17)"

definition attr_letters :: "char set" where
  "attr_letters = set ATTRS_LIST"

definition attrs_of :: "32 word \<Rightarrow> char set" where
  "attrs_of w = {c \<in> attr_letters. bit w (attr_bit c)}"

lemma is_valid_attr_iff: "is_valid_attr c \<longleftrightarrow> c \<in> attr_letters"
  by (auto simp: is_valid_attr_def attr_letters_def)

lemma lookup_attr:
  "c \<in> attr_letters \<Longrightarrow> \<exists>e. lookup_attr_table_entry c = Some e \<and> fs_flag e = 2 ^ attr_bit c"
  by (auto simp: attr_letters_def lookup_attr_table_entry_def fs_attrs_def attr_entry_def attr_bit_def)

lemma attr_bit_less: "attr_bit c < 32"
  by (simp add: attr_bit_def)

lemma attr_bit_inj: "inj_on attr_bit (attr_letters)"
  by (simp add: attr_bit_def attr_letters_def)

lemma get_mask_loop_ok:
  "set attrs \<subseteq> attr_letters \<Longrightarrow>
   \<exists>msk'. get_mask_loop attrs msk = Inr msk' \<and>
     (\<forall>n. bit msk' n \<longleftrightarrow> bit msk n \<or> (\<exists>c\<in>set attrs. n = attr_bit c))"
proof (induction attrs arbitrary: msk)
  case (Cons c attrs)
  obtain e where e: "lookup_attr_table_entry c = Some e" "fs_flag e = 2 ^ attr_bit c"
    using Cons.prems lookup_attr [of c] by auto
  have "bit (msk OR fs_flag e) n \<longleftrightarrow> bit msk n \<or> n = attr_bit c" for n
    using attr_bit_less [of c] by (auto simp: e(2) bit_or_iff bit_exp_iff)
  then show ?case using Cons.IH [of "msk OR fs_flag e"] Cons.prems e(1) by auto
qed simp

lemma attrs_of_mask:
  assumes "\<And>n. bit msk n \<longleftrightarrow> (\<exists>c\<in>set attrs. n = attr_bit c)" "set attrs \<subseteq> attr_letters"
  shows "attrs_of msk = set attrs"
  using assms(2) inj_onD [OF attr_bit_inj] unfolding attrs_of_def assms(1) by blast

lemma attrs_of_transform:
  "attrs_of (transform_attrs_add w msk) = attrs_of w \<union> attrs_of msk"
  "attrs_of (transform_attrs_remove w msk) = attrs_of w - attrs_of msk"
  "attrs_of (transform_attrs_only w msk) = attrs_of msk"
  using attr_bit_less
  by (auto simp: attrs_of_def transform_attrs_add_def transform_attrs_remove_def
      transform_attrs_only_def bit_or_iff bit_and_iff bit_not_iff)

lemma transform_idem:
  "transform_attrs_add (transform_attrs_add w m) m = transform_attrs_add w m"
  "transform_attrs_remove (transform_attrs_remove w m) m = transform_attrs_remove w m"
  "transform_attrs_only (transform_attrs_only w m) m = transform_attrs_only w m"
  by (simp_all add: transform_attrs_add_def transform_attrs_remove_def transform_attrs_only_def
      bit_eq_iff bit_simps)

section \<open>Properties\<close>

definition changeable :: "attr_fs \<Rightarrow> string \<Rightarrow> bool" where
  "changeable fs f \<longleftrightarrow> \<not> a_noopen fs f \<and> \<not> a_noget fs f \<and> \<not> a_noset fs f"

definition same_files :: "attr_fs \<Rightarrow> attr_fs \<Rightarrow> bool" where
  "same_files fs fs' \<longleftrightarrow> changeable fs' = changeable fs \<and>
     filter (\<lambda>d. d \<noteq> None) (a_fds fs') = filter (\<lambda>d. d \<noteq> None) (a_fds fs)"

lemma size_t_minus_one [simp]: "to_signed 32 (to_unsigned 64 (- 1)) = - 1" "0 \<le> to_unsigned 64 (- 1)"
  by (simp_all add: to_signed_def to_unsigned_def)

lemma int_size_t [simp]:
  "int n \<le> INT_MAX \<Longrightarrow> to_signed 32 (to_unsigned 64 (int n)) = int n"
  by (subst to_unsigned_id) (auto intro: le_less_trans)

lemma to_unsigned_nonneg: "\<not> to_unsigned w x < 0"
  by (simp add: to_unsigned_def not_less)

lemma attr_fd_minus_one [simp]: "attr_fd (- 1) fs = None"
  by (simp add: attr_fd_def)

lemma do_file_ok:
  assumes "int (length (a_fds fs)) \<le> INT_MAX" "do_file t msk f fs = (ms, fs')"
  shows "a_flags fs' = (if changeable fs f then (a_flags fs)(f := t (a_flags fs f) msk) else a_flags fs)"
    and "same_files fs fs'" and "length (a_fds fs') \<le> Suc (length (a_fds fs))"
  using assms
  by (auto simp: do_file_def Let_def to_unsigned_nonneg attr_open_def ioctl_getflags_def
      ioctl_setflags_def attr_close_def same_files_def changeable_def attr_fd_def fun_eq_iff
      split: if_splits option.splits)

lemma do_files_ok:
  assumes "int (length (a_fds fs)) + int (length files) \<le> INT_MAX"
    and "do_files t msk files fs = (ms, fs')" "\<And>w. t (t w msk) msk = t w msk"
  shows "a_flags fs' f = (if f \<in> set files \<and> changeable fs f then t (a_flags fs f) msk else a_flags fs f) \<and>
    same_files fs fs'"
  using assms
proof (induction files arbitrary: fs ms)
  case Nil
  then show ?case by (simp add: same_files_def)
next
  case (Cons g files)
  obtain m1 fs1 m2 where 1: "do_file t msk g fs = (m1, fs1)" "do_files t msk files fs1 = (m2, fs')"
    using Cons.prems(2) by (auto simp: Let_def split: prod.splits)
  note d = do_file_ok [OF _ 1(1)]
  have "int (length (a_fds fs1)) + int (length files) \<le> INT_MAX"
    using d(3) Cons.prems(1) by simp
  with Cons.IH [OF _ 1(2)] Cons.prems(3) d(1,2) Cons.prems(1) show ?case
    by (auto simp: same_files_def)
qed

lemma validate_attrs_iff: "validate_attrs attrs = None \<longleftrightarrow> set attrs \<subseteq> attr_letters"
  by (induction attrs) (auto simp: is_valid_attr_iff)

text \<open>The change that an operator makes to the set of attributes.\<close>

definition attr_action :: "char \<Rightarrow> char set \<Rightarrow> char set \<Rightarrow> char set" where
  "attr_action act letters old =
     (if act = CHR ''+'' then old \<union> letters else if act = CHR ''-'' then old - letters else letters)"

lemma do_action_ok:
  assumes "set attrs \<subseteq> attr_letters" "int (length (a_fds fs)) + int (length files) \<le> INT_MAX"
    and "\<And>w m. t (t w m) m = t w m" "\<And>w m. attrs_of (t w m) = attr_action act (attrs_of m) (attrs_of w)"
  shows "\<exists>ms fs'. do_action attrs files t fs = (0, ms, fs') \<and> same_files fs fs' \<and>
    (\<forall>f. attrs_of (a_flags fs' f) =
      (if f \<in> set files \<and> changeable fs f then attr_action act (set attrs) (attrs_of (a_flags fs f))
       else attrs_of (a_flags fs f)))"
proof -
  obtain msk where m: "get_mask_loop attrs 0 = Inr msk" "\<And>n. bit msk n \<longleftrightarrow> (\<exists>c\<in>set attrs. n = attr_bit c)"
    using get_mask_loop_ok [OF assms(1), of 0] by auto
  obtain ms fs' where d: "do_files t msk files fs = (ms, fs')" by fastforce
  show ?thesis
    using do_files_ok [OF assms(2) d assms(3)] m d attrs_of_mask [OF m(2) assms(1)] assms(4)
    by (auto simp: do_action_def get_mask_for_attrs_def)
qed

lemma attrs_of_0: "attrs_of 0 = {}"
  by (simp add: attrs_of_def)

lemma chattr_effect:
  assumes "int (length (a_fds fs)) + int (length files) \<le> INT_MAX" "files \<noteq> []"
    and "act \<in> set ''+-=''"
  shows "if attrs \<noteq> [] \<and> set attrs \<subseteq> attr_letters
    then \<exists>ms fs'. chattr_main (prog # (act # attrs) # files) fs = (0, ms, fs') \<and> same_files fs fs' \<and>
      (\<forall>f. attrs_of (a_flags fs' f) =
        (if f \<in> set files \<and> changeable fs f then attr_action act (set attrs) (attrs_of (a_flags fs f))
         else attrs_of (a_flags fs f)))
    else \<exists>e. chattr_main (prog # (act # attrs) # files) fs = (1, [Err e], fs)"
proof (cases "attrs \<noteq> [] \<and> set attrs \<subseteq> attr_letters")
  case True
  have "validate_mode_string (act # attrs) = None"
    using True by (cases attrs) (simp_all add: validate_mode_string_def validate_attrs_iff is_valid_attr_iff)
  moreover have "\<not> length (prog # (act # attrs) # files) < 3" using assms(2) by (cases files) auto
  ultimately have m: "chattr_main (prog # (act # attrs) # files) fs = do_action attrs files
      (if act = CHR ''+'' then transform_attrs_add
       else if act = CHR ''-'' then transform_attrs_remove else transform_attrs_only) fs"
    using assms(3) by (auto simp: chattr_main_def Let_def)
  show ?thesis
    unfolding m if_P [OF True]
    by (rule do_action_ok [OF conjunct2 [OF True] assms(1)])
      (auto simp: attr_action_def attrs_of_transform transform_idem)
next
  case False
  then have "validate_mode_string (act # attrs) \<noteq> None"
    by (auto simp: validate_mode_string_def validate_attrs_iff)
  then show ?thesis using assms(2) unfolding if_not_P [OF False] by (cases files) (auto simp: chattr_main_def)
qed

end
