(* ===== verification/Perms.thy ===== *)
theory Perms
  imports Prelude
begin

text \<open>
  File permissions: \<open>lib/file_perms.c\<close>, which shows them the way \<open>ls\<close> does, and
  \<open>15-file-attributes/exercise6_chmod.c\<close>, which means to do what \<open>chmod a+rX\<close> does.
\<close>

unbundle bit_operations_syntax

section \<open>Permission bits\<close>

text \<open>The bits of a mode, in octal 400, 200, 100, 040, 020, 010, 004, 002, 001, 4000, 2000 and 1000.\<close>

abbreviation (input) S_IRUSR :: "32 word" where "S_IRUSR \<equiv> 0x100"
abbreviation (input) S_IWUSR :: "32 word" where "S_IWUSR \<equiv> 0x080"
abbreviation (input) S_IXUSR :: "32 word" where "S_IXUSR \<equiv> 0x040"
abbreviation (input) S_IRGRP :: "32 word" where "S_IRGRP \<equiv> 0x020"
abbreviation (input) S_IWGRP :: "32 word" where "S_IWGRP \<equiv> 0x010"
abbreviation (input) S_IXGRP :: "32 word" where "S_IXGRP \<equiv> 0x008"
abbreviation (input) S_IROTH :: "32 word" where "S_IROTH \<equiv> 0x004"
abbreviation (input) S_IWOTH :: "32 word" where "S_IWOTH \<equiv> 0x002"
abbreviation (input) S_IXOTH :: "32 word" where "S_IXOTH \<equiv> 0x001"
abbreviation (input) S_ISUID :: "32 word" where "S_ISUID \<equiv> 0x800"
abbreviation (input) S_ISGID :: "32 word" where "S_ISGID \<equiv> 0x400"
abbreviation (input) S_ISVTX :: "32 word" where "S_ISVTX \<equiv> 0x200"
abbreviation (input) FP_SPECIAL :: "32 word" where "FP_SPECIAL \<equiv> 1"

definition S_ISDIR :: "32 word \<Rightarrow> bool" where
  "S_ISDIR m \<longleftrightarrow> m AND 0xF000 = 0x4000"

section \<open>Showing permissions\<close>

definition filePermStr :: "32 word \<Rightarrow> 32 word \<Rightarrow> string" where
  "filePermStr perm flags =
     [if perm AND S_IRUSR \<noteq> 0 then CHR ''r'' else CHR ''-'', if perm AND S_IWUSR \<noteq> 0 then CHR ''w'' else CHR ''-'',
      if perm AND S_IXUSR \<noteq> 0
      then (if perm AND S_ISUID \<noteq> 0 \<and> flags AND FP_SPECIAL \<noteq> 0 then CHR ''s'' else CHR ''x'')
      else (if perm AND S_ISUID \<noteq> 0 \<and> flags AND FP_SPECIAL \<noteq> 0 then CHR ''S'' else CHR ''-''),
      if perm AND S_IRGRP \<noteq> 0 then CHR ''r'' else CHR ''-'', if perm AND S_IWGRP \<noteq> 0 then CHR ''w'' else CHR ''-'',
      if perm AND S_IXGRP \<noteq> 0
      then (if perm AND S_ISGID \<noteq> 0 \<and> flags AND FP_SPECIAL \<noteq> 0 then CHR ''s'' else CHR ''x'')
      else (if perm AND S_ISGID \<noteq> 0 \<and> flags AND FP_SPECIAL \<noteq> 0 then CHR ''S'' else CHR ''-''),
      if perm AND S_IROTH \<noteq> 0 then CHR ''r'' else CHR ''-'', if perm AND S_IWOTH \<noteq> 0 then CHR ''w'' else CHR ''-'',
      if perm AND S_IXOTH \<noteq> 0
      then (if perm AND S_ISVTX \<noteq> 0 \<and> flags AND FP_SPECIAL \<noteq> 0 then CHR ''t'' else CHR ''x'')
      else (if perm AND S_ISVTX \<noteq> 0 \<and> flags AND FP_SPECIAL \<noteq> 0 then CHR ''T'' else CHR ''-'')]"

section \<open>Changing permissions\<close>

text \<open>
  The calls \<open>stat\<close> and \<open>chmod\<close>: files by path with their modes, whether the process may change a file,
  and whether it is in its group (otherwise \<open>chmod\<close> clears the set-group-ID bit). The type of a file stays.
  Two paths name two files.
\<close>

record mode_fs =
  modes :: "string \<rightharpoonup> 32 word"
  may_chmod :: "string \<Rightarrow> bool"
  in_group :: "string \<Rightarrow> bool"

definition sys_chmod :: "string \<Rightarrow> 32 word \<Rightarrow> mode_fs \<Rightarrow> mode_fs" where
  "sys_chmod p m fs =
     (case modes fs p of
        None \<Rightarrow> fs
      | Some old \<Rightarrow>
          if may_chmod fs p
          then fs\<lparr>modes := (modes fs)(p \<mapsto> (old AND 0xF000) OR (m AND (if in_group fs p then 0xFFF else 0xBFF)))\<rparr>
          else fs)"

definition chmod_directory :: "string \<Rightarrow> 32 word \<Rightarrow> mode_fs \<Rightarrow> mode_fs" where
  "chmod_directory p st_mode fs =
     sys_chmod p (st_mode OR (S_IRUSR OR S_IRGRP OR S_IROTH OR S_IXUSR OR S_IXGRP OR S_IXOTH)) fs"

definition chmod_file :: "string \<Rightarrow> 32 word \<Rightarrow> mode_fs \<Rightarrow> mode_fs" where
  "chmod_file p st_mode fs =
     (let st_mode = st_mode OR (S_IRUSR OR S_IXUSR OR S_IRGRP);
          ixmask = S_IXUSR OR S_IXGRP OR S_IXOTH;
          st_mode = (if st_mode AND ixmask \<noteq> 0 then st_mode OR ixmask else st_mode)
      in sys_chmod p st_mode fs)"

fun chmod_loop :: "string list \<Rightarrow> mode_fs \<Rightarrow> int \<times> mode_fs" where
  "chmod_loop [] fs = (0, fs)"
| "chmod_loop (p # ps) fs =
     (case modes fs p of
        None \<Rightarrow> (1, fs)
      | Some st_mode \<Rightarrow>
          chmod_loop ps (if S_ISDIR st_mode then chmod_directory p st_mode fs else chmod_file p st_mode fs))"

definition chmod_main :: "string list \<Rightarrow> mode_fs \<Rightarrow> int \<times> mode_fs" where
  "chmod_main argv fs = (if length argv < 2 then (1, fs) else chmod_loop (tl argv) fs)"

section \<open>Properties\<close>

lemma perm_bits:
  "(m :: 32 word) AND 0x800 = 0 \<longleftrightarrow> \<not> bit m 11" "m AND 0x400 = 0 \<longleftrightarrow> \<not> bit m 10" "m AND 0x200 = 0 \<longleftrightarrow> \<not> bit m 9"
  "m AND 0x100 = 0 \<longleftrightarrow> \<not> bit m 8" "m AND 0x80 = 0 \<longleftrightarrow> \<not> bit m 7" "m AND 0x40 = 0 \<longleftrightarrow> \<not> bit m 6"
  "m AND 0x20 = 0 \<longleftrightarrow> \<not> bit m 5" "m AND 0x10 = 0 \<longleftrightarrow> \<not> bit m 4" "m AND 8 = 0 \<longleftrightarrow> \<not> bit m 3"
  "m AND 4 = 0 \<longleftrightarrow> \<not> bit m 2" "m AND 2 = 0 \<longleftrightarrow> \<not> bit m 1" "m AND 1 = 0 \<longleftrightarrow> \<not> bit m 0"
  using and_exp_eq_0_iff_not_bit [of m 11] and_exp_eq_0_iff_not_bit [of m 10] and_exp_eq_0_iff_not_bit [of m 9]
    and_exp_eq_0_iff_not_bit [of m 8] and_exp_eq_0_iff_not_bit [of m 7] and_exp_eq_0_iff_not_bit [of m 6]
    and_exp_eq_0_iff_not_bit [of m 5] and_exp_eq_0_iff_not_bit [of m 4] and_exp_eq_0_iff_not_bit [of m 3]
    and_exp_eq_0_iff_not_bit [of m 2] and_exp_eq_0_iff_not_bit [of m 1] and_exp_eq_0_iff_not_bit [of m 0]
  by simp_all

lemma mask_bits:
  "bit (0xFFF :: 32 word) n \<longleftrightarrow> n < 12" "bit (0xFFFF :: 32 word) n \<longleftrightarrow> n < 16"
  "bit (0xF000 :: 32 word) n \<longleftrightarrow> 12 \<le> n \<and> n < 16" "bit (0xBFF :: 32 word) n \<longleftrightarrow> n < 12 \<and> n \<noteq> 10"
  "bit (S_ISGID :: 32 word) n \<longleftrightarrow> n = 10"
proof -
  have m: "(0xFFF :: 32 word) = mask 12" "(0xFFFF :: 32 word) = mask 16" "(S_ISGID :: 32 word) = 2 ^ 10"
    by (simp_all add: mask_eq_exp_minus_1)
  then show b: "bit (0xFFF :: 32 word) n \<longleftrightarrow> n < 12" "bit (0xFFFF :: 32 word) n \<longleftrightarrow> n < 16"
    "bit (S_ISGID :: 32 word) n \<longleftrightarrow> n = 10" for n
    by (simp_all only: bit_mask_iff bit_exp_iff) auto
  have "(0xF000 :: 32 word) = 0xFFFF AND NOT 0xFFF" "(0xBFF :: 32 word) = 0xFFF AND NOT S_ISGID" by simp_all
  then show "bit (0xF000 :: 32 word) n \<longleftrightarrow> 12 \<le> n \<and> n < 16" "bit (0xBFF :: 32 word) n \<longleftrightarrow> n < 12 \<and> n \<noteq> 10"
    by (simp_all only: bit_and_iff bit_not_iff b) auto
qed

lemma low_bits_eq: "(p :: 32 word) AND 0xFFF = q AND 0xFFF \<longleftrightarrow> (\<forall>n<12. bit p n = bit q n)"
proof -
  have "n < 12 \<Longrightarrow> n < 32" for n :: nat by simp
  then have "(\<forall>n<32. (bit p n \<and> n < 12) = (bit q n \<and> n < 12)) \<longleftrightarrow> (\<forall>n<12. bit p n = bit q n)" by blast
  then show ?thesis by (simp only: bit_eq_iff bit_and_iff mask_bits) simp
qed

lemma all_less_12: "(\<forall>n<12. P n) \<longleftrightarrow> P 0 \<and> P 1 \<and> P 2 \<and> P 3 \<and> P 4 \<and> P 5 \<and> P 6 \<and> P 7 \<and> P 8 \<and> P 9 \<and> P 10 \<and> P (11 :: nat)"
  by (auto simp: numeral_eq_Suc All_less_Suc)

lemma shown_flags:
  "(if a then CHR ''r'' else CHR ''-'') = (if a' then CHR ''r'' else CHR ''-'') \<longleftrightarrow> a = a'"
  "(if a then CHR ''w'' else CHR ''-'') = (if a' then CHR ''w'' else CHR ''-'') \<longleftrightarrow> a = a'"
  "(if a then (if b then CHR ''s'' else CHR ''x'') else (if b then CHR ''S'' else CHR ''-'')) =
     (if a' then (if b' then CHR ''s'' else CHR ''x'') else (if b' then CHR ''S'' else CHR ''-'')) \<longleftrightarrow> a = a' \<and> b = b'"
  "(if a then (if b then CHR ''t'' else CHR ''x'') else (if b then CHR ''T'' else CHR ''-'')) =
     (if a' then (if b' then CHR ''t'' else CHR ''x'') else (if b' then CHR ''T'' else CHR ''-'')) \<longleftrightarrow> a = a' \<and> b = b'"
  by simp_all

lemma filePermStr_inj: "filePermStr p FP_SPECIAL = filePermStr q FP_SPECIAL \<longleftrightarrow> p AND 0xFFF = q AND 0xFFF"
proof -
  have "(1 :: 32 word) AND 1 \<noteq> 0" by simp
  then show ?thesis
    unfolding low_bits_eq all_less_12 filePermStr_def list.inject shown_flags perm_bits by blast
qed

text \<open>What the program makes of a mode, and what \<open>chmod a+rX\<close> makes of it.\<close>

definition chmod_result :: "32 word \<Rightarrow> 32 word" where
  "chmod_result m = m OR (if S_ISDIR m then 0x16D else 0x169)"

definition a_plus_rX :: "32 word \<Rightarrow> 32 word" where
  "a_plus_rX m = m OR 0x124 OR (if S_ISDIR m \<or> m AND 0x49 \<noteq> 0 then 0x49 else 0)"

definition mode_ok :: "32 word \<Rightarrow> bool" where
  "mode_ok m \<longleftrightarrow> m AND 0xFFFF = m"

lemma mode_or:
  assumes "mode_ok m" "c AND 0xFFF = c"
  shows "(m AND 0xF000) OR ((m OR c) AND 0xFFF) = m OR c"
    and "(m AND 0xF000) OR ((m OR c) AND 0xBFF) = (m OR c) AND NOT S_ISGID"
proof -
  have small: "bit m n \<Longrightarrow> n < 16" "bit c n \<Longrightarrow> n < 12" for n
    using arg_cong [OF assms(1) [unfolded mode_ok_def], of "\<lambda>x. bit x n"] arg_cong [OF assms(2), of "\<lambda>x. bit x n"]
    by (simp_all only: bit_and_iff mask_bits) blast+
  show "(m AND 0xF000) OR ((m OR c) AND 0xFFF) = m OR c"
  proof (rule bit_word_eqI)
    fix n
    show "bit ((m AND 0xF000) OR ((m OR c) AND 0xFFF)) n \<longleftrightarrow> bit (m OR c) n"
      using small [of n] by (simp only: bit_and_iff bit_or_iff mask_bits) linarith
  qed
  show "(m AND 0xF000) OR ((m OR c) AND 0xBFF) = (m OR c) AND NOT S_ISGID"
  proof (rule bit_word_eqI)
    fix n :: nat
    assume "n < LENGTH(32)"
    then show "bit ((m AND 0xF000) OR ((m OR c) AND 0xBFF)) n \<longleftrightarrow> bit ((m OR c) AND NOT S_ISGID) n"
      using small [of n] by (simp only: bit_and_iff bit_or_iff bit_not_iff mask_bits) auto
  qed
qed

lemma sys_chmod_result:
  assumes "modes fs p = Some m" "mode_ok m" "c AND 0xFFF = c"
  shows "modes (sys_chmod p (m OR c) fs) =
     (if may_chmod fs p then (modes fs)(p \<mapsto> (if in_group fs p then m OR c else (m OR c) AND NOT S_ISGID)) else modes fs)"
  using assms mode_or by (simp add: sys_chmod_def)

definition new_mode :: "bool \<Rightarrow> 32 word \<Rightarrow> 32 word" where
  "new_mode grp m = (if grp then chmod_result m else chmod_result m AND NOT S_ISGID)"

lemma chmod_one:
  assumes "modes fs p = Some m" "mode_ok m"
  shows "modes (if S_ISDIR m then chmod_directory p m fs else chmod_file p m fs) =
     (if may_chmod fs p then (modes fs)(p \<mapsto> new_mode (in_group fs p) m) else modes fs)"
proof -
  have "bit ((m OR 0x160) AND 0x49) 6" by (simp add: bit_and_iff bit_or_iff)
  then have "(m OR 0x160) AND 0x49 \<noteq> 0" by auto
  then have "chmod_file p m fs = sys_chmod p (m OR 0x169) fs"
    by (simp add: chmod_file_def Let_def or.assoc)
  moreover have "chmod_directory p m fs = sys_chmod p (m OR 0x16D) fs" by (simp add: chmod_directory_def)
  ultimately show ?thesis
    using sys_chmod_result [OF assms, of "0x169"] sys_chmod_result [OF assms, of "0x16D"]
    by (simp add: chmod_result_def new_mode_def)
qed

lemma chmod_keeps [simp]:
  "may_chmod (chmod_directory p m fs) = may_chmod fs" "may_chmod (chmod_file p m fs) = may_chmod fs"
  "in_group (chmod_directory p m fs) = in_group fs" "in_group (chmod_file p m fs) = in_group fs"
  by (simp_all add: chmod_directory_def chmod_file_def Let_def sys_chmod_def split: option.split)

text \<open>A path that is given twice is changed once.\<close>

lemma low_part:
  assumes "c AND 0xFFF = (c :: 32 word)"
  shows "(m OR c) AND 0xF000 = m AND 0xF000" "((m OR c) AND NOT S_ISGID) AND 0xF000 = m AND 0xF000"
proof -
  have small: "bit c n \<Longrightarrow> n < 12" for n
    using arg_cong [OF assms, of "\<lambda>x. bit x n"] by (simp only: bit_and_iff mask_bits) blast
  show "(m OR c) AND 0xF000 = m AND 0xF000"
  proof (rule bit_word_eqI)
    fix n
    show "bit ((m OR c) AND 0xF000) n \<longleftrightarrow> bit (m AND 0xF000) n"
      using small [of n] by (simp only: bit_and_iff bit_or_iff mask_bits) linarith
  qed
  moreover have "(NOT S_ISGID) AND 0xF000 = (0xF000 :: 32 word)" by simp
  ultimately show "((m OR c) AND NOT S_ISGID) AND 0xF000 = m AND 0xF000" by (simp only: and.assoc)
qed

lemma new_mode_dir: "S_ISDIR (new_mode grp m) = S_ISDIR m"
  using low_part [of "0x16D" m] low_part [of "0x169" m] by (simp add: new_mode_def chmod_result_def S_ISDIR_def)

lemma new_mode_idem: "new_mode grp (new_mode grp m) = new_mode grp m"
proof -
  define c :: "32 word" where "c = (if S_ISDIR m then 0x16D else 0x169)"
  have "chmod_result m = m OR c" by (simp add: chmod_result_def c_def)
  moreover have "chmod_result (new_mode grp m) = new_mode grp m OR c"
    by (simp add: chmod_result_def c_def new_mode_dir)
  moreover have "((m OR c) AND x OR c) AND x = (m OR c) AND x" for x
    by (rule bit_eqI) (auto simp only: bit_and_iff bit_or_iff)
  ultimately show ?thesis by (simp only: new_mode_def) (simp add: or.assoc)
qed

lemma new_mode_ok: "mode_ok m \<Longrightarrow> mode_ok (new_mode grp m)"
proof -
  assume m: "mode_ok m"
  have "(m OR c) AND 0xFFFF = (m AND 0xFFFF) OR (c AND 0xFFFF)" for c by (simp add: bit.conj_disj_distrib2)
  then have "mode_ok (chmod_result m)" using m by (simp add: chmod_result_def mode_ok_def)
  moreover have "mode_ok (x AND y)" if "mode_ok x" for x y
    by (rule bit_eqI [of "(x AND y) AND 0xFFFF" "x AND y", folded mode_ok_def])
      (use arg_cong [OF that [unfolded mode_ok_def], of bit] in \<open>simp only: bit_and_iff fun_eq_iff; blast\<close>)
  ultimately show "mode_ok (new_mode grp m)" by (simp only: new_mode_def) simp
qed

text \<open>The whole loop: the paths up to the first one that does not exist are changed.\<close>

abbreviation (input) reached :: "mode_fs \<Rightarrow> string list \<Rightarrow> string list" where
  "reached fs ps \<equiv> takeWhile (\<lambda>p. modes fs p \<noteq> None) ps"

lemma chmod_loop_modes:
  assumes "\<forall>p m. modes fs p = Some m \<longrightarrow> mode_ok m"
  shows "modes (snd (chmod_loop ps fs)) q =
      map_option (\<lambda>m. if q \<in> set (reached fs ps) \<and> may_chmod fs q then new_mode (in_group fs q) m else m) (modes fs q) \<and>
    fst (chmod_loop ps fs) = (if reached fs ps = ps then 0 else 1)"
  using assms
proof (induction ps arbitrary: fs)
  case (Cons p ps)
  show ?case
  proof (cases "modes fs p")
    case (Some m)
    let ?fs = "if S_ISDIR m then chmod_directory p m fs else chmod_file p m fs"
    have m: "modes ?fs = (if may_chmod fs p then (modes fs)(p \<mapsto> new_mode (in_group fs p) m) else modes fs)"
      using chmod_one [OF Some] Cons.prems Some by blast
    then have ok: "\<forall>p m. modes ?fs p = Some m \<longrightarrow> mode_ok m"
      using Cons.prems Some by (auto intro: new_mode_ok split: if_splits)
    have "(modes ?fs q \<noteq> None) = (modes fs q \<noteq> None)" for q using m Some by auto
    then have same: "reached ?fs ps = reached fs ps" "in_group ?fs = in_group fs" "may_chmod ?fs = may_chmod fs" by simp_all
    show ?thesis
      using Cons.IH [OF ok, unfolded same, unfolded m] Some by (auto simp: new_mode_idem)
  qed (simp add: option.map_ident)
qed (simp add: option.map_ident)

lemma chmod_result_spec: "chmod_result m = a_plus_rX m \<longleftrightarrow> S_ISDIR m \<or> m AND 0x49 \<noteq> 0 \<and> m AND S_IROTH \<noteq> 0"
proof -
  have dir: "chmod_result m = a_plus_rX m" if "S_ISDIR m"
    using that by (simp add: chmod_result_def a_plus_rX_def or.assoc)
  have some: "chmod_result m = a_plus_rX m \<longleftrightarrow> m AND S_IROTH \<noteq> 0" if "\<not> S_ISDIR m" "m AND 0x49 \<noteq> 0"
  proof
    assume e: "chmod_result m = a_plus_rX m"
    have "bit (a_plus_rX m) 2" by (simp add: a_plus_rX_def bit_or_iff)
    then have "bit (m OR 0x169) 2" using e that by (simp add: chmod_result_def)
    then have "bit m 2" by (simp add: bit_or_iff)
    then show "m AND S_IROTH \<noteq> 0" by (simp add: perm_bits)
  next
    assume "m AND S_IROTH \<noteq> 0"
    then have b: "bit m 2" by (simp add: perm_bits)
    have "m OR 4 = m"
    proof (rule bit_word_eqI)
      fix n
      have "(4 :: 32 word) = 2 ^ 2" by simp
      then have "bit (4 :: 32 word) n \<longleftrightarrow> n = 2" by (simp only: bit_exp_iff) auto
      then show "bit (m OR 4) n \<longleftrightarrow> bit m n" using b by (auto simp: bit_or_iff)
    qed
    then have "m OR 0x169 = m OR (4 OR 0x169)" by (metis or.assoc)
    then show "chmod_result m = a_plus_rX m" using that by (simp add: chmod_result_def a_plus_rX_def or.assoc)
  qed
  have none: "chmod_result m \<noteq> a_plus_rX m" if "\<not> S_ISDIR m" "m AND 0x49 = 0"
  proof -
    have "\<not> bit (m AND 0x49) 0" unfolding that(2) by simp
    then have "\<not> bit (m OR 0x124) 0" by (simp add: bit_and_iff bit_or_iff)
    moreover have "bit (m OR 0x169) 0" by (simp add: bit_or_iff)
    ultimately show ?thesis using that by (auto simp: chmod_result_def a_plus_rX_def)
  qed
  from dir some none show ?thesis by blast
qed

lemma chmod_permissions:
  assumes "\<forall>p m. modes fs p = Some m \<longrightarrow> mode_ok m"
  shows "fst (chmod_main (prog # ps) fs) = (if ps \<noteq> [] \<and> reached fs ps = ps then 0 else 1) \<and>
    modes (snd (chmod_main (prog # ps) fs)) q =
      map_option (\<lambda>m. if q \<in> set (reached fs ps) \<and> may_chmod fs q
        then (if in_group fs q then chmod_result m else chmod_result m AND NOT S_ISGID) else m) (modes fs q) \<and>
    (chmod_result m = a_plus_rX m \<longleftrightarrow> S_ISDIR m \<or> m AND 0x49 \<noteq> 0 \<and> m AND S_IROTH \<noteq> 0) \<and>
    (filePermStr m FP_SPECIAL = filePermStr m' FP_SPECIAL \<longleftrightarrow> m AND 0xFFF = m' AND 0xFFF)"
proof (intro conjI)
  have eq: "chmod_main (prog # ps) fs = (if ps = [] then (1, fs) else chmod_loop ps fs)"
    by (cases ps) (simp_all add: chmod_main_def)
  show "fst (chmod_main (prog # ps) fs) = (if ps \<noteq> [] \<and> reached fs ps = ps then 0 else 1)"
    using chmod_loop_modes [OF assms, of ps] unfolding eq by simp
  show "modes (snd (chmod_main (prog # ps) fs)) q =
      map_option (\<lambda>m. if q \<in> set (reached fs ps) \<and> may_chmod fs q
        then (if in_group fs q then chmod_result m else chmod_result m AND NOT S_ISGID) else m) (modes fs q)"
    using chmod_loop_modes [OF assms, of ps q] unfolding eq new_mode_def by (cases "ps = []") (auto simp: option.map_ident)
qed (fact chmod_result_spec filePermStr_inj)+

end
