(* ===== verification/AttrBits.thy ===== *)
theory AttrBits
  imports Chattr Perms
begin

text \<open>
  The two programs that change the bits of an i-node, \<open>15-file-attributes/chattr.c\<close> (Chattr) and
  \<open>15-file-attributes/exercise6_chmod.c\<close> (Perms): what they do to all the files of a command line.
\<close>



end
