(* ===== verification/Env.thy ===== *)
theory Env
  imports CString
begin

text \<open>
  \<open>proc/setenv.c\<close>: \<open>setenv\<close> and \<open>unsetenv\<close> written with \<open>getenv\<close> and \<open>putenv\<close>. The environment is
  the list of strings that \<open>environ\<close> points to.
\<close>

text \<open>\<open>strncmp(e, name, strlen(name)) == 0 && e[strlen(name)] == '='\<close>\<close>

definition is_def_of :: "string \<Rightarrow> string \<Rightarrow> bool" where
  "is_def_of name e \<longleftrightarrow> take (length name) e = name \<and> (e @ [NUL]) ! length name = CHR ''=''"

text \<open>\<open>getenv\<close> returns the value in the first string that defines the name.\<close>

definition getenv :: "string \<Rightarrow> string list \<Rightarrow> string option" where
  "getenv name environ = map_option (drop (length name + 1)) (find (is_def_of name) environ)"

text \<open>
  The removal loop: an entry that matches is overwritten by its successors, and the same
  position is looked at again; another entry is kept and the next one looked at.
\<close>

fun unsetenv_loop :: "string \<Rightarrow> string list \<Rightarrow> string list" where
  "unsetenv_loop name [] = []"
| "unsetenv_loop name (e # es) =
     (if is_def_of name e then unsetenv_loop name es else e # unsetenv_loop name es)"

definition bad_name :: "string option \<Rightarrow> bool" where
  "bad_name name = (case name of None \<Rightarrow> True | Some s \<Rightarrow> s = [] \<or> strchr s CHR ''='' \<noteq> None)"

definition unsetenv :: "string option \<Rightarrow> string list \<Rightarrow> unit result \<times> string list" where
  "unsetenv name environ =
     (if bad_name name then (Inl EINVAL, environ) else (Inr (), unsetenv_loop (the name) environ))"

text \<open>
  \<open>putenv\<close> replaces the first definition of the same name or adds the string at the end.
  \<open>mem\<close> and \<open>penv\<close> say whether \<open>malloc\<close> and \<open>putenv\<close> find memory.
\<close>

fun put_entry :: "string \<Rightarrow> string \<Rightarrow> string list \<Rightarrow> string list" where
  "put_entry name s [] = [s]"
| "put_entry name s (e # es) = (if is_def_of name e then s # es else e # put_entry name s es)"

definition putenv :: "string \<Rightarrow> string list \<Rightarrow> string list" where
  "putenv s environ = put_entry (takeWhile (\<lambda>c. c \<noteq> CHR ''='') s) s environ"

definition setenv ::
    "bool \<Rightarrow> bool \<Rightarrow> string option \<Rightarrow> string option \<Rightarrow> bool \<Rightarrow> string list \<Rightarrow> unit result \<times> string list" where
  "setenv mem penv name value overwrite environ =
     (if bad_name name \<or> value = None then (Inl EINVAL, environ)
      else if getenv (the name) environ \<noteq> None \<and> \<not> overwrite then (Inr (), environ)
      else
        (let environ1 = snd (unsetenv name environ)
         in if \<not> mem then (Inl ENOMEM, environ1)
            else
              (let es = the name @ ''='' @ the value
               in if penv then (Inr (), putenv es environ1) else (Inl ENOMEM, environ1))))"

section \<open>Lemmas\<close>

definition good_name :: "string \<Rightarrow> bool" where
  "good_name n \<longleftrightarrow> n \<noteq> [] \<and> CHR ''='' \<notin> set n"

lemma bad_name_iff: "bad_name (Some n) \<longleftrightarrow> \<not> good_name n"
  by (auto simp: bad_name_def good_name_def strchr_None)

lemma is_def_of_iff: "is_def_of name e \<longleftrightarrow> (\<exists>v. e = name @ CHR ''='' # v)"
proof
  assume d: "is_def_of name e"
  then have l: "length name < length e"
    by (auto simp: is_def_of_def nth_append split: if_splits)
  with d have "e = name @ CHR ''='' # drop (Suc (length name)) e"
    by (auto simp: is_def_of_def nth_append) (metis append_take_drop_id Cons_nth_drop_Suc)
  then show "\<exists>v. e = name @ CHR ''='' # v" by blast
qed (auto simp: is_def_of_def nth_append)

lemma unsetenv_loop_filter: "unsetenv_loop name es = filter (\<lambda>e. \<not> is_def_of name e) es"
  by (induction es) auto

lemma name_of_entry: "good_name n \<Longrightarrow> takeWhile (\<lambda>c. c \<noteq> CHR ''='') (n @ CHR ''='' # v) = n"
  by (rule takeWhile_append_hit) (auto simp: good_name_def)

lemma is_def_of_unique:
  "good_name n \<Longrightarrow> good_name m \<Longrightarrow> is_def_of n e \<Longrightarrow> is_def_of m e \<Longrightarrow> n = m"
proof -
  assume n: "good_name n" "good_name m" and "is_def_of n e" "is_def_of m e"
  then obtain v w where "n @ CHR ''='' # v = m @ CHR ''='' # w" by (auto simp: is_def_of_iff)
  then have "takeWhile (\<lambda>c. c \<noteq> CHR ''='') (n @ CHR ''='' # v) = takeWhile (\<lambda>c. c \<noteq> CHR ''='') (m @ CHR ''='' # w)"
    by simp
  with n show "n = m" by (simp only: name_of_entry)
qed

lemma getenv_filter_other:
  "good_name n \<Longrightarrow> good_name m \<Longrightarrow> n \<noteq> m \<Longrightarrow>
   getenv m (filter (\<lambda>e. \<not> is_def_of n e) es) = getenv m es"
proof (induction es)
  case (Cons e es)
  then show ?case using is_def_of_unique [of n m e] by (auto simp: getenv_def)
qed simp

lemma getenv_None: "getenv n es = None \<longleftrightarrow> (\<forall>e\<in>set es. \<not> is_def_of n e)"
  by (auto simp: getenv_def find_None_iff)

lemma put_entry_new: "getenv n es = None \<Longrightarrow> put_entry n s es = es @ [s]"
  by (induction es) (auto simp: getenv_None)

lemma getenv_append:
  "getenv m (es @ [s]) = (case getenv m es of Some v \<Rightarrow> Some v | None \<Rightarrow>
     if is_def_of m s then Some (drop (length m + 1) s) else None)"
  by (induction es) (auto simp: getenv_def split: option.splits)

lemma putenv_new:
  "good_name n \<Longrightarrow> getenv n es = None \<Longrightarrow> putenv (n @ CHR ''='' # v) es = es @ [n @ CHR ''='' # v]"
  by (simp add: putenv_def name_of_entry put_entry_new)

lemma setenv_unsetenv_map:
  assumes "good_name n" "good_name m" "m \<noteq> n"
  shows "(\<exists>es'. unsetenv (Some n) es = (Inr (), es') \<and> getenv n es' = None \<and> getenv m es' = getenv m es) \<and>
    (ow \<or> getenv n es = None \<longrightarrow> (\<exists>es'. setenv True True (Some n) (Some v) ow es = (Inr (), es') \<and>
       getenv n es' = Some v \<and> length (filter (is_def_of n) es') = 1 \<and> getenv m es' = getenv m es)) \<and>
    (getenv n es \<noteq> None \<longrightarrow> setenv mem penv (Some n) (Some v) False es = (Inr (), es)) \<and>
    (\<not> (mem \<and> penv) \<and> ow \<longrightarrow> (\<exists>es'. setenv mem penv (Some n) (Some v) ow es = (Inl ENOMEM, es') \<and>
       getenv n es' = None \<and> getenv m es' = getenv m es)) \<and>
    (\<not> good_name b \<longrightarrow> setenv mem penv (Some b) (Some v) ow es = (Inl EINVAL, es) \<and>
       unsetenv (Some b) es = (Inl EINVAL, es))"
proof -
  let ?f = "filter (\<lambda>e. \<not> is_def_of n e) es"
  have b: "\<not> bad_name (Some n)" using assms(1) by (simp add: bad_name_iff)
  have u: "unsetenv (Some n) es = (Inr (), ?f)" using b by (simp add: unsetenv_def unsetenv_loop_filter)
  have none: "getenv n ?f = None" by (simp add: getenv_None)
  have other: "getenv m ?f = getenv m es" using getenv_filter_other assms by metis
  have put: "putenv (n @ CHR ''='' # v) ?f = ?f @ [n @ CHR ''='' # v]"
    by (rule putenv_new [OF assms(1) none])
  have d: "is_def_of n (n @ CHR ''='' # v)" by (auto simp: is_def_of_iff)
  then have nd: "\<not> is_def_of m (n @ CHR ''='' # v)" using is_def_of_unique assms by metis
  show ?thesis
  proof (intro conjI impI)
    assume "ow \<or> getenv n es = None"
    then show "\<exists>es'. setenv True True (Some n) (Some v) ow es = (Inr (), es') \<and>
       getenv n es' = Some v \<and> length (filter (is_def_of n) es') = 1 \<and> getenv m es' = getenv m es"
      using b u none other put d nd by (auto simp: setenv_def Let_def getenv_append split: option.splits)
  qed (use b u none other in \<open>auto simp: setenv_def Let_def unsetenv_def bad_name_iff\<close>)
qed

end
