(* ===== verification/Exec.thy ===== *)
theory Exec
  imports CString
begin

text \<open>
  \<open>procexec/execlp.c\<close>: \<open>execlp\<close> written with \<open>execve\<close>. \<open>execve path argv envp\<close> is the error with
  which the system call fails for these arguments, or \<open>None\<close> when it does not return. A write
  outside an array is the outcome \<open>Undefined\<close>.
\<close>

datatype exec_outcome =
    Execs string "string list" "string list"
  | Returns errno
  | Undefined string

type_synonym execve = "string \<Rightarrow> string list \<Rightarrow> string list \<Rightarrow> errno option"

section \<open>The argument vector\<close>

text \<open>
  \<open>argv\<close> holds the entries written so far, \<open>cap\<close> is the number of entries that are really
  allocated: \<open>realloc(argv, sizeof(void *))\<close> leaves one.
\<close>

definition push_arg ::
    "nat \<times> nat \<times> string option list \<Rightarrow> string option \<Rightarrow> (nat \<times> nat \<times> string option list) option" where
  "push_arg st a =
     (case st of (argvSize, cap, argv) \<Rightarrow>
        let (argvSize', cap') = (if argvSize \<le> length argv + 1 then (argvSize + 100, 1) else (argvSize, cap))
        in if cap' \<le> length argv then None else Some (argvSize', cap', argv @ [a]))"

fun build_argv :: "nat \<times> nat \<times> string option list \<Rightarrow> string list \<Rightarrow> (nat \<times> nat \<times> string option list) option" where
  "build_argv st [] = push_arg st None"
| "build_argv st (a # va) =
     (case push_arg st (Some a) of None \<Rightarrow> None | Some st' \<Rightarrow> build_argv st' va)"

section \<open>Running a script with the shell\<close>

abbreviation (input) SHELL_PATH :: string where "SHELL_PATH \<equiv> ''/bin/sh''"

text \<open>
  \<open>shArgv\<close> has \<open>argc + 1\<close> entries, where \<open>argc\<close> counts the null pointer at the end of \<open>argv\<close>; entry
  0 and then, in the loop, the entries 1 to \<open>argc + 1\<close> are written.
\<close>

definition execShScript :: "execve \<Rightarrow> nat \<Rightarrow> string list \<Rightarrow> string list \<Rightarrow> exec_outcome option" where
  "execShScript execve argc argv envp =
     (let written = 0 # map (\<lambda>j. j + 1) [0..<argc + 1]; shArgv = SHELL_PATH # argv
      in if \<exists>j\<in>set written. argc + 1 \<le> j then Some (Undefined ''shArgv'')
         else (case execve SHELL_PATH shArgv envp of
                 None \<Rightarrow> Some (Execs SHELL_PATH shArgv envp)
               | Some e \<Rightarrow> None))"

section \<open>The search\<close>

definition join_path :: "string \<Rightarrow> string \<Rightarrow> string" where
  "join_path prefix filename = (if prefix = [] then ''.'' else prefix) @ ''/'' @ filename"

text \<open>One turn: the outcome if it ends the search, or the error and whether it is \<open>EACCES\<close>.\<close>

definition try_exec :: "execve \<Rightarrow> nat \<Rightarrow> string list \<Rightarrow> string list \<Rightarrow> string \<Rightarrow> exec_outcome + errno" where
  "try_exec execve argc argv envp path =
     (case execve path argv envp of
        None \<Rightarrow> Inl (Execs path argv envp)
      | Some e \<Rightarrow>
          if e = ENOEXEC then (case execShScript execve argc argv envp of Some u \<Rightarrow> Inl u | None \<Rightarrow> Inr e) else Inr e)"

function search_path ::
    "execve \<Rightarrow> nat \<Rightarrow> string list \<Rightarrow> string list \<Rightarrow> string \<Rightarrow> bool \<Rightarrow> string \<Rightarrow> exec_outcome" where
  "search_path execve argc argv envp filename fndEACCES prStart =
     (let (prefix, more) =
            (case strchr prStart CHR '':'' of None \<Rightarrow> (prStart, None) | Some (pre, rest) \<Rightarrow> (pre, Some rest))
      in case try_exec execve argc argv envp (join_path prefix filename) of
           Inl out \<Rightarrow> out
         | Inr e \<Rightarrow>
             (let fnd = (e = EACCES \<or> fndEACCES)
              in case more of
                   None \<Rightarrow> Returns (if fnd then EACCES else e)
                 | Some rest \<Rightarrow> search_path execve argc argv envp filename fnd rest))"
  by pat_completeness auto
termination
proof (relation "measure (\<lambda>(_, _, _, _, _, _, s). length s)")
  fix execve :: execve and argc argv envp filename fndEACCES prStart p prefix more e fnd rest
  assume "p = (case strchr prStart CHR '':'' of None \<Rightarrow> (prStart, None) | Some (pre, rest) \<Rightarrow> (pre, Some rest))"
    "(prefix, more) = p" "more = Some rest"
  then obtain pre where "strchr prStart CHR '':'' = Some (pre, rest)" by (auto split: option.splits)
  then have "prStart = pre @ CHR '':'' # rest" using strchr_Some by metis
  then show "((execve, argc, argv, envp, filename, fnd, rest), execve, argc, argv, envp, filename, fndEACCES, prStart)
      \<in> measure (\<lambda>(_, _, _, _, _, _, s). length s)" by simp
qed simp

declare search_path.simps [simp del]

text \<open>
  \<open>PATH\<close> is the value of the variable. The first argument and the ones after it are \<open>args\<close>; memory
  is taken to be available.
\<close>

definition execlp :: "execve \<Rightarrow> string option \<Rightarrow> string list \<Rightarrow> string \<Rightarrow> string list \<Rightarrow> exec_outcome" where
  "execlp execve PATH environ filename args =
     (case (case args of
              [] \<Rightarrow> Some (100, 100, [None])
            | a # va \<Rightarrow> build_argv (100, 100, [Some a]) va) of
        None \<Rightarrow> Undefined ''argv''
      | Some (_, _, entries) \<Rightarrow>
          (let argc = length entries; argv = map the (butlast entries); envp = environ
           in if strchr filename CHR ''/'' \<noteq> None then
                (case try_exec execve argc argv envp filename of Inl out \<Rightarrow> out | Inr e \<Rightarrow> Returns e)
              else
                search_path execve argc argv envp filename False
                  (case PATH of None \<Rightarrow> ''.'' | Some p \<Rightarrow> if p = [] then ''.'' else p)))"

section \<open>What the search promises\<close>

text \<open>The directories of a path list, in order; an empty one stands for the working directory.\<close>

function split_colon :: "string \<Rightarrow> string list" where
  "split_colon s = (case strchr s CHR '':'' of None \<Rightarrow> [s] | Some (a, b) \<Rightarrow> a # split_colon b)"
  by pat_completeness auto
termination
proof (relation "measure length")
  fix s :: string and x a b
  assume "strchr s CHR '':'' = Some x" "(a, b) = x"
  then have "s = a @ CHR '':'' # b" using strchr_Some by metis
  then show "(b, s) \<in> measure length" by simp
qed simp

declare split_colon.simps [simp del]

fun first_runnable :: "(string \<Rightarrow> errno option) \<Rightarrow> string list \<Rightarrow> errno option \<Rightarrow> bool \<Rightarrow> errno + string" where
  "first_runnable ex [] e acc = Inl (if acc then EACCES else the e)"
| "first_runnable ex (p # ps) e acc =
     (case ex p of
        None \<Rightarrow> Inr p
      | Some e' \<Rightarrow> first_runnable ex ps (Some e') (acc \<or> e' = EACCES))"

lemma search_path_split:
  assumes "\<forall>d\<in>set (split_colon path). execve (join_path d filename) argv envp \<noteq> Some ENOEXEC"
  shows "search_path execve argc argv envp filename acc path =
    (case first_runnable (\<lambda>p. execve p argv envp) (map (\<lambda>d. join_path d filename) (split_colon path)) x acc of
       Inr p \<Rightarrow> Execs p argv envp | Inl e \<Rightarrow> Returns e)"
  using assms
proof (induction path arbitrary: acc x rule: split_colon.induct)
  case (1 path)
  show ?case
  proof (cases "strchr path CHR '':''")
    case None
    then have "split_colon path = [path]" by (simp add: split_colon.simps)
    then show ?thesis using None "1.prems"
      by (subst search_path.simps) (auto simp: try_exec_def split: option.splits)
  next
    case (Some ab)
    then obtain a b where ab: "strchr path CHR '':'' = Some (a, b)" by (cases ab) auto
    then have s: "split_colon path = a # split_colon b" by (simp add: split_colon.simps)
    show ?thesis
    proof (cases "execve (join_path a filename) argv envp")
      case None
      then show ?thesis using ab s by (subst search_path.simps) (simp add: try_exec_def)
    next
      case e: (Some e)
      have "e \<noteq> ENOEXEC" using "1.prems" s e by auto
      moreover have "search_path execve argc argv envp filename (e = EACCES \<or> acc) b =
          (case first_runnable (\<lambda>p. execve p argv envp) (map (\<lambda>d. join_path d filename) (split_colon b))
             (Some e) (e = EACCES \<or> acc) of Inr p \<Rightarrow> Execs p argv envp | Inl e \<Rightarrow> Returns e)"
        using "1.IH" [OF ab refl] "1.prems" s by simp
      ultimately show ?thesis
        using ab s e by (subst search_path.simps) (simp add: try_exec_def Let_def disj_commute)
    qed
  qed
qed

lemma push_arg_ok:
  "length argv + 1 < 100 \<Longrightarrow> push_arg (100, 100, argv) a = Some (100, 100, argv @ [a])"
  by (simp add: push_arg_def)

lemma build_argv_ok:
  "length argv + length va + 1 < 100 \<Longrightarrow>
   build_argv (100, 100, argv) va = Some (100, 100, argv @ map Some va @ [None])"
  by (induction va arbitrary: argv) (simp_all add: push_arg_ok)

lemma build_argv_overflow:
  "length argv + length va + 1 \<ge> 100 \<Longrightarrow> length argv < 100 \<Longrightarrow> argv \<noteq> [] \<Longrightarrow>
   build_argv (100, 100, argv) va = None"
proof (induction va arbitrary: argv)
  case Nil
  then have "length argv = 99" by simp
  then show ?case by (simp add: push_arg_def)
next
  case (Cons a va)
  then show ?case
    by (cases "length argv = 99") (simp_all add: push_arg_def)
qed

lemma execShScript_overflows: "execShScript execve argc argv envp = Some (Undefined ''shArgv'')"
  by (auto simp: execShScript_def Let_def intro: bexI [of _ argc])

lemma execlp_search:
  assumes "args \<noteq> []"
  shows "(length args \<le> 98 \<and> CHR ''/'' \<notin> set filename \<and>
      path = (case PATH of None \<Rightarrow> ''.'' | Some p \<Rightarrow> if p = [] then ''.'' else p) \<and>
      (\<forall>d\<in>set (split_colon path). execve (join_path d filename) args environ \<noteq> Some ENOEXEC) \<longrightarrow>
      execlp execve PATH environ filename args =
        (case first_runnable (\<lambda>p. execve p args environ)
                (map (\<lambda>d. join_path d filename) (split_colon path)) None False of
           Inr p \<Rightarrow> Execs p args environ | Inl e \<Rightarrow> Returns e)) \<and>
    (length args \<le> 98 \<and> CHR ''/'' \<in> set filename \<longrightarrow>
      execlp execve PATH environ filename args =
        (case execve filename args environ of
           None \<Rightarrow> Execs filename args environ
         | Some e \<Rightarrow> if e = ENOEXEC then Undefined ''shArgv'' else Returns e)) \<and>
    (99 \<le> length args \<longrightarrow> execlp execve PATH environ filename args = Undefined ''argv'')"
proof -
  obtain a va where a: "args = a # va" using assms by (cases args) auto
  have ok: "build_argv (100, 100, [Some a]) va = Some (100, 100, [Some a] @ map Some va @ [None])"
    if "length args \<le> 98"
    using that a build_argv_ok [of "[Some a]" va] by simp
  have bad: "build_argv (100, 100, [Some a]) va = None" if "99 \<le> length args"
    using that a build_argv_overflow [of "[Some a]" va] by simp
  have m: "map the (butlast ([Some a] @ map Some va @ [None])) = args"
    by (simp add: a butlast_append)
  show ?thesis
  proof (intro conjI impI, goal_cases)
    case 1
    then show ?case
      using ok m search_path_split [of path execve filename args environ _ False None]
      by (simp add: execlp_def a strchr_miss del: butlast.simps)
  next
    case 2
    then have "strchr filename CHR ''/'' \<noteq> None" by (simp add: strchr_None)
    with 2 show ?case
      using ok m execShScript_overflows
      by (simp add: execlp_def a try_exec_def split: option.splits del: butlast.simps)
  next
    case 3
    then show ?case using bad by (simp add: execlp_def a)
  qed
qed

end
