(* ===== verification/EnvExec.thy ===== *)
theory EnvExec
  imports Env Exec
begin

text \<open>
  The environment and the search for programs together: what \<open>setenv\<close> stores under \<open>PATH\<close> is what \<open>execlp\<close> searches.
\<close>



end
