(* ===== verification/Files.thy ===== *)
theory Files
  imports StreamIO
begin

text \<open>
  Regular files, open file descriptions and the descriptor table of a process, as POSIX
  describes them and the programs of chapters 4, 5 and 13 use them, with the duplication
  calls of \<open>05-file-io-further-details/dup.c\<close>, which are written over \<open>fcntl\<close> and \<open>close\<close>.
\<close>

section \<open>One open file\<close>

text \<open>
  An open file on its own: the content and the offset. Reading stops at the end; writing
  overwrites, extends, and fills a gap before the offset with null bytes.
\<close>

record cursor =
  content :: "byte list"
  offset :: nat

definition write_at :: "nat \<Rightarrow> byte list \<Rightarrow> byte list \<Rightarrow> byte list" where
  "write_at p bs d =
     (if bs = [] then d
      else take p (d @ replicate (p - length d) NUL) @ bs @ drop (p + length bs) d)"

definition file_read :: "cursor reader" where
  "file_read f n =
     (let bs = take n (drop (offset f) (content f))
      in (Inr bs, f\<lparr>offset := offset f + length bs\<rparr>))"

definition file_write :: "cursor writer" where
  "file_write f bs =
     (Inr (length bs),
      f\<lparr>content := write_at (offset f) bs (content f), offset := offset f + length bs\<rparr>)"

lemma write_at_end [simp]: "write_at (length d) bs d = d @ bs"
  by (simp add: write_at_def)

lemma length_write_at:
  "bs \<noteq> [] \<Longrightarrow> length (write_at p bs d) = max (length d) (p + length bs)"
  by (auto simp: write_at_def)

lemma take_write_at: "p \<le> length d \<Longrightarrow> take (p + length bs) (write_at p bs d) = take p d @ bs"
  by (auto simp: write_at_def)

lemma nth_write_at:
  assumes "i < length (write_at p bs d)"
  shows "write_at p bs d ! i =
    (if p \<le> i \<and> i < p + length bs then bs ! (i - p) else if i < length d then d ! i else NUL)"
  using assms by (auto simp: write_at_def nth_append min_def)

lemma drop_take_min: "drop p c = take n (drop p c) @ drop (p + min (length c - p) n) c"
  by (cases "n \<le> length c - p") (simp_all add: add.commute flip: drop_drop)

interpretation regular_in: input_fd file_read "\<lambda>f. drop (offset f) (content f)" "\<lambda>_. None" "\<lambda>_. 0"
  by unfold_locales (auto simp: file_read_def Let_def simp flip: drop_take_min)

text \<open>
  The bytes before the offset are what has been written so far; the offset must not lie
  beyond the end.
\<close>

definition in_file :: "cursor \<Rightarrow> bool" where
  "in_file f \<longleftrightarrow> offset f \<le> length (content f)"

definition fwrite_in :: "cursor writer" where
  "fwrite_in f bs = (if in_file f then file_write f bs else (Inl EFBIG, f))"

interpretation regular_out: output_fd fwrite_in "\<lambda>f. take (offset f) (content f)"
    "\<lambda>f. if in_file f then None else Some 0" "\<lambda>_. 0"
  by unfold_locales
    (auto simp: fwrite_in_def file_write_def in_file_def take_write_at length_write_at
      split: if_splits)

section \<open>Descriptors\<close>

record open_file =
  of_ino :: nat
  of_pos :: nat
  of_append :: bool
  of_rd :: bool
  of_wr :: bool

record fdesc =
  fd_of :: nat
  fd_cloexec :: bool

text \<open>
  \<open>dir\<close> names the files, \<open>bytes\<close> holds their contents, \<open>oft\<close> the open file descriptions and
  \<open>fdt\<close> the descriptor table, whose length is the limit on open files; \<open>denied\<close> gives the
  error with which opening a path fails, \<open>media\<close> the error with which reading a file fails,
  and no file grows beyond \<open>fsize_max\<close> bytes.
\<close>

record kernel =
  dir :: "string \<rightharpoonup> nat"
  bytes :: "nat \<Rightarrow> byte list"
  inodes :: nat
  oft :: "open_file list"
  fdt :: "fdesc option list"
  denied :: "string \<rightharpoonup> errno"
  media :: "nat \<rightharpoonup> errno"
  fsize_max :: nat

definition fd_get :: "kernel \<Rightarrow> int \<Rightarrow> fdesc option" where
  "fd_get k fd = (if 0 \<le> fd \<and> nat fd < length (fdt k) then fdt k ! nat fd else None)"

definition lowest_free :: "nat \<Rightarrow> fdesc option list \<Rightarrow> nat option" where
  "lowest_free lo t = find (\<lambda>i. t ! i = None) [lo..<length t]"

definition fcntl_getfd :: "int \<Rightarrow> kernel \<Rightarrow> bool result" where
  "fcntl_getfd fd k = (case fd_get k fd of None \<Rightarrow> Inl EBADF | Some d \<Rightarrow> Inr (fd_cloexec d))"

definition fcntl_dupfd :: "int \<Rightarrow> int \<Rightarrow> kernel \<Rightarrow> int result \<times> kernel" where
  "fcntl_dupfd fd arg k =
     (case fd_get k fd of
        None \<Rightarrow> (Inl EBADF, k)
      | Some d \<Rightarrow>
          if arg < 0 \<or> int (length (fdt k)) \<le> arg then (Inl EINVAL, k)
          else (case lowest_free (nat arg) (fdt k) of
                  None \<Rightarrow> (Inl EMFILE, k)
                | Some i \<Rightarrow> (Inr (int i), k\<lparr>fdt := (fdt k)[i := Some (d\<lparr>fd_cloexec := False\<rparr>)]\<rparr>)))"

definition sys_close :: "int \<Rightarrow> kernel \<Rightarrow> unit result \<times> kernel" where
  "sys_close fd k =
     (case fd_get k fd of
        None \<Rightarrow> (Inl EBADF, k)
      | Some _ \<Rightarrow> (Inr (), k\<lparr>fdt := (fdt k)[nat fd := None]\<rparr>))"

lemma lowest_free_here: "lo < length t \<Longrightarrow> t ! lo = None \<Longrightarrow> lowest_free lo t = Some lo"
  by (simp add: lowest_free_def upt_conv_Cons)

lemma lowest_free_Some:
  "lowest_free lo t = Some i \<Longrightarrow>
   lo \<le> i \<and> i < length t \<and> t ! i = None \<and> (\<forall>j. lo \<le> j \<and> j < i \<longrightarrow> t ! j \<noteq> None)"
proof -
  assume "lowest_free lo t = Some i"
  then obtain m where m: "m < length t - lo" "i = lo + m" "t ! i = None"
    "\<And>j. j < m \<Longrightarrow> t ! ([lo..<length t] ! j) \<noteq> None"
    by (auto simp: lowest_free_def find_Some_iff)
  have "t ! j \<noteq> None" if "lo \<le> j" "j < i" for j
    using m(4) [of "j - lo"] m(1,2) that by simp
  with m show ?thesis by auto
qed

lemma lowest_free_None:
  "lowest_free lo t = None \<longleftrightarrow> (\<forall>j. lo \<le> j \<and> j < length t \<longrightarrow> t ! j \<noteq> None)"
  by (auto simp: lowest_free_def find_None_iff)

section \<open>open, read, write and lseek\<close>

datatype open_flag = O_RDONLY | O_WRONLY | O_RDWR | O_CREAT | O_TRUNC | O_APPEND | O_EXCL

definition new_open_file :: "nat \<Rightarrow> open_flag list \<Rightarrow> open_file" where
  "new_open_file ino fl =
     \<lparr>of_ino = ino, of_pos = 0, of_append = O_APPEND \<in> set fl,
      of_rd = (O_RDONLY \<in> set fl \<or> O_RDWR \<in> set fl),
      of_wr = (O_WRONLY \<in> set fl \<or> O_RDWR \<in> set fl)\<rparr>"

definition install :: "nat \<Rightarrow> nat \<Rightarrow> open_flag list \<Rightarrow> kernel \<Rightarrow> kernel" where
  "install i ino fl k =
     k\<lparr>oft := oft k @ [new_open_file ino fl],
       fdt := (fdt k)[i := Some \<lparr>fd_of = length (oft k), fd_cloexec = False\<rparr>]\<rparr>"

definition sys_open :: "string \<Rightarrow> open_flag list \<Rightarrow> kernel \<Rightarrow> int result \<times> kernel" where
  "sys_open path fl k =
     (case denied k path of
        Some e \<Rightarrow> (Inl e, k)
      | None \<Rightarrow>
          (case lowest_free 0 (fdt k) of
             None \<Rightarrow> (Inl EMFILE, k)
           | Some i \<Rightarrow>
               (case dir k path of
                  Some ino \<Rightarrow>
                    if O_CREAT \<in> set fl \<and> O_EXCL \<in> set fl then (Inl EEXIST, k)
                    else (Inr (int i), install i ino fl
                           (if O_TRUNC \<in> set fl then k\<lparr>bytes := (bytes k)(ino := [])\<rparr> else k))
                | None \<Rightarrow>
                    if O_CREAT \<notin> set fl then (Inl ENOENT, k)
                    else (Inr (int i), install i (inodes k) fl
                           (k\<lparr>dir := (dir k)(path \<mapsto> inodes k),
                              bytes := (bytes k)(inodes k := []), inodes := Suc (inodes k)\<rparr>)))))"

definition of_get :: "kernel \<Rightarrow> int \<Rightarrow> open_file option" where
  "of_get k fd = (case fd_get k fd of
     None \<Rightarrow> None | Some d \<Rightarrow> if fd_of d < length (oft k) then Some (oft k ! fd_of d) else None)"

definition of_put :: "int \<Rightarrow> open_file \<Rightarrow> kernel \<Rightarrow> kernel" where
  "of_put fd f k = (case fd_get k fd of
     None \<Rightarrow> k | Some d \<Rightarrow> k\<lparr>oft := (oft k)[fd_of d := f]\<rparr>)"

definition sys_read :: "int \<Rightarrow> kernel reader" where
  "sys_read fd k n =
     (case of_get k fd of
        None \<Rightarrow> (Inl EBADF, k)
      | Some f \<Rightarrow>
          if \<not> of_rd f then (Inl EBADF, k)
          else (case media k (of_ino f) of
             Some e \<Rightarrow> (Inl e, k)
           | None \<Rightarrow>
              (let bs = take n (drop (of_pos f) (bytes k (of_ino f)))
               in (Inr bs, of_put fd (f\<lparr>of_pos := of_pos f + length bs\<rparr>) k))))"

definition sys_write :: "int \<Rightarrow> kernel writer" where
  "sys_write fd k bs =
     (case of_get k fd of
        None \<Rightarrow> (Inl EBADF, k)
      | Some f \<Rightarrow>
          if \<not> of_wr f then (Inl EBADF, k)
          else
            (let p = (if of_append f then length (bytes k (of_ino f)) else of_pos f);
                 m = min (length bs) (fsize_max k - p);
                 d = write_at p (take m bs) (bytes k (of_ino f))
             in if bs \<noteq> [] \<and> m = 0 then (Inl EFBIG, k)
                else (Inr m, of_put fd (f\<lparr>of_pos := p + m\<rparr>)
                               (k\<lparr>bytes := (bytes k)(of_ino f := d)\<rparr>))))"

datatype whence = SEEK_SET | SEEK_CUR | SEEK_END

definition sys_lseek :: "int \<Rightarrow> int \<Rightarrow> whence \<Rightarrow> kernel \<Rightarrow> int result \<times> kernel" where
  "sys_lseek fd off wh k =
     (case of_get k fd of
        None \<Rightarrow> (Inl EBADF, k)
      | Some f \<Rightarrow>
          (let p = off + (case wh of SEEK_SET \<Rightarrow> 0 | SEEK_CUR \<Rightarrow> int (of_pos f)
                          | SEEK_END \<Rightarrow> int (length (bytes k (of_ino f))))
           in if p < 0 then (Inl EINVAL, k)
              else (Inr p, of_put fd (f\<lparr>of_pos := nat p\<rparr>) k)))"

text \<open>The calls seen through one descriptor.\<close>

lemma of_get_bounds: "of_get k fd = Some f \<Longrightarrow> 0 \<le> fd \<and> nat fd < length (fdt k)"
  by (auto simp: of_get_def fd_get_def split: option.splits if_splits)

lemma of_get_put_same [simp]: "of_get k fd = Some f \<Longrightarrow> of_get (of_put fd g k) fd = Some g"
  by (auto simp: of_get_def of_put_def fd_get_def split: option.splits if_splits)

text \<open>Two descriptors are independent when they use different open file descriptions.\<close>

definition indep :: "kernel \<Rightarrow> int \<Rightarrow> int \<Rightarrow> bool" where
  "indep k fd fd' \<longleftrightarrow> (case (fd_get k fd, fd_get k fd') of
     (Some d, Some d') \<Rightarrow> fd_of d \<noteq> fd_of d' | _ \<Rightarrow> False)"

lemma indep_sym: "indep k fd fd' \<Longrightarrow> indep k fd' fd"
  by (auto simp: indep_def split: option.splits)

lemma of_get_put_other [simp]: "indep k fd fd' \<Longrightarrow> of_get (of_put fd g k) fd' = of_get k fd'"
  by (auto simp: indep_def of_get_def of_put_def fd_get_def split: option.splits if_splits)

lemma of_put_simps [simp]:
  "bytes (of_put fd g k) = bytes k" "fdt (of_put fd g k) = fdt k" "dir (of_put fd g k) = dir k"
  "media (of_put fd g k) = media k" "fsize_max (of_put fd g k) = fsize_max k"
  "inodes (of_put fd g k) = inodes k" "denied (of_put fd g k) = denied k"
  by (simp_all add: of_put_def split: option.splits)

lemma fd_get_simps [simp]:
  "fd_get (k\<lparr>bytes := b\<rparr>) fd = fd_get k fd" "fd_get (of_put fd' g k) fd = fd_get k fd"
  by (simp_all add: fd_get_def)

lemma bytes_upd_simps [simp]:
  "of_get (k\<lparr>bytes := b\<rparr>) fd = of_get k fd"
  "indep (k\<lparr>bytes := b\<rparr>) fd fd' = indep k fd fd'"
  "indep (of_put fd'' g k) fd fd' = indep k fd fd'"
  by (simp_all add: of_get_def indep_def split: option.splits)

text \<open>
  A table is well formed when every descriptor refers to an open file description, and every
  name to an existing file.
\<close>

definition wf_kernel :: "kernel \<Rightarrow> bool" where
  "wf_kernel k \<longleftrightarrow>
     (\<forall>d. Some d \<in> set (fdt k) \<longrightarrow> fd_of d < length (oft k)) \<and>
     (\<forall>ino\<in>ran (dir k). ino < inodes k)"

definition free_fds :: "kernel \<Rightarrow> nat" where
  "free_fds k = length (filter (\<lambda>d. d = None) (fdt k))"

lemma free_fds_card: "free_fds k = card {i. i < length (fdt k) \<and> fdt k ! i = None}"
  by (simp add: free_fds_def length_filter_conv_card)

lemma free_fds_used:
  assumes "i < length (fdt k)" "fdt k ! i = None"
  shows "free_fds (k\<lparr>fdt := (fdt k)[i := Some d]\<rparr>) = free_fds k - 1"
proof -
  have "{j. j < length (fdt k) \<and> (fdt k)[i := Some d] ! j = None} =
      {j. j < length (fdt k) \<and> fdt k ! j = None} - {i}"
    using assms by (auto simp: nth_list_update split: if_splits)
  then show ?thesis using assms by (simp add: free_fds_card)
qed

lemma free_fds_lowest:
  assumes "0 < free_fds k"
  obtains i where "lowest_free 0 (fdt k) = Some i" "i < length (fdt k)" "fdt k ! i = None"
proof -
  from assms have "lowest_free 0 (fdt k) \<noteq> None"
    by (auto simp: free_fds_card lowest_free_None card_gt_0_iff)
  then show thesis using that lowest_free_Some by blast
qed

definition open_ino :: "kernel \<Rightarrow> string \<Rightarrow> nat" where
  "open_ino k path = (case dir k path of Some ino \<Rightarrow> ino | None \<Rightarrow> inodes k)"

text \<open>What a successful \<open>open\<close> leaves.\<close>

definition opened :: "kernel \<Rightarrow> string \<Rightarrow> open_flag list \<Rightarrow> int \<Rightarrow> kernel \<Rightarrow> bool" where
  "opened k path fl fd k' \<longleftrightarrow>
     0 \<le> fd \<and> nat fd < length (fdt k) \<and> fdt k ! nat fd = None \<and>
     dir k' = (dir k)(path \<mapsto> open_ino k path) \<and>
     bytes k' = (if O_TRUNC \<in> set fl \<or> dir k path = None
                 then (bytes k)(open_ino k path := []) else bytes k) \<and>
     oft k' = oft k @ [new_open_file (open_ino k path) fl] \<and>
     fdt k' = (fdt k)[nat fd := Some \<lparr>fd_of = length (oft k), fd_cloexec = False\<rparr>] \<and>
     denied k' = denied k \<and> media k' = media k \<and> fsize_max k' = fsize_max k \<and>
     inodes k' = (if dir k path = None then Suc (inodes k) else inodes k)"

lemma sys_open_ok:
  assumes "denied k path = None" "0 < free_fds k" "O_EXCL \<notin> set fl"
    "dir k path = None \<Longrightarrow> O_CREAT \<in> set fl"
  obtains fd k' where "sys_open path fl k = (Inr fd, k')" "opened k path fl fd k'"
proof -
  obtain i where i: "lowest_free 0 (fdt k) = Some i" "i < length (fdt k)" "fdt k ! i = None"
    using free_fds_lowest [OF assms(2)] .
  have "\<exists>k'. sys_open path fl k = (Inr (int i), k')"
    using assms i by (cases "dir k path") (auto simp: sys_open_def)
  then obtain k' where "sys_open path fl k = (Inr (int i), k')" ..
  moreover from this have "opened k path fl (int i) k'"
    using assms i
    by (auto simp: sys_open_def opened_def open_ino_def install_def fun_upd_idem split: option.splits)
  ultimately show thesis using that by blast
qed

lemma opened_get: "opened k path fl fd k' \<Longrightarrow> of_get k' fd = Some (new_open_file (open_ino k path) fl)"
  by (auto simp: opened_def of_get_def fd_get_def)

lemma opened_other:
  assumes "wf_kernel k" "opened k path fl fd k'" "of_get k fd' = Some f"
  shows "of_get k' fd' = Some f" and "indep k' fd fd'" and "fd \<noteq> fd'"
proof -
  from assms(3) obtain d where d: "fd_get k fd' = Some d" "fd_of d < length (oft k)"
      "oft k ! fd_of d = f"
    by (auto simp: of_get_def split: option.splits if_splits)
  from d(1) have b: "0 \<le> fd'" "nat fd' < length (fdt k)" "fdt k ! nat fd' = Some d"
    by (auto simp: fd_get_def split: if_splits)
  with assms(2) show "fd \<noteq> fd'" by (auto simp: opened_def)
  with assms(2) b have "nat fd \<noteq> nat fd'" by (auto simp: opened_def)
  with assms(2) b have "fd_get k' fd' = Some d" by (simp add: opened_def fd_get_def)
  with assms(2) d show "of_get k' fd' = Some f" "indep k' fd fd'"
    by (auto simp: opened_def of_get_def indep_def fd_get_def nth_append)
qed

lemma opened_wf: "wf_kernel k \<Longrightarrow> opened k path fl fd k' \<Longrightarrow> wf_kernel k'"
  by (auto simp: wf_kernel_def opened_def open_ino_def ran_def less_Suc_eq
      dest!: set_update_subset_insert [THEN subsetD] split: option.splits if_splits)

lemma opened_close: "opened k path fl fd k' \<Longrightarrow> (fdt k')[nat fd := None] = fdt k"
  by (auto simp: opened_def) (metis list_update_id)

lemma opened_bytes:
  assumes "opened k path fl fd k'" "O_TRUNC \<notin> set fl"
  shows "bytes k' (open_ino k path) = (case dir k path of None \<Rightarrow> [] | Some i \<Rightarrow> bytes k i)"
    and "(bytes k')(open_ino k path := x) = (bytes k)(open_ino k path := x)"
  using assms by (auto simp: opened_def open_ino_def split: option.splits)

lemma opened_free: "opened k path fl fd k' \<Longrightarrow> free_fds k' = free_fds k - 1"
  using free_fds_used [of "nat fd" k] by (simp add: opened_def free_fds_def)

section \<open>dup and dup2\<close>

definition dup :: "int \<Rightarrow> kernel \<Rightarrow> int result \<times> kernel" where
  "dup oldfd k =
     (case fcntl_getfd oldfd k of
        Inl _ \<Rightarrow> (Inl EBADF, k)
      | Inr _ \<Rightarrow> fcntl_dupfd oldfd 0 k)"

definition dup2 :: "int \<Rightarrow> int \<Rightarrow> kernel \<Rightarrow> int result \<times> kernel" where
  "dup2 oldfd newfd k =
     (case fcntl_getfd oldfd k of
        Inl _ \<Rightarrow> (Inl EBADF, k)
      | Inr _ \<Rightarrow>
          if oldfd = newfd then (Inr newfd, k)
          else
            (case fcntl_getfd newfd k of
               Inl e \<Rightarrow> if e \<noteq> EBADF then (Inl e, k) else fcntl_dupfd oldfd newfd k
             | Inr _ \<Rightarrow> (case sys_close newfd k of (_, k') \<Rightarrow> fcntl_dupfd oldfd newfd k')))"

text \<open>The contract of \<open>dup2(2)\<close> as its manual page states it.\<close>

definition dup2_spec :: "int \<Rightarrow> int \<Rightarrow> kernel \<Rightarrow> int result \<times> kernel" where
  "dup2_spec oldfd newfd k =
     (case fd_get k oldfd of
        None \<Rightarrow> (Inl EBADF, k)
      | Some d \<Rightarrow>
          if oldfd = newfd then (Inr newfd, k)
          else if 0 \<le> newfd \<and> newfd < int (length (fdt k))
            then (Inr newfd, k\<lparr>fdt := (fdt k)[nat newfd := Some (d\<lparr>fd_cloexec := False\<rparr>)]\<rparr>)
          else (Inl EINVAL, k))"

lemma fd_get_close_other:
  "fd \<noteq> fd' \<Longrightarrow> 0 \<le> fd \<Longrightarrow> 0 \<le> fd' \<Longrightarrow> fd_get (k\<lparr>fdt := (fdt k)[nat fd' := x]\<rparr>) fd = fd_get k fd"
  by (auto simp: fd_get_def nth_list_update)

lemma dup2_open:
  assumes "fd_get k oldfd = Some d" "oldfd \<noteq> newfd" "0 \<le> newfd" "newfd < int (length (fdt k))"
  shows "dup2 oldfd newfd k =
    (Inr newfd, k\<lparr>fdt := (fdt k)[nat newfd := Some (d\<lparr>fd_cloexec := False\<rparr>)]\<rparr>)"
proof -
  have old: "0 \<le> oldfd" using assms(1) by (auto simp: fd_get_def split: if_splits)
  have new: "nat newfd < length (fdt k)" using assms(3,4) by simp
  have c: "(fdt k)[nat newfd := None] ! nat newfd = None" using new by simp
  have "dup2 oldfd newfd k = fcntl_dupfd oldfd newfd (k\<lparr>fdt := (fdt k)[nat newfd := None]\<rparr>)"
  proof (cases "fd_get k newfd")
    case None
    then have "(fdt k)[nat newfd := None] = fdt k"
      using new assms(3) by (metis fd_get_def list_update_id)
    with None show ?thesis using assms(1,2) by (simp add: dup2_def fcntl_getfd_def)
  next
    case (Some x)
    then show ?thesis using assms(1,2) by (simp add: dup2_def fcntl_getfd_def sys_close_def)
  qed
  then show ?thesis
    using assms fd_get_close_other [of oldfd newfd k None] old new lowest_free_here [OF _ c]
    by (simp add: fcntl_dupfd_def)
qed

section \<open>Properties\<close>

lemma dup2_is_spec: "dup2 oldfd newfd k = dup2_spec oldfd newfd k"
proof (cases "fd_get k oldfd")
  case None
  then show ?thesis by (simp add: dup2_def dup2_spec_def fcntl_getfd_def)
next
  case (Some d)
  show ?thesis
  proof (cases "oldfd = newfd \<or> (0 \<le> newfd \<and> newfd < int (length (fdt k)))")
    case True
    show ?thesis
    proof (cases "oldfd = newfd")
      case True
      with Some show ?thesis by (simp add: dup2_def dup2_spec_def fcntl_getfd_def)
    next
      case False
      with \<open>oldfd = newfd \<or> _\<close> Some show ?thesis
        by (auto simp: dup2_open dup2_spec_def)
    qed
  next
    case False
    then have "fd_get k newfd = None" by (auto simp: fd_get_def)
    with False Some show ?thesis
      by (auto simp: dup2_def dup2_spec_def fcntl_getfd_def fcntl_dupfd_def)
  qed
qed

lemma dup_lowest_free:
  assumes "0 < length (fdt k)"
  shows "case dup oldfd k of
      (Inr n, k') \<Rightarrow>
        (\<exists>d i. fd_get k oldfd = Some d \<and> n = int i \<and> i < length (fdt k) \<and> fdt k ! i = None \<and>
           (\<forall>j<i. fdt k ! j \<noteq> None) \<and>
           k' = k\<lparr>fdt := (fdt k)[i := Some (d\<lparr>fd_cloexec := False\<rparr>)]\<rparr>)
    | (Inl e, k') \<Rightarrow>
        k' = k \<and> (if fd_get k oldfd = None then e = EBADF
                  else e = EMFILE \<and> (\<forall>j<length (fdt k). fdt k ! j \<noteq> None))"
proof (cases "fd_get k oldfd")
  case None
  then show ?thesis by (simp add: dup_def fcntl_getfd_def)
next
  case (Some d)
  show ?thesis
  proof (cases "lowest_free 0 (fdt k)")
    case None
    with Some assms lowest_free_None [THEN iffD1, OF None] show ?thesis
      by (simp add: dup_def fcntl_getfd_def fcntl_dupfd_def)
  next
    case (Some i)
    with \<open>fd_get k oldfd = Some d\<close> assms lowest_free_Some [OF Some] show ?thesis
      by (auto simp: dup_def fcntl_getfd_def fcntl_dupfd_def)
  qed
qed

lemma dup2_refines_spec:
  assumes "0 < length (fdt k)"
  shows "dup2 oldfd newfd k = dup2_spec oldfd newfd k \<and>
    (case dup oldfd k of
      (Inr n, k') \<Rightarrow>
        (\<exists>d i. fd_get k oldfd = Some d \<and> n = int i \<and> i < length (fdt k) \<and> fdt k ! i = None \<and>
           (\<forall>j<i. fdt k ! j \<noteq> None) \<and>
           k' = k\<lparr>fdt := (fdt k)[i := Some (d\<lparr>fd_cloexec := False\<rparr>)]\<rparr>)
    | (Inl e, k') \<Rightarrow>
        k' = k \<and> (if fd_get k oldfd = None then e = EBADF
                  else e = EMFILE \<and> (\<forall>j<length (fdt k). fdt k ! j \<noteq> None)))"
  using dup2_is_spec dup_lowest_free [OF assms] by (rule conjI)

definition small_kernel :: kernel where
  "small_kernel = \<lparr>dir = Map.empty, bytes = (\<lambda>_. []), inodes = 0,
     oft = [\<lparr>of_ino = 0, of_pos = 0, of_append = False, of_rd = True, of_wr = True\<rparr>],
     fdt = [Some \<lparr>fd_of = 0, fd_cloexec = True\<rparr>, None, None], denied = Map.empty,
     media = Map.empty, fsize_max = 100\<rparr>"

end
