(* ===== verification/FileTools.thy ===== *)
theory FileTools
  imports Files NumArgs
begin

text \<open>
  Programs that work on whole files through \<open>open\<close>, \<open>read\<close>, \<open>write\<close>, \<open>lseek\<close> and \<open>close\<close>:
  \<open>fileio/copy.c\<close> and \<open>04-file-io-universal-io-model/cpholes.c\<close>.
  A loop that may run forever is \<open>partial_function (option)\<close>: the value \<open>None\<close> means that it
  does.
\<close>

section \<open>The calls on a regular file\<close>

lemma sys_read_ok:
  "\<lbrakk>of_get k fd = Some f; of_rd f; media k (of_ino f) = None\<rbrakk> \<Longrightarrow>
   sys_read fd k n = (Inr (take n (drop (of_pos f) (bytes k (of_ino f)))),
     of_put fd (f\<lparr>of_pos := of_pos f + min n (length (bytes k (of_ino f)) - of_pos f)\<rparr>) k)"
  by (simp add: sys_read_def Let_def min.commute)

lemma sys_write_ok:
  "\<lbrakk>of_get k fd = Some f; of_wr f; \<not> of_append f; of_pos f + length bs \<le> fsize_max k\<rbrakk> \<Longrightarrow>
   sys_write fd k bs = (Inr (length bs),
     of_put fd (f\<lparr>of_pos := of_pos f + length bs\<rparr>)
       (k\<lparr>bytes := (bytes k)(of_ino f := write_at (of_pos f) bs (bytes k (of_ino f)))\<rparr>))"
  by (auto simp: sys_write_def Let_def)

text \<open>Two kernels that differ in file contents and offsets only.\<close>

definition env_eq :: "kernel \<Rightarrow> kernel \<Rightarrow> bool" where
  "env_eq k k' \<longleftrightarrow> dir k' = dir k \<and> fdt k' = fdt k \<and> denied k' = denied k \<and>
     media k' = media k \<and> fsize_max k' = fsize_max k \<and> inodes k' = inodes k"

lemma env_eq_refl [simp]: "env_eq k k"
  by (simp add: env_eq_def)

lemma env_eq_trans: "env_eq k k' \<Longrightarrow> env_eq k' k'' \<Longrightarrow> env_eq k k''"
  by (simp add: env_eq_def)

lemma env_eq_put [simp]: "env_eq k (of_put fd f (k\<lparr>bytes := b\<rparr>))" "env_eq k (of_put fd f k)"
  by (simp_all add: env_eq_def)

lemma env_eq_fd_get: "env_eq k k' \<Longrightarrow> fd_get k' fd = fd_get k fd"
  by (simp add: env_eq_def fd_get_def split: if_splits)

lemma of_put_put [simp]: "of_put fd g (of_put fd f k) = of_put fd g k"
  by (auto simp: of_put_def fd_get_def split: option.splits)

lemma of_put_bytes: "(of_put fd f k)\<lparr>bytes := b\<rparr> = of_put fd f (k\<lparr>bytes := b\<rparr>)"
  by (auto simp: of_put_def fd_get_def split: option.splits)

lemma of_put_id: "of_get k fd = Some f \<Longrightarrow> of_put fd f k = k"
  by (auto simp: of_get_def of_put_def split: option.splits if_splits)

lemma sys_lseek_ok:
  "\<lbrakk>of_get k fd = Some f;
    p = off + (case wh of SEEK_SET \<Rightarrow> 0 | SEEK_CUR \<Rightarrow> int (of_pos f)
                | SEEK_END \<Rightarrow> int (length (bytes k (of_ino f)))); 0 \<le> p\<rbrakk> \<Longrightarrow>
   sys_lseek fd off wh k = (Inr p, of_put fd (f\<lparr>of_pos := nat p\<rparr>) k)"
  by (simp add: sys_lseek_def Let_def)

section \<open>copy\<close>

abbreviation (input) BUF_SIZE :: nat where "BUF_SIZE \<equiv> 1024"

partial_function (option) copy_loop :: "int \<Rightarrow> int \<Rightarrow> kernel \<Rightarrow> (failure option \<times> kernel) option" where
  "copy_loop inputFd outputFd k =
     (case sys_read inputFd k BUF_SIZE of
        (Inl e, k1) \<Rightarrow> Some (Some (ErrExit ''read'' e), k1)
      | (Inr buf, k1) \<Rightarrow>
          if buf = [] then Some (None, k1)
          else (case sys_write outputFd k1 buf of
                  (Inl e, k2) \<Rightarrow> Some (Some (Fatal ''couldn't write whole buffer''), k2)
                | (Inr m, k2) \<Rightarrow>
                    if m \<noteq> length buf then Some (Some (Fatal ''couldn't write whole buffer''), k2)
                    else copy_loop inputFd outputFd k2))"

definition close_two :: "int \<Rightarrow> int \<Rightarrow> kernel \<Rightarrow> failure option \<times> kernel" where
  "close_two inputFd outputFd k =
     (case sys_close inputFd k of
        (Inl e, k1) \<Rightarrow> (Some (ErrExit ''close input'' e), k1)
      | (Inr _, k1) \<Rightarrow>
          (case sys_close outputFd k1 of
             (Inl e, k2) \<Rightarrow> (Some (ErrExit ''close output'' e), k2)
           | (Inr _, k2) \<Rightarrow> (None, k2)))"

definition copy_main :: "string list \<Rightarrow> kernel \<Rightarrow> (failure option \<times> kernel) option" where
  "copy_main argv k =
     (if length argv \<noteq> 3 \<or> argv ! 1 = ''--help''
      then Some (Some (UsageErr ''%s old-file new-file''), k)
      else
        (case sys_open (argv ! 1) [O_RDONLY] k of
           (Inl e, k1) \<Rightarrow> Some (Some (ErrExit ''opening file %s'' e), k1)
         | (Inr inputFd, k1) \<Rightarrow>
             (case sys_open (argv ! 2) [O_CREAT, O_WRONLY, O_TRUNC] k1 of
                (Inl e, k2) \<Rightarrow> Some (Some (ErrExit ''opening file %s'' e), k2)
              | (Inr outputFd, k2) \<Rightarrow>
                  (case copy_loop inputFd outputFd k2 of
                     None \<Rightarrow> None
                   | Some (Some f, k3) \<Rightarrow> Some (Some f, k3)
                   | Some (None, k3) \<Rightarrow> Some (close_two inputFd outputFd k3)))))"

lemma copy_loop_step:
  assumes "of_get k i = Some f" "of_rd f" "media k (of_ino f) = None"
    and "of_get k j = Some g" "of_wr g" "\<not> of_append g" "indep k i j"
    and "buf = take BUF_SIZE (drop (of_pos f) (bytes k (of_ino f)))" "buf \<noteq> []"
    and "of_pos g + length buf \<le> fsize_max k"
  shows "copy_loop i j k = copy_loop i j
    (of_put j (g\<lparr>of_pos := of_pos g + length buf\<rparr>)
      ((of_put i (f\<lparr>of_pos := of_pos f + length buf\<rparr>) k)
        \<lparr>bytes := (bytes k)(of_ino g := write_at (of_pos g) buf (bytes k (of_ino g)))\<rparr>))"
  using assms sys_write_ok [of "of_put i (f\<lparr>of_pos := of_pos f + length buf\<rparr>) k" j g buf]
  by (subst copy_loop.simps) (simp add: sys_read_ok min.commute)

lemma copy_loop_ok:
  assumes "of_get k i = Some f" "of_rd f" "media k (of_ino f) = None"
    and "of_get k j = Some g" "of_wr g" "\<not> of_append g" "indep k i j" "of_ino f \<noteq> of_ino g"
    and "of_pos g = length (bytes k (of_ino g))" "rest = drop (of_pos f) (bytes k (of_ino f))"
    and "of_pos g + length rest \<le> fsize_max k"
  shows "\<exists>k'. copy_loop i j k = Some (None, k') \<and> env_eq k k' \<and>
    bytes k' = (bytes k)(of_ino g := bytes k (of_ino g) @ rest)"
  using assms
proof (induction "length rest" arbitrary: k f g rest rule: less_induct)
  case less
  define buf where "buf = take BUF_SIZE (drop (of_pos f) (bytes k (of_ino f)))"
  show ?case
  proof (cases "rest = []")
    case True
    with less.prems show ?thesis
      by (subst copy_loop.simps) (simp add: sys_read_ok)
  next
    case False
    let ?f = "f\<lparr>of_pos := of_pos f + length buf\<rparr>" and ?g = "g\<lparr>of_pos := of_pos g + length buf\<rparr>"
    let ?k = "of_put j ?g ((of_put i ?f k)
        \<lparr>bytes := (bytes k)(of_ino g := write_at (of_pos g) buf (bytes k (of_ino g)))\<rparr>)"
    have b: "buf \<noteq> []" "rest = buf @ drop (of_pos ?f) (bytes k (of_ino f))"
      using False less.prems(10) by (auto simp: buf_def min.commute simp flip: drop_take_min)
    obtain m where m: "length buf = Suc m" using b(1) by (cases buf) auto
    have lb: "Suc m \<le> length (bytes k (of_ino f)) - of_pos f"
      unfolding m [symmetric] by (simp add: buf_def)
    have loop: "copy_loop i j k = copy_loop i j ?k"
      using less.prems b by (intro copy_loop_step) (auto simp: buf_def)
    have "\<exists>k'. copy_loop i j ?k = Some (None, k') \<and> env_eq ?k k' \<and>
        bytes k' = (bytes ?k)(of_ino ?g := bytes ?k (of_ino ?g) @ drop (of_pos ?f) (bytes k (of_ino f)))"
      using less.prems b m lb
      by (intro less.hyps [where f = ?f and g = ?g]) (auto simp: indep_sym)
    moreover have "env_eq k ?k" by (simp add: env_eq_def)
    ultimately show ?thesis using loop b(2) less.prems(8,9)
      by (auto intro: env_eq_trans)
  qed
qed

lemma close_two_ok:
  assumes "fd_get k i = Some d" "fd_get k j = Some d'" "i \<noteq> j"
  shows "close_two i j k = (None, k\<lparr>fdt := (fdt k)[nat i := None, nat j := None]\<rparr>)"
proof -
  have "nat i \<noteq> nat j" using assms by (auto simp: fd_get_def split: if_splits)
  then show ?thesis
    using assms by (auto simp: close_two_def sys_close_def fd_get_def split: if_splits)
qed

text \<open>
  Opening an input and an output file gives two descriptors with separate open file
  descriptions, and closing both gives the table back.
\<close>

lemma open_two:
  assumes "wf_kernel k" "2 \<le> free_fds k"
    and "denied k src = None" "denied k dst = None" "dir k src = Some i" "open_ino k dst = j"
  obtains ifd ofd k1 k2 where "sys_open src [O_RDONLY] k = (Inr ifd, k1)"
    "sys_open dst [O_CREAT, O_WRONLY, O_TRUNC] k1 = (Inr ofd, k2)"
    "of_get k2 ifd = Some (new_open_file i [O_RDONLY])"
    "of_get k2 ofd = Some (new_open_file j [O_CREAT, O_WRONLY, O_TRUNC])"
    "indep k2 ifd ofd" "ifd \<noteq> ofd"
    "bytes k2 = (bytes k)(j := [])" "dir k2 = (dir k)(dst \<mapsto> j)"
    "media k2 = media k" "fsize_max k2 = fsize_max k"
    "(fdt k2)[nat ifd := None, nat ofd := None] = fdt k"
proof -
  obtain ifd k1 where 1: "sys_open src [O_RDONLY] k = (Inr ifd, k1)" "opened k src [O_RDONLY] ifd k1"
    using sys_open_ok [of k src "[O_RDONLY]"] assms by auto
  have w1: "wf_kernel k1" and f1: "free_fds k1 = free_fds k - 1"
    using opened_wf [OF assms(1) 1(2)] opened_free [OF 1(2)] by auto
  have g1: "of_get k1 ifd = Some (new_open_file i [O_RDONLY])"
    using opened_get [OF 1(2)] assms(5) by (simp add: open_ino_def)
  have d1: "dir k1 = dir k" "bytes k1 = bytes k" "denied k1 = denied k" "inodes k1 = inodes k"
    using 1(2) assms(5) by (auto simp: opened_def open_ino_def fun_upd_idem)
  obtain ofd k2 where 2: "sys_open dst [O_CREAT, O_WRONLY, O_TRUNC] k1 = (Inr ofd, k2)"
      "opened k1 dst [O_CREAT, O_WRONLY, O_TRUNC] ofd k2"
    using sys_open_ok [of k1 dst "[O_CREAT, O_WRONLY, O_TRUNC]"] assms f1 d1 by auto
  have j: "open_ino k1 dst = j" using assms(6) d1 by (simp add: open_ino_def split: option.splits)
  have t: "(fdt k2)[nat ifd := None, nat ofd := None] = fdt k"
    using 1(2) 2(2) by (auto simp: opened_def list_update_swap list_eq_iff_nth_eq nth_list_update)
  show thesis
    using that [OF 1(1) 2(1) opened_other(1) [OF w1 2(2) g1] _
        indep_sym [OF opened_other(2) [OF w1 2(2) g1]]
        opened_other(3) [OF w1 2(2) g1, symmetric]] opened_get [OF 2(2)] 1(2) 2(2) j d1 t
    by (simp add: opened_def)
qed

lemma copy_correct:
  assumes "wf_kernel k" "2 \<le> free_fds k" "src \<noteq> ''--help''"
    and "denied k src = None" "denied k dst = None" "dir k src = Some i"
    and "media k i = None" "length (bytes k i) \<le> fsize_max k"
  shows "\<exists>k'. copy_main [prog, src, dst] k = Some (None, k') \<and>
    dir k' = (dir k)(dst \<mapsto> open_ino k dst) \<and> fdt k' = fdt k \<and>
    bytes k' = (bytes k)(open_ino k dst := if open_ino k dst = i then [] else bytes k i)"
proof -
  let ?j = "open_ino k dst"
  obtain ifd ofd k1 k2 where o: "sys_open src [O_RDONLY] k = (Inr ifd, k1)"
    "sys_open dst [O_CREAT, O_WRONLY, O_TRUNC] k1 = (Inr ofd, k2)"
    and g: "of_get k2 ifd = Some (new_open_file i [O_RDONLY])"
    "of_get k2 ofd = Some (new_open_file ?j [O_CREAT, O_WRONLY, O_TRUNC])"
    "indep k2 ifd ofd" "ifd \<noteq> ofd"
    and b: "bytes k2 = (bytes k)(?j := [])" "dir k2 = (dir k)(dst \<mapsto> ?j)"
    "media k2 = media k" "fsize_max k2 = fsize_max k"
    and t: "(fdt k2)[nat ifd := None, nat ofd := None] = fdt k"
    using open_two [OF assms(1,2,4,5,6) refl] .
  have "\<exists>k3. copy_loop ifd ofd k2 = Some (None, k3) \<and> env_eq k2 k3 \<and>
      bytes k3 = (bytes k)(?j := if ?j = i then [] else bytes k i)"
  proof (cases "?j = i")
    case True
    with g b assms show ?thesis
      by (subst copy_loop.simps) (simp add: sys_read_ok new_open_file_def)
  next
    case False
    with g b assms copy_loop_ok [OF g(1) _ _ g(2)] show ?thesis
      by (simp add: new_open_file_def)
  qed
  then obtain k3 where l: "copy_loop ifd ofd k2 = Some (None, k3)" "env_eq k2 k3"
      "bytes k3 = (bytes k)(?j := if ?j = i then [] else bytes k i)"
    by blast
  have "fd_get k2 ifd \<noteq> None" "fd_get k2 ofd \<noteq> None"
    using g(1,2) by (auto simp: of_get_def split: option.splits)
  then obtain d d' where "fd_get k3 ifd = Some d" "fd_get k3 ofd = Some d'"
    using env_eq_fd_get [OF l(2)] by auto
  from close_two_ok [OF this g(4)] show ?thesis
    using o l b t assms(3) by (simp add: copy_main_def env_eq_def)
qed

definition disk :: "(string \<rightharpoonup> nat) \<Rightarrow> byte list list \<Rightarrow> kernel" where
  "disk names cs = \<lparr>dir = names, bytes = (\<lambda>i. if i < length cs then cs ! i else []),
     inodes = length cs, oft = [], fdt = replicate 8 None, denied = Map.empty,
     media = Map.empty, fsize_max = 2 ^ 40\<rparr>"

lemma disk_simps [simp]:
  "dir (disk names cs) = names" "bytes (disk names cs) i = (if i < length cs then cs ! i else [])"
  "fsize_max (disk names cs) = 2 ^ 40" "media (disk names cs) = Map.empty"
  "denied (disk names cs) = Map.empty" "free_fds (disk names cs) = 8" "inodes (disk names cs) = length cs"
  "wf_kernel (disk names cs) \<longleftrightarrow> (\<forall>ino\<in>ran names. ino < length cs)"
  by (auto simp: disk_def free_fds_def wf_kernel_def)

section \<open>cpholes\<close>

text \<open>
  \<open>cpholes\<close> reads blocks and writes one byte at a time, skipping over null bytes with
  \<open>lseek\<close>. It ignores the results of \<open>read\<close>, \<open>write\<close> and \<open>lseek\<close> after the opens.
  (\<open>holeSize\<close> counts bytes of one file, which are fewer than \<open>2 ^ 63\<close>.)
\<close>

definition ret :: "int result \<Rightarrow> int" where
  "ret r = (case r of Inl _ \<Rightarrow> - 1 | Inr x \<Rightarrow> x)"

fun cpholes_bytes :: "int \<Rightarrow> byte list \<Rightarrow> nat \<Rightarrow> kernel \<Rightarrow> nat \<times> kernel" where
  "cpholes_bytes outputFd [] holeSize k = (holeSize, k)"
| "cpholes_bytes outputFd (b # bs) holeSize k =
     (if b = NUL then cpholes_bytes outputFd bs (holeSize + 1) k
      else if holeSize > 0 then
        (let k1 = snd (sys_lseek outputFd (int holeSize) SEEK_CUR k);
             k2 = snd (sys_write outputFd k1 [b])
         in cpholes_bytes outputFd bs 0 k2)
      else cpholes_bytes outputFd bs holeSize (snd (sys_write outputFd k [b])))"

partial_function (option) cpholes_loop :: "int \<Rightarrow> int \<Rightarrow> nat \<Rightarrow> kernel \<Rightarrow> kernel option" where
  "cpholes_loop inputFd outputFd holeSize k =
     (case sys_read inputFd k BUF_SIZE of
        (Inl e, k1) \<Rightarrow> Some k1
      | (Inr buf, k1) \<Rightarrow>
          if buf = [] then Some k1
          else cpholes_loop inputFd outputFd
                 (fst (cpholes_bytes outputFd buf holeSize k1))
                 (snd (cpholes_bytes outputFd buf holeSize k1)))"

definition cpholes_usage :: string where
  "cpholes_usage = ''Usage: ./prog_cpholes <src> <dst>'' @ [LF]"

definition cpholes_main ::
    "(errno \<Rightarrow> string) \<Rightarrow> string list \<Rightarrow> kernel \<Rightarrow> (int \<times> string \<times> kernel) option" where
  "cpholes_main strerror argv k =
     (if length argv \<noteq> 3 \<or> argv ! 1 = ''--help'' then Some (1, cpholes_usage, k)
      else
        (case sys_open (argv ! 1) [O_RDONLY] k of
           (Inl e, k1) \<Rightarrow>
             Some (1, ''Failed to open input file: '' @ strerror e @ [LF] @ cpholes_usage, k1)
         | (Inr inputFd, k1) \<Rightarrow>
             (case sys_open (argv ! 2) [O_CREAT, O_WRONLY, O_TRUNC] k1 of
                (Inl e, k2) \<Rightarrow>
                  Some (1, ''Failed to open output file: '' @ strerror e @ [LF] @ cpholes_usage, k2)
              | (Inr outputFd, k2) \<Rightarrow>
                  (case cpholes_loop inputFd outputFd 0 k2 of
                     None \<Rightarrow> None
                   | Some k3 \<Rightarrow>
                       (let (r, k4) = sys_lseek inputFd (- 1) SEEK_END k3;
                            lastApparentByte = ret r;
                            k5 = snd (sys_lseek outputFd lastApparentByte SEEK_SET k4);
                            k6 = snd (sys_write outputFd k5 [NUL]);
                            k7 = snd (sys_close inputFd k6)
                        in Some (0, [], snd (sys_close outputFd k7)))))))"

lemma write_at_gap: "write_at (length d + h) [b] d = d @ replicate h NUL @ [b]"
  by (simp add: write_at_def)

lemma cpholes_bytes_ok:
  assumes "of_get k j = Some g" "of_wr g" "\<not> of_append g"
    and "of_pos g = length (bytes k (of_ino g))"
    and "of_pos g + h + length bs \<le> fsize_max k"
  shows "\<exists>h' cs. cpholes_bytes j bs h k =
      (h', of_put j (g\<lparr>of_pos := length cs\<rparr>) (k\<lparr>bytes := (bytes k)(of_ino g := cs)\<rparr>)) \<and>
      cs @ replicate h' NUL = bytes k (of_ino g) @ replicate h NUL @ bs"
  using assms
proof (induction bs arbitrary: h k g)
  case Nil
  let ?d = "bytes k (of_ino g)"
  have "g\<lparr>of_pos := length ?d\<rparr> = g" using Nil by (cases g) simp
  with Nil have "of_put j (g\<lparr>of_pos := length ?d\<rparr>) (k\<lparr>bytes := (bytes k)(of_ino g := ?d)\<rparr>) = k"
    by (simp add: of_put_id)
  then have "cpholes_bytes j [] h k =
      (h, of_put j (g\<lparr>of_pos := length ?d\<rparr>) (k\<lparr>bytes := (bytes k)(of_ino g := ?d)\<rparr>))"
    by (simp only: cpholes_bytes.simps)
  then show ?case by (metis append_Nil2)
next
  case (Cons b bs)
  let ?d = "bytes k (of_ino g)"
  show ?case
  proof (cases "b = NUL")
    case True
    with Cons.IH [OF Cons.prems(1-4), of "Suc h"] Cons.prems(5) show ?thesis
      by (simp add: replicate_app_Cons_same)
  next
    case False
    let ?e = "?d @ replicate h NUL @ [b]"
    let ?g = "g\<lparr>of_pos := length ?e\<rparr>"
    let ?k = "of_put j ?g (k\<lparr>bytes := (bytes k)(of_ino g := ?e)\<rparr>)"
    have step: "cpholes_bytes j (b # bs) h k = cpholes_bytes j bs 0 ?k"
      using False Cons.prems write_at_gap [of ?d h b]
      by (auto simp: sys_lseek_ok sys_write_ok Let_def of_put_bytes nat_add_distrib ac_simps)
    have "\<exists>h' cs. cpholes_bytes j bs 0 ?k =
        (h', of_put j (?g\<lparr>of_pos := length cs\<rparr>) (?k\<lparr>bytes := (bytes ?k)(of_ino ?g := cs)\<rparr>)) \<and>
        cs @ replicate h' NUL = bytes ?k (of_ino ?g) @ replicate 0 NUL @ bs"
      using Cons.prems by (intro Cons.IH) auto
    then obtain h' cs where "cpholes_bytes j bs 0 ?k =
        (h', of_put j (g\<lparr>of_pos := length cs\<rparr>) (k\<lparr>bytes := (bytes k)(of_ino g := cs)\<rparr>))"
        "cs @ replicate h' NUL = ?d @ replicate h NUL @ b # bs"
      by (auto simp: of_put_bytes)
    with step show ?thesis by metis
  qed
qed

lemma cpholes_loop_ok:
  assumes "of_get k i = Some f" "of_rd f" "media k (of_ino f) = None"
    and "of_get k j = Some g" "of_wr g" "\<not> of_append g" "indep k i j" "of_ino f \<noteq> of_ino g"
    and "of_pos g = length (bytes k (of_ino g))" "rest = drop (of_pos f) (bytes k (of_ino f))"
    and "of_pos g + h + length rest \<le> fsize_max k"
  shows "\<exists>k' h' cs f'. cpholes_loop i j h k = Some k' \<and> env_eq k k' \<and>
    bytes k' = (bytes k)(of_ino g := cs) \<and> of_get k' i = Some f' \<and> of_ino f' = of_ino f \<and>
    of_get k' j = Some (g\<lparr>of_pos := length cs\<rparr>) \<and>
    cs @ replicate h' NUL = bytes k (of_ino g) @ replicate h NUL @ rest"
  using assms
proof (induction "length rest" arbitrary: k f g h rest rule: less_induct)
  case less
  define buf where "buf = take BUF_SIZE (drop (of_pos f) (bytes k (of_ino f)))"
  let ?f = "f\<lparr>of_pos := of_pos f + length buf\<rparr>"
  have read: "sys_read i k BUF_SIZE = (Inr buf, of_put i ?f k)"
    using less.prems by (simp add: sys_read_ok buf_def min.commute)
  show ?case
  proof (cases "rest = []")
    case True
    then have "buf = []" using less.prems(10) by (simp add: buf_def)
    moreover have "g\<lparr>of_pos := of_pos g\<rparr> = g" by (cases g) simp
    ultimately show ?thesis
      using True read less.prems
      by (subst cpholes_loop.simps) (auto intro!: exI [of _ h] simp: fun_upd_idem)
  next
    case False
    have b: "buf \<noteq> []" "rest = buf @ drop (of_pos ?f) (bytes k (of_ino f))"
      using False less.prems(10) by (auto simp: buf_def min.commute simp flip: drop_take_min)
    obtain m where m: "length buf = Suc m" using b(1) by (cases buf) auto
    have lb: "Suc m \<le> length (bytes k (of_ino f)) - of_pos f"
      unfolding m [symmetric] by (simp add: buf_def)
    have "\<exists>h' cs. cpholes_bytes j buf h (of_put i ?f k) =
        (h', of_put j (g\<lparr>of_pos := length cs\<rparr>)
          ((of_put i ?f k)\<lparr>bytes := (bytes (of_put i ?f k))(of_ino g := cs)\<rparr>)) \<and>
        cs @ replicate h' NUL = bytes (of_put i ?f k) (of_ino g) @ replicate h NUL @ buf"
      using less.prems b(2) m lb by (intro cpholes_bytes_ok) auto
    then obtain h' cs where hc: "cpholes_bytes j buf h (of_put i ?f k) =
        (h', of_put j (g\<lparr>of_pos := length cs\<rparr>) ((of_put i ?f k)\<lparr>bytes := (bytes k)(of_ino g := cs)\<rparr>))"
        "cs @ replicate h' NUL = bytes k (of_ino g) @ replicate h NUL @ buf"
      by auto
    let ?g = "g\<lparr>of_pos := length cs\<rparr>"
    let ?k = "of_put j ?g ((of_put i ?f k)\<lparr>bytes := (bytes k)(of_ino g := cs)\<rparr>)"
    have len: "length cs + h' = of_pos g + h + length buf"
      using arg_cong [OF hc(2), of length] less.prems(9) by simp
    have loop: "cpholes_loop i j h k = cpholes_loop i j h' ?k"
      using read b(1) hc(1) by (subst cpholes_loop.simps) simp
    have "\<exists>k' h'' cs' f'. cpholes_loop i j h' ?k = Some k' \<and> env_eq ?k k' \<and>
        bytes k' = (bytes ?k)(of_ino ?g := cs') \<and> of_get k' i = Some f' \<and> of_ino f' = of_ino ?f \<and>
        of_get k' j = Some (?g\<lparr>of_pos := length cs'\<rparr>) \<and>
        cs' @ replicate h'' NUL = bytes ?k (of_ino ?g) @ replicate h' NUL @
          drop (of_pos ?f) (bytes ?k (of_ino ?f))"
      using less.prems b m lb len
      by (intro less.hyps [where f = ?f and g = ?g]) (auto simp: indep_sym)
    then obtain k' h'' cs' f' where q: "cpholes_loop i j h' ?k = Some k'" "env_eq ?k k'"
        "bytes k' = (bytes ?k)(of_ino ?g := cs')" "of_get k' i = Some f'" "of_ino f' = of_ino ?f"
        "of_get k' j = Some (?g\<lparr>of_pos := length cs'\<rparr>)"
        "cs' @ replicate h'' NUL = bytes ?k (of_ino ?g) @ replicate h' NUL @
          drop (of_pos ?f) (bytes ?k (of_ino ?f))"
      by blast
    have "env_eq k k'" using q(2) by (simp add: env_eq_def)
    moreover have "cs' @ replicate h'' NUL = bytes k (of_ino g) @ replicate h NUL @ rest"
    proof -
      have "cs' @ replicate h'' NUL = (cs @ replicate h' NUL) @ drop (of_pos ?f) (bytes k (of_ino f))"
        using q(7) less.prems(8) by simp
      then show ?thesis unfolding hc(2) b(2) by simp
    qed
    ultimately show ?thesis using loop q by (intro exI [of _ k'] exI) auto
  qed
qed

lemma snd_close_two:
  assumes "fd_get k i = Some d" "fd_get k j = Some d'" "i \<noteq> j"
  shows "snd (sys_close j (snd (sys_close i k))) = k\<lparr>fdt := (fdt k)[nat i := None, nat j := None]\<rparr>"
proof -
  have "nat i \<noteq> nat j" using assms by (auto simp: fd_get_def split: if_splits)
  then show ?thesis
    using assms by (auto simp: sys_close_def fd_get_def split: if_splits)
qed

lemma snoc_last_iff: "c \<noteq> [] \<Longrightarrow> butlast c @ [x] = c \<longleftrightarrow> last c = x"
  by (metis append_butlast_last_id last_snoc)

lemma write_last_NUL:
  assumes "cs @ replicate h NUL = c" "c \<noteq> []"
  shows "write_at (length c - 1) [NUL] cs = butlast c @ [NUL]"
proof (cases h)
  case 0
  with assms show ?thesis by (simp add: write_at_def butlast_conv_take)
next
  case (Suc n)
  with assms(1) have c: "c = cs @ replicate n NUL @ [NUL]"
    by (simp add: replicate_append_same)
  with write_at_gap [of cs n NUL] show ?thesis by (simp add: butlast_append)
qed

lemma cpholes_tail:
  assumes "of_get k i = Some f" "of_get k j = Some g" "of_wr g" "\<not> of_append g" "i \<noteq> j"
    and "of_ino f \<noteq> of_ino g" "bytes k (of_ino g) = cs" "of_pos g = length cs"
    and "c = bytes k (of_ino f)" "cs @ replicate h NUL = c" "length c < fsize_max k" "indep k i j"
  shows "let (r, k4) = sys_lseek i (- 1) SEEK_END k;
             k6 = snd (sys_write j (snd (sys_lseek j (ret r) SEEK_SET k4)) [NUL])
         in env_eq k k6 \<and> bytes k6 = (bytes k)(of_ino g := (if c = [] then [NUL] else butlast c @ [NUL]))"
proof (cases "c = []")
  case True
  then have l: "sys_lseek i (- 1) SEEK_END k = (Inl EINVAL, k)"
    using assms by (simp add: sys_lseek_def)
  have l2: "sys_lseek j (- 1) SEEK_SET k = (Inl EINVAL, k)"
    using assms by (simp add: sys_lseek_def)
  show ?thesis using True assms write_at_end [of "[]" "[NUL]"]
    by (simp add: l l2 ret_def sys_write_ok)
next
  case False
  let ?f = "f\<lparr>of_pos := length c - 1\<rparr>" and ?g = "g\<lparr>of_pos := length c - 1\<rparr>"
  have p: "nat (int (length c) - 1) = length c - 1" "0 \<le> int (length c) - 1"
    using False by (cases c; simp)+
  have l: "sys_lseek i (- 1) SEEK_END k = (Inr (int (length c) - 1), of_put i ?f k)"
    using assms p by (subst sys_lseek_ok) auto
  have l2: "sys_lseek j (int (length c) - 1) SEEK_SET (of_put i ?f k) =
      (Inr (int (length c) - 1), of_put j ?g (of_put i ?f k))"
    using assms p by (subst sys_lseek_ok) auto
  let ?k = "of_put j ?g (of_put i ?f k)"
  have "of_get ?k j = Some ?g" using assms by simp
  moreover have "of_pos ?g + length [NUL] \<le> fsize_max ?k" using assms False by (cases c) auto
  ultimately have w: "sys_write j ?k [NUL] = (Inr (length [NUL]), of_put j (?g\<lparr>of_pos := of_pos ?g + length [NUL]\<rparr>)
      (?k\<lparr>bytes := (bytes ?k)(of_ino ?g := write_at (of_pos ?g) [NUL] (bytes ?k (of_ino ?g)))\<rparr>))"
    using assms(3,4) by (intro sys_write_ok) auto
  show ?thesis
    using write_last_NUL [OF assms(10) False] False assms(7)
    unfolding l prod.case Let_def ret_def sum.case l2 snd_conv w by (simp add: env_eq_def)
qed

lemma cpholes_result:
  assumes "wf_kernel k" "2 \<le> free_fds k" "src \<noteq> ''--help''"
    and "denied k src = None" "denied k dst = None" "dir k src = Some i"
    and "media k i = None" "length (bytes k i) < fsize_max k" "open_ino k dst \<noteq> i"
  shows "\<exists>k' d. cpholes_main strerror [prog, src, dst] k = Some (0, [], k') \<and>
    dir k' = (dir k)(dst \<mapsto> open_ino k dst) \<and> fdt k' = fdt k \<and>
    bytes k' = (bytes k)(open_ino k dst := d) \<and>
    d = (if bytes k i = [] then [NUL] else butlast (bytes k i) @ [NUL]) \<and>
    (d = bytes k i \<longleftrightarrow> bytes k i \<noteq> [] \<and> last (bytes k i) = NUL)"
proof -
  let ?j = "open_ino k dst" and ?c = "bytes k i"
  obtain ifd ofd k1 k2 where o: "sys_open src [O_RDONLY] k = (Inr ifd, k1)"
    "sys_open dst [O_CREAT, O_WRONLY, O_TRUNC] k1 = (Inr ofd, k2)"
    and g: "of_get k2 ifd = Some (new_open_file i [O_RDONLY])"
    "of_get k2 ofd = Some (new_open_file ?j [O_CREAT, O_WRONLY, O_TRUNC])"
    "indep k2 ifd ofd" "ifd \<noteq> ofd"
    and b: "bytes k2 = (bytes k)(?j := [])" "dir k2 = (dir k)(dst \<mapsto> ?j)"
    "media k2 = media k" "fsize_max k2 = fsize_max k"
    and t: "(fdt k2)[nat ifd := None, nat ofd := None] = fdt k"
    using open_two [OF assms(1,2,4,5,6) refl] .
  obtain k3 h cs f' where l: "cpholes_loop ifd ofd 0 k2 = Some k3" "env_eq k2 k3"
    "bytes k3 = (bytes k2)(?j := cs)" "of_get k3 ifd = Some f'" "of_ino f' = i"
    "of_get k3 ofd = Some ((new_open_file ?j [O_CREAT, O_WRONLY, O_TRUNC])\<lparr>of_pos := length cs\<rparr>)"
    "cs @ replicate h NUL = ?c"
    using cpholes_loop_ok [OF g(1) _ _ g(2) _ _ g(3), where h = 0] assms b
    by (auto simp: new_open_file_def)
  have fd: "fd_get k3 fd = fd_get k2 fd" for fd by (rule env_eq_fd_get [OF l(2)])
  have ind: "indep k3 ifd ofd" using g(3) by (simp add: indep_def fd)
  obtain r k4 where r: "sys_lseek ifd (- 1) SEEK_END k3 = (r, k4)" by fastforce
  define k6 where "k6 = snd (sys_write ofd (snd (sys_lseek ofd (ret r) SEEK_SET k4)) [NUL])"
  have k6: "env_eq k3 k6 \<and>
      bytes k6 = (bytes k3)(?j := (if ?c = [] then [NUL] else butlast ?c @ [NUL]))"
    using cpholes_tail [OF l(4,6) _ _ g(4) _ _ _ _ _ _ ind, of cs ?c h] l assms b
    by (simp add: new_open_file_def r k6_def env_eq_def Let_def)
  obtain d d' where "fd_get k6 ifd = Some d" "fd_get k6 ofd = Some d'"
    using env_eq_fd_get [OF conjunct1 [OF k6]] l(4,6) by (auto simp: of_get_def split: option.splits)
  note cl = snd_close_two [OF this g(4)]
  have "cpholes_main strerror [prog, src, dst] k =
      Some (0, [], k6\<lparr>fdt := (fdt k6)[nat ifd := None, nat ofd := None]\<rparr>)"
    using o l(1) r cl assms(3) by (simp add: cpholes_main_def k6_def)
  then show ?thesis
    using k6 l(2,3) b t snoc_last_iff [of ?c NUL] by (auto simp: env_eq_def)
qed

lemma copy_programs_correct:
  assumes "wf_kernel k" "2 \<le> free_fds k" "src \<noteq> ''--help''"
    and "denied k src = None" "denied k dst = None" "dir k src = Some i"
    and "media k i = None" "length (bytes k i) \<le> fsize_max k"
  shows "(\<exists>k'. copy_main [prog, src, dst] k = Some (None, k') \<and>
      dir k' = (dir k)(dst \<mapsto> open_ino k dst) \<and> fdt k' = fdt k \<and>
      bytes k' = (bytes k)(open_ino k dst := if open_ino k dst = i then [] else bytes k i)) \<and>
    (length (bytes k i) < fsize_max k \<and> open_ino k dst \<noteq> i \<longrightarrow>
      (\<exists>k' d. cpholes_main strerror [prog, src, dst] k = Some (0, [], k') \<and>
        dir k' = (dir k)(dst \<mapsto> open_ino k dst) \<and> fdt k' = fdt k \<and>
        bytes k' = (bytes k)(open_ino k dst := d) \<and>
        d = (if bytes k i = [] then [NUL] else butlast (bytes k i) @ [NUL]) \<and>
        (d = bytes k i \<longleftrightarrow> bytes k i \<noteq> [] \<and> last (bytes k i) = NUL)))"
  by (intro conjI impI copy_correct [OF assms], elim conjE, rule cpholes_result [OF assms(1-7)])

end
