(* ===== verification/FilePrograms.thy ===== *)
theory FilePrograms
  imports FileTools
begin

text \<open>
  Further programs on files: \<open>04-file-io-universal-io-model/holy_file.c\<close> and
  \<open>13-file-io-buffering/write_bytes.c\<close>.
\<close>

section \<open>holy\_file\<close>

abbreviation (input) PATTERN_CHUNK_SIZE :: nat where "PATTERN_CHUNK_SIZE \<equiv> 80"

definition TEST_PATTERN :: string where
  "TEST_PATTERN = ''1234567890_HelloWorld'' @ [LF]"

fun holy_pattern :: "int \<Rightarrow> nat list \<Rightarrow> kernel \<Rightarrow> kernel" where
  "holy_pattern outputFd [] k = k"
| "holy_pattern outputFd (i # ixs) k =
     holy_pattern outputFd ixs
       (snd (sys_write outputFd k [TEST_PATTERN ! (i mod length TEST_PATTERN)]))"

text \<open>
  \<open>holy_chunks n\<close> is the loop with \<open>n\<close> chunks to go; \<open>lseek\<close>'s result is stored in an \<open>int\<close>
  before it is tested.
\<close>

fun holy_chunks :: "(errno \<Rightarrow> string) \<Rightarrow> int \<Rightarrow> int \<Rightarrow> nat \<Rightarrow> kernel \<Rightarrow> int \<times> string \<times> kernel" where
  "holy_chunks strerror outputFd gapSize 0 k = (0, [], snd (sys_close outputFd k))"
| "holy_chunks strerror outputFd gapSize (Suc n) k =
     (case sys_lseek outputFd gapSize SEEK_CUR
             (holy_pattern outputFd [0..<PATTERN_CHUNK_SIZE] k) of
        (r, k') \<Rightarrow>
          if to_signed 32 (ret r) < 0
          then (1, ''lseek err: '' @ strerror (case r of Inl e \<Rightarrow> e | Inr _ \<Rightarrow> EINTR) @ [LF], k')
          else holy_chunks strerror outputFd gapSize n k')"

definition holy_usage :: string where
  "holy_usage = ''Usage: ./prog_holyfile <num_gaps> <gap_size> <filename>'' @ [LF]"

definition holy_file_main ::
    "(errno \<Rightarrow> string) \<Rightarrow> string list \<Rightarrow> kernel \<Rightarrow> int \<times> string \<times> kernel" where
  "holy_file_main strerror argv k =
     (if length argv \<noteq> 4 \<or> argv ! 1 = ''--help'' then (1, holy_usage, k)
      else if atoi (argv ! 1) = 0 \<or> atoi (argv ! 2) = 0 then (1, holy_usage, k)
      else
        (case sys_open (argv ! 3) [O_CREAT, O_WRONLY, O_TRUNC] k of
           (Inl e, k1) \<Rightarrow>
             (1, ''Failed to open output file: '' @ strerror e @ [LF] @ holy_usage, k1)
         | (Inr outputFd, k1) \<Rightarrow>
             holy_chunks strerror outputFd (atoi (argv ! 2)) (nat (atoi (argv ! 1))) k1))"

text \<open>The chunk the inner loop writes, and the file the program means to make.\<close>

definition chunk :: string where
  "chunk = map (\<lambda>i. TEST_PATTERN ! (i mod length TEST_PATTERN)) [0..<PATTERN_CHUNK_SIZE]"

fun holy_content :: "nat \<Rightarrow> nat \<Rightarrow> string" where
  "holy_content g 0 = []"
| "holy_content g (Suc 0) = chunk"
| "holy_content g (Suc (Suc n)) = chunk @ replicate g NUL @ holy_content g (Suc n)"

lemma length_chunk [simp]: "length chunk = 80"
  by (simp add: chunk_def)

lemma write_at_append:
  "bs \<noteq> [] \<Longrightarrow> write_at (length (d @ replicate g NUL)) bs d = d @ replicate g NUL @ bs"
  by (simp add: write_at_def)

lemma holy_pattern_ok:
  assumes "of_get k j = Some f" "of_wr f" "\<not> of_append f"
    and "of_pos f = length (bytes k (of_ino f)) + g" "of_pos f + length ixs \<le> fsize_max k" "ixs \<noteq> []"
  shows "holy_pattern j ixs k =
    of_put j (f\<lparr>of_pos := of_pos f + length ixs\<rparr>)
      (k\<lparr>bytes := (bytes k)(of_ino f := bytes k (of_ino f) @ replicate g NUL @
          map (\<lambda>i. TEST_PATTERN ! (i mod length TEST_PATTERN)) ixs)\<rparr>)"
  using assms
proof (induction ixs arbitrary: k f g)
  case (Cons i ixs)
  let ?b = "TEST_PATTERN ! (i mod length TEST_PATTERN)"
  let ?e = "bytes k (of_ino f) @ replicate g NUL @ [?b]" and ?f = "f\<lparr>of_pos := Suc (of_pos f)\<rparr>"
  let ?k = "of_put j ?f (k\<lparr>bytes := (bytes k)(of_ino f := ?e)\<rparr>)"
  have w: "snd (sys_write j k [?b]) = ?k"
    using Cons.prems write_at_gap [of "bytes k (of_ino f)" g ?b] by (simp add: sys_write_ok)
  show ?case
  proof (cases "ixs = []")
    case True
    then show ?thesis using w by (simp add: fun_upd_def)
  next
    case False
    have "holy_pattern j ixs ?k =
        of_put j (?f\<lparr>of_pos := of_pos ?f + length ixs\<rparr>)
          (?k\<lparr>bytes := (bytes ?k)(of_ino ?f := bytes ?k (of_ino ?f) @ replicate 0 NUL @
            map (\<lambda>i. TEST_PATTERN ! (i mod length TEST_PATTERN)) ixs)\<rparr>)"
      using Cons.prems False by (intro Cons.IH) auto
    then show ?thesis using w by (simp add: of_put_bytes fun_upd_def cong: if_cong)
  qed
qed simp

lemma holy_chunks_ok:
  assumes "of_get k j = Some f" "of_wr f" "\<not> of_append f" "0 < g"
    and "of_pos f = length (bytes k (of_ino f)) + (if bytes k (of_ino f) = [] then 0 else g)"
    and "int (of_pos f + n * (80 + g)) \<le> INT_MAX" "of_pos f + n * (80 + g) \<le> fsize_max k" "0 < n"
  shows "\<exists>k'. holy_chunks strerror j (int g) n k = (0, [], k') \<and> dir k' = dir k \<and>
    fdt k' = (fdt k)[nat j := None] \<and>
    bytes k' = (bytes k)(of_ino f := bytes k (of_ino f) @
      (if bytes k (of_ino f) = [] then [] else replicate g NUL) @ holy_content g n)"
  using assms
proof (induction n arbitrary: k f)
  case (Suc n)
  let ?z = "if bytes k (of_ino f) = [] then 0 else g"
  let ?e = "bytes k (of_ino f) @ replicate ?z NUL @ chunk"
  let ?f1 = "f\<lparr>of_pos := of_pos f + 80\<rparr>" and ?f = "f\<lparr>of_pos := of_pos f + 80 + g\<rparr>"
  let ?k = "of_put j ?f (k\<lparr>bytes := (bytes k)(of_ino f := ?e)\<rparr>)"
  have p: "holy_pattern j [0..<80] k = of_put j ?f1 (k\<lparr>bytes := (bytes k)(of_ino f := ?e)\<rparr>)"
    using Suc.prems holy_pattern_ok [of k j f ?z "[0..<80]"] by (simp add: chunk_def)
  have "sys_lseek j (int g) SEEK_CUR (holy_pattern j [0..<80] k) = (Inr (int (of_pos f + 80 + g)), ?k)"
    unfolding p using Suc.prems(1) by (subst sys_lseek_ok [where f = ?f1]) (auto simp: nat_add_distrib add.commute)
  moreover have "to_signed 32 (int (of_pos f + 80 + g)) = int (of_pos f + 80 + g)"
  proof (rule to_signed32_id)
    have "of_pos f + 80 + g \<le> of_pos f + Suc n * (80 + g)" by simp
    then show "int (of_pos f + 80 + g) \<le> INT_MAX" using Suc.prems(6) by linarith
  qed simp
  ultimately have step: "holy_chunks strerror j (int g) (Suc n) k = holy_chunks strerror j (int g) n ?k"
    by (simp add: ret_def)
  obtain d where d: "fd_get k j = Some d" using Suc.prems(1) by (auto simp: of_get_def split: option.splits)
  show ?case
  proof (cases n)
    case 0
    then show ?thesis using step d by (auto simp: sys_close_def)
  next
    case (Suc m)
    have ne: "?e \<noteq> []" using length_chunk by fastforce
    have "\<exists>k'. holy_chunks strerror j (int g) n ?k = (0, [], k') \<and> dir k' = dir ?k \<and>
        fdt k' = (fdt ?k)[nat j := None] \<and>
        bytes k' = (bytes ?k)(of_ino ?f := bytes ?k (of_ino ?f) @
          (if bytes ?k (of_ino ?f) = [] then [] else replicate g NUL) @ holy_content g n)"
      using Suc.prems Suc ne by (intro Suc.IH) auto
    then show ?thesis using step ne Suc by (auto simp: fun_eq_iff split: if_splits)
  qed
qed simp

lemma holy_file_content:
  assumes "0 < free_fds k" "n \<noteq> ''--help''" "denied k path = None"
    and "atoi n = int gaps" "atoi m = int g" "0 < gaps" "0 < g"
    and "int (gaps * (80 + g)) \<le> INT_MAX" "gaps * (80 + g) \<le> fsize_max k"
  shows "\<exists>k'. holy_file_main strerror [prog, n, m, path] k = (0, [], k') \<and>
    dir k' = (dir k)(path \<mapsto> open_ino k path) \<and> fdt k' = fdt k \<and>
    bytes k' = (bytes k)(open_ino k path := holy_content g gaps) \<and>
    length (holy_content g gaps) = gaps * 80 + (gaps - 1) * g"
proof -
  let ?fl = "[O_CREAT, O_WRONLY, O_TRUNC]"
  obtain fd k1 where o: "sys_open path ?fl k = (Inr fd, k1)" "opened k path ?fl fd k1"
    using sys_open_ok [of k path ?fl] assms by auto
  have b: "bytes k1 = (bytes k)(open_ino k path := [])" "fsize_max k1 = fsize_max k"
    "dir k1 = (dir k)(path \<mapsto> open_ino k path)" "(fdt k1)[nat fd := None] = fdt k"
    using o(2) by (auto simp: opened_def list_eq_iff_nth_eq nth_list_update)
  have len: "length (holy_content g gaps) = gaps * 80 + (gaps - 1) * g" for gaps
    by (induction g gaps rule: holy_content.induct) (auto simp: algebra_simps)
  have "\<exists>k'. holy_chunks strerror fd (int g) gaps k1 = (0, [], k') \<and> dir k' = dir k1 \<and>
      fdt k' = (fdt k1)[nat fd := None] \<and> bytes k' = (bytes k)(open_ino k path := holy_content g gaps)"
    using holy_chunks_ok [OF opened_get [OF o(2)], of g gaps strerror] assms b
    by (simp add: new_open_file_def)
  then show ?thesis using o(1) b assms len by (auto simp: holy_file_main_def)
qed

section \<open>write\_bytes\<close>

text \<open>
  \<open>malloc n\<close> is the block \<open>malloc(n)\<close> returns, with whatever it contains: the program never
  initialises its buffer. (Built without the synchronisation macros, which change no content.)
\<close>

partial_function (option) write_bytes_loop ::
    "int \<Rightarrow> int \<Rightarrow> int \<Rightarrow> byte list \<Rightarrow> int \<Rightarrow> kernel \<Rightarrow> (int \<times> string \<times> kernel) option" where
  "write_bytes_loop fd numBytes bufSize buf totWritten k =
     (if totWritten < numBytes then
        (let thisWrite = (if bufSize > numBytes - totWritten then numBytes - totWritten else bufSize)
         in case sys_write fd k (take (nat thisWrite) buf) of
              (Inl e, k1) \<Rightarrow> Some (1, ''partial/failed write'' @ [LF], k1)
            | (Inr m, k1) \<Rightarrow>
                if int m \<noteq> thisWrite then Some (1, ''partial/failed write'' @ [LF], k1)
                else write_bytes_loop fd numBytes bufSize buf (totWritten + thisWrite) k1)
      else
        (case sys_close fd k of
           (Inl e, k1) \<Rightarrow> Some (1, ''close'', k1)
         | (Inr _, k1) \<Rightarrow> Some (0, [], k1)))"

definition write_bytes_main ::
    "(int \<Rightarrow> byte list option) \<Rightarrow> string list \<Rightarrow> kernel \<Rightarrow> (int \<times> string \<times> kernel) option" where
  "write_bytes_main malloc argv k =
     (if length argv \<noteq> 4 \<or> argv ! 1 = ''--help''
      then Some (1, argv ! 0 @ '' file num-bytes buf-size'' @ [LF], k)
      else
        (let numBytes = atoi (argv ! 2); bufSize = atoi (argv ! 3)
         in case malloc (to_unsigned 64 bufSize) of
              None \<Rightarrow> Some (1, ''malloc'' @ [LF], k)
            | Some buf \<Rightarrow>
                (case sys_open (argv ! 1) [O_CREAT, O_WRONLY] k of
                   (Inl e, k1) \<Rightarrow> Some (1, ''open'' @ [LF], k1)
                 | (Inr fd, k1) \<Rightarrow> write_bytes_loop fd numBytes bufSize buf 0 k1)))"

lemma atoi_range: "INT_MIN \<le> atoi s" "atoi s \<le> INT_MAX"
  using to_signed_range [of 32 "fst (strtol s 10)"] by (simp_all add: atoi_def)

text \<open>The first \<open>n\<close> bytes of the buffer repeated.\<close>

definition cycle :: "byte list \<Rightarrow> nat \<Rightarrow> byte list" where
  "cycle buf n = map (\<lambda>i. buf ! (i mod length buf)) [0..<n]"

lemma length_cycle [simp]: "length (cycle buf n) = n"
  by (simp add: cycle_def)

lemma cycle_add:
  assumes "length buf dvd t" "m \<le> length buf"
  shows "cycle buf (t + m) = cycle buf t @ take m buf"
proof (rule nth_equalityI)
  show "length (cycle buf (t + m)) = length (cycle buf t @ take m buf)" using assms by simp
  fix i assume "i < length (cycle buf (t + m))"
  moreover have "i mod length buf = i - t" if "t \<le> i" "i < t + m"
  proof -
    from assms(1) obtain q where q: "t = length buf * q" by (rule dvdE)
    have "i - t < length buf" using that assms(2) by linarith
    moreover have "i = length buf * q + (i - t)" using that(1) q by simp
    ultimately show ?thesis by (metis mod_less mod_mult_self2 add.commute)
  qed
  ultimately show "cycle buf (t + m) ! i = (cycle buf t @ take m buf) ! i"
    by (auto simp: cycle_def nth_append)
qed

lemma write_bytes_loop_ok:
  assumes "of_get k fd = Some f" "of_wr f" "\<not> of_append f" "length buf = b" "0 < b"
    and "of_pos f = t" "t \<le> N" "b dvd t \<or> t = N" "N \<le> fsize_max k"
    and "bytes k (of_ino f) = cycle buf t @ drop t old"
  shows "\<exists>k'. write_bytes_loop fd (int N) (int b) buf (int t) k = Some (0, [], k') \<and> dir k' = dir k \<and>
    fdt k' = (fdt k)[nat fd := None] \<and> bytes k' = (bytes k)(of_ino f := cycle buf N @ drop N old)"
  using assms
proof (induction "N - t" arbitrary: k f t rule: less_induct)
  case less
  obtain d where d: "fd_get k fd = Some d"
    using less.prems(1) by (auto simp: of_get_def split: option.splits)
  show ?case
  proof (cases "t < N")
    case False
    with less.prems d show ?thesis
      by (subst write_bytes_loop.simps) (simp add: sys_close_def fun_upd_idem)
  next
    case True
    let ?m = "min b (N - t)"
    let ?f = "f\<lparr>of_pos := t + ?m\<rparr>" and ?d = "cycle buf (t + ?m) @ drop (t + ?m) old"
    let ?k = "of_put fd ?f (k\<lparr>bytes := (bytes k)(of_ino f := ?d)\<rparr>)"
    have w: "write_at t (take ?m buf) (bytes k (of_ino f)) = ?d"
      using less.prems True cycle_add [of buf t ?m] by (auto simp: write_at_def add.commute)
    have "sys_write fd k (take ?m buf) = (Inr ?m, ?k)"
      using less.prems(1-9) True w by (subst sys_write_ok [where f = f]) auto
    moreover have "(if int b > int N - int t then int N - int t else int b) = int ?m"
      using True by auto
    ultimately have step: "write_bytes_loop fd (int N) (int b) buf (int t) k =
        write_bytes_loop fd (int N) (int b) buf (int (t + ?m)) ?k"
      using True by (subst write_bytes_loop.simps) (simp add: Let_def)
    have "\<exists>k'. write_bytes_loop fd (int N) (int b) buf (int (t + ?m)) ?k = Some (0, [], k') \<and>
        dir k' = dir ?k \<and> fdt k' = (fdt ?k)[nat fd := None] \<and>
        bytes k' = (bytes ?k)(of_ino ?f := cycle buf N @ drop N old)"
    proof (rule less.hyps)
      show "N - (t + ?m) < N - t" using True less.prems(5) by simp
      show "bytes ?k (of_ino ?f) = cycle buf (t + ?m) @ drop (t + ?m) old" by simp
    qed (use less.prems True in \<open>auto simp: min_def\<close>)
    then show ?thesis using step by simp
  qed
qed

lemma write_bytes_loop_diverges:
  assumes "of_get k fd = Some f" "of_wr f" "\<not> of_append f" "0 < n"
  shows "write_bytes_loop fd n 0 [] 0 k = None"
proof (rule ccontr)
  have same: "sys_write fd k [] = (Inr 0, k)"
  proof -
    have "f\<lparr>of_pos := of_pos f\<rparr> = f" by (cases f) simp
    then show ?thesis using assms by (simp add: sys_write_def Let_def write_at_def of_put_id)
  qed
  assume "write_bytes_loop fd n 0 [] 0 k \<noteq> None"
  then obtain y where "write_bytes_loop fd n 0 [] 0 k = Some y" by auto
  then have "\<not> (fd = fd \<and> n = n \<and> (0::int) = 0 \<and> ([]::byte list) = [] \<and> (0::int) = 0 \<and> k = k)"
    by (rule write_bytes_loop.raw_induct
        [rotated, of _ _ _ _ _ _ _ "\<lambda>fd' n' b buf t k' y. \<not> (fd' = fd \<and> n' = n \<and> b = 0 \<and> buf = [] \<and> t = 0 \<and> k' = k)"])
      (use assms(4) same in \<open>fastforce simp: Let_def split: if_splits\<close>)
  then show False by simp
qed

lemma write_bytes_result:
  assumes "0 < free_fds k" "path \<noteq> ''--help''" "denied k path = None"
    and "atoi n = int N" "atoi b = int sz" "malloc (int sz) = Some buf" "length buf = sz"
    and "N \<le> fsize_max k" "old = (case dir k path of None \<Rightarrow> [] | Some i \<Rightarrow> bytes k i)"
  shows "(0 < sz \<longrightarrow> (\<exists>k'. write_bytes_main malloc [prog, path, n, b] k = Some (0, [], k') \<and>
      dir k' = (dir k)(path \<mapsto> open_ino k path) \<and> fdt k' = fdt k \<and>
      bytes k' = (bytes k)(open_ino k path := cycle buf N @ drop N old))) \<and>
    (sz = 0 \<and> 0 < N \<longrightarrow> write_bytes_main malloc [prog, path, n, b] k = None)"
proof -
  let ?fl = "[O_CREAT, O_WRONLY]"
  obtain fd k1 where o: "sys_open path ?fl k = (Inr fd, k1)" "opened k path ?fl fd k1"
    using sys_open_ok [of k path ?fl] assms by auto
  have b: "fsize_max k1 = fsize_max k" "bytes k1 (open_ino k path) = old"
    "(bytes k1)(open_ino k path := x) = (bytes k)(open_ino k path := x)"
    "dir k1 = (dir k)(path \<mapsto> open_ino k path)" "(fdt k1)[nat fd := None] = fdt k" for x
    using opened_bytes [OF o(2)] opened_close [OF o(2)] o(2) assms(9) by (simp_all add: opened_def)
  have sz: "to_unsigned 64 (int sz) = int sz"
  proof -
    have "int sz \<le> INT_MAX" using atoi_range(2) [of b] assms(5) by linarith
    then have "int sz < 2 ^ 64" by (rule le_less_trans) simp
    then show ?thesis by (simp only: to_unsigned_id of_nat_0_le_iff)
  qed
  show ?thesis
  proof (intro conjI impI)
    assume "0 < sz"
    with write_bytes_loop_ok [OF opened_get [OF o(2)], of buf sz 0 N old] b o(1) assms sz
    show "\<exists>k'. write_bytes_main malloc [prog, path, n, b] k = Some (0, [], k') \<and>
        dir k' = (dir k)(path \<mapsto> open_ino k path) \<and> fdt k' = fdt k \<and>
        bytes k' = (bytes k)(open_ino k path := cycle buf N @ drop N old)"
      by (simp add: write_bytes_main_def new_open_file_def cycle_def)
  next
    assume "sz = 0 \<and> 0 < N"
    with write_bytes_loop_diverges [OF opened_get [OF o(2)], of "int N"] o(1) assms sz
    show "write_bytes_main malloc [prog, path, n, b] k = None"
      by (simp add: write_bytes_main_def new_open_file_def)
  qed
qed

lemma file_writers_result:
  assumes "0 < free_fds k" "denied k path = None"
  shows "(n \<noteq> ''--help'' \<and> atoi n = int gaps \<and> atoi m = int g \<and> 0 < gaps \<and> 0 < g \<and>
      int (gaps * (80 + g)) \<le> INT_MAX \<and> gaps * (80 + g) \<le> fsize_max k \<longrightarrow>
      (\<exists>k'. holy_file_main strerror [prog, n, m, path] k = (0, [], k') \<and>
        dir k' = (dir k)(path \<mapsto> open_ino k path) \<and> fdt k' = fdt k \<and>
        bytes k' = (bytes k)(open_ino k path := holy_content g gaps) \<and>
        length (holy_content g gaps) = gaps * 80 + (gaps - 1) * g)) \<and>
    (path \<noteq> ''--help'' \<and> atoi n' = int N \<and> atoi b = int sz \<and> malloc (int sz) = Some buf \<and> length buf = sz \<and>
      N \<le> fsize_max k \<and> old = (case dir k path of None \<Rightarrow> [] | Some i \<Rightarrow> bytes k i) \<longrightarrow>
      (0 < sz \<longrightarrow> (\<exists>k'. write_bytes_main malloc [prog, path, n', b] k = Some (0, [], k') \<and>
        dir k' = (dir k)(path \<mapsto> open_ino k path) \<and> fdt k' = fdt k \<and>
        bytes k' = (bytes k)(open_ino k path := cycle buf N @ drop N old))) \<and>
      (sz = 0 \<and> 0 < N \<longrightarrow> write_bytes_main malloc [prog, path, n', b] k = None))"
  by (rule conjI; rule impI; elim conjE;
      (rule holy_file_content [OF assms(1) _ assms(2)] | rule write_bytes_result [OF assms(1) _ assms(2)])) assumption+

text \<open>
  C18: \<open>copy\<close> returns, makes the new file an exact copy of the old one, whatever its length
  relative to the buffer, creating the new file or replacing its former content, changes no
  other file and closes both descriptors. Given two names of the same file, it ends with
  success too and the file is empty. \<open>cpholes\<close> returns and gives the destination the bytes of the
  source with the holes left out, but for the last one: the null byte written to fix the length
  replaces the last byte of the source, and an empty source gives a file of one null byte. So its
  copy is exact exactly when the source ends in a null byte.
  Given positive numbers of gaps and bytes whose product with the chunks fits an \<open>int\<close>,
  \<open>holy_file\<close> makes a file of that many chunks separated by gaps of null bytes; the last gap is
  not part of the file. With a positive buffer size \<open>write_bytes\<close> returns 0 and overwrites exactly
  the first \<open>num-bytes\<close> bytes of the file with copies of its buffer, the last one cut short. With a
  buffer size of 0 (for which \<open>malloc\<close> returns an empty block) and bytes to write it never returns.
\<close>

theorem file_programs_correct:
  assumes "wf_kernel k" "2 \<le> free_fds k" "src \<noteq> ''--help''"
    and "denied k src = None" "denied k dst = None" "dir k src = Some i"
    and "media k i = None" "length (bytes k i) \<le> fsize_max k"
    and "denied k path = None"
  shows "((\<exists>k'. copy_main [prog, src, dst] k = Some (None, k') \<and>
      dir k' = (dir k)(dst \<mapsto> open_ino k dst) \<and> fdt k' = fdt k \<and>
      bytes k' = (bytes k)(open_ino k dst := if open_ino k dst = i then [] else bytes k i)) \<and>
    (length (bytes k i) < fsize_max k \<and> open_ino k dst \<noteq> i \<longrightarrow>
      (\<exists>k' d. cpholes_main strerror [prog, src, dst] k = Some (0, [], k') \<and>
        dir k' = (dir k)(dst \<mapsto> open_ino k dst) \<and> fdt k' = fdt k \<and>
        bytes k' = (bytes k)(open_ino k dst := d) \<and>
        d = (if bytes k i = [] then [NUL] else butlast (bytes k i) @ [NUL]) \<and>
        (d = bytes k i \<longleftrightarrow> bytes k i \<noteq> [] \<and> last (bytes k i) = NUL)))) \<and>
    ((n \<noteq> ''--help'' \<and> atoi n = int gaps \<and> atoi m = int g \<and> 0 < gaps \<and> 0 < g \<and>
      int (gaps * (80 + g)) \<le> INT_MAX \<and> gaps * (80 + g) \<le> fsize_max k \<longrightarrow>
      (\<exists>k'. holy_file_main strerror [prog, n, m, path] k = (0, [], k') \<and>
        dir k' = (dir k)(path \<mapsto> open_ino k path) \<and> fdt k' = fdt k \<and>
        bytes k' = (bytes k)(open_ino k path := holy_content g gaps) \<and>
        length (holy_content g gaps) = gaps * 80 + (gaps - 1) * g)) \<and>
    (path \<noteq> ''--help'' \<and> atoi n' = int N \<and> atoi b = int sz \<and> malloc (int sz) = Some buf \<and> length buf = sz \<and>
      N \<le> fsize_max k \<and> old = (case dir k path of None \<Rightarrow> [] | Some i \<Rightarrow> bytes k i) \<longrightarrow>
      (0 < sz \<longrightarrow> (\<exists>k'. write_bytes_main malloc [prog, path, n', b] k = Some (0, [], k') \<and>
        dir k' = (dir k)(path \<mapsto> open_ino k path) \<and> fdt k' = fdt k \<and>
        bytes k' = (bytes k)(open_ino k path := cycle buf N @ drop N old))) \<and>
      (sz = 0 \<and> 0 < N \<longrightarrow> write_bytes_main malloc [prog, path, n', b] k = None)))" (is "?copies \<and> ?writers")
proof (rule conjI)
  have "0 < free_fds k" using assms(2) by simp
  then show ?writers by (rule file_writers_result [OF _ assms(9)])
qed (rule copy_programs_correct [OF assms(1-8)])

theorem file_programs_correct_witness:
  "(\<exists>k'. copy_main [''p'', ''f'', ''b''] (disk [''f'' \<mapsto> 0] [''0123456789'']) = Some (None, k') \<and>
     dir k' ''b'' = Some 1 \<and> bytes k' 1 = ''0123456789'') \<and>
   (\<exists>k'. holy_file_main (\<lambda>_. []) [''p'', show_int 2, show_int 10, ''f''] (disk [''f'' \<mapsto> 0] [''0123456789'']) =
       (0, [], k') \<and> dir k' ''f'' = Some 0 \<and> length (bytes k' 0) = 170) \<and>
   (\<exists>k'. write_bytes_main (\<lambda>_. Some ''xyz'') [''p'', ''f'', show_int 7, show_int 3]
       (disk [''f'' \<mapsto> 0] [''0123456789'']) = Some (0, [], k') \<and>
     dir k' ''f'' = Some 0 \<and> bytes k' 0 = ''xyzxyzx789'')"
proof -
  have "cycle ''xyz'' 7 = ''xyzxyzx''" by (simp add: cycle_def upt_rec)
  moreover have "show_int 2 \<noteq> ''--help''" by (simp add: show_int_def show_nat.simps)
  ultimately show ?thesis
    using file_programs_correct [of "disk [''f'' \<mapsto> 0] [''0123456789'']" "''f''" "''b''" 0 "''f''" "''p''" "\<lambda>_. []" "show_int 2" 2
        "show_int 10" 10 "show_int 7" 7 "show_int 3" 3 "\<lambda>_. Some ''xyz''" "''xyz''" "''0123456789''"]
    by (auto simp: atoi_show_int open_ino_def)
qed

end
