(* ===== verification/VectorIO.thy ===== *)
theory VectorIO
  imports FileTools
begin

text \<open>
  \<open>05-file-io-further-details/vector_fileio.c\<close>: \<open>writev\<close> and \<open>readv\<close> written with \<open>write\<close> and
  \<open>read\<close>, and the test program. Both loops keep the result of each transfer in an \<open>int\<close> and the
  sum of the lengths in an \<open>unsigned long long\<close>. The value returned is paired with \<open>errno\<close> where
  the call that failed, or the function itself, has set it.
\<close>

record iovec =
  iov_base :: "byte list"
  iov_len :: nat

abbreviation (input) SSIZE_MAX :: nat where "SSIZE_MAX \<equiv> 9223372036854775807"

fun count_ok :: "iovec list \<Rightarrow> nat \<Rightarrow> bool" where
  "count_ok [] cnt = True"
| "count_ok (v # vs) cnt =
     (let cnt' = (cnt + iov_len v) mod 2 ^ 64 in if cnt' > SSIZE_MAX then False else count_ok vs cnt')"

fun writev_loop :: "'k writer \<Rightarrow> iovec list \<Rightarrow> int \<Rightarrow> 'k \<Rightarrow> int \<times> errno option \<times> 'k" where
  "writev_loop wr [] tot k = (tot, None, k)"
| "writev_loop wr (v # vs) tot k =
     (case wr k (take (iov_len v) (iov_base v)) of
        (Inl e, k') \<Rightarrow> (- 1, Some e, k')
      | (Inr m, k') \<Rightarrow>
          (let bytes_written = to_signed 32 (int m)
           in if bytes_written < 0 then (bytes_written, None, k')
              else if nat bytes_written < iov_len v then (tot + bytes_written, None, k')
              else writev_loop wr vs (tot + bytes_written) k'))"

definition writev :: "'k writer \<Rightarrow> iovec list \<Rightarrow> int \<Rightarrow> 'k \<Rightarrow> int \<times> errno option \<times> 'k" where
  "writev wr iov iovcnt k =
     (if iovcnt < 0 then (- 1, Some EINVAL, k)
      else if \<not> count_ok (take (nat iovcnt) iov) 0 then (- 1, Some EINVAL, k)
      else writev_loop wr (take (nat iovcnt) iov) 0 k)"

fun readv_loop :: "'k reader \<Rightarrow> iovec list \<Rightarrow> int \<Rightarrow> 'k \<Rightarrow> int \<times> errno option \<times> iovec list \<times> 'k" where
  "readv_loop rd [] tot k = (tot, None, [], k)"
| "readv_loop rd (v # vs) tot k =
     (case rd k (iov_len v) of
        (Inl e, k') \<Rightarrow> (- 1, Some e, v # vs, k')
      | (Inr bs, k') \<Rightarrow>
          (let bytes_read = to_signed 32 (int (length bs));
               v' = v\<lparr>iov_base := bs @ drop (length bs) (iov_base v)\<rparr>
           in if bytes_read < 0 then (bytes_read, None, v' # vs, k')
              else if nat bytes_read < iov_len v then (tot + bytes_read, None, v' # vs, k')
              else (case readv_loop rd vs (tot + bytes_read) k' of
                      (r, e, vs', k'') \<Rightarrow> (r, e, v' # vs', k''))))"

definition readv :: "'k reader \<Rightarrow> iovec list \<Rightarrow> int \<Rightarrow> 'k \<Rightarrow> int \<times> errno option \<times> iovec list \<times> 'k" where
  "readv rd iov iovcnt k =
     (if iovcnt \<le> 0 then (- 1, Some EINVAL, iov, k)
      else if \<not> count_ok (take (nat iovcnt) iov) 0 then (- 1, Some EINVAL, iov, k)
      else (case readv_loop rd (take (nat iovcnt) iov) 0 k of
              (r, e, iov', k') \<Rightarrow> (r, e, iov' @ drop (nat iovcnt) iov, k')))"

section \<open>The test program\<close>

abbreviation (input) NUMBER_VECS :: nat where "NUMBER_VECS \<equiv> 100"
abbreviation (input) CHUNK_SIZE :: nat where "CHUNK_SIZE \<equiv> 16"

definition read_iovecs :: "iovec list" where
  "read_iovecs = map (\<lambda>i. \<lparr>iov_base = replicate CHUNK_SIZE NUL, iov_len = CHUNK_SIZE\<rparr>) [0..<NUMBER_VECS]"

definition write_iovecs :: "iovec list" where
  "write_iovecs =
     map (\<lambda>i. \<lparr>iov_base = replicate CHUNK_SIZE (char_of i), iov_len = CHUNK_SIZE\<rparr>) [0..<NUMBER_VECS]"

datatype test_end = Assertion_failed | Returned int string

definition vector_main :: "string list \<Rightarrow> kernel \<Rightarrow> test_end \<times> kernel" where
  "vector_main argv k =
     (let (r, k1) = sys_open (argv ! 1) [O_WRONLY, O_CREAT] k;
          fd = ret r;
          (bytes_written, _, k2) = writev (sys_write fd) write_iovecs (int NUMBER_VECS) k1
      in if bytes_written \<noteq> int (NUMBER_VECS * CHUNK_SIZE) then (Assertion_failed, k2)
         else
           (let (_, k3) = sys_close fd k2;
                (r, k4) = sys_open (argv ! 1) [O_RDONLY] k3;
                fd = ret r;
                (bytes_read, _, iov, k5) = readv (sys_read fd) read_iovecs (int NUMBER_VECS) k4
            in if bytes_read \<noteq> int (NUMBER_VECS * CHUNK_SIZE) then (Assertion_failed, k5)
               else if map iov_base iov \<noteq> map iov_base write_iovecs then (Assertion_failed, k5)
               else (Returned 0 (''Done... no assertion errors'' @ [LF]), k5)))"

section \<open>Complete transfers\<close>

definition total_len :: "iovec list \<Rightarrow> nat" where
  "total_len vs = sum_list (map iov_len vs)"

definition gathered :: "iovec list \<Rightarrow> byte list" where
  "gathered vs = concat (map iov_base vs)"

definition wf_iov :: "iovec list \<Rightarrow> bool" where
  "wf_iov vs \<longleftrightarrow> (\<forall>v\<in>set vs. length (iov_base v) = iov_len v \<and> int (iov_len v) \<le> INT_MAX)"

lemma iov_simps [simp]:
  "total_len [] = 0" "total_len (v # vs) = iov_len v + total_len vs"
  "gathered [] = []" "gathered (v # vs) = iov_base v @ gathered vs"
  "wf_iov []" "wf_iov (v # vs) \<longleftrightarrow>
     length (iov_base v) = iov_len v \<and> int (iov_len v) \<le> INT_MAX \<and> wf_iov vs"
  by (auto simp: total_len_def gathered_def wf_iov_def)

lemma length_gathered: "wf_iov vs \<Longrightarrow> length (gathered vs) = total_len vs"
  by (induction vs) auto

lemma count_ok_iff: "cnt + total_len vs \<le> SSIZE_MAX \<Longrightarrow> count_ok vs cnt"
proof (induction vs arbitrary: cnt)
  case (Cons v vs)
  then have "(cnt + iov_len v) mod 2 ^ 64 = cnt + iov_len v"
    by (intro mod_less) (simp add: le_less_trans)
  with Cons show ?case by (simp add: Let_def)
qed simp

lemma write_at_write_at: "write_at (p + length a) b (write_at p a d) = write_at p (a @ b) d"
proof (cases "p \<le> length d")
  case True
  then show ?thesis by (auto simp: write_at_def ac_simps)
next
  case False
  then show ?thesis by (auto simp: write_at_def)
qed

lemma writev_loop_ok:
  assumes "of_get k fd = Some f" "of_wr f" "\<not> of_append f" "wf_iov vs"
    and "of_pos f + total_len vs \<le> fsize_max k"
  shows "writev_loop (sys_write fd) vs tot k = (tot + int (total_len vs), None,
    of_put fd (f\<lparr>of_pos := of_pos f + total_len vs\<rparr>)
      (k\<lparr>bytes := (bytes k)(of_ino f := write_at (of_pos f) (gathered vs) (bytes k (of_ino f)))\<rparr>))"
  using assms
proof (induction vs arbitrary: k f tot)
  case Nil
  have "f\<lparr>of_pos := of_pos f\<rparr> = f" by (cases f) simp
  with Nil show ?case by (simp add: write_at_def of_put_id)
next
  case (Cons v vs)
  let ?f = "f\<lparr>of_pos := of_pos f + iov_len v\<rparr>"
  let ?d = "write_at (of_pos f) (iov_base v) (bytes k (of_ino f))"
  let ?k = "of_put fd ?f (k\<lparr>bytes := (bytes k)(of_ino f := ?d)\<rparr>)"
  have "sys_write fd k (take (iov_len v) (iov_base v)) = (Inr (iov_len v), ?k)"
    using Cons.prems by (simp add: sys_write_ok)
  then have step: "writev_loop (sys_write fd) (v # vs) tot k =
      writev_loop (sys_write fd) vs (tot + int (iov_len v)) ?k"
    using Cons.prems(4) by (simp add: Let_def)
  have "writev_loop (sys_write fd) vs (tot + int (iov_len v)) ?k =
      (tot + int (iov_len v) + int (total_len vs), None,
       of_put fd (?f\<lparr>of_pos := of_pos ?f + total_len vs\<rparr>)
        (?k\<lparr>bytes := (bytes ?k)(of_ino ?f := write_at (of_pos ?f) (gathered vs) (bytes ?k (of_ino ?f)))\<rparr>))"
    using Cons.prems by (intro Cons.IH) auto
  with step show ?case
    using Cons.prems(4) write_at_write_at [of "of_pos f" "iov_base v" "gathered vs" "bytes k (of_ino f)"]
    by (simp add: of_put_bytes add.assoc fun_upd_def cong: if_cong)
qed

lemma readv_loop_ok:
  assumes "of_get k fd = Some f" "of_rd f" "media k (of_ino f) = None" "wf_iov us" "wf_iov vs"
    and "map iov_len us = map iov_len vs" "drop (of_pos f) (bytes k (of_ino f)) = gathered vs @ rest"
  shows "\<exists>us'. readv_loop (sys_read fd) us tot k = (tot + int (total_len vs), None, us',
      of_put fd (f\<lparr>of_pos := of_pos f + total_len vs\<rparr>) k) \<and> map iov_base us' = map iov_base vs"
  using assms
proof (induction us arbitrary: vs k f tot)
  case Nil
  have "f\<lparr>of_pos := of_pos f\<rparr> = f" by (cases f) simp
  with Nil show ?case by (simp add: of_put_id)
next
  case (Cons u us)
  then obtain v vs' where vs: "vs = v # vs'" "iov_len u = iov_len v" "map iov_len us = map iov_len vs'"
    by (cases vs) auto
  let ?f = "f\<lparr>of_pos := of_pos f + iov_len v\<rparr>"
  have len: "length (bytes k (of_ino f)) - of_pos f = iov_len v + length (gathered vs' @ rest)"
    using arg_cong [OF Cons.prems(7), of length] Cons.prems(5) vs by simp
  then have "sys_read fd k (iov_len u) = (Inr (iov_base v), of_put fd ?f k)"
    using Cons.prems vs by (simp add: sys_read_ok)
  moreover have "drop (of_pos ?f) (bytes k (of_ino f)) = gathered vs' @ rest"
    using arg_cong [OF Cons.prems(7), of "drop (iov_len v)"] Cons.prems(5) vs
    by (simp add: add.commute)
  ultimately show ?case
    using Cons.IH [of "of_put fd ?f k" ?f vs' "tot + int (iov_len v)"] Cons.prems vs
    by (auto simp: Let_def ac_simps)
qed

lemma writev_readv_round_trip:
  assumes "of_get k wfd = Some f" "of_wr f" "\<not> of_append f"
    and "of_get k rfd = Some g" "of_rd g" "media k (of_ino g) = None" "of_ino g = of_ino f"
    and "indep k wfd rfd" "of_pos g = of_pos f" "of_pos f \<le> length (bytes k (of_ino f))"
    and "wf_iov vs" "wf_iov us" "map iov_len us = map iov_len vs" "vs \<noteq> []"
    and "total_len vs \<le> SSIZE_MAX" "of_pos f + total_len vs \<le> fsize_max k"
  shows "\<exists>k' us' k''. writev (sys_write wfd) vs (int (length vs)) k = (int (total_len vs), None, k') \<and>
    bytes k' = (bytes k)(of_ino f := write_at (of_pos f) (gathered vs) (bytes k (of_ino f))) \<and>
    readv (sys_read rfd) us (int (length us)) k' = (int (total_len vs), None, us', k'') \<and>
    map iov_base us' = map iov_base vs"
proof -
  have len: "length us = length vs" using map_eq_imp_length_eq [OF assms(13)] .
  have "total_len us = total_len vs" using assms(13) by (simp add: total_len_def)
  then have c: "count_ok vs 0" "count_ok us 0" using count_ok_iff assms(15) by auto
  let ?d = "write_at (of_pos f) (gathered vs) (bytes k (of_ino f))"
  let ?k = "of_put wfd (f\<lparr>of_pos := of_pos f + total_len vs\<rparr>) (k\<lparr>bytes := (bytes k)(of_ino f := ?d)\<rparr>)"
  have w: "writev_loop (sys_write wfd) vs 0 k = (int (total_len vs), None, ?k)"
    using writev_loop_ok [OF assms(1-3,11,16), of 0] by simp
  have "drop (of_pos g) ?d = gathered vs @ drop (of_pos f + total_len vs) (bytes k (of_ino f))"
    using assms(9,10) length_gathered [OF assms(11)] by (auto simp: write_at_def)
  then have "\<exists>us'. readv_loop (sys_read rfd) us 0 ?k = (0 + int (total_len vs), None, us',
      of_put rfd (g\<lparr>of_pos := of_pos g + total_len vs\<rparr>) ?k) \<and> map iov_base us' = map iov_base vs"
    using assms by (intro readv_loop_ok) auto
  then show ?thesis using c w len assms(14) by (auto simp: writev_def readv_def)
qed

definition two_cursors :: kernel where
  "two_cursors = \<lparr>dir = [''f'' \<mapsto> 0], bytes = (\<lambda>_. []), inodes = 1,
     oft = [new_open_file 0 [O_WRONLY], new_open_file 0 [O_RDONLY]],
     fdt = [Some \<lparr>fd_of = 0, fd_cloexec = False\<rparr>, Some \<lparr>fd_of = 1, fd_cloexec = False\<rparr>],
     denied = Map.empty, media = Map.empty, fsize_max = 100\<rparr>"



end
