(* ===== verification/MsgFile.thy ===== *)
theory MsgFile
  imports FileTools
begin

text \<open>
  The file server over System V message queues: \<open>svmsg/svmsg_file_server.c\<close> and
  \<open>svmsg/svmsg_file_client.c\<close>. A queue is the list of its messages; a queue that has been
  removed is not in the map. Sending appends; a full queue only delays the sender.
\<close>

abbreviation (input) RESP_MSG_SIZE :: nat where "RESP_MSG_SIZE \<equiv> 8192"
abbreviation (input) PATH_MAX :: nat where "PATH_MAX \<equiv> 4096"

datatype resp_mt = RESP_MT_FAILURE | RESP_MT_DATA | RESP_MT_END

record requestMsg =
  clientId :: int
  pathname :: string

record responseMsg =
  mtype :: resp_mt
  data :: "byte list"

type_synonym queues = "int \<rightharpoonup> responseMsg list"

definition msgsnd :: "int \<Rightarrow> responseMsg \<Rightarrow> queues \<Rightarrow> bool \<times> queues" where
  "msgsnd qid m q = (case q qid of None \<Rightarrow> (False, q) | Some ms \<Rightarrow> (True, q(qid \<mapsto> ms @ [m])))"

section \<open>The server\<close>

partial_function (option) send_loop :: "int \<Rightarrow> int \<Rightarrow> kernel \<Rightarrow> queues \<Rightarrow> (kernel \<times> queues) option" where
  "send_loop qid fd k q =
     (case sys_read fd k RESP_MSG_SIZE of
        (Inl e, k1) \<Rightarrow> Some (k1, q)
      | (Inr bs, k1) \<Rightarrow>
          if bs = [] then Some (k1, q)
          else if \<not> fst (msgsnd qid \<lparr>mtype = RESP_MT_DATA, data = bs\<rparr> q)
            then Some (k1, snd (msgsnd qid \<lparr>mtype = RESP_MT_DATA, data = bs\<rparr> q))
          else send_loop qid fd k1 (snd (msgsnd qid \<lparr>mtype = RESP_MT_DATA, data = bs\<rparr> q)))"

text \<open>
  The child's kernel state is its own copy; it exits with the status given (its descriptors with
  it), and only the queues are shared.
\<close>

definition serveRequest :: "requestMsg \<Rightarrow> kernel \<Rightarrow> queues \<Rightarrow> (int \<times> queues) option" where
  "serveRequest req k q =
     (case sys_open (pathname req) [O_RDONLY] k of
        (Inl e, k1) \<Rightarrow>
          (let d = snprintf RESP_MSG_SIZE ''Couldn't open''
           in Some (1, snd (msgsnd (clientId req) \<lparr>mtype = RESP_MT_FAILURE, data = d @ [NUL]\<rparr> q)))
      | (Inr fd, k1) \<Rightarrow>
          (case send_loop (clientId req) fd k1 q of
             None \<Rightarrow> None
           | Some (k2, q2) \<Rightarrow> Some (0, snd (msgsnd (clientId req) \<lparr>mtype = RESP_MT_END, data = []\<rparr> q2))))"

text \<open>What one turn of the server's loop meets: \<open>msgrcv\<close> fails, or a request with \<open>fork\<close>'s fate.\<close>

datatype sv_turn = Rcv_fails errno | Request requestMsg "errno option"

fun file_server_loop :: "sv_turn list \<Rightarrow> kernel \<Rightarrow> queues \<Rightarrow> (string list \<times> bool \<times> queues) option" where
  "file_server_loop [] k q = Some ([], True, q)"
| "file_server_loop (t # ts) k q =
     (case t of
        Rcv_fails e \<Rightarrow> if e = EINTR then file_server_loop ts k q else Some ([''msgrcv''], False, q)
      | Request req (Some e) \<Rightarrow> Some ([''fork''], False, q)
      | Request req None \<Rightarrow>
          (case serveRequest req k q of
             None \<Rightarrow> None
           | Some (st, q') \<Rightarrow> file_server_loop ts k q'))"

text \<open>
  \<open>main\<close>: the result is \<open>None\<close> while the server is still in its loop; when the loop has ended the
  queue is removed, which may fail.
\<close>

definition file_server_main ::
    "int result \<Rightarrow> unit result \<Rightarrow> unit result \<Rightarrow> sv_turn list \<Rightarrow> kernel \<Rightarrow> queues \<Rightarrow>
       (string list \<times> failure option option \<times> queues) option" where
  "file_server_main msgget sigaction rmid ts k q =
     (case msgget of
        Inl e \<Rightarrow> Some ([], Some (Some (ErrExit ''msgget'' e)), q)
      | Inr serverId \<Rightarrow>
          (case sigaction of
             Inl e \<Rightarrow> Some ([], Some (Some (ErrExit ''sigaction'' e)), q)
           | Inr _ \<Rightarrow>
               (case file_server_loop ts k q of
                  None \<Rightarrow> None
                | Some (ms, running, q') \<Rightarrow>
                    Some (ms, (if running then None
                               else Some (case rmid of Inl e \<Rightarrow> Some (ErrExit ''msgctl'' e) | Inr _ \<Rightarrow> None)), q'))))"

section \<open>The client\<close>

definition client_msg :: "string \<Rightarrow> int \<Rightarrow> requestMsg" where
  "client_msg path qid = \<lparr>clientId = qid, pathname = take (PATH_MAX - 1) path\<rparr>"

text \<open>\<open>None\<close>: the client waits for a message that never comes. The queue is received from in order.\<close>

fun receive_loop :: "resp_mt \<Rightarrow> nat \<Rightarrow> nat \<Rightarrow> responseMsg list \<Rightarrow> (nat \<times> nat \<times> responseMsg list) option" where
  "receive_loop mt totBytes numMsgs ms =
     (if mt \<noteq> RESP_MT_DATA then Some (totBytes, numMsgs, ms)
      else (case ms of
              [] \<Rightarrow> None
            | m # ms' \<Rightarrow> receive_loop (mtype m) (totBytes + length (data m)) (numMsgs + 1) ms'))"

declare receive_loop.simps [simp del]

text \<open>
  The failure branch removes the queue, and so does the exit handler, whose second removal fails
  and ends the process with \<open>errExit\<close>.
\<close>

definition removeQueue :: "int \<Rightarrow> queues \<Rightarrow> failure option \<times> queues" where
  "removeQueue qid q =
     (if q qid = None then (Some (ErrExit ''msgctl'' EINVAL), q) else (None, q(qid := None)))"

definition client_receive :: "int \<Rightarrow> queues \<Rightarrow> (string \<times> failure option \<times> queues) option" where
  "client_receive qid q =
     (case q qid of
        None \<Rightarrow> Some ([], Some (ErrExit ''msgrcv'' EINVAL), q)
      | Some [] \<Rightarrow> None
      | Some (m # ms) \<Rightarrow>
          if mtype m = RESP_MT_FAILURE then
            (case removeQueue qid q of
               (Some f, q1) \<Rightarrow> Some (takeWhile (\<lambda>c. c \<noteq> NUL) (data m) @ [LF], Some f, q1)
             | (None, q1) \<Rightarrow>
                 (case removeQueue qid q1 of
                    (f, q2) \<Rightarrow> Some (takeWhile (\<lambda>c. c \<noteq> NUL) (data m) @ [LF], f, q2)))
          else
            (case receive_loop (mtype m) (length (data m)) 1 ms of
               None \<Rightarrow> None
             | Some (totBytes, numMsgs, rest) \<Rightarrow>
                 (case removeQueue qid (q(qid \<mapsto> rest)) of
                    (f, q2) \<Rightarrow>
                      Some (''Received '' @ show_nat totBytes @ '' bytes ('' @ show_nat numMsgs @ '' messages)'' @ [LF],
                            f, q2))))"

text \<open>
  \<open>main\<close>, with the results of the two \<open>msgget\<close> calls, \<open>atexit\<close> and \<open>msgsnd\<close>; \<open>serve\<close> is what the
  server makes of the queues once the request has been sent.
\<close>

definition file_client_main ::
    "int result \<Rightarrow> int result \<Rightarrow> bool \<Rightarrow> unit result \<Rightarrow> (requestMsg \<Rightarrow> queues \<Rightarrow> queues option) \<Rightarrow>
       string list \<Rightarrow> queues \<Rightarrow> (string \<times> failure option \<times> queues) option" where
  "file_client_main sv cl atexit sent serve argv q =
     (if length argv \<noteq> 2 \<or> argv ! 1 = ''--help'' then Some ([], Some (UsageErr ''%s pathname''), q)
      else if PATH_MAX - 1 < length (argv ! 1) then Some ([], Some (CmdLineErr ''pathname too long''), q)
      else
        (case sv of
           Inl e \<Rightarrow> Some ([], Some (ErrExit ''msgget - server message queue'' e), q)
         | Inr serverId \<Rightarrow>
             (case cl of
                Inl e \<Rightarrow> Some ([], Some (ErrExit ''msgget - client message queue'' e), q)
              | Inr qid \<Rightarrow>
                  if \<not> atexit then Some ([], Some (ErrExit ''atexit'' ENOMEM), q(qid \<mapsto> []))
                  else
                    (case sent of
                       Inl e \<Rightarrow> Some ([], Some (ErrExit ''msgsnd'' e), q(qid := None))
                     | Inr _ \<Rightarrow>
                         (case serve (client_msg (argv ! 1) qid) (q(qid \<mapsto> [])) of
                            None \<Rightarrow> None
                          | Some q' \<Rightarrow> client_receive qid q')))))"

section \<open>The transfer\<close>

text \<open>The file in blocks of the size of a message.\<close>

fun blocks :: "byte list \<Rightarrow> byte list list" where
  "blocks c = (if c = [] then [] else take RESP_MSG_SIZE c # blocks (drop RESP_MSG_SIZE c))"

declare blocks.simps [simp del]

definition data_msg :: "byte list \<Rightarrow> responseMsg" where
  "data_msg bs = \<lparr>mtype = RESP_MT_DATA, data = bs\<rparr>"

lemma data_msg_simps [simp]: "mtype (data_msg bs) = RESP_MT_DATA" "data (data_msg bs) = bs"
  by (simp_all add: data_msg_def)

definition end_msg :: responseMsg where
  "end_msg = \<lparr>mtype = RESP_MT_END, data = []\<rparr>"

lemma concat_blocks: "concat (blocks c) = c"
proof (induction c rule: blocks.induct)
  case (1 c)
  then show ?case by (subst blocks.simps) auto
qed

lemma length_blocks: "length (blocks c) = (length c + (RESP_MSG_SIZE - 1)) div RESP_MSG_SIZE"
proof (induction c rule: blocks.induct)
  case (1 c)
  show ?case
  proof (cases "c = []")
    case True
    then show ?thesis by (simp add: blocks.simps)
  next
    case False
    have "length (blocks c) = Suc ((length c - RESP_MSG_SIZE + (RESP_MSG_SIZE - 1)) div RESP_MSG_SIZE)"
      using False 1 by (subst blocks.simps) simp
    also have "\<dots> = (length c + (RESP_MSG_SIZE - 1)) div RESP_MSG_SIZE"
    proof (cases "length c \<le> RESP_MSG_SIZE")
      case True
      moreover have "0 < length c" using False by simp
      ultimately show ?thesis by (simp add: div_if)
    next
      case False
      then have "length c + 8191 = (length c - 8192 + 8191) + 8192" by simp
      then show ?thesis by simp
    qed
    finally show ?thesis .
  qed
qed

lemma send_loop_ok:
  assumes "of_get k fd = Some f" "of_rd f" "media k (of_ino f) = None" "q qid = Some ms"
  shows "\<exists>k'. send_loop qid fd k q =
    Some (k', q(qid \<mapsto> ms @ map data_msg (blocks (drop (of_pos f) (bytes k (of_ino f))))))"
  using assms
proof (induction "length (bytes k (of_ino f)) - of_pos f" arbitrary: k f q ms rule: less_induct)
  case less
  let ?c = "drop (of_pos f) (bytes k (of_ino f))"
  let ?f = "f\<lparr>of_pos := of_pos f + min RESP_MSG_SIZE (length (bytes k (of_ino f)) - of_pos f)\<rparr>"
  have r: "sys_read fd k RESP_MSG_SIZE = (Inr (take RESP_MSG_SIZE ?c), of_put fd ?f k)"
    using less.prems by (simp add: sys_read_ok)
  show ?case
  proof (cases "?c = []")
    case True
    then show ?thesis
      using r less.prems by (subst send_loop.simps) (simp add: blocks.simps fun_upd_idem)
  next
    case False
    let ?q = "q(qid \<mapsto> ms @ [data_msg (take RESP_MSG_SIZE ?c)])"
    have s: "send_loop qid fd k q = send_loop qid fd (of_put fd ?f k) ?q"
      using r less.prems False by (subst send_loop.simps) (simp add: msgsnd_def data_msg_def)
    have "\<exists>k'. send_loop qid fd (of_put fd ?f k) ?q = Some (k', ?q(qid \<mapsto>
        (ms @ [data_msg (take RESP_MSG_SIZE ?c)]) @
          map data_msg (blocks (drop (of_pos ?f) (bytes (of_put fd ?f k) (of_ino ?f))))))"
      using less.prems False by (intro less.hyps) auto
    moreover have "drop (of_pos ?f) (bytes k (of_ino f)) = drop RESP_MSG_SIZE ?c"
      by (auto simp: min_def add.commute)
    ultimately show ?thesis
      using s False by (subst blocks.simps) (auto simp: Let_def)
  qed
qed

lemma receive_loop_blocks:
  "receive_loop RESP_MT_DATA n m (map data_msg bs @ [end_msg]) =
     Some (n + length (concat bs), m + length bs + 1, [])"
proof (induction bs arbitrary: n m)
  case Nil
  then show ?case by (simp add: receive_loop.simps end_msg_def)
next
  case (Cons b bs)
  then show ?case by (subst receive_loop.simps) simp
qed

lemma serveRequest_ok:
  assumes "0 < free_fds k" "denied k path = None" "dir k path = Some i" "media k i = None"
    and "q qid = Some []"
  shows "serveRequest \<lparr>clientId = qid, pathname = path\<rparr> k q =
    Some (0, q(qid \<mapsto> map data_msg (blocks (bytes k i)) @ [end_msg]))"
proof -
  obtain fd k1 where o: "sys_open path [O_RDONLY] k = (Inr fd, k1)" "opened k path [O_RDONLY] fd k1"
    using sys_open_ok [of k path "[O_RDONLY]"] assms by auto
  have i: "open_ino k path = i" "bytes k1 = bytes k" "media k1 = media k"
    using o(2) assms(3) by (auto simp: opened_def open_ino_def)
  obtain k2 where "send_loop qid fd k1 q = Some (k2, q(qid \<mapsto> map data_msg (blocks (bytes k i))))"
    using send_loop_ok [OF opened_get [OF o(2)], of q qid "[]"] assms i
    by (auto simp: new_open_file_def)
  then show ?thesis using o(1) by (simp add: serveRequest_def msgsnd_def end_msg_def)
qed

text \<open>
  C30: a client that asks for a file the server can open receives all of it, whatever its length:
  it reports the exact number of bytes and one message per block of 8192 bytes plus the final
  one, and its queue is removed. When the file cannot be opened the client prints the server's
  text, and its exit handler then fails to remove the queue it has already removed.
\<close>

theorem file_transfer_correct:
  assumes "0 < free_fds k" "length path < PATH_MAX" "path \<noteq> ''--help''" "q qid = None"
    and "serve = (\<lambda>req q. map_option snd (serveRequest req k q))"
  shows "(denied k path = None \<and> dir k path = Some i \<and> media k i = None \<longrightarrow>
      file_client_main (Inr sid) (Inr qid) True (Inr ()) serve [prog, path] q =
        Some (''Received '' @ show_nat (length (bytes k i)) @ '' bytes ('' @
          show_nat ((length (bytes k i) + (RESP_MSG_SIZE - 1)) div RESP_MSG_SIZE + 1) @
          '' messages)'' @ [LF], None, q)) \<and>
    (fst (sys_open path [O_RDONLY] k) = Inl e \<longrightarrow>
      file_client_main (Inr sid) (Inr qid) True (Inr ()) serve [prog, path] q =
        Some (''Couldn't open'' @ [LF], Some (ErrExit ''msgctl'' EINVAL), q))"
proof (intro conjI impI)
  have m: "client_msg path qid = \<lparr>clientId = qid, pathname = path\<rparr>"
    using assms(2) by (simp add: client_msg_def)
  {
    assume a: "denied k path = None \<and> dir k path = Some i \<and> media k i = None"
    let ?bs = "blocks (bytes k i)"
    have "serve (client_msg path qid) (q(qid \<mapsto> [])) = Some (q(qid \<mapsto> map data_msg ?bs @ [end_msg]))"
      using serveRequest_ok [of k path i "q(qid \<mapsto> [])" qid] a assms by (simp add: m)
    moreover have "client_receive qid (q(qid \<mapsto> map data_msg ?bs @ [end_msg])) =
        Some (''Received '' @ show_nat (length (concat ?bs)) @ '' bytes ('' @
          show_nat (length ?bs + 1) @ '' messages)'' @ [LF], None, q)"
    proof (cases ?bs)
      case Nil
      then show ?thesis
        using assms(4) by (simp add: client_receive_def end_msg_def receive_loop.simps removeQueue_def fun_upd_idem)
    next
      case (Cons b bs)
      then show ?thesis
        using assms(4) receive_loop_blocks [of "length b" "Suc 0" bs]
        by (simp add: client_receive_def removeQueue_def fun_upd_idem)
    qed
    ultimately show "file_client_main (Inr sid) (Inr qid) True (Inr ()) serve [prog, path] q =
        Some (''Received '' @ show_nat (length (bytes k i)) @ '' bytes ('' @
          show_nat ((length (bytes k i) + (RESP_MSG_SIZE - 1)) div RESP_MSG_SIZE + 1) @
          '' messages)'' @ [LF], None, q)"
      using assms(2,3) by (simp add: file_client_main_def concat_blocks length_blocks)
  next
    assume "fst (sys_open path [O_RDONLY] k) = Inl e"
    then obtain k1 where "sys_open path [O_RDONLY] k = (Inl e, k1)" by (metis prod.collapse)
    then have "serve (client_msg path qid) (q(qid \<mapsto> [])) =
        Some (q(qid \<mapsto> [\<lparr>mtype = RESP_MT_FAILURE, data = ''Couldn't open'' @ [NUL]\<rparr>]))"
      using assms(5) by (simp add: m serveRequest_def msgsnd_def snprintf_def)
    then show "file_client_main (Inr sid) (Inr qid) True (Inr ()) serve [prog, path] q =
        Some (''Couldn't open'' @ [LF], Some (ErrExit ''msgctl'' EINVAL), q)"
      using assms(2,3,4) by (simp add: file_client_main_def client_receive_def removeQueue_def fun_upd_idem)
  }
qed

theorem file_transfer_correct_witness:
  "file_client_main (Inr 1) (Inr 2) True (Inr ())
     (\<lambda>req q. map_option snd (serveRequest req (disk [''f'' \<mapsto> 0] [''hello'']) q)) [''client'', ''f''] Map.empty =
   Some (''Received '' @ show_nat (length ''hello'') @ '' bytes ('' @ show_nat (Suc (Suc 0)) @ '' messages)'' @ [LF],
     None, Map.empty)"
  using file_transfer_correct [of "disk [''f'' \<mapsto> 0] [''hello'']" "''f''" Map.empty 2 _ 0 1 "''client''" EIO, OF _ _ _ _ refl]
  by simp

end
