(* ===== verification/Locks.thy ===== *)
theory Locks
  imports NumArgs
begin

text \<open>
  Record locks: the lock table of a file as \<open>fcntl(2)\<close> describes it, the functions of
  \<open>lib/region_locking.c\<close>, and the interactive program \<open>filelock/i_fcntl_locking.c\<close>.
\<close>

unbundle bit_operations_syntax

section \<open>The lock table\<close>

datatype ltype = F_RDLCK | F_WRLCK | F_UNLCK
datatype lwhence = L_SET | L_CUR | L_END
datatype lcmd = F_GETLK | F_SETLK | F_SETLKW

record flock =
  l_type :: ltype
  l_whence :: lwhence
  l_start :: int
  l_len :: int
  l_pid :: int

text \<open>A lock of a process on the bytes from \<open>lo\<close> up to, not including, \<open>hi\<close>.\<close>

record held =
  owner :: int
  kind :: ltype
  lo :: int
  hi :: int

record lockfile =
  held_locks :: "held list"
  f_pos :: int
  f_size :: int
  f_mode :: int

text \<open>
  \<open>l_fd\<close> gives the file of a descriptor; \<open>dead\<close> says for which processes waiting would be a
  deadlock.
\<close>

record lks =
  l_fd :: "int \<rightharpoonup> nat"
  l_files :: "nat \<Rightarrow> lockfile"
  dead :: "int \<Rightarrow> bool"

abbreviation (input) OFF_MAX :: int where "OFF_MAX \<equiv> 9223372036854775807"

definition lock_range :: "flock \<Rightarrow> lockfile \<Rightarrow> (int \<times> int) result" where
  "lock_range fl f =
     (let s = l_start fl + (case l_whence fl of L_SET \<Rightarrow> 0 | L_CUR \<Rightarrow> f_pos f | L_END \<Rightarrow> f_size f);
          a = (if l_len fl < 0 then s + l_len fl else s);
          b = (if l_len fl = 0 then OFF_MAX else if l_len fl < 0 then s else s + l_len fl)
      in if a < 0 then Inl EINVAL else if OFF_MAX < b \<or> b \<le> a then Inl EOVERFLOW else Inr (a, b))"

definition overlaps :: "int \<Rightarrow> int \<Rightarrow> held \<Rightarrow> bool" where
  "overlaps a b h \<longleftrightarrow> a < hi h \<and> lo h < b"

definition blocks_lock :: "int \<Rightarrow> ltype \<Rightarrow> int \<Rightarrow> int \<Rightarrow> held \<Rightarrow> bool" where
  "blocks_lock p t a b h \<longleftrightarrow>
     owner h \<noteq> p \<and> overlaps a b h \<and> t \<noteq> F_UNLCK \<and> (t = F_WRLCK \<or> kind h = F_WRLCK)"

text \<open>A process's locks with the bytes from \<open>a\<close> to \<open>b\<close> taken out.\<close>

definition cut :: "int \<Rightarrow> int \<Rightarrow> int \<Rightarrow> held \<Rightarrow> held list" where
  "cut p a b h =
     (if owner h = p \<and> overlaps a b h then
        (if lo h < a then [h\<lparr>hi := a\<rparr>] else []) @ (if b < hi h then [h\<lparr>lo := b\<rparr>] else [])
      else [h])"

definition set_lock :: "int \<Rightarrow> ltype \<Rightarrow> int \<Rightarrow> int \<Rightarrow> held list \<Rightarrow> held list" where
  "set_lock p t a b hs =
     concat (map (cut p a b) hs) @
     (if t = F_UNLCK then [] else [\<lparr>owner = p, kind = t, lo = a, hi = b\<rparr>])"

text \<open>\<open>None\<close>: the process sleeps until the lock is free.\<close>

definition fcntl_lock :: "int \<Rightarrow> int \<Rightarrow> lcmd \<Rightarrow> flock \<Rightarrow> lks \<Rightarrow> (flock result \<times> lks) option" where
  "fcntl_lock p fd cmd fl s =
     (case l_fd s fd of
        None \<Rightarrow> Some (Inl EBADF, s)
      | Some i \<Rightarrow>
          (case lock_range fl (l_files s i) of
             Inl e \<Rightarrow> Some (Inl e, s)
           | Inr (a, b) \<Rightarrow>
               (let f = l_files s i; t = l_type fl
                in case find (blocks_lock p t a b) (held_locks f) of
                     Some h \<Rightarrow>
                       (case cmd of
                          F_GETLK \<Rightarrow>
                            Some (Inr \<lparr>l_type = kind h, l_whence = L_SET, l_start = lo h,
                                       l_len = (if hi h = OFF_MAX then 0 else hi h - lo h), l_pid = owner h\<rparr>, s)
                        | F_SETLK \<Rightarrow> Some (Inl EAGAIN, s)
                        | F_SETLKW \<Rightarrow> if dead s p then Some (Inl EDEADLK, s) else None)
                   | None \<Rightarrow>
                       (if cmd = F_GETLK then Some (Inr (fl\<lparr>l_type := F_UNLCK\<rparr>), s)
                        else Some (Inr fl, s\<lparr>l_files := (l_files s)(i :=
                               f\<lparr>held_locks := set_lock p t a b (held_locks f)\<rparr>)\<rparr>)))))"

section \<open>region\_locking\<close>

definition lockReg ::
    "int \<Rightarrow> int \<Rightarrow> lcmd \<Rightarrow> ltype \<Rightarrow> lwhence \<Rightarrow> int \<Rightarrow> int \<Rightarrow> lks \<Rightarrow> (int \<times> errno option \<times> lks) option" where
  "lockReg p fd cmd typ whence start len s =
     (case fcntl_lock p fd cmd
             \<lparr>l_type = typ, l_whence = whence, l_start = start, l_len = len, l_pid = 0\<rparr> s of
        None \<Rightarrow> None
      | Some (Inl e, s') \<Rightarrow> Some (- 1, Some e, s')
      | Some (Inr fl, s') \<Rightarrow> Some (0, None, s'))"

definition lockRegion ::
    "int \<Rightarrow> int \<Rightarrow> ltype \<Rightarrow> lwhence \<Rightarrow> int \<Rightarrow> int \<Rightarrow> lks \<Rightarrow> (int \<times> errno option \<times> lks) option" where
  "lockRegion p fd typ whence start len s = lockReg p fd F_SETLK typ whence start len s"

definition lockRegionWait ::
    "int \<Rightarrow> int \<Rightarrow> ltype \<Rightarrow> lwhence \<Rightarrow> int \<Rightarrow> int \<Rightarrow> lks \<Rightarrow> (int \<times> errno option \<times> lks) option" where
  "lockRegionWait p fd typ whence start len s = lockReg p fd F_SETLKW typ whence start len s"

definition regionIsLocked :: "int \<Rightarrow> int \<Rightarrow> ltype \<Rightarrow> lwhence \<Rightarrow> int \<Rightarrow> int \<Rightarrow> lks \<Rightarrow> int option" where
  "regionIsLocked p fd typ whence start len s =
     (case fcntl_lock p fd F_GETLK
             \<lparr>l_type = typ, l_whence = whence, l_start = start, l_len = len, l_pid = 0\<rparr> s of
        None \<Rightarrow> None
      | Some (Inl e, _) \<Rightarrow> Some (- 1)
      | Some (Inr fl, _) \<Rightarrow> Some (if l_type fl = F_UNLCK then 0 else l_pid fl))"

section \<open>Locks never conflict\<close>

definition compatible :: "held \<Rightarrow> held \<Rightarrow> bool" where
  "compatible g h \<longleftrightarrow>
     owner g = owner h \<or> \<not> overlaps (lo g) (hi g) h \<or> (kind g = F_RDLCK \<and> kind h = F_RDLCK)"

definition lock_inv :: "held list \<Rightarrow> bool" where
  "lock_inv hs \<longleftrightarrow> (\<forall>h\<in>set hs. kind h \<noteq> F_UNLCK \<and> lo h < hi h) \<and>
     (\<forall>g\<in>set hs. \<forall>h\<in>set hs. compatible g h)"

lemma compatible_sym: "compatible g h \<longleftrightarrow> compatible h g"
  by (auto simp: compatible_def overlaps_def)

lemma cut_sub:
  "x \<in> set (cut p a b h) \<Longrightarrow> owner x = owner h \<and> kind x = kind h \<and> lo h \<le> lo x \<and> hi x \<le> hi h"
  by (auto simp: cut_def overlaps_def split: if_splits)

lemma cut_nonempty: "x \<in> set (cut p a b h) \<Longrightarrow> lo h < hi h \<Longrightarrow> lo x < hi x"
  by (auto simp: cut_def overlaps_def split: if_splits)

lemma compatible_mono:
  assumes "compatible g h" "owner x = owner g" "kind x = kind g" "lo g \<le> lo x" "hi x \<le> hi g"
  shows "compatible x h"
  using assms by (auto simp: compatible_def overlaps_def)

lemma set_lock_inv:
  assumes "lock_inv hs" "\<not> (\<exists>h\<in>set hs. blocks_lock p t a b h)" "a < b"
  shows "lock_inv (set_lock p t a b hs)"
proof -
  let ?cs = "concat (map (cut p a b) hs)" and ?n = "\<lparr>owner = p, kind = t, lo = a, hi = b\<rparr>"
  have part: "\<exists>h\<in>set hs. owner x = owner h \<and> kind x = kind h \<and> lo h \<le> lo x \<and> hi x \<le> hi h \<and> lo x < hi x"
    if "x \<in> set ?cs" for x
    using that cut_sub [of x p a b] cut_nonempty [of x p a b] assms(1) by (fastforce simp: lock_inv_def)
  have cc: "compatible x y" if "x \<in> set ?cs" "y \<in> set ?cs" for x y
    using part [OF that(1)] part [OF that(2)] assms(1) compatible_mono compatible_sym
    unfolding lock_inv_def by metis
  have new: "compatible ?n x" if x: "x \<in> set ?cs" and u: "t \<noteq> F_UNLCK" for x
  proof -
    obtain h where h: "h \<in> set hs" "owner x = owner h" "kind x = kind h" "lo h \<le> lo x" "hi x \<le> hi h"
      using part [OF x] by blast
    have "kind h \<noteq> F_UNLCK" using assms(1) h(1) by (simp add: lock_inv_def)
    moreover have "\<not> blocks_lock p t a b h" using assms(2) h(1) by blast
    ultimately show ?thesis using h u
      by (cases t; cases "kind h") (auto simp: compatible_def blocks_lock_def overlaps_def)
  qed
  have k: "kind x \<noteq> F_UNLCK \<and> lo x < hi x" if "x \<in> set ?cs" for x
    using part [OF that] assms(1) unfolding lock_inv_def by metis
  have "compatible ?n ?n" by (simp add: compatible_def)
  then show ?thesis
    using cc new k compatible_sym assms(3) by (auto simp: lock_inv_def set_lock_def)
qed

lemma lock_range_less: "lock_range fl f = Inr (a, b) \<Longrightarrow> a < b"
  by (auto simp: lock_range_def Let_def split: if_splits)

lemma fcntl_lock_inv:
  assumes "fcntl_lock p fd cmd fl s = Some (r, s')" "\<forall>i. lock_inv (held_locks (l_files s i))"
  shows "\<forall>i. lock_inv (held_locks (l_files s' i))"
  using assms
  by (auto simp: fcntl_lock_def Let_def find_None_iff split: option.splits sum.splits if_splits lcmd.splits
      intro!: set_lock_inv lock_range_less)

lemma lockReg_inv:
  "lockReg p fd cmd t w st len s = Some (r, e, s') \<Longrightarrow> \<forall>i. lock_inv (held_locks (l_files s i)) \<Longrightarrow>
   \<forall>i. lock_inv (held_locks (l_files s' i))"
  by (auto simp: lockReg_def split: option.splits sum.splits dest: fcntl_lock_inv)

section \<open>i\_fcntl\_locking\<close>

abbreviation (input) MAX_LINE :: nat where "MAX_LINE \<equiv> 100"
abbreviation (input) S_ISGID :: int where "S_ISGID \<equiv> 1024"
abbreviation (input) S_IXGRP :: int where "S_IXGRP \<equiv> 8"

definition mandLockingEnabled :: "int \<Rightarrow> lks \<Rightarrow> bool result" where
  "mandLockingEnabled fd s =
     (case l_fd s fd of
        None \<Rightarrow> Inl EBADF
      | Some i \<Rightarrow> Inr (f_mode (l_files s i) AND S_ISGID \<noteq> 0 \<and> f_mode (l_files s i) AND S_IXGRP = 0))"

text \<open>The variables that \<open>sscanf\<close> fills in keep their values when a conversion fails.\<close>

record scanned =
  fileNum :: int
  cmdCh :: char
  lock :: char
  st :: int
  len :: int
  whence :: char

fun scan_all :: "(string \<Rightarrow> scanned \<Rightarrow> (string \<times> scanned) option) list \<Rightarrow> string \<Rightarrow> scanned \<Rightarrow> nat \<times> scanned" where
  "scan_all [] line v = (0, v)"
| "scan_all (conv # convs) line v =
     (case conv line v of
        None \<Rightarrow> (0, v)
      | Some (rest, v') \<Rightarrow> (case scan_all convs rest v' of (n, v'') \<Rightarrow> (n + 1, v'')))"

definition scan_char :: "(char \<Rightarrow> scanned \<Rightarrow> scanned) \<Rightarrow> string \<Rightarrow> scanned \<Rightarrow> (string \<times> scanned) option" where
  "scan_char put line v =
     (case dropWhile isspace line of [] \<Rightarrow> None | c # rest \<Rightarrow> Some (rest, put c v))"

definition scan_num :: "(int \<Rightarrow> scanned \<Rightarrow> scanned) \<Rightarrow> string \<Rightarrow> scanned \<Rightarrow> (string \<times> scanned) option" where
  "scan_num put line v =
     (case strtol line 10 of (x, rest, _) \<Rightarrow> if rest = line then None else Some (rest, put x v))"

definition scan_command :: "nat \<Rightarrow> string \<Rightarrow> scanned \<Rightarrow> nat \<times> scanned" where
  "scan_command argc line v0 =
     (let v = v0\<lparr>whence := CHR ''s''\<rparr>;
          common = [scan_char (\<lambda>c v. v\<lparr>cmdCh := c\<rparr>), scan_char (\<lambda>c v. v\<lparr>lock := c\<rparr>),
                    scan_num (\<lambda>x v. v\<lparr>st := x\<rparr>), scan_num (\<lambda>x v. v\<lparr>len := x\<rparr>),
                    scan_char (\<lambda>c v. v\<lparr>whence := c\<rparr>)]
      in if argc = 2 then scan_all common line (v\<lparr>fileNum := 1\<rparr>)
         else scan_all (scan_num (\<lambda>x v. v\<lparr>fileNum := to_signed 32 x\<rparr>) # common) line v)"

definition say :: "int \<Rightarrow> string \<Rightarrow> string" where
  "say pid msg = ''[PID='' @ show_int pid @ ''] '' @ msg @ [LF]"

definition lock_command :: "int \<Rightarrow> string list \<Rightarrow> int list \<Rightarrow> string \<Rightarrow> scanned \<Rightarrow> lks \<Rightarrow>
    (string \<times> scanned \<times> lks) option" where
  "lock_command pid argv fdList line v0 s =
     (let argc = length argv; (numRead, v) = scan_command argc line v0
      in if fileNum v < 1 \<or> int argc \<le> fileNum v
           then Some (''File number must be in range 1 to '' @ show_int (int argc - 1) @ [LF], v, s)
         else if \<not> (4 \<le> numRead \<and> argc = 2 \<or> 5 \<le> numRead \<and> 2 < argc) \<or>
                 cmdCh v \<notin> set ''gsw'' \<or> lock v \<notin> set ''rwu'' \<or> whence v \<notin> set ''sce''
           then Some (''Invalid command!'' @ [LF], v, s)
         else
           (let fd = fdList ! nat (fileNum v);
                cmd = (if cmdCh v = CHR ''g'' then F_GETLK else if cmdCh v = CHR ''s'' then F_SETLK else F_SETLKW);
                fl = \<lparr>l_type = (if lock v = CHR ''r'' then F_RDLCK else if lock v = CHR ''w'' then F_WRLCK else F_UNLCK),
                      l_whence = (if whence v = CHR ''c'' then L_CUR else if whence v = CHR ''e'' then L_END else L_SET),
                      l_start = st v, l_len = len v, l_pid = 0\<rparr>
            in case fcntl_lock pid fd cmd fl s of
                 None \<Rightarrow> None
               | Some (r, s') \<Rightarrow>
                   Some ((if cmd = F_GETLK then
                            (case r of
                               Inl e \<Rightarrow> ''fcntl - F_GETLK''
                             | Inr fl' \<Rightarrow>
                                 if l_type fl' = F_UNLCK then say pid ''Lock can be placed''
                                 else say pid (''Denied by '' @ (if l_type fl' = F_RDLCK then ''READ'' else ''WRITE'') @
                                        '' lock on '' @ show_int (l_start fl') @ '':'' @ show_int (l_len fl') @
                                        '' (held by PID '' @ show_int (l_pid fl') @ '')''))
                          else
                            (case r of
                               Inr _ \<Rightarrow> say pid (if lock v = CHR ''u'' then ''unlocked'' else ''got lock'')
                             | Inl e \<Rightarrow>
                                 if e = EAGAIN \<or> e = EACCES then say pid ''failed (incompatible lock)''
                                 else if e = EDEADLK then say pid ''failed (deadlock)''
                                 else ''fcntl - F_SETLK(W)'')), v, s')))"

text \<open>
  The loop over the lines of the input, which holds no null byte. The help text of
  \<open>displayCmdFmt\<close> is given as a parameter.
\<close>

function locking_loop :: "int \<Rightarrow> string list \<Rightarrow> int list \<Rightarrow> string \<Rightarrow> string \<Rightarrow> scanned \<Rightarrow> lks \<Rightarrow>
    (string list \<times> lks) option" where
  "locking_loop pid argv fdList helpText input v s =
     (case fgets MAX_LINE input of
        None \<Rightarrow> Some ([], s)
      | Some (l, rest) \<Rightarrow>
          (let line = butlast l
           in if line = [] then locking_loop pid argv fdList helpText rest v s
              else if hd line = CHR ''?'' then
                map_option (\<lambda>(ms, s'). (helpText # ms, s')) (locking_loop pid argv fdList helpText rest v s)
              else
                (case lock_command pid argv fdList line v s of
                   None \<Rightarrow> None
                 | Some (m, v', s') \<Rightarrow>
                     map_option (\<lambda>(ms, s''). (m # ms, s'')) (locking_loop pid argv fdList helpText rest v' s'))))"
  by pat_completeness auto
termination
  by (relation "measure (\<lambda>(_, _, _, _, input, _, _). length input)")
    (auto dest: fgets_shorter)

declare locking_loop.simps [simp del]

text \<open>Padding: \<open>%-10s\<close> and \<open>%2d\<close>.\<close>

definition pad10 :: "string \<Rightarrow> string" where
  "pad10 t = t @ replicate (10 - length t) CHR '' ''"

definition right2 :: "int \<Rightarrow> string" where
  "right2 n = replicate (2 - length (show_int n)) CHR '' '' @ show_int n"

fun map_result :: "('a \<Rightarrow> errno + 'b) \<Rightarrow> 'a list \<Rightarrow> errno + 'b list" where
  "map_result f [] = Inr []"
| "map_result f (x # xs) =
     (case f x of Inl e \<Rightarrow> Inl e
      | Inr y \<Rightarrow> (case map_result f xs of Inl e \<Rightarrow> Inl e | Inr ys \<Rightarrow> Inr (y # ys)))"

definition lock_mode :: "int \<Rightarrow> lks \<Rightarrow> string result" where
  "lock_mode fd s =
     (case mandLockingEnabled fd s of
        Inl e \<Rightarrow> Inl e | Inr m \<Rightarrow> Inr (if m then ''mandatory'' else ''advisory''))"

definition displayCmdFmt :: "string list \<Rightarrow> int list \<Rightarrow> lks \<Rightarrow> string result" where
  "displayCmdFmt argv fdList s =
     (let tail = ''    'cmd' is 'g' (GETLK), 's' (SETLK), or 'w' (SETLKW)'' @ [LF] @
                 ''    'lock' is 'r' (READ), 'w' (WRITE), or 'u' (UNLOCK)'' @ [LF] @
                 ''    'start' and 'length' specify byte range to lock'' @ [LF] @
                 ''    'whence' is 's' (SEEK_SET, default), 'c' (SEEK_CUR), or 'e' (SEEK_END)'' @ [LF, LF]
      in if length argv = 2 then
           Inr ([LF] @ ''Format: cmd lock start length [whence]'' @ [LF, LF] @ tail)
         else
           (case map_result (\<lambda>j. case lock_mode (fdList ! j) s of
                   Inl e \<Rightarrow> Inl e
                 | Inr m \<Rightarrow> Inr (''        '' @ right2 (int j) @ ''  '' @ pad10 (argv ! j) @ '' ['' @ m @ '' locking]'' @ [LF]))
                 [1..<length argv] of
              Inl e \<Rightarrow> Inl e
            | Inr ls \<Rightarrow>
                Inr ([LF] @ ''Format: '' @ (if 2 < length argv then ''file-num '' else []) @
                     ''cmd lock start length [whence]'' @ [LF, LF] @
                     ''    file-num is a number from the following list'' @ [LF] @ concat ls @ tail)))"

text \<open>
  \<open>main\<close>: \<open>opens\<close> gives the results of opening the files. The locking modes, which no command
  changes, are printed first; the text for \<open>?\<close> is that of \<open>displayCmdFmt\<close>.
\<close>

definition i_fcntl_main ::
    "int \<Rightarrow> (string \<Rightarrow> int result) \<Rightarrow> string list \<Rightarrow> string \<Rightarrow> scanned \<Rightarrow> lks \<Rightarrow>
       (failure option \<times> string list \<times> lks) option" where
  "i_fcntl_main pid opens argv input v s =
     (if length argv < 2 \<or> argv ! 1 = ''--help'' then Some (Some (UsageErr ''%s file...''), [], s)
      else
        (case map_result opens (tl argv) of
           Inl e \<Rightarrow> Some (Some (ErrExit ''open (%s)'' e), [], s)
         | Inr fds \<Rightarrow>
             (let fdList = 0 # fds
              in case map_result (\<lambda>j. case lock_mode (fdList ! j) s of
                        Inl e \<Rightarrow> Inl e | Inr m \<Rightarrow> Inr (pad10 (argv ! j) @ '' '' @ m @ [LF])) [1..<length argv] of
                   Inl e \<Rightarrow> Some (Some (ErrExit ''stat'' e), [], s)
                 | Inr ls \<Rightarrow>
                     (case displayCmdFmt argv fdList s of
                        Inl e \<Rightarrow> Some (Some (ErrExit ''stat'' e), [], s)
                      | Inr helpText \<Rightarrow>
                          map_option (\<lambda>(ms, s'). (None,
                              [''File       Locking'' @ [LF], ''----       -------'' @ [LF]] @ ls @
                              [[LF], ''Enter ? for help'' @ [LF]] @ ms, s'))
                            (locking_loop pid argv fdList helpText input v s)))))"

section \<open>Properties of the programs\<close>

lemma lock_command_inv:
  assumes "lock_command pid argv fdList line v s = Some (m, v', s')" "\<forall>i. lock_inv (held_locks (l_files s i))"
  shows "\<forall>i. lock_inv (held_locks (l_files s' i))"
  using assms fcntl_lock_inv
  by (auto simp: lock_command_def Let_def split: if_splits prod.splits option.splits)

lemma locking_loop_inv:
  "locking_loop pid argv fdList helpText input v s = Some (ms, s') \<Longrightarrow>
   \<forall>i. lock_inv (held_locks (l_files s i)) \<Longrightarrow> \<forall>i. lock_inv (held_locks (l_files s' i))"
proof (induction pid argv fdList helpText input v s arbitrary: ms s' rule: locking_loop.induct)
  case (1 pid argv fdList helpText input v s)
  show ?case
  proof (cases "fgets MAX_LINE input")
    case None
    then show ?thesis using "1.prems" by (subst (asm) locking_loop.simps) simp
  next
    case (Some lr)
    then obtain l rest where l: "fgets MAX_LINE input = Some (l, rest)" by (cases lr) auto
    note ih = "1.IH" [OF l refl refl]
    from "1.prems"(1) l show ?thesis
      using ih lock_command_inv "1.prems"(2)
      by (subst (asm) locking_loop.simps) (auto simp: Let_def split: if_splits option.splits)
  qed
qed

lemma i_fcntl_main_inv:
  assumes "i_fcntl_main pid opens argv input v s = Some (f, ms, s')"
    "\<forall>i. lock_inv (held_locks (l_files s i))"
  shows "\<forall>i. lock_inv (held_locks (l_files s' i))"
  using assms locking_loop_inv
  by (auto simp: i_fcntl_main_def Let_def split: if_splits sum.splits)

lemma find_SomeD: "find P xs = Some x \<Longrightarrow> x \<in> set xs \<and> P x"
  by (induction xs) (auto split: if_splits)

lemma region_free_iff:
  assumes "\<forall>i. \<forall>h\<in>set (held_locks (l_files s i)). 0 < owner h \<and> kind h \<noteq> F_UNLCK"
  shows "regionIsLocked p fd t w sa ln s = Some 0 \<longleftrightarrow>
    (\<exists>s'. lockRegion p fd t w sa ln s = Some (0, None, s'))"
proof -
  have "0 < owner h \<and> kind h \<noteq> F_UNLCK" if "find P (held_locks (l_files s i)) = Some h" for P i h
    using find_SomeD [OF that] assms by blast
  then show ?thesis
    by (fastforce simp: regionIsLocked_def lockRegion_def lockReg_def fcntl_lock_def Let_def
        split: option.splits sum.splits)
qed

lemma lock_range_cong:
  "f_pos f = f_pos g \<Longrightarrow> f_size f = f_size g \<Longrightarrow> lock_range (fl\<lparr>l_type := t\<rparr>) f = lock_range fl g"
  by (cases "l_whence fl") (simp_all add: lock_range_def Let_def)

lemma lockRegion_granted:
  assumes "lockRegion p fd t w sa ln s = Some (0, None, s')"
  obtains i a b where "l_fd s fd = Some i" "a < b"
    "lock_range \<lparr>l_type = t, l_whence = w, l_start = sa, l_len = ln, l_pid = 0\<rparr> (l_files s i) = Inr (a, b)"
    "s' = s\<lparr>l_files := (l_files s)(i := (l_files s i)\<lparr>held_locks :=
       set_lock p t a b (held_locks (l_files s i))\<rparr>)\<rparr>"
proof -
  obtain fl' where "fcntl_lock p fd F_SETLK \<lparr>l_type = t, l_whence = w, l_start = sa, l_len = ln, l_pid = 0\<rparr> s =
      Some (Inr fl', s')"
    using assms by (auto simp: lockRegion_def lockReg_def split: option.splits sum.splits)
  then show ?thesis
    using that lock_range_less by (auto simp: fcntl_lock_def Let_def split: option.splits sum.splits)
qed

lemma write_lock_blocks:
  assumes "lockRegion p fd F_WRLCK w sa ln s = Some (0, None, s')" "q \<noteq> p" "t \<noteq> F_UNLCK"
    "l_fd s fd' = l_fd s fd"
  shows "lockRegion q fd' t w sa ln s' = Some (- 1, Some EAGAIN, s')"
proof -
  let ?fl = "\<lparr>l_type = F_WRLCK, l_whence = w, l_start = sa, l_len = ln, l_pid = 0\<rparr>"
  obtain i a b where i: "l_fd s fd = Some i" "a < b" "lock_range ?fl (l_files s i) = Inr (a, b)"
      "s' = s\<lparr>l_files := (l_files s)(i := (l_files s i)\<lparr>held_locks :=
         set_lock p F_WRLCK a b (held_locks (l_files s i))\<rparr>)\<rparr>"
    by (rule lockRegion_granted [OF assms(1)])
  have r: "lock_range \<lparr>l_type = t, l_whence = w, l_start = sa, l_len = ln, l_pid = 0\<rparr> (l_files s' i) = Inr (a, b)"
    using i(3,4) lock_range_cong [of "l_files s' i" "l_files s i" t ?fl] by simp
  let ?n = "\<lparr>owner = p, kind = F_WRLCK, lo = a, hi = b\<rparr>"
  have "?n \<in> set (held_locks (l_files s' i))" using i(4) by (simp add: set_lock_def)
  moreover have "blocks_lock q t a b ?n"
    using assms(2,3) i(2) by (simp add: blocks_lock_def overlaps_def)
  ultimately have "find (blocks_lock q t a b) (held_locks (l_files s' i)) \<noteq> None"
    by (auto simp: find_None_iff)
  moreover have "l_fd s' fd' = Some i" using i(1,4) assms(4) by simp
  ultimately show ?thesis using r by (auto simp: lockRegion_def lockReg_def fcntl_lock_def)
qed

lemma region_locks_exclude:
  assumes "\<forall>i. lock_inv (held_locks (l_files s i))" "\<forall>i. \<forall>h\<in>set (held_locks (l_files s i)). 0 < owner h"
    and "q \<noteq> p" "t \<noteq> F_UNLCK"
  shows "(regionIsLocked p fd u w sa ln s = Some 0 \<longleftrightarrow>
      (\<exists>s'. lockRegion p fd u w sa ln s = Some (0, None, s'))) \<and>
    (lockRegion p fd F_WRLCK w sa ln s = Some (0, None, s1) \<longrightarrow>
      lockRegion q fd t w sa ln s1 = Some (- 1, Some EAGAIN, s1)) \<and>
    (lockRegion p fd u w sa ln s = Some (r, e, s2) \<longrightarrow> (\<forall>i. lock_inv (held_locks (l_files s2 i)))) \<and>
    (i_fcntl_main p opens argv input v s = Some (f, ms, s3) \<longrightarrow> (\<forall>i. lock_inv (held_locks (l_files s3 i))))"
proof -
  have "\<forall>i. \<forall>h\<in>set (held_locks (l_files s i)). 0 < owner h \<and> kind h \<noteq> F_UNLCK"
    using assms(1,2) by (auto simp: lock_inv_def)
  note free = region_free_iff [OF this]
  have "\<forall>i. lock_inv (held_locks (l_files s2 i))" if "lockRegion p fd u w sa ln s = Some (r, e, s2)"
    using lockReg_inv that assms(1) unfolding lockRegion_def by blast
  with free write_lock_blocks [OF _ assms(3,4) refl] i_fcntl_main_inv [OF _ assms(1)] show ?thesis
    by simp
qed

end
