(* ===== verification/PidFile.thy ===== *)
theory PidFile
  imports Locks
begin

text \<open>
  The file that a daemon keeps to be the only one of its kind: \<open>createPidFile\<close>
  (lib/create\_pid\_file.c) opens the file, locks the whole of it, and writes its process ID
  into it. The state holds the locks of \<^typ>\<open>lks\<close>, the contents of the files and the flags of
  the descriptors. What the kernel answers to \<open>open\<close>, \<open>ftruncate\<close> and \<open>write\<close> is given.
\<close>

record pid_sys =
  plocks :: lks
  contents :: "nat \<Rightarrow> string"
  cloexec :: "int \<Rightarrow> bool"

record pid_calls =
  opened_as :: "int result"
  truncated :: "errno option"
  written :: "nat result"

abbreviation (input) CPF_CLOEXEC :: int where "CPF_CLOEXEC \<equiv> 1"

definition quoted :: "string \<Rightarrow> string" where
  "quoted t = CHR 0x27 # t @ [CHR 0x27]"

definition put_content :: "int \<Rightarrow> string \<Rightarrow> pid_sys \<Rightarrow> pid_sys" where
  "put_content fd t s =
     (case l_fd (plocks s) fd of
        None \<Rightarrow> s | Some i \<Rightarrow> s\<lparr>contents := (contents s)(i := t)\<rparr>)"

text \<open>\<open>fcntl\<close> with \<open>F_GETFD\<close> and \<open>F_SETFD\<close> fail for a descriptor that is not open.\<close>

definition set_cloexec :: "int \<Rightarrow> pid_sys \<Rightarrow> pid_sys result" where
  "set_cloexec fd s =
     (if l_fd (plocks s) fd = None then Inl EBADF else Inr (s\<lparr>cloexec := (cloexec s)(fd := True)\<rparr>))"

text \<open>\<open>snprintf(buf, BUF_SIZE, "%ld\n", (long) getpid())\<close>\<close>

definition pid_text :: "int \<Rightarrow> string" where
  "pid_text p = take 99 (show_int p @ [LF])"

text \<open>\<open>None\<close> stands for a call that does not return.\<close>

definition write_pid :: "int \<Rightarrow> string \<Rightarrow> int \<Rightarrow> pid_calls \<Rightarrow> pid_sys \<Rightarrow> (failure + int) \<times> pid_sys" where
  "write_pid pid pidFile fd k s =
     (case truncated k of
        Some e \<Rightarrow> (Inl (ErrExit (''Could not truncate PID file '' @ quoted pidFile) e), s)
      | None \<Rightarrow>
          (let buf = pid_text pid
           in case written k of
                Inl _ \<Rightarrow> (Inl (Fatal (''Writing to PID file '' @ quoted pidFile)), put_content fd [] s)
              | Inr n \<Rightarrow>
                  (if n \<noteq> length buf then Inl (Fatal (''Writing to PID file '' @ quoted pidFile)) else Inr fd,
                   put_content fd (take n buf) s)))"

definition lock_pid :: "int \<Rightarrow> string \<Rightarrow> string \<Rightarrow> int \<Rightarrow> pid_calls \<Rightarrow> pid_sys \<Rightarrow>
    ((failure + int) \<times> pid_sys) option" where
  "lock_pid pid progName pidFile fd k s =
     (case lockRegion pid fd F_WRLCK L_SET 0 0 (plocks s) of
        None \<Rightarrow> None
      | Some (r, e, l) \<Rightarrow>
          Some (if r = - 1 then
                  (if e = Some EAGAIN \<or> e = Some EACCES then
                     Inl (Fatal (''PID file '' @ quoted pidFile @ '' is locked; probably '' @ quoted progName @
                                 '' is already running''))
                   else Inl (ErrExit (''Unable to lock PID file '' @ quoted pidFile) (the e)), s\<lparr>plocks := l\<rparr>)
                else write_pid pid pidFile fd k (s\<lparr>plocks := l\<rparr>)))"

definition createPidFile ::
    "int \<Rightarrow> string \<Rightarrow> string \<Rightarrow> int \<Rightarrow> pid_calls \<Rightarrow> pid_sys \<Rightarrow> ((failure + int) \<times> pid_sys) option" where
  "createPidFile pid progName pidFile flags k s =
     (case opened_as k of
        Inl e \<Rightarrow> Some (Inl (ErrExit (''Could not open PID file '' @ pidFile) e), s)
      | Inr fd \<Rightarrow>
          if odd flags then
            (case set_cloexec fd s of
               Inl e \<Rightarrow> Some (Inl (ErrExit (''Could not get flags for PID file '' @ pidFile) e), s)
             | Inr s1 \<Rightarrow> lock_pid pid progName pidFile fd k s1)
          else lock_pid pid progName pidFile fd k s)"

section \<open>Properties\<close>

lemma lockReg_status:
  "lockReg p fd cmd t w sa ln s = Some (r, e, s') \<Longrightarrow> r = 0 \<and> e = None \<or> r = - 1 \<and> e \<noteq> None"
  by (auto simp: lockReg_def split: option.splits sum.splits)

lemma createPidFile_success:
  assumes "createPidFile p prog name flags k s = Some (Inr fd, s')"
  obtains i l where "opened_as k = Inr fd" "l_fd (plocks s) fd = Some i"
    "lockRegion p fd F_WRLCK L_SET 0 0 (plocks s) = Some (0, None, l)" "plocks s' = l"
    "contents s' = (contents s)(i := pid_text p)" "odd flags \<longrightarrow> cloexec s' fd"
proof -
  obtain s1 where s1: "opened_as k = Inr fd" "plocks s1 = plocks s" "contents s1 = contents s"
      "odd flags \<longrightarrow> cloexec s1 fd" "lock_pid p prog name fd k s1 = Some (Inr fd, s')"
  proof -
    obtain fd0 where o: "opened_as k = Inr fd0"
      using assms by (auto simp: createPidFile_def split: sum.splits)
    define s1 where "s1 = (if odd flags then s\<lparr>cloexec := (cloexec s)(fd0 := True)\<rparr> else s)"
    have f: "opened_as k = Inr fd0" "plocks s1 = plocks s" "contents s1 = contents s"
      "odd flags \<longrightarrow> cloexec s1 fd0" "lock_pid p prog name fd0 k s1 = Some (Inr fd, s')"
      using assms o by (auto simp: s1_def createPidFile_def set_cloexec_def split: sum.splits if_splits)
    moreover have "fd0 = fd"
      using f(5) by (auto simp: lock_pid_def write_pid_def Let_def split: option.splits sum.splits if_splits)
    ultimately show ?thesis using that by blast
  qed
  then obtain r e l where l: "lockRegion p fd F_WRLCK L_SET 0 0 (plocks s) = Some (r, e, l)" "r \<noteq> - 1"
      "write_pid p name fd k (s1\<lparr>plocks := l\<rparr>) = (Inr fd, s')"
    by (auto simp: lock_pid_def split: option.splits if_splits)
  then have ok: "lockRegion p fd F_WRLCK L_SET 0 0 (plocks s) = Some (0, None, l)"
    using lockReg_status unfolding lockRegion_def by blast
  obtain i where i: "l_fd (plocks s) fd = Some i" "l_fd l fd = Some i"
    by (rule lockRegion_granted [OF ok]) auto
  have w: "s' = put_content fd (pid_text p) (s1\<lparr>plocks := l\<rparr>)"
    using l(3) by (auto simp: write_pid_def Let_def split: option.splits sum.splits if_splits)
  show ?thesis
    by (rule that [OF s1(1) i(1) ok]) (use w i(2) s1 in \<open>simp_all add: put_content_def\<close>)
qed

lemma single_instance:
  "(createPidFile p prog name flags k s = Some (Inr fd, s1) \<longrightarrow>
      (\<exists>i. l_fd (plocks s) fd = Some i \<and> contents s1 i = pid_text p \<and>
        (odd flags \<longrightarrow> cloexec s1 fd) \<and>
        (q \<noteq> p \<longrightarrow> opened_as k' = Inr fd' \<longrightarrow> l_fd (plocks s) fd' = Some i \<longrightarrow>
          (\<exists>s2. createPidFile q prog' name' flags' k' s1 =
             Some (Inl (Fatal (''PID file '' @ quoted name' @ '' is locked; probably '' @ quoted prog' @
                               '' is already running'')), s2) \<and>
             plocks s2 = plocks s1 \<and> contents s2 = contents s1)))) \<and>
   (opened_as k = Inr fd \<longrightarrow> truncated k = None \<longrightarrow> written k = Inr (length (pid_text p)) \<longrightarrow>
      lockRegion p fd F_WRLCK L_SET 0 0 (plocks s) = Some (0, None, l) \<longrightarrow>
      (\<exists>s1. createPidFile p prog name flags k s = Some (Inr fd, s1)))"
proof (intro conjI impI)
  assume "createPidFile p prog name flags k s = Some (Inr fd, s1)"
  then obtain i l where c: "l_fd (plocks s) fd = Some i"
      "lockRegion p fd F_WRLCK L_SET 0 0 (plocks s) = Some (0, None, l)" "plocks s1 = l"
      "contents s1 = (contents s)(i := pid_text p)" "odd flags \<longrightarrow> cloexec s1 fd"
    by (rule createPidFile_success)
  have "\<exists>s2. createPidFile q prog' name' flags' k' s1 =
             Some (Inl (Fatal (''PID file '' @ quoted name' @ '' is locked; probably '' @ quoted prog' @
                               '' is already running'')), s2) \<and>
             plocks s2 = plocks s1 \<and> contents s2 = contents s1"
    if q: "q \<noteq> p" "opened_as k' = Inr fd'" "l_fd (plocks s) fd' = Some i"
  proof -
    have "lockRegion q fd' F_WRLCK L_SET 0 0 l = Some (- 1, Some EAGAIN, l)"
      using write_lock_blocks [OF c(2) q(1), of F_WRLCK fd'] c(1) q(3) by simp
    moreover have "l_fd l fd' = Some i"
      by (rule lockRegion_granted [OF c(2)]) (simp add: q(3))
    ultimately show ?thesis
      using c(3) q(2) by (auto simp: createPidFile_def lock_pid_def set_cloexec_def)
  qed
  with c show "\<exists>i. l_fd (plocks s) fd = Some i \<and> contents s1 i = pid_text p \<and>
        (odd flags \<longrightarrow> cloexec s1 fd) \<and>
        (q \<noteq> p \<longrightarrow> opened_as k' = Inr fd' \<longrightarrow> l_fd (plocks s) fd' = Some i \<longrightarrow>
          (\<exists>s2. createPidFile q prog' name' flags' k' s1 =
             Some (Inl (Fatal (''PID file '' @ quoted name' @ '' is locked; probably '' @ quoted prog' @
                               '' is already running'')), s2) \<and>
             plocks s2 = plocks s1 \<and> contents s2 = contents s1))"
    by auto
next
  assume a: "opened_as k = Inr fd" "truncated k = None" "written k = Inr (length (pid_text p))"
    "lockRegion p fd F_WRLCK L_SET 0 0 (plocks s) = Some (0, None, l)"
  obtain i where "l_fd (plocks s) fd = Some i" by (rule lockRegion_granted [OF a(4)]) auto
  with a show "\<exists>s1. createPidFile p prog name flags k s = Some (Inr fd, s1)"
    by (simp add: createPidFile_def set_cloexec_def lock_pid_def write_pid_def)
qed



end
