(* ===== verification/ProcFs.thy ===== *)
theory ProcFs
  imports NumArgs "HOL-Library.Sublist"
begin

text \<open>
  Programs that read the \<open>/proc\<close> file system: what they share (12-system-and-process-information/
  proclib.c and the loop over a \<open>status\<close> file), the list of a user's processes (proclist.c) and
  the list of the processes that have a file open (sherlock.c).

  The file system at the time of the scan: the entries of \<open>/proc\<close>, the \<open>status\<close> files that can
  still be opened, the entries of the \<open>fd\<close> directories and the links in them. The buffers that a
  function does not initialise are given to it. \<open>None\<close> is a write outside a buffer.
\<close>

section \<open>The file system and its \<open>status\<close> files\<close>

datatype d_type = DT_DIR | DT_LNK | DT_REG

record procfs =
  proc_entries :: "(string \<times> d_type) list option"
  files_of :: "string \<rightharpoonup> string"
  fd_dirs :: "string \<rightharpoonup> (string \<times> d_type) list"
  links_of :: "string \<rightharpoonup> string"

abbreviation (input) TAB :: char where "TAB \<equiv> CHR 0x09"
abbreviation (input) COLON :: char where "COLON \<equiv> CHR '':''"

text \<open>
  \<open>trim\<close>: for a string of spaces the code looks at the byte in front of it, which is the null
  byte of the preceding token when the string is a value of a \<open>status\<close> line.
\<close>

definition trim :: "string \<Rightarrow> string" where
  "trim s = dropWhile isspace (rev (dropWhile isspace (rev s)))"

text \<open>\<open>strtok\<close> with the separator \<open>:\<close>, and what is left for the next call.\<close>

definition strtok :: "string \<Rightarrow> (string \<times> string) option" where
  "strtok s =
     (let t = dropWhile (\<lambda>c. c = COLON) s
      in if t = [] then None
         else Some (takeWhile (\<lambda>c. c \<noteq> COLON) t, tl (dropWhile (\<lambda>c. c \<noteq> COLON) t)))"

definition key_value :: "string \<Rightarrow> (string \<times> string) option" where
  "key_value line =
     (case strtok line of
        None \<Rightarrow> None
      | Some (k, r) \<Rightarrow> (case strtok r of None \<Rightarrow> None | Some (v, _) \<Rightarrow> Some (trim k, trim v)))"

text \<open>The loop over the lines of the file, with buffers of 256 bytes.\<close>

function scan_status :: "(string \<times> string \<Rightarrow> 'b \<Rightarrow> 'b option) \<Rightarrow> string \<Rightarrow> 'b \<Rightarrow> 'b option" where
  "scan_status f text b =
     (case fgets 256 text of
        None \<Rightarrow> Some b
      | Some (line, rest) \<Rightarrow>
          (case key_value line of
             None \<Rightarrow> scan_status f rest b
           | Some kv \<Rightarrow> (case f kv b of None \<Rightarrow> None | Some b' \<Rightarrow> scan_status f rest b')))"
  by pat_completeness auto
termination
  by (relation "measure (\<lambda>(_, t, _). length t)") (auto dest: fgets_shorter)

declare scan_status.simps [simp del]

text \<open>The local buffers of the functions that scan a \<open>status\<close> file.\<close>

record buffers =
  procname :: string
  pid :: string
  ppid :: string
  keepme :: bool

text \<open>\<open>strcpy\<close> of a value into one of the buffers.\<close>

definition copy_name :: "string \<Rightarrow> buffers \<Rightarrow> buffers option" where
  "copy_name v b = (if length v < 256 then Some (b\<lparr>procname := v\<rparr>) else None)"

definition copy_pid :: "string \<Rightarrow> buffers \<Rightarrow> buffers option" where
  "copy_pid v b = (if length v < 32 then Some (b\<lparr>pid := v\<rparr>) else None)"

definition copy_ppid :: "string \<Rightarrow> buffers \<Rightarrow> buffers option" where
  "copy_ppid v b = (if length v < 32 then Some (b\<lparr>ppid := v\<rparr>) else None)"

text \<open>The name of a file below a directory, in a buffer of 256 bytes.\<close>

definition path_in :: "string \<Rightarrow> string \<Rightarrow> string option" where
  "path_in dirname name = (if length (dirname @ name) < 256 then Some (dirname @ name) else None)"

section \<open>proclist\<close>

definition user_id_from_name :: "(string \<rightharpoonup> int) \<Rightarrow> string option \<Rightarrow> int" where
  "user_id_from_name pw name =
     (case name of
        None \<Rightarrow> to_unsigned 32 (- 1)
      | Some n \<Rightarrow>
          if n = [] then to_unsigned 32 (- 1)
          else (case strtol n 10 of (u, endptr, _) \<Rightarrow>
                  if endptr = [] then to_unsigned 32 u
                  else (case pw n of None \<Rightarrow> to_unsigned 32 (- 1) | Some u' \<Rightarrow> to_unsigned 32 u')))"

definition check_line :: "string \<Rightarrow> string \<times> string \<Rightarrow> buffers \<Rightarrow> buffers option" where
  "check_line uidstr kv b =
     (case kv of (key, value) \<Rightarrow>
        (let b1 = (if key = ''Uid'' \<and> sublist uidstr value then b\<lparr>keepme := True\<rparr> else b)
         in case (if key = ''Name'' then copy_name value b1 else Some b1) of
              None \<Rightarrow> None
            | Some b2 \<Rightarrow> if key = ''Pid'' then copy_pid value b2 else Some b2))"

definition check_dir :: "procfs \<Rightarrow> buffers \<Rightarrow> string \<Rightarrow> int \<Rightarrow> (int \<times> string) option" where
  "check_dir fs junk dirname uid =
     (case path_in dirname ''/status'' of
        None \<Rightarrow> None
      | Some filename \<Rightarrow>
          (case files_of fs filename of
             None \<Rightarrow> Some (1, [])
           | Some text \<Rightarrow>
               (case scan_status (check_line (show_int (to_signed 32 uid))) text (junk\<lparr>keepme := False\<rparr>) of
                  None \<Rightarrow> None
                | Some b \<Rightarrow> Some (0, if keepme b then pid b @ '': '' @ procname b @ [LF] else []))))"

fun walk :: "(d_type \<Rightarrow> bool) \<Rightarrow> (string \<Rightarrow> string option) \<Rightarrow> (string \<times> d_type) list \<Rightarrow> string option" where
  "walk p f [] = Some []"
| "walk p f ((d_name, t) # es) =
     (if p t then
        (case path_in ''/proc/'' d_name of
           None \<Rightarrow> None
         | Some dirname \<Rightarrow>
             (case f dirname of
                None \<Rightarrow> None
              | Some txt1 \<Rightarrow> map_option (\<lambda>rest. txt1 @ rest) (walk p f es)))
      else walk p f es)"

definition proclist_main :: "procfs \<Rightarrow> (string \<rightharpoonup> int) \<Rightarrow> buffers \<Rightarrow> string list \<Rightarrow> (int \<times> string) option" where
  "proclist_main fs pw junk argv =
     (if length argv \<noteq> 2 then Some (1, ''Usage: '' @ hd argv @ '' <username>'' @ [LF])
      else
        (let uid = user_id_from_name pw (Some (argv ! 1))
         in if uid = to_unsigned 32 (- 1) then Some (1, ''Invalid username specified (not found)'' @ [LF])
            else (case proc_entries fs of
                    None \<Rightarrow> Some (1, ''Unabled to open /proc'')
                  | Some es \<Rightarrow>
                      map_option (\<lambda>txt1. (0, txt1))
                        (walk (\<lambda>t. t = DT_DIR \<or> t = DT_LNK) (\<lambda>d. map_option snd (check_dir fs junk d uid)) es))))"

section \<open>sherlock\<close>

definition proc_line :: "string \<times> string \<Rightarrow> buffers \<Rightarrow> buffers option" where
  "proc_line kv b =
     (case kv of (key, value) \<Rightarrow>
        if key = ''Pid'' then copy_pid value b
        else if key = ''Name'' then copy_name value b else Some b)"

definition print_proc :: "procfs \<Rightarrow> buffers \<Rightarrow> string \<Rightarrow> (int \<times> string) option" where
  "print_proc fs junk dirname =
     (case path_in dirname ''/status'' of
        None \<Rightarrow> None
      | Some filename \<Rightarrow>
          (case files_of fs filename of
             None \<Rightarrow> Some (1, [])
           | Some text \<Rightarrow>
               (case scan_status proc_line text junk of
                  None \<Rightarrow> None
                | Some b \<Rightarrow> Some (0, procname b @ '' (pid: '' @ pid b @ '')'' @ [LF]))))"

text \<open>\<open>readlink\<close> gives at most 1023 bytes of the target, and fails for a link that is gone.\<close>

fun check_links :: "procfs \<Rightarrow> string \<Rightarrow> string \<Rightarrow> (string \<times> d_type) list \<Rightarrow> int option" where
  "check_links fs dirname match [] = Some 1"
| "check_links fs dirname match ((d_name, t) # es) =
     (if t = DT_LNK then
        (case path_in dirname (''/fd/'' @ d_name) of
           None \<Rightarrow> None
         | Some linkpath \<Rightarrow>
             (case links_of fs linkpath of
                None \<Rightarrow> check_links fs dirname match es
              | Some target \<Rightarrow>
                  (let linktarget = take 1023 target
                   in if 0 < length linktarget \<and> linktarget = match then Some 0
                      else check_links fs dirname match es)))
      else check_links fs dirname match es)"

definition check_process :: "procfs \<Rightarrow> string \<Rightarrow> string \<Rightarrow> int option" where
  "check_process fs dirname match =
     (case path_in dirname ''/fd'' of
        None \<Rightarrow> None
      | Some linkpath \<Rightarrow>
          (case fd_dirs fs linkpath of None \<Rightarrow> Some 1 | Some es \<Rightarrow> check_links fs dirname match es))"

definition sherlock_main :: "procfs \<Rightarrow> buffers \<Rightarrow> string list \<Rightarrow> (int \<times> string) option" where
  "sherlock_main fs junk argv =
     (if length argv \<noteq> 2 then Some (1, ''Usage: '' @ hd argv @ '' <filepath>'')
      else
        (case proc_entries fs of
           None \<Rightarrow> Some (1, ''Processes with handles to '' @ [CHR 0x22] @ argv ! 1 @ [CHR 0x22] @ '':'' @ [LF])
         | Some es \<Rightarrow>
             map_option (\<lambda>txt1. (0, ''Processes with handles to '' @ [CHR 0x22] @ argv ! 1 @ [CHR 0x22] @ '':'' @ [LF] @ txt1))
               (walk (\<lambda>t. t = DT_DIR)
                 (\<lambda>d. case check_process fs d (argv ! 1) of
                        None \<Rightarrow> None
                      | Some r \<Rightarrow> if r = 0 then map_option snd (print_proc fs junk d) else Some []) es)))"

section \<open>Properties\<close>

text \<open>The text of a \<open>status\<close> file, and what the programs see of a value: the part before a colon.\<close>

definition status_text :: "(string \<times> string) list \<Rightarrow> string" where
  "status_text kvs = concat (map (\<lambda>(k, v). k @ COLON # TAB # v @ [LF]) kvs)"

definition seen :: "string \<Rightarrow> string" where
  "seen v = trim (takeWhile (\<lambda>c. c \<noteq> COLON) v)"

definition status_ok :: "string \<times> string \<Rightarrow> bool" where
  "status_ok kv = (case kv of (k, v) \<Rightarrow>
     k \<noteq> [] \<and> (\<forall>c\<in>set k. \<not> isspace c \<and> c \<noteq> COLON) \<and> LF \<notin> set v \<and> length k + length v < 253)"

lemma no_drop: "\<forall>x\<in>set xs. \<not> P x \<Longrightarrow> dropWhile P xs = xs"
  by (cases xs) auto

lemma trim_id: "\<forall>c\<in>set k. \<not> isspace c \<Longrightarrow> trim k = k"
  using no_drop [of k isspace] no_drop [of "rev k" isspace] by (simp add: trim_def)

lemma isspace_TAB_LF [simp]: "isspace TAB" "isspace LF" "\<not> isspace COLON"
  by (simp_all add: isspace_def)

lemma trim_TAB: "trim (TAB # v) = trim v"
proof (cases "\<forall>c\<in>set v. isspace c")
  case True
  then have a: "dropWhile isspace (rev v) = []" "dropWhile isspace (rev v @ [TAB]) = []"
    by (auto simp: dropWhile_eq_Nil_conv)
  show ?thesis by (simp add: trim_def a)
next
  case False
  then obtain c where "c \<in> set (rev v)" "\<not> isspace c" by auto
  then have "dropWhile isspace (rev v @ [TAB]) = dropWhile isspace (rev v) @ [TAB]"
    by (rule dropWhile_append1)
  then show ?thesis by (simp add: trim_def)
qed

lemma trim_LF: "trim (v @ [LF]) = trim v"
  by (simp add: trim_def)

lemma key_value_line:
  assumes "status_ok (k, v)"
  shows "key_value (k @ COLON # TAB # v @ [LF]) = Some (k, seen v)"
proof -
  have k: "k \<noteq> []" "\<forall>c\<in>set k. c \<noteq> COLON" "trim k = k" and lf: "LF \<notin> set v"
    using assms by (auto simp: status_ok_def intro: trim_id)
  have d: "dropWhile (\<lambda>c. c = COLON) (k @ r) = k @ r" for r
    using k(1,2) by (cases k) auto
  have "strtok (k @ COLON # TAB # v @ [LF]) = Some (k, TAB # v @ [LF])"
    using k d by (simp add: strtok_def takeWhile_append_hit dropWhile_append_hit)
  moreover have "trim (takeWhile (\<lambda>c. c \<noteq> COLON) (TAB # v @ [LF])) = seen v"
  proof (cases "COLON \<in> set v")
    case True
    then show ?thesis by (simp add: seen_def trim_TAB takeWhile_append1)
  next
    case False
    then have a: "takeWhile (\<lambda>c. c \<noteq> COLON) v = v" "takeWhile (\<lambda>c. c \<noteq> COLON) (v @ [LF]) = v @ [LF]"
      by (auto simp: takeWhile_eq_all_conv)
    show ?thesis by (simp add: seen_def trim_TAB trim_LF a)
  qed
  moreover have "strtok (TAB # v @ [LF]) = Some (takeWhile (\<lambda>c. c \<noteq> COLON) (TAB # v @ [LF]),
      tl (dropWhile (\<lambda>c. c \<noteq> COLON) (TAB # v @ [LF])))"
    by (simp add: strtok_def)
  ultimately show ?thesis using k(3) by (simp add: key_value_def del: takeWhile.simps dropWhile.simps)
qed

fun fold_opt :: "('a \<Rightarrow> 'b \<Rightarrow> 'b option) \<Rightarrow> 'a list \<Rightarrow> 'b \<Rightarrow> 'b option" where
  "fold_opt f [] b = Some b"
| "fold_opt f (x # xs) b = (case f x b of None \<Rightarrow> None | Some b' \<Rightarrow> fold_opt f xs b')"

lemma scan_status_text:
  "\<forall>kv\<in>set kvs. status_ok kv \<Longrightarrow>
   scan_status f (status_text kvs) b = fold_opt f (map (\<lambda>(k, v). (k, seen v)) kvs) b"
proof (induction kvs arbitrary: b)
  case Nil
  then show ?case by (subst scan_status.simps) (simp add: status_text_def fgets_Nil)
next
  case (Cons kv kvs)
  obtain k v where kv: "kv = (k, v)" by (cases kv)
  with Cons.prems have ok: "status_ok (k, v)" by simp
  then have "LF \<notin> set k" "LF \<notin> set v" "length k + length v < 253"
    using isspace_TAB_LF(2) unfolding status_ok_def prod.case by blast+
  then have "LF \<notin> set (k @ COLON # TAB # v)" "length (k @ COLON # TAB # v) + 1 < 256"
    by simp_all
  from fgets_line [OF this, of "status_text kvs"]
  have "fgets 256 (status_text (kv # kvs)) = Some (k @ COLON # TAB # v @ [LF], status_text kvs)"
    by (simp add: kv status_text_def)
  then have "scan_status f (status_text (kv # kvs)) b =
      (case f (k, seen v) b of None \<Rightarrow> None | Some b' \<Rightarrow> scan_status f (status_text kvs) b')"
    by (subst scan_status.simps) (simp only: option.case prod.case key_value_line [OF ok])
  moreover have "scan_status f (status_text kvs) b' = fold_opt f (map (\<lambda>(k, v). (k, seen v)) kvs) b'" for b'
    by (rule Cons.IH) (use Cons.prems in simp)
  ultimately show ?case by (simp add: kv split: option.split)
qed

lemma check_lines:
  assumes "distinct (map fst kvs)" "\<forall>v. (''Pid'', v) \<in> set kvs \<longrightarrow> length v < 32"
    "\<forall>v. (''Name'', v) \<in> set kvs \<longrightarrow> length v < 256"
  shows "\<exists>b'. fold_opt (check_line us) kvs b = Some b' \<and>
    keepme b' = (keepme b \<or> (\<exists>u. map_of kvs ''Uid'' = Some u \<and> sublist us u)) \<and>
    procname b' = (case map_of kvs ''Name'' of None \<Rightarrow> procname b | Some n \<Rightarrow> n) \<and>
    pid b' = (case map_of kvs ''Pid'' of None \<Rightarrow> pid b | Some n \<Rightarrow> n)"
  using assms
proof (induction kvs arbitrary: b)
  case Nil
  then show ?case by simp
next
  case (Cons kv kvs)
  obtain k v where kv: "kv = (k, v)" by (cases kv)
  obtain b1 where b1: "check_line us kv b = Some b1" "keepme b1 = (keepme b \<or> k = ''Uid'' \<and> sublist us v)"
      "procname b1 = (if k = ''Name'' then v else procname b)" "pid b1 = (if k = ''Pid'' then v else pid b)"
  proof (rule that [of "b\<lparr>keepme := keepme b \<or> k = ''Uid'' \<and> sublist us v,
      procname := if k = ''Name'' then v else procname b, pid := if k = ''Pid'' then v else pid b\<rparr>"])
    show "check_line us kv b = Some (b\<lparr>keepme := keepme b \<or> k = ''Uid'' \<and> sublist us v,
      procname := if k = ''Name'' then v else procname b, pid := if k = ''Pid'' then v else pid b\<rparr>)"
      using Cons.prems(2,3)
      by (cases b; cases "k = ''Name''"; cases "k = ''Pid''"; cases "k = ''Uid''"; cases "sublist us v")
        (simp_all add: kv check_line_def copy_name_def copy_pid_def)
  qed simp_all
  have "map_of kvs k = None"
    using Cons.prems(1) by (simp add: kv map_of_eq_None_iff)
  moreover obtain b' where "fold_opt (check_line us) kvs b1 = Some b'"
      "keepme b' = (keepme b1 \<or> (\<exists>u. map_of kvs ''Uid'' = Some u \<and> sublist us u))"
      "procname b' = (case map_of kvs ''Name'' of None \<Rightarrow> procname b1 | Some n \<Rightarrow> n)"
      "pid b' = (case map_of kvs ''Pid'' of None \<Rightarrow> pid b1 | Some n \<Rightarrow> n)"
    using Cons.IH [of b1] Cons.prems by auto
  ultimately show ?case
    using b1 by (cases "k = ''Uid''"; cases "k = ''Name''"; cases "k = ''Pid''")
      (simp_all add: kv cong: option.case_cong)
qed

lemma map_of_seen: "map_of (map (\<lambda>(k, v). (k, seen v)) kvs) k = map_option seen (map_of kvs k)"
  by (induction kvs) auto

lemma seen_length: "length (seen v) \<le> length v"
proof -
  have "length (trim t) \<le> length t" for t
    unfolding trim_def by (metis length_dropWhile_le length_rev order_trans)
  then show ?thesis
    unfolding seen_def by (meson length_takeWhile_le order_trans)
qed

lemma check_dir_text:
  assumes "path_in d ''/status'' = Some f" "files_of fs f = Some (status_text kvs)" "distinct (map fst kvs)"
    "\<forall>kv\<in>set kvs. status_ok kv" "map_of kvs ''Name'' = Some n" "map_of kvs ''Pid'' = Some p"
    "map_of kvs ''Uid'' = Some u" "length p < 32"
  shows "check_dir fs junk d uid =
    Some (0, if sublist (show_int (to_signed 32 uid)) (seen u) then seen p @ '': '' @ seen n @ [LF] else [])"
proof -
  let ?kvs = "map (\<lambda>(k, v). (k, seen v)) kvs" and ?us = "show_int (to_signed 32 uid)"
  have "map fst ?kvs = map fst kvs" by auto
  then have d: "distinct (map fst ?kvs)" using assms(3) by (simp only:)
  have p: "\<forall>v. (''Pid'', v) \<in> set ?kvs \<longrightarrow> length v < 32"
  proof (intro allI impI)
    fix v assume "(''Pid'', v) \<in> set ?kvs"
    then have "map_of ?kvs ''Pid'' = Some v" using d by simp
    then show "length v < 32" using assms(6,8) seen_length [of p] by (simp add: map_of_seen)
  qed
  have n: "\<forall>v. (''Name'', v) \<in> set ?kvs \<longrightarrow> length v < 256"
    using assms(4) seen_length by (fastforce simp: status_ok_def intro: le_less_trans)
  obtain b where "fold_opt (check_line ?us) ?kvs (junk\<lparr>keepme := False\<rparr>) = Some b"
      "keepme b = sublist ?us (seen u)" "procname b = seen n" "pid b = seen p"
    using check_lines [OF d p n, of ?us "junk\<lparr>keepme := False\<rparr>"] assms(5,6,7) by (auto simp: map_of_seen)
  then show ?thesis using assms(1,2,4) by (simp add: check_dir_def scan_status_text)
qed

lemma check_links_iff:
  assumes "\<forall>e\<in>set es. length (dirname @ ''/fd/'' @ fst e) < 256"
    "\<forall>e\<in>set es. \<forall>t. links_of fs (dirname @ ''/fd/'' @ fst e) = Some t \<longrightarrow> length t < 1024" "match \<noteq> []"
  shows "check_links fs dirname match es =
    Some (if \<exists>e. (e, DT_LNK) \<in> set es \<and> links_of fs (dirname @ ''/fd/'' @ e) = Some match then 0 else 1)"
  using assms(1,2)
proof (induction es)
  case Nil
  then show ?case by simp
next
  case (Cons e es)
  obtain d t where e: "e = (d, t)" by (cases e)
  have ih: "check_links fs dirname match es =
      Some (if \<exists>e. (e, DT_LNK) \<in> set es \<and> links_of fs (dirname @ ''/fd/'' @ e) = Some match then 0 else 1)"
    using Cons.IH Cons.prems by simp
  have p: "path_in dirname (''/fd/'' @ d) = Some (dirname @ ''/fd/'' @ d)"
    using Cons.prems(1) by (simp add: e path_in_def)
  have l: "take 1023 x = x" if "links_of fs (dirname @ ''/fd/'' @ d) = Some x" for x
    using Cons.prems(2) that by (simp add: e)
  show ?case
    using l assms(3) unfolding e check_links.simps ih p
    by (cases "links_of fs (dirname @ ''/fd/'' @ d)") (auto simp: Let_def)
qed

lemma proc_scan_correct:
  assumes "path_in d ''/status'' = Some f" "path_in d ''/fd'' = Some g" "fd_dirs fs g = Some es"
    and "\<forall>e\<in>set es. length (d @ ''/fd/'' @ fst e) < 256"
    and "\<forall>e\<in>set es. \<forall>t. links_of fs (d @ ''/fd/'' @ fst e) = Some t \<longrightarrow> length t < 1024" "match \<noteq> []"
    and "distinct (map fst kvs)" "\<forall>kv\<in>set kvs. status_ok kv" "map_of kvs ''Name'' = Some n"
    and "map_of kvs ''Pid'' = Some p" "map_of kvs ''Uid'' = Some u" "length p < 32"
  shows "(files_of fs f = Some (status_text kvs) \<longrightarrow>
      check_dir fs junk d uid =
        Some (0, if sublist (show_int (to_signed 32 uid)) (seen u) then seen p @ '': '' @ seen n @ [LF] else [])) \<and>
    (files_of fs f = None \<longrightarrow> check_dir fs junk d uid = Some (1, [])) \<and>
    (files_of fs f = Some (status_text kvs) \<and> seen u = show_int (to_signed 32 uid) @ rest \<longrightarrow>
      check_dir fs junk d uid = Some (0, seen p @ '': '' @ seen n @ [LF])) \<and>
    (files_of fs f = Some (status_text kvs) \<and> seen u = ''1000'' @ rest \<longrightarrow>
      check_dir fs junk d 1 = Some (0, seen p @ '': '' @ seen n @ [LF])) \<and>
    check_process fs d match =
      Some (if \<exists>e. (e, DT_LNK) \<in> set es \<and> links_of fs (d @ ''/fd/'' @ e) = Some match then 0 else 1)"
proof -
  note cd = check_dir_text [OF assms(1) _ assms(7-12)]
  have one: "show_int (to_signed 32 1) = ''1''" by code_simp
  have "sublist ''1'' (''1000'' @ rest)" by simp
  then have thousand: "check_dir fs junk d 1 = Some (0, seen p @ '': '' @ seen n @ [LF])"
    if "files_of fs f = Some (status_text kvs)" "seen u = ''1000'' @ rest"
    using cd [OF that(1), of junk 1] that(2) one by (simp only: if_True)
  have own: "check_dir fs junk d uid = Some (0, seen p @ '': '' @ seen n @ [LF])"
    if "files_of fs f = Some (status_text kvs)" "seen u = show_int (to_signed 32 uid) @ rest"
    using cd [OF that(1), of junk uid] that(2) by simp
  have "check_process fs d match = check_links fs d match es"
    using assms(2,3) by (simp add: check_process_def)
  moreover have "files_of fs f = None \<Longrightarrow> check_dir fs junk d uid = Some (1, [])"
    using assms(1) by (simp add: check_dir_def)
  ultimately show ?thesis
    using cd own thousand check_links_iff [OF assms(4-6)] by presburger
qed

end
