(* ===== verification/ProcTree.thy ===== *)
theory ProcTree
  imports ProcFs
begin

text \<open>
  The tree of the processes (12-system-and-process-information/pstree.c). The nodes are kept in the
  order of the linked list, the newest first, and a pointer to a node is its position there.
  \<open>None\<close> is a write outside an array: \<open>name\<close> and \<open>children\<close> have 128 entries each, and the last
  of the children is a null pointer.
\<close>

record pstree_node =
  node_name :: string
  node_pid :: int
  node_ppid :: int
  parent :: "nat option"
  children :: "nat list"

definition ll_create_and_insert ::
    "string \<Rightarrow> int \<Rightarrow> int \<Rightarrow> pstree_node list \<Rightarrow> pstree_node list option" where
  "ll_create_and_insert name p pp ll =
     (if length name < 128
        then Some (\<lparr>node_name = name, node_pid = p, node_ppid = pp, parent = None, children = []\<rparr> # ll)
      else None)"

definition catalog_line :: "string \<times> string \<Rightarrow> buffers \<Rightarrow> buffers option" where
  "catalog_line kv b =
     (case kv of (key, value) \<Rightarrow>
        if key = ''Pid'' then copy_pid value b
        else if key = ''PPid'' then copy_ppid value b
        else if key = ''Name'' then copy_name value b else Some b)"

definition catalog_process ::
    "procfs \<Rightarrow> buffers \<Rightarrow> string \<Rightarrow> pstree_node list \<Rightarrow> (int \<times> pstree_node list) option" where
  "catalog_process fs junk dirname ll =
     (case path_in dirname ''/status'' of
        None \<Rightarrow> None
      | Some filename \<Rightarrow>
          (case files_of fs filename of
             None \<Rightarrow> Some (1, ll)
           | Some text \<Rightarrow>
               (case scan_status catalog_line text junk of
                  None \<Rightarrow> None
                | Some b \<Rightarrow>
                    map_option (Pair 0) (ll_create_and_insert (procname b) (atoi (pid b)) (atoi (ppid b)) ll))))"

fun find_node_with_pid :: "int \<Rightarrow> pstree_node list \<Rightarrow> nat \<Rightarrow> nat option" where
  "find_node_with_pid p [] k = None"
| "find_node_with_pid p (n # ns) k = (if node_pid n = p then Some k else find_node_with_pid p ns (Suc k))"

text \<open>Appending to \<open>children\<close>: the new null pointer behind the child must still fit.\<close>

definition link_node :: "nat \<Rightarrow> pstree_node list \<Rightarrow> pstree_node list option" where
  "link_node i ns =
     (case find_node_with_pid (node_ppid (ns ! i)) ns 0 of
        None \<Rightarrow> Some ns
      | Some p \<Rightarrow>
          (let ns1 = ns[i := (ns ! i)\<lparr>parent := Some p\<rparr>]
           in if length (children (ns1 ! p)) + 1 < 128
                then Some (ns1[p := (ns1 ! p)\<lparr>children := children (ns1 ! p) @ [i]\<rparr>])
              else None))"

fun make_tree_loop :: "nat list \<Rightarrow> pstree_node list \<Rightarrow> pstree_node list option" where
  "make_tree_loop [] ns = Some ns"
| "make_tree_loop (i # is1) ns =
     (case link_node i ns of None \<Rightarrow> None | Some ns' \<Rightarrow> make_tree_loop is1 ns')"

definition make_tree :: "pstree_node list \<Rightarrow> pstree_node list option" where
  "make_tree ns = make_tree_loop [0..<length ns] ns"

text \<open>
  \<open>print_tree\<close>: the nodes it prints, with their levels, in order. The first argument bounds the
  depth of the recursion; \<open>None\<close> means that it was not enough.
\<close>

fun print_tree :: "nat \<Rightarrow> pstree_node list \<Rightarrow> nat \<Rightarrow> nat \<Rightarrow> (nat \<times> nat) list option" where
  "print_tree 0 ns root level = None"
| "print_tree (Suc d) ns root level =
     map_option (\<lambda>ts. (root, level) # concat ts)
       (those (map (\<lambda>c. print_tree d ns c (level + 1)) (children (ns ! root))))"

definition show_node :: "pstree_node list \<Rightarrow> nat \<times> nat \<Rightarrow> string" where
  "show_node ns x =
     (case x of (i, level) \<Rightarrow>
        concat (replicate level ''  '') @ node_name (ns ! i) @ '' (pid: '' @ show_int (node_pid (ns ! i)) @
        '', ppid: '' @ show_int (node_ppid (ns ! i)) @ '')'' @ [LF])"

fun catalog_all :: "procfs \<Rightarrow> buffers \<Rightarrow> (string \<times> d_type) list \<Rightarrow> pstree_node list \<Rightarrow> pstree_node list option" where
  "catalog_all fs junk [] ll = Some ll"
| "catalog_all fs junk ((d_name, t) # es) ll =
     (if t = DT_DIR then
        (case path_in ''/proc/'' d_name of
           None \<Rightarrow> None
         | Some dirname \<Rightarrow>
             (case catalog_process fs junk dirname ll of
                None \<Rightarrow> None
              | Some (_, ll') \<Rightarrow> catalog_all fs junk es ll'))
      else catalog_all fs junk es ll)"

definition print_roots :: "pstree_node list \<Rightarrow> (nat \<times> nat) list option" where
  "print_roots ns =
     map_option concat
       (those (map (\<lambda>r. print_tree (length ns) ns r 0) (filter (\<lambda>i. parent (ns ! i) = None) [0..<length ns])))"

definition pstree_main :: "procfs \<Rightarrow> buffers \<Rightarrow> (int \<times> string) option" where
  "pstree_main fs junk =
     (case proc_entries fs of
        None \<Rightarrow> Some (1, ''Unabled to open /proc'')
      | Some es \<Rightarrow>
          (case catalog_all fs junk es [] of
             None \<Rightarrow> None
           | Some ll \<Rightarrow>
               (case make_tree ll of
                  None \<Rightarrow> None
                | Some ns \<Rightarrow> map_option (\<lambda>xs. (0, concat (map (show_node ns) xs))) (print_roots ns))))"

section \<open>The tree that \<open>make_tree\<close> builds\<close>

text \<open>The node that a node hangs from: the first of the list with its parent's process ID.\<close>

definition par :: "pstree_node list \<Rightarrow> nat \<Rightarrow> nat option" where
  "par ns i = find_node_with_pid (node_ppid (ns ! i)) ns 0"

definition linked :: "nat \<Rightarrow> pstree_node list \<Rightarrow> pstree_node list \<Rightarrow> bool" where
  "linked k ns ns' \<longleftrightarrow>
     length ns' = length ns \<and>
     (\<forall>i<length ns. node_name (ns' ! i) = node_name (ns ! i) \<and> node_pid (ns' ! i) = node_pid (ns ! i) \<and>
        node_ppid (ns' ! i) = node_ppid (ns ! i) \<and>
        parent (ns' ! i) = (if i < k then par ns i else None) \<and>
        children (ns' ! i) = filter (\<lambda>c. par ns c = Some i) [0..<k] \<and> length (children (ns' ! i)) < 128)"

lemma find_node_cong:
  "map node_pid ns = map node_pid ms \<Longrightarrow> find_node_with_pid p ns k = find_node_with_pid p ms k"
proof (induction ns arbitrary: ms k)
  case (Cons n ns)
  then show ?case by (cases ms) auto
qed simp

lemma find_node_bound: "find_node_with_pid p ns k = Some i \<Longrightarrow> k \<le> i \<and> i < k + length ns"
proof (induction ns arbitrary: k)
  case (Cons n ns)
  show ?case
  proof (cases "node_pid n = p")
    case False
    then have "find_node_with_pid p ns (Suc k) = Some i" using Cons.prems by simp
    from Cons.IH [OF this] show ?thesis by simp
  qed (use Cons.prems in simp)
qed simp

lemma par_bound: "par ns i = Some p \<Longrightarrow> p < length ns"
  using find_node_bound [of _ ns 0] by (auto simp: par_def)

lemma linked_pids: "linked k ns ns' \<Longrightarrow> map node_pid ns' = map node_pid ns"
  by (rule nth_equalityI) (simp_all add: linked_def)

lemma linked_par:
  assumes "linked k ns ns'" "i < length ns"
  shows "par ns' i = par ns i"
proof -
  have "node_ppid (ns' ! i) = node_ppid (ns ! i)" using assms by (simp add: linked_def)
  then show ?thesis
    unfolding par_def by (simp only: find_node_cong [OF linked_pids [OF assms(1)]])
qed

lemma link_node_linked:
  assumes "linked k ns ms" "k < length ns" "link_node k ms = Some ms'"
  shows "linked (Suc k) ns ms'"
proof (cases "par ns k")
  case None
  then have "ms' = ms" using assms linked_par [OF assms(1,2)] by (simp add: link_node_def par_def)
  then show ?thesis using assms(1) None by (auto simp: linked_def less_Suc_eq)
next
  case (Some p)
  then have p: "find_node_with_pid (node_ppid (ms ! k)) ms 0 = Some p"
    using linked_par [OF assms(1,2)] by (simp add: par_def)
  have len: "length ms = length ns" "p < length ns" using assms(1) par_bound [OF Some] by (auto simp: linked_def)
  let ?ms1 = "ms[k := (ms ! k)\<lparr>parent := Some p\<rparr>]"
  have ms': "ms' = ?ms1[p := (?ms1 ! p)\<lparr>children := children (?ms1 ! p) @ [k]\<rparr>]"
    using assms(3) p by (simp add: link_node_def Let_def split: if_splits)
  moreover have "length (children (?ms1 ! p)) + 1 < 128"
    using assms(3) p by (simp add: link_node_def Let_def split: if_splits)
  ultimately show ?thesis
    using assms(1,2) len Some by (auto simp: linked_def nth_list_update less_Suc_eq)
qed

lemma make_tree_loop_linked:
  "linked k ns ms \<Longrightarrow> make_tree_loop xs ms = Some ms' \<Longrightarrow> xs = [k..<length ns] \<Longrightarrow> k \<le> length ns \<Longrightarrow>
   linked (length ns) ns ms'"
proof (induction xs arbitrary: k ms)
  case (Cons x xs)
  then have x: "x = k" "k < length ns" "xs = [Suc k..<length ns]"
    using Cons.prems(3) [symmetric] unfolding upt_eq_Cons_conv Suc_eq_plus1 [symmetric] by metis+
  obtain ms1 where "link_node k ms = Some ms1" "make_tree_loop xs ms1 = Some ms'"
    using Cons.prems(2) x(1) by (auto split: option.splits)
  with Cons.IH [of "Suc k" ms1] link_node_linked [OF Cons.prems(1) x(2)] x show ?case by simp
next
  case Nil
  then have "k = length ns" using upt_eq_Nil_conv [of k "length ns"] by auto
  then show ?case using Nil by simp
qed

definition fresh :: "pstree_node list \<Rightarrow> bool" where
  "fresh ns \<longleftrightarrow> (\<forall>n\<in>set ns. parent n = None \<and> children n = [])"

lemma fresh_linked: "fresh ns \<Longrightarrow> linked 0 ns ns"
  by (simp add: linked_def fresh_def)

lemma make_tree_linked:
  assumes "make_tree ns = Some ns'" "fresh ns"
  shows "linked (length ns) ns ns'"
  using make_tree_loop_linked [OF fresh_linked [OF assms(2)]] assms(1) by (simp add: make_tree_def)

lemma link_node_fits:
  assumes "linked k ns ms" "k < length ns" "length (filter (\<lambda>c. par ns c = Some p) [0..<Suc k]) < 128"
    "par ns k = Some p"
  shows "link_node k ms \<noteq> None"
proof -
  have p: "find_node_with_pid (node_ppid (ms ! k)) ms 0 = Some p"
    using linked_par [OF assms(1,2)] assms(4) by (simp add: par_def)
  have len: "length ms = length ns" "p < length ns" using assms(1) par_bound [OF assms(4)] by (auto simp: linked_def)
  let ?ms1 = "ms[k := (ms ! k)\<lparr>parent := Some p\<rparr>]"
  have "children (?ms1 ! p) = filter (\<lambda>c. par ns c = Some p) [0..<k]"
    using assms(1,2) len by (cases "p = k") (auto simp: linked_def nth_list_update)
  then show ?thesis using assms(3,4) p by (simp add: link_node_def Let_def)
qed

lemma make_tree_loop_fits:
  assumes "\<forall>p<length ns. length (filter (\<lambda>c. par ns c = Some p) [0..<length ns]) < 128"
  shows "linked k ns ms \<Longrightarrow> xs = [k..<length ns] \<Longrightarrow> k \<le> length ns \<Longrightarrow> make_tree_loop xs ms \<noteq> None"
proof (induction xs arbitrary: k ms)
  case (Cons x xs)
  then have x: "x = k" "k < length ns" "xs = [Suc k..<length ns]"
    using Cons.prems(2) [symmetric] unfolding upt_eq_Cons_conv Suc_eq_plus1 [symmetric] by metis+
  have "link_node k ms \<noteq> None"
  proof (cases "par ns k")
    case None
    then show ?thesis using linked_par [OF Cons.prems(1) x(2)] by (simp add: link_node_def par_def)
  next
    case (Some p)
    have "[0..<length ns] = [0..<Suc k] @ [Suc k..<length ns]"
      using le_Suc_ex [of "Suc k" "length ns"] x(2) upt_add_eq_append [of 0 "Suc k"] by (auto simp del: upt_Suc)
    then have "length (filter (\<lambda>c. par ns c = Some p) [0..<Suc k]) \<le> length (filter (\<lambda>c. par ns c = Some p) [0..<length ns])"
      by (simp del: upt_Suc)
    then show ?thesis using link_node_fits [OF Cons.prems(1) x(2) _ Some] assms par_bound [OF Some] by fastforce
  qed
  then obtain ms1 where m: "link_node k ms = Some ms1" by blast
  with Cons.IH [OF link_node_linked [OF Cons.prems(1) x(2) m]] x show ?case by simp
qed simp

lemma make_tree_fits_iff:
  assumes "fresh ns"
  shows "make_tree ns \<noteq> None \<longleftrightarrow>
    (\<forall>p<length ns. length (filter (\<lambda>c. par ns c = Some p) [0..<length ns]) < 128)"
proof
  assume "make_tree ns \<noteq> None"
  then obtain ns' where "linked (length ns) ns ns'" using make_tree_linked assms by blast
  then show "\<forall>p<length ns. length (filter (\<lambda>c. par ns c = Some p) [0..<length ns]) < 128"
    unfolding linked_def by metis
next
  assume "\<forall>p<length ns. length (filter (\<lambda>c. par ns c = Some p) [0..<length ns]) < 128"
  from make_tree_loop_fits [OF this fresh_linked [OF assms] refl] show "make_tree ns \<noteq> None"
    by (simp add: make_tree_def)
qed

section \<open>Walking up\<close>

text \<open>\<open>up q k i\<close>: the ancestor of \<open>i\<close> that is \<open>k\<close> generations above it.\<close>

fun up :: "(nat \<Rightarrow> nat option) \<Rightarrow> nat \<Rightarrow> nat \<Rightarrow> nat option" where
  "up q 0 i = Some i"
| "up q (Suc k) i = (case q i of None \<Rightarrow> None | Some p \<Rightarrow> up q k p)"

lemma up_add: "up q (a + b) i = (case up q a i of None \<Rightarrow> None | Some j \<Rightarrow> up q b j)"
  by (induction a arbitrary: i) (auto split: option.split)

lemma up_Suc: "up q (Suc k) i = (case up q k i of None \<Rightarrow> None | Some j \<Rightarrow> q j)"
proof -
  have "up q 1 j = q j" for j by (simp split: option.split)
  then show ?thesis using up_add [of q k 1 i] by (simp split: option.split)
qed

lemma up_root_unique:
  assumes "q r = None" "up q a i = Some r" "up q b i = Some r'" "q r' = None"
  shows "a = b"
proof -
  have "\<not> x < y" if "up q x i = Some s" "q s = None" "up q y i = Some s'" for x y s s'
  proof
    assume "x < y"
    then obtain d where "y = x + Suc d" by (metis less_iff_Suc_add add_Suc_right)
    with that up_add [of q x "Suc d" i] show False by (simp del: add_Suc_right)
  qed
  from this [OF assms(2,1,3)] this [OF assms(3,4,2)] show ?thesis by simp
qed

lemma up_acyclic:
  assumes "q r = None" "up q k i = Some r" "up q d i = Some i"
  shows "d = 0"
proof -
  have "up q (d + k) i = Some r" using assms(2,3) by (simp add: up_add)
  from up_root_unique [OF assms(1) this assms(2) assms(1)] show ?thesis by simp
qed

lemma up_below: "up q k i = Some r \<Longrightarrow> j \<le> k \<Longrightarrow> \<exists>x. up q j i = Some x \<and> up q (k - j) x = Some r"
  using up_add [of q j "k - j" i] by (auto split: option.splits)

lemma up_bound:
  assumes "up q j x = Some y" "x < n" "\<forall>x p. q x = Some p \<longrightarrow> p < n"
  shows "y < n"
  using assms by (cases j) (auto simp: up_Suc simp del: up.simps(2) split: option.splits)

lemma up_depth:
  assumes "q r = None" "up q k i = Some r" "i < n" "\<forall>x p. q x = Some p \<longrightarrow> p < n"
  shows "k < n"
proof -
  have b: "\<exists>x. up q j i = Some x \<and> x < n" if "j \<le> k" for j
    using that
  proof (induction j)
    case (Suc j)
    then show ?case using up_below [OF assms(2) Suc.prems] assms(4) up_Suc [of q j i]
      by (auto split: option.splits)
  qed (simp add: assms(3))
  have "inj_on (\<lambda>j. the (up q j i)) {..k}"
  proof (rule inj_onI)
    fix x y assume xy: "x \<in> {..k}" "y \<in> {..k}" "the (up q x i) = the (up q y i)"
    obtain a where a: "up q x i = Some a" "up q (k - x) a = Some r" using up_below [OF assms(2), of x] xy by auto
    obtain c where c: "up q y i = Some c" "up q (k - y) c = Some r" using up_below [OF assms(2), of y] xy by auto
    have "k - x = k - y" using up_root_unique [OF assms(1) a(2) _ assms(1)] c(2) xy(3) a(1) c(1) by simp
    then show "x = y" using xy(1,2) by simp
  qed
  moreover have "(\<lambda>j. the (up q j i)) ` {..k} \<subseteq> {..<n}" using b by fastforce
  ultimately have "card {..k} \<le> card {..<n}" by (rule card_inj_on_le) simp
  then show ?thesis by simp
qed

section \<open>What is printed\<close>

lemma those_Some: "those xs = Some ys \<longleftrightarrow> xs = map Some ys"
  by (induction xs arbitrary: ys) (auto split: option.splits)

lemma those_map: "(\<forall>x\<in>set xs. f x = Some (g x)) \<Longrightarrow> those (map f xs) = Some (map g xs)"
  by (simp add: those_Some)

definition family :: "pstree_node list \<Rightarrow> (nat \<Rightarrow> nat option) \<Rightarrow> bool" where
  "family ns q \<longleftrightarrow> (\<forall>i<length ns. children (ns ! i) = filter (\<lambda>c. q c = Some i) [0..<length ns]) \<and>
     (\<forall>x p. q x = Some p \<longrightarrow> p < length ns)"

lemma print_tree_total:
  assumes "family ns q" "q r = None"
  shows "up q k i = Some r \<Longrightarrow> i < length ns \<Longrightarrow> length ns \<le> d + k \<Longrightarrow> \<exists>ts. print_tree d ns i l = Some ts"
proof (induction d arbitrary: i k l)
  case 0
  then show ?case using up_depth [of q r k i "length ns"] assms by (simp add: family_def)
next
  case (Suc d)
  have "\<exists>ts. print_tree d ns c (l + 1) = Some ts" if "c \<in> set (children (ns ! i))" for c
  proof -
    have "q c = Some i" "c < length ns" using that assms(1) Suc.prems(2) by (auto simp: family_def)
    then show ?thesis using Suc.IH [of "Suc k" c] Suc.prems by simp
  qed
  then obtain g where "\<forall>c\<in>set (children (ns ! i)). print_tree d ns c (l + 1) = Some (g c)" by metis
  from those_map [of _ _ g, OF this] show ?case by simp
qed

lemma those_mapD: "those (map f xs) = Some ys \<Longrightarrow> ys = map (\<lambda>x. the (f x)) xs \<and> (\<forall>x\<in>set xs. f x \<noteq> None)"
  by (induction xs arbitrary: ys) (auto split: option.splits)

lemma distinct_concat_map:
  "distinct xs \<Longrightarrow> \<forall>x\<in>set xs. distinct (h x) \<Longrightarrow>
   \<forall>x\<in>set xs. \<forall>y\<in>set xs. x \<noteq> y \<longrightarrow> set (h x) \<inter> set (h y) = {} \<Longrightarrow> distinct (concat (map h xs))"
proof (induction xs)
  case (Cons x xs)
  have "set (h x) \<inter> set (h y) = {}" if "y \<in> set xs" for y
    using Cons.prems that by (metis distinct.simps(2) list.set_intros)
  with Cons show ?case by auto
qed simp

lemma up_child:
  assumes "family ns q" "i < length ns" "x < length ns"
  shows "up q (Suc j) x = Some i \<longleftrightarrow> (\<exists>c\<in>set (children (ns ! i)). up q j x = Some c)"
proof -
  have "y < length ns" if y: "up q j x = Some y" for y
    using up_bound [OF y assms(3)] assms(1) by (simp add: family_def)
  then show ?thesis
    using assms(1,2) unfolding up_Suc by (auto simp: family_def split: option.splits)
qed

lemma up_siblings:
  assumes "q r = None" "up q k i = Some r" "q c = Some i" "q c' = Some i" "up q j x = Some c" "up q j' x = Some c'"
  shows "c = c'"
proof -
  have "up q (Suc j) x = Some i" "up q (Suc j') x = Some i" using assms(3-6) unfolding up_Suc by simp_all
  then have "up q (Suc j + k) x = Some r" "up q (Suc j' + k) x = Some r"
    using assms(2) by (simp_all only: up_add option.case)
  from up_root_unique [of q, OF assms(1) this assms(1)] assms(5,6) show ?thesis by simp
qed

text \<open>The nodes below \<open>i\<close>, each with its level.\<close>

definition below :: "pstree_node list \<Rightarrow> (nat \<Rightarrow> nat option) \<Rightarrow> nat \<Rightarrow> nat \<Rightarrow> (nat \<times> nat) set" where
  "below ns q i l = {(x, l + j) |x j. x < length ns \<and> up q j x = Some i}"

lemma below_split:
  assumes "family ns q" "i < length ns"
  shows "below ns q i l = insert (i, l) (\<Union>c\<in>set (children (ns ! i)). below ns q c (l + 1))"
proof (rule set_eqI, clarify)
  fix x m
  have "(x, m) \<in> below ns q i l \<longleftrightarrow> x < length ns \<and> (\<exists>j. m = l + j \<and> up q j x = Some i)"
    by (auto simp: below_def)
  also have "\<dots> \<longleftrightarrow> x < length ns \<and> (m = l \<and> x = i \<or> (\<exists>j. m = l + Suc j \<and> up q (Suc j) x = Some i))"
    by (auto simp del: up.simps(2)) (metis add_0_right not0_implies_Suc option.inject up.simps(1))+
  also have "\<dots> \<longleftrightarrow> (x, m) \<in> insert (i, l) (\<Union>c\<in>set (children (ns ! i)). below ns q c (l + 1))"
    using up_child [OF assms] assms(2) by (auto simp: below_def simp del: up.simps(2))
  finally show "(x, m) \<in> below ns q i l \<longleftrightarrow>
    (x, m) \<in> insert (i, l) (\<Union>c\<in>set (children (ns ! i)). below ns q c (l + 1))" .
qed

lemma print_tree_nodes:
  assumes "family ns q" "q r = None"
  shows "print_tree d ns i l = Some ts \<Longrightarrow> up q k i = Some r \<Longrightarrow> i < length ns \<Longrightarrow>
    set ts = below ns q i l \<and> distinct (map fst ts)"
proof (induction d arbitrary: i k l ts)
  case (Suc d)
  define cs where "cs = children (ns ! i)"
  define g where "g c = the (print_tree d ns c (l + 1))" for c
  obtain us where us: "those (map (\<lambda>c. print_tree d ns c (l + 1)) cs) = Some us" "ts = (i, l) # concat us"
    using Suc.prems(1) by (auto simp: cs_def)
  have g: "us = map g cs" "\<forall>c\<in>set cs. print_tree d ns c (l + 1) = Some (g c)"
    using those_mapD [OF us(1)] by (auto simp: g_def)
  have c: "q c = Some i" "c < length ns" if "c \<in> set cs" for c
    using that assms(1) Suc.prems(3) by (auto simp: family_def cs_def)
  have dc: "distinct cs" using assms(1) Suc.prems(3) by (simp add: family_def cs_def)
  have sub: "set (g c) = below ns q c (l + 1) \<and> distinct (map fst (g c))" if "c \<in> set cs" for c
    using Suc.IH [of c "l + 1" "g c" "Suc k"] g(2) c [OF that] that Suc.prems(2) by simp
  have disj: "set (map fst (g c)) \<inter> set (map fst (g c')) = {}" if "c \<in> set cs" "c' \<in> set cs" "c \<noteq> c'" for c c'
    using sub [OF that(1)] sub [OF that(2)] up_siblings [OF assms(2) Suc.prems(2), of c c'] c that
    by (fastforce simp: below_def)
  have self: "i \<notin> set (map fst (g c))" if "c \<in> set cs" for c
    using sub [OF that] up_child [OF assms(1) Suc.prems(3) Suc.prems(3)] that
      up_acyclic [OF assms(2) Suc.prems(2)] by (force simp: below_def cs_def simp del: up.simps(2))
  have "set ts = below ns q i l"
    using below_split [OF assms(1) Suc.prems(3), of l] sub by (auto simp: us(2) g(1) cs_def)
  moreover have "distinct (concat (map (\<lambda>c. map fst (g c)) cs))"
    by (rule distinct_concat_map [OF dc]) (use sub disj in auto)
  then have "distinct (map fst ts)" using self by (auto simp: us(2) g(1) map_concat comp_def)
  ultimately show ?case by simp
qed simp

lemma catalog_all_fresh:
  "catalog_all fs junk es ll = Some ll' \<Longrightarrow> fresh ll \<Longrightarrow> fresh ll'"
proof (induction fs junk es ll rule: catalog_all.induct)
  case (2 fs junk d t es ll)
  have "fresh ll1" if "catalog_process fs junk dirname ll = Some (r, ll1)" for dirname r ll1
    using that "2.prems"(2)
    by (auto simp: catalog_process_def ll_create_and_insert_def fresh_def split: option.splits if_splits)
  with 2 show ?case by (auto split: if_splits option.splits)
qed simp

lemma linked_family:
  assumes "linked (length ns) ns ns'"
  shows "family ns' (par ns)" "\<forall>i<length ns. parent (ns' ! i) = par ns i" "length ns' = length ns"
  using assms par_bound by (auto simp: linked_def family_def)

lemma print_roots_nodes:
  assumes "linked (length ns) ns ns'"
  shows "\<exists>xs. print_roots ns' = Some xs \<and> distinct (map fst xs) \<and>
    set xs = {(x, k). x < length ns \<and> (\<exists>r. up (par ns) k x = Some r \<and> par ns r = None)}"
proof -
  note fam = linked_family [OF assms]
  define rs where "rs = filter (\<lambda>i. parent (ns' ! i) = None) [0..<length ns']"
  have rs: "set rs = {r. r < length ns \<and> par ns r = None}" "distinct rs" using fam(2,3) by (auto simp: rs_def)
  define g where "g r = the (print_tree (length ns') ns' r 0)" for r
  have r: "print_tree (length ns') ns' r 0 = Some (g r)" "set (g r) = below ns' (par ns) r 0" "distinct (map fst (g r))"
    if "r \<in> set rs" for r
  proof -
    have r: "par ns r = None" "r < length ns'" using that rs fam(3) by auto
    obtain ts where t: "print_tree (length ns') ns' r 0 = Some ts"
      using print_tree_total [OF fam(1) r(1), of 0 r "length ns'"] r(2) by auto
    then show "print_tree (length ns') ns' r 0 = Some (g r)" by (simp add: g_def)
    from print_tree_nodes [OF fam(1) r(1) this, of 0] r(2)
    show "set (g r) = below ns' (par ns) r 0" "distinct (map fst (g r))" by simp_all
  qed
  have "those (map (\<lambda>r. print_tree (length ns') ns' r 0) rs) = Some (map g rs)"
    by (rule those_map) (use r in blast)
  then have p: "print_roots ns' = Some (concat (map g rs))" by (simp add: print_roots_def rs_def)
  have "set (map fst (g a)) \<inter> set (map fst (g b)) = {}" if ab: "a \<in> set rs" "b \<in> set rs" "a \<noteq> b" for a b
  proof (rule ccontr)
    assume "\<not> ?thesis"
    then obtain x j j' where x: "up (par ns) j x = Some a" "up (par ns) j' x = Some b"
      using r(2) [OF ab(1)] r(2) [OF ab(2)] by (fastforce simp: below_def)
    with up_root_unique [of "par ns" a j x j' b] ab rs show False by auto
  qed
  then have "distinct (concat (map (\<lambda>r. map fst (g r)) rs))"
    by (intro distinct_concat_map) (use r rs in auto)
  moreover have "set (concat (map g rs)) = {(x, k). x < length ns \<and> (\<exists>r. up (par ns) k x = Some r \<and> par ns r = None)}"
  proof -
    have "set (concat (map g rs)) = (\<Union>r\<in>set rs. below ns' (par ns) r 0)" using r(2) by auto
    also have "\<dots> = {(x, k). x < length ns \<and> (\<exists>r. up (par ns) k x = Some r \<and> par ns r = None)}"
      using rs(1) fam(3) up_bound [of "par ns" _ _ _ "length ns"] par_bound by (auto simp: below_def)
    finally show ?thesis .
  qed
  ultimately show ?thesis using p by (simp add: map_concat comp_def)
qed

lemma pstree_prints_all:
  assumes "proc_entries fs = Some es" "catalog_all fs junk es [] = Some ll"
  shows "(make_tree ll \<noteq> None \<longleftrightarrow>
      (\<forall>p<length ll. length (filter (\<lambda>c. par ll c = Some p) [0..<length ll]) < 128)) \<and>
    (make_tree ll = Some ns \<longrightarrow>
      (\<exists>xs. pstree_main fs junk = Some (0, concat (map (show_node ns) xs)) \<and> distinct (map fst xs) \<and>
        set xs = {(x, k). x < length ll \<and> (\<exists>r. up (par ll) k x = Some r \<and> par ll r = None)}))"
proof -
  have f: "fresh ll" using catalog_all_fresh [OF assms(2)] by (simp add: fresh_def)
  have "\<exists>xs. pstree_main fs junk = Some (0, concat (map (show_node ns) xs)) \<and> distinct (map fst xs) \<and>
        set xs = {(x, k). x < length ll \<and> (\<exists>r. up (par ll) k x = Some r \<and> par ll r = None)}"
    if "make_tree ll = Some ns"
    using print_roots_nodes [OF make_tree_linked [OF that f]] that assms by (auto simp: pstree_main_def)
  with make_tree_fits_iff [OF f] show ?thesis by blast
qed



end
