(* ===== verification/Sems.thy ===== *)
theory Sems
  imports NumArgs
begin

text \<open>
  System V semaphores: the operations of \<open>semop\<close> and \<open>semctl\<close> as \<open>semop(2)\<close> describes them, the
  binary semaphores of \<open>lib/binary_sems.c\<close>, the event flags of \<open>lib/event_flags.c\<close>, and the
  program \<open>svsem/svsem_op.c\<close> with its parser of operations.
\<close>

section \<open>Semaphore sets\<close>

record sembuf =
  sem_num :: nat
  sem_op :: int
  sem_nowait :: bool
  sem_undo :: bool

abbreviation (input) SEMVMX :: int where "SEMVMX \<equiv> 32767"

datatype attempt = Performed "int list" | Blocked | Refused errno

text \<open>The operations of one call are performed in order, all of them or none.\<close>

fun semop_seq :: "sembuf list \<Rightarrow> int list \<Rightarrow> attempt" where
  "semop_seq [] vals = Performed vals"
| "semop_seq (s # ss) vals =
     (let v = vals ! sem_num s
      in if sem_op s > 0 then
           (if v + sem_op s > SEMVMX then Refused ERANGE
            else semop_seq ss (vals[sem_num s := v + sem_op s]))
         else if sem_op s < 0 then
           (if v + sem_op s < 0 then (if sem_nowait s then Refused EAGAIN else Blocked)
            else semop_seq ss (vals[sem_num s := v + sem_op s]))
         else if v \<noteq> 0 then (if sem_nowait s then Refused EAGAIN else Blocked)
         else semop_seq ss vals)"

definition semop_try :: "sembuf list \<Rightarrow> int list \<Rightarrow> attempt" where
  "semop_try ss vals =
     (if \<exists>s\<in>set ss. length vals \<le> sem_num s then Refused EFBIG else semop_seq ss vals)"

text \<open>
  The sets by identifier, and what happens while the caller sleeps: a signal handler runs, or
  another process changes the value of a semaphore.
\<close>

datatype happening = Signal | Add int nat int

record semk =
  sets :: "int \<rightharpoonup> int list"
  script :: "happening list"

definition other_adds :: "int \<Rightarrow> nat \<Rightarrow> int \<Rightarrow> (int \<rightharpoonup> int list) \<Rightarrow> (int \<rightharpoonup> int list)" where
  "other_adds semId n a ss =
     (case ss semId of None \<Rightarrow> ss | Some vals \<Rightarrow> ss(semId \<mapsto> vals[n := vals ! n + a]))"

text \<open>\<open>None\<close>: the caller sleeps and nothing ever wakes it.\<close>

fun semop_wait :: "int \<Rightarrow> sembuf list \<Rightarrow> (int \<rightharpoonup> int list) \<Rightarrow> happening list \<Rightarrow> (unit result \<times> semk) option" where
  "semop_wait semId ops ss hs =
     (case ss semId of
        None \<Rightarrow> Some (Inl EINVAL, \<lparr>sets = ss, script = hs\<rparr>)
      | Some vals \<Rightarrow>
          (case semop_try ops vals of
             Performed vals' \<Rightarrow> Some (Inr (), \<lparr>sets = ss(semId \<mapsto> vals'), script = hs\<rparr>)
           | Refused e \<Rightarrow> Some (Inl e, \<lparr>sets = ss, script = hs\<rparr>)
           | Blocked \<Rightarrow>
               (case hs of
                  [] \<Rightarrow> None
                | Signal # hs' \<Rightarrow> Some (Inl EINTR, \<lparr>sets = ss, script = hs'\<rparr>)
                | Add i n a # hs' \<Rightarrow> semop_wait semId ops (other_adds i n a ss) hs')))"

declare semop_wait.simps [simp del]

definition semop :: "int \<Rightarrow> sembuf list \<Rightarrow> semk \<Rightarrow> (unit result \<times> semk) option" where
  "semop semId ops k = semop_wait semId ops (sets k) (script k)"

definition semctl_setval :: "int \<Rightarrow> nat \<Rightarrow> int \<Rightarrow> semk \<Rightarrow> unit result \<times> semk" where
  "semctl_setval semId n v k =
     (case sets k semId of
        None \<Rightarrow> (Inl EINVAL, k)
      | Some vals \<Rightarrow>
          if length vals \<le> n then (Inl EINVAL, k)
          else if v < 0 \<or> SEMVMX < v then (Inl ERANGE, k)
          else (Inr (), k\<lparr>sets := (sets k)(semId \<mapsto> vals[n := v])\<rparr>))"

definition semctl_getval :: "int \<Rightarrow> nat \<Rightarrow> semk \<Rightarrow> int result" where
  "semctl_getval semId n k =
     (case sets k semId of
        None \<Rightarrow> Inl EINVAL
      | Some vals \<Rightarrow> if length vals \<le> n then Inl EINVAL else Inr (vals ! n))"

section \<open>Binary semaphores\<close>

definition initSemAvailable :: "int \<Rightarrow> nat \<Rightarrow> semk \<Rightarrow> unit result \<times> semk" where
  "initSemAvailable semId semNum k = semctl_setval semId semNum 1 k"

definition initSemInUse :: "int \<Rightarrow> nat \<Rightarrow> semk \<Rightarrow> unit result \<times> semk" where
  "initSemInUse semId semNum k = semctl_setval semId semNum 0 k"

text \<open>
  \<open>bsUseSemUndo\<close> and \<open>bsRetryOnEintr\<close> are the two global variables of the module.
\<close>

partial_function (option) reserveSem ::
    "bool \<Rightarrow> bool \<Rightarrow> int \<Rightarrow> nat \<Rightarrow> semk \<Rightarrow> (unit result \<times> semk) option" where
  "reserveSem bsUseSemUndo bsRetryOnEintr semId semNum k =
     (case semop semId [\<lparr>sem_num = semNum, sem_op = - 1, sem_nowait = False, sem_undo = bsUseSemUndo\<rparr>] k of
        None \<Rightarrow> None
      | Some (Inr u, k') \<Rightarrow> Some (Inr (), k')
      | Some (Inl e, k') \<Rightarrow>
          if e \<noteq> EINTR \<or> \<not> bsRetryOnEintr then Some (Inl e, k')
          else reserveSem bsUseSemUndo bsRetryOnEintr semId semNum k')"

definition releaseSem :: "bool \<Rightarrow> int \<Rightarrow> nat \<Rightarrow> semk \<Rightarrow> (unit result \<times> semk) option" where
  "releaseSem bsUseSemUndo semId semNum k =
     semop semId [\<lparr>sem_num = semNum, sem_op = 1, sem_nowait = False, sem_undo = bsUseSemUndo\<rparr>] k"

section \<open>Event flags\<close>

partial_function (option) waitForEventFlag :: "int \<Rightarrow> nat \<Rightarrow> semk \<Rightarrow> (unit result \<times> semk) option" where
  "waitForEventFlag semId semNum k =
     (case semop semId [\<lparr>sem_num = semNum, sem_op = 0, sem_nowait = False, sem_undo = False\<rparr>] k of
        None \<Rightarrow> None
      | Some (Inr u, k') \<Rightarrow> Some (Inr (), k')
      | Some (Inl e, k') \<Rightarrow>
          if e \<noteq> EINTR then Some (Inl e, k') else waitForEventFlag semId semNum k')"

definition clearEventFlag :: "int \<Rightarrow> nat \<Rightarrow> semk \<Rightarrow> unit result \<times> semk" where
  "clearEventFlag semId semNum k = semctl_setval semId semNum 1 k"

definition setEventFlag :: "int \<Rightarrow> nat \<Rightarrow> semk \<Rightarrow> unit result \<times> semk" where
  "setEventFlag semId semNum k = semctl_setval semId semNum 0 k"

definition getFlagState :: "int \<Rightarrow> nat \<Rightarrow> semk \<Rightarrow> bool result" where
  "getFlagState semId semNum k =
     (case semctl_getval semId semNum k of Inl e \<Rightarrow> Inl e | Inr sem_val \<Rightarrow> Inr (sem_val = 0))"

section \<open>What the waiting operations promise\<close>

text \<open>
  Waiting until a condition on the set holds, deaf to signals: the happenings are taken in
  order until it does.
\<close>

fun wait_until :: "((int \<rightharpoonup> int list) \<Rightarrow> bool) \<Rightarrow> (int \<rightharpoonup> int list) \<Rightarrow> happening list \<Rightarrow>
    ((int \<rightharpoonup> int list) \<times> happening list) option" where
  "wait_until P ss hs =
     (if P ss then Some (ss, hs)
      else (case hs of
              [] \<Rightarrow> None
            | Signal # hs' \<Rightarrow> wait_until P ss hs'
            | Add i n a # hs' \<Rightarrow> wait_until P (other_adds i n a ss) hs'))"

declare wait_until.simps [simp del]

definition sem_val :: "int \<Rightarrow> nat \<Rightarrow> (int \<rightharpoonup> int list) \<Rightarrow> int" where
  "sem_val semId n ss = (case ss semId of None \<Rightarrow> 0 | Some vals \<Rightarrow> vals ! n)"

definition sem_valid :: "int \<Rightarrow> nat \<Rightarrow> (int \<rightharpoonup> int list) \<Rightarrow> bool" where
  "sem_valid semId n ss \<longleftrightarrow> (case ss semId of None \<Rightarrow> False | Some vals \<Rightarrow> n < length vals)"

definition sem_upd :: "int \<Rightarrow> nat \<Rightarrow> int \<Rightarrow> (int \<rightharpoonup> int list) \<Rightarrow> (int \<rightharpoonup> int list)" where
  "sem_upd semId n v ss = ss(semId \<mapsto> (the (ss semId))[n := v])"

lemma sem_valid_adds [simp]: "sem_valid semId n (other_adds i m a ss) = sem_valid semId n ss"
  by (auto simp: sem_valid_def other_adds_def split: option.splits)

lemma semop_one:
  assumes "sem_valid semId n ss" "x \<le> 0"
  shows "semop_wait semId [\<lparr>sem_num = n, sem_op = x, sem_nowait = False, sem_undo = u\<rparr>] ss hs =
    (if (if x = 0 then sem_val semId n ss = 0 else 0 \<le> sem_val semId n ss + x)
     then Some (Inr (), \<lparr>sets = sem_upd semId n (sem_val semId n ss + x) ss, script = hs\<rparr>)
     else (case hs of
             [] \<Rightarrow> None
           | Signal # hs' \<Rightarrow> Some (Inl EINTR, \<lparr>sets = ss, script = hs'\<rparr>)
           | Add i m a # hs' \<Rightarrow>
               semop_wait semId [\<lparr>sem_num = n, sem_op = x, sem_nowait = False, sem_undo = u\<rparr>]
                 (other_adds i m a ss) hs'))"
proof -
  obtain vals where v: "ss semId = Some vals" "n < length vals"
    using assms(1) by (auto simp: sem_valid_def split: option.splits)
  have "vals ! n = 0 \<Longrightarrow> vals[n := 0] = vals" by (metis list_update_id)
  then show ?thesis
    using assms(2) v
    by (subst semop_wait.simps) (auto simp: semop_try_def sem_val_def sem_upd_def Let_def)
qed

lemma reserveSem_wait:
  assumes "sem_valid semId n (sets k)"
  shows "reserveSem u True semId n k =
    (case wait_until (\<lambda>ss. 1 \<le> sem_val semId n ss) (sets k) (script k) of
       None \<Rightarrow> None
     | Some (ss, hs) \<Rightarrow> Some (Inr (), \<lparr>sets = sem_upd semId n (sem_val semId n ss - 1) ss, script = hs\<rparr>))"
  using assms
proof (induction "script k" arbitrary: k)
  case Nil
  then show ?case
    by (subst reserveSem.simps, subst wait_until.simps) (auto simp: semop_def semop_one)
next
  case (Cons h hs)
  show ?case
  proof (cases "1 \<le> sem_val semId n (sets k)")
    case True
    with Cons.prems show ?thesis
      by (subst reserveSem.simps, subst wait_until.simps) (auto simp: semop_def semop_one)
  next
    case False
    show ?thesis
    proof (cases h)
      case Signal
      with False Cons.hyps(2) Cons.prems have "reserveSem u True semId n k =
          reserveSem u True semId n \<lparr>sets = sets k, script = hs\<rparr>"
        by (subst reserveSem.simps) (simp add: semop_def semop_one flip: Cons.hyps(2))
      with Cons.hyps(1) [of "\<lparr>sets = sets k, script = hs\<rparr>"] Cons.prems False Signal show ?thesis
        by (subst wait_until.simps) (simp flip: Cons.hyps(2))
    next
      case (Add i m a)
      let ?k = "\<lparr>sets = other_adds i m a (sets k), script = hs\<rparr>"
      from Add False Cons.prems have "reserveSem u True semId n k = reserveSem u True semId n ?k"
        by (subst (1 2) reserveSem.simps) (simp add: semop_def semop_one flip: Cons.hyps(2))
      with Cons.hyps(1) [of ?k] Cons.prems False Add show ?thesis
        by (subst wait_until.simps) (simp flip: Cons.hyps(2))
    qed
  qed
qed

lemma waitForEventFlag_wait:
  assumes "sem_valid semId n (sets k)"
  shows "waitForEventFlag semId n k =
    (case wait_until (\<lambda>ss. sem_val semId n ss = 0) (sets k) (script k) of
       None \<Rightarrow> None
     | Some (ss, hs) \<Rightarrow> Some (Inr (), \<lparr>sets = sem_upd semId n 0 ss, script = hs\<rparr>))"
  using assms
proof (induction "script k" arbitrary: k)
  case Nil
  then show ?case
    by (subst waitForEventFlag.simps, subst wait_until.simps) (auto simp: semop_def semop_one)
next
  case (Cons h hs)
  show ?case
  proof (cases "sem_val semId n (sets k) = 0")
    case True
    with Cons.prems show ?thesis
      by (subst waitForEventFlag.simps, subst wait_until.simps) (auto simp: semop_def semop_one)
  next
    case False
    show ?thesis
    proof (cases h)
      case Signal
      with False Cons.hyps(2) Cons.prems have "waitForEventFlag semId n k =
          waitForEventFlag semId n \<lparr>sets = sets k, script = hs\<rparr>"
        by (subst waitForEventFlag.simps) (simp add: semop_def semop_one flip: Cons.hyps(2))
      with Cons.hyps(1) [of "\<lparr>sets = sets k, script = hs\<rparr>"] Cons.prems False Signal show ?thesis
        by (subst wait_until.simps) (simp flip: Cons.hyps(2))
    next
      case (Add i m a)
      let ?k = "\<lparr>sets = other_adds i m a (sets k), script = hs\<rparr>"
      from Add False Cons.prems have "waitForEventFlag semId n k = waitForEventFlag semId n ?k"
        by (subst (1 2) waitForEventFlag.simps) (simp add: semop_def semop_one flip: Cons.hyps(2))
      with Cons.hyps(1) [of ?k] Cons.prems False Add show ?thesis
        by (subst wait_until.simps) (simp flip: Cons.hyps(2))
    qed
  qed
qed

lemma releaseSem_adds:
  assumes "sem_valid semId n (sets k)" "sem_val semId n (sets k) < SEMVMX"
  shows "releaseSem u semId n k =
    Some (Inr (), k\<lparr>sets := sem_upd semId n (sem_val semId n (sets k) + 1) (sets k)\<rparr>)"
  using assms
  by (auto simp: releaseSem_def semop_def semop_wait.simps semop_try_def sem_valid_def sem_val_def
      sem_upd_def Let_def split: option.splits)

lemma sem_upd_simps [simp]:
  "sem_valid semId n ss \<Longrightarrow> sem_val semId n (sem_upd semId n v ss) = v"
  "sem_valid semId n ss \<Longrightarrow> sem_valid semId m (sem_upd semId n v ss) = sem_valid semId m ss"
  by (auto simp: sem_valid_def sem_val_def sem_upd_def split: option.splits)

lemma semctl_setval_ok:
  "\<lbrakk>sem_valid semId n (sets k); 0 \<le> v; v \<le> SEMVMX\<rbrakk> \<Longrightarrow>
   semctl_setval semId n v k = (Inr (), k\<lparr>sets := sem_upd semId n v (sets k)\<rparr>)"
  by (auto simp: semctl_setval_def sem_valid_def sem_upd_def split: option.splits)

section \<open>Properties\<close>

lemma binary_semaphore_ops:
  assumes "sem_valid semId n (sets k)"
  shows "reserveSem u True semId n k =
      (case wait_until (\<lambda>ss. 1 \<le> sem_val semId n ss) (sets k) (script k) of
         None \<Rightarrow> None
       | Some (ss, hs) \<Rightarrow> Some (Inr (), \<lparr>sets = sem_upd semId n (sem_val semId n ss - 1) ss, script = hs\<rparr>)) \<and>
    (sem_val semId n (sets k) < 1 \<and> script k = Signal # hs \<longrightarrow>
      reserveSem u False semId n k = Some (Inl EINTR, k\<lparr>script := hs\<rparr>)) \<and>
    (sem_val semId n (sets k) < SEMVMX \<longrightarrow>
      releaseSem u semId n k = Some (Inr (), k\<lparr>sets := sem_upd semId n (sem_val semId n (sets k) + 1) (sets k)\<rparr>)) \<and>
    (\<exists>k1 k2. initSemAvailable semId n k = (Inr (), k1) \<and> reserveSem u True semId n k1 = Some (Inr (), k2) \<and>
      sem_val semId n (sets k2) = 0 \<and> (script k = [] \<longrightarrow> reserveSem u True semId n k2 = None))"
proof (intro conjI impI)
  show "reserveSem u True semId n k =
      (case wait_until (\<lambda>ss. 1 \<le> sem_val semId n ss) (sets k) (script k) of
         None \<Rightarrow> None
       | Some (ss, hs) \<Rightarrow> Some (Inr (), \<lparr>sets = sem_upd semId n (sem_val semId n ss - 1) ss, script = hs\<rparr>))"
    by (rule reserveSem_wait [OF assms])
  show "reserveSem u False semId n k = Some (Inl EINTR, k\<lparr>script := hs\<rparr>)"
    if "sem_val semId n (sets k) < 1 \<and> script k = Signal # hs"
    using that assms by (subst reserveSem.simps) (simp add: semop_def semop_one)
  show "releaseSem u semId n k = Some (Inr (), k\<lparr>sets := sem_upd semId n (sem_val semId n (sets k) + 1) (sets k)\<rparr>)"
    if "sem_val semId n (sets k) < SEMVMX"
    using releaseSem_adds [OF assms that] .
  show "\<exists>k1 k2. initSemAvailable semId n k = (Inr (), k1) \<and> reserveSem u True semId n k1 = Some (Inr (), k2) \<and>
      sem_val semId n (sets k2) = 0 \<and> (script k = [] \<longrightarrow> reserveSem u True semId n k2 = None)"
    using assms by (simp add: initSemAvailable_def semctl_setval_ok reserveSem_wait wait_until.simps)
qed

lemma event_flag_ops:
  assumes "sem_valid semId n (sets k)"
  shows "waitForEventFlag semId n k =
      (case wait_until (\<lambda>ss. sem_val semId n ss = 0) (sets k) (script k) of
         None \<Rightarrow> None | Some (ss, hs) \<Rightarrow> Some (Inr (), \<lparr>sets = sem_upd semId n 0 ss, script = hs\<rparr>)) \<and>
    (\<exists>k'. setEventFlag semId n k = (Inr (), k') \<and> getFlagState semId n k' = Inr True \<and>
      waitForEventFlag semId n k' = Some (Inr (), k')) \<and>
    (\<exists>k'. clearEventFlag semId n k = (Inr (), k') \<and> getFlagState semId n k' = Inr False \<and>
      (script k = [] \<longrightarrow> waitForEventFlag semId n k' = None))"
proof (intro conjI)
  have get: "getFlagState semId n (k\<lparr>sets := sem_upd semId n v (sets k)\<rparr>) = Inr (v = 0)" for v
    using assms by (auto simp: getFlagState_def semctl_getval_def sem_valid_def sem_upd_def split: option.splits)
  have upd: "sem_upd semId n v (sem_upd semId n v (sets k)) = sem_upd semId n v (sets k)" for v
    using assms by (auto simp: sem_upd_def)
  show "waitForEventFlag semId n k =
      (case wait_until (\<lambda>ss. sem_val semId n ss = 0) (sets k) (script k) of
         None \<Rightarrow> None | Some (ss, hs) \<Rightarrow> Some (Inr (), \<lparr>sets = sem_upd semId n 0 ss, script = hs\<rparr>))"
    by (rule waitForEventFlag_wait [OF assms])
  show "\<exists>k'. setEventFlag semId n k = (Inr (), k') \<and> getFlagState semId n k' = Inr True \<and>
      waitForEventFlag semId n k' = Some (Inr (), k')"
    using assms get [of 0] by (simp add: setEventFlag_def semctl_setval_ok waitForEventFlag_wait wait_until.simps upd)
  show "\<exists>k'. clearEventFlag semId n k = (Inr (), k') \<and> getFlagState semId n k' = Inr False \<and>
      (script k = [] \<longrightarrow> waitForEventFlag semId n k' = None)"
    using assms get [of 1] by (simp add: clearEventFlag_def semctl_setval_ok waitForEventFlag_wait wait_until.simps)
qed

lemma binary_semaphores_and_flags:
  assumes "sem_valid semId n (sets k)"
  shows "(reserveSem u True semId n k =
      (case wait_until (\<lambda>ss. 1 \<le> sem_val semId n ss) (sets k) (script k) of
         None \<Rightarrow> None
       | Some (ss, hs) \<Rightarrow> Some (Inr (), \<lparr>sets = sem_upd semId n (sem_val semId n ss - 1) ss, script = hs\<rparr>)) \<and>
    (sem_val semId n (sets k) < 1 \<and> script k = Signal # hs \<longrightarrow>
      reserveSem u False semId n k = Some (Inl EINTR, k\<lparr>script := hs\<rparr>)) \<and>
    (sem_val semId n (sets k) < SEMVMX \<longrightarrow>
      releaseSem u semId n k = Some (Inr (), k\<lparr>sets := sem_upd semId n (sem_val semId n (sets k) + 1) (sets k)\<rparr>)) \<and>
    (\<exists>k1 k2. initSemAvailable semId n k = (Inr (), k1) \<and> reserveSem u True semId n k1 = Some (Inr (), k2) \<and>
      sem_val semId n (sets k2) = 0 \<and> (script k = [] \<longrightarrow> reserveSem u True semId n k2 = None))) \<and>
    (waitForEventFlag semId n k =
      (case wait_until (\<lambda>ss. sem_val semId n ss = 0) (sets k) (script k) of
         None \<Rightarrow> None | Some (ss, hs) \<Rightarrow> Some (Inr (), \<lparr>sets = sem_upd semId n 0 ss, script = hs\<rparr>)) \<and>
    (\<exists>k'. setEventFlag semId n k = (Inr (), k') \<and> getFlagState semId n k' = Inr True \<and>
      waitForEventFlag semId n k' = Some (Inr (), k')) \<and>
    (\<exists>k'. clearEventFlag semId n k = (Inr (), k') \<and> getFlagState semId n k' = Inr False \<and>
      (script k = [] \<longrightarrow> waitForEventFlag semId n k' = None)))"
  using binary_semaphore_ops [OF assms] event_flag_ops [OF assms] by (rule conjI)

end
