(* ===== verification/SemOp.thy ===== *)
theory SemOp
  imports Sems
begin

text \<open>
  \<open>svsem/svsem_op.c\<close>: the parser of operations such as \<open>0+1,1-2un\<close> and the program that
  performs each argument's operations with one \<open>semop\<close>.
\<close>

abbreviation (input) MAX_SEMOPS :: nat where "MAX_SEMOPS \<equiv> 1000"

section \<open>parseOps\<close>

fun scan_flags :: "string \<Rightarrow> bool \<Rightarrow> bool \<Rightarrow> bool \<times> bool \<times> string" where
  "scan_flags [] nw un = (nw, un, [])"
| "scan_flags (c # cs) nw un =
     (if c = CHR ''n'' then scan_flags cs True un
      else if c = CHR ''u'' then scan_flags cs nw True
      else (nw, un, c # cs))"

text \<open>One operation: \<open>sem_num\<close> is an \<open>unsigned short\<close>, \<open>sem_op\<close> a \<open>short\<close>.\<close>

definition parse_op :: "string \<Rightarrow> failure + sembuf" where
  "parse_op remaining =
     (if remaining = [] then Inl (Fatal ''Trailing comma or empty argument'')
      else if \<not> isdigit (hd remaining) then Inl (CmdLineErr ''Expected initial digit'')
      else
        (case strtol remaining 10 of (num, sign, _) \<Rightarrow>
           if sign = [] \<or> hd sign \<notin> set ''+-='' then Inl (CmdLineErr ''Expected '+', '-', or '=' '')
           else if tl sign = [] \<or> \<not> isdigit (hd (tl sign))
             then Inl (CmdLineErr ''Expected digit after sign'')
           else
             (case strtol (tl sign) 10 of (v, flags, _) \<Rightarrow>
                let op0 = to_signed 16 v;
                    op = (if hd sign = CHR ''-'' then to_signed 16 (- op0) else op0);
                    (nw, un, rest) = scan_flags flags False False
                in if hd sign = CHR ''='' \<and> op \<noteq> 0 then Inl (CmdLineErr ''Expected =0'')
                   else if rest \<noteq> [] \<and> hd rest \<noteq> CHR '',''
                     then Inl (CmdLineErr ''Bad trailing character'')
                   else Inr \<lparr>sem_num = nat (to_unsigned 16 num), sem_op = op,
                             sem_nowait = nw, sem_undo = un\<rparr>)))"

function parseOps_loop :: "nat \<Rightarrow> string \<Rightarrow> failure + sembuf list" where
  "parseOps_loop numOps remaining =
     (if MAX_SEMOPS \<le> numOps then Inl (CmdLineErr ''Too many operations'')
      else
        (case parse_op remaining of
           Inl e \<Rightarrow> Inl e
         | Inr s \<Rightarrow>
             (case strchr remaining CHR '','' of
                None \<Rightarrow> Inr [s]
              | Some (_, rest) \<Rightarrow>
                  (case parseOps_loop (numOps + 1) rest of Inl e \<Rightarrow> Inl e | Inr ss \<Rightarrow> Inr (s # ss)))))"
  by pat_completeness auto
termination
proof (relation "measure (\<lambda>(_, s). length s)")
  fix numOps remaining s x before rest
  assume "strchr remaining CHR '','' = Some x" "(before, rest) = x"
  then have "remaining = before @ CHR '','' # rest" using strchr_Some by metis
  then show "((numOps + 1, rest), numOps, remaining) \<in> measure (\<lambda>(_, s). length s)" by simp
qed simp

declare parseOps_loop.simps [simp del]

definition parseOps :: "string \<Rightarrow> failure + sembuf list" where
  "parseOps arg = parseOps_loop 0 arg"

section \<open>main\<close>

text \<open>\<open>pid\<close> and \<open>now\<close> give the process identifier and the time as text.\<close>

fun svsem_op_args ::
    "string \<Rightarrow> (semk \<Rightarrow> string) \<Rightarrow> string \<Rightarrow> string list \<Rightarrow> semk \<Rightarrow> (failure option \<times> string list \<times> semk) option" where
  "svsem_op_args pid now semid [] k = Some (None, [], k)"
| "svsem_op_args pid now semid (arg # args) k =
     (case parseOps arg of
        Inl e \<Rightarrow> Some (Some e, [], k)
      | Inr sops \<Rightarrow>
          (let about = pid @ '', '' @ now k @ '': about to semop()  ['' @ arg @ '']'' @ [LF]
           in case getInt (Some semid) 0 (Some ''semid'') of
                Inl (GnFail t) \<Rightarrow> Some (Some (GnFailure t), [about], k)
              | Inr i \<Rightarrow>
                  (case semop i sops k of
                     None \<Rightarrow> None
                   | Some (Inl e, k') \<Rightarrow> Some (Some (ErrExit ''semop (PID=%ld)'' e), [about], k')
                   | Some (Inr _, k') \<Rightarrow>
                       (case svsem_op_args pid now semid args k' of
                          None \<Rightarrow> None
                        | Some (f, ms, k'') \<Rightarrow>
                            Some (f, about # (pid @ '', '' @ now k' @ '': semop() completed ['' @ arg @ '']'' @ [LF]) # ms, k'')))))"

definition svsem_op_main ::
    "string \<Rightarrow> (semk \<Rightarrow> string) \<Rightarrow> string list \<Rightarrow> semk \<Rightarrow> (failure option \<times> string list \<times> semk) option" where
  "svsem_op_main pid now argv k =
     (if length argv < 2 \<or> argv ! 1 = ''--help'' then Some (Some (UsageErr ''%s semid op[,op...] ...''), [], k)
      else svsem_op_args pid now (argv ! 1) (drop 2 argv) k)"

section \<open>The text of an operation\<close>

definition show_sembuf :: "sembuf \<Rightarrow> string" where
  "show_sembuf s =
     show_int (int (sem_num s)) @
     (if sem_op s > 0 then CHR ''+'' # show_int (sem_op s)
      else if sem_op s < 0 then CHR ''-'' # show_int (- sem_op s)
      else CHR ''='' # show_int 0) @
     (if sem_nowait s then ''n'' else []) @ (if sem_undo s then ''u'' else [])"

fun show_ops :: "sembuf list \<Rightarrow> string" where
  "show_ops [] = []"
| "show_ops [s] = show_sembuf s"
| "show_ops (s # ss) = show_sembuf s @ CHR '','' # show_ops ss"

definition wf_sembuf :: "sembuf \<Rightarrow> bool" where
  "wf_sembuf s \<longleftrightarrow> sem_num s < 65536 \<and> - 32768 < sem_op s \<and> sem_op s < 32768"

lemma isdigit_show_int: "0 \<le> z \<Longrightarrow> isdigit (hd (show_int z @ rest))"
  using show_nat_digits [of "hd (show_nat (nat z))" "nat z"]
  by (cases "show_nat (nat z)") (auto simp: show_int_def isdigit_def)

lemma to_signed16_id: "- 32768 \<le> x \<Longrightarrow> x < 32768 \<Longrightarrow> to_signed 16 x = x"
  by (rule to_signed_id) simp_all

lemma scan_flags_show:
  assumes "rest = [] \<or> hd rest = CHR '',''"
  shows "scan_flags ((if n then ''n'' else []) @ (if u then ''u'' else []) @ rest) False False = (n, u, rest)"
  using assms by (cases rest) auto

lemma sign_flags_not_digit:
  "\<not> digit_val CHR ''+'' < 10" "\<not> digit_val CHR ''-'' < 10" "\<not> digit_val CHR ''='' < 10"
  "\<not> digit_val CHR '','' < 10" "\<not> digit_val CHR ''n'' < 10" "\<not> digit_val CHR ''u'' < 10"
  by (simp_all add: digit_val_def)

lemma flags_no_digit:
  "rest = [] \<or> hd rest = CHR '','' \<Longrightarrow>
   fl = (if n then ''n'' else []) @ (if u then ''u'' else []) @ rest \<Longrightarrow>
   fl = [] \<or> \<not> digit_val (hd fl) < 10"
  by (auto simp: sign_flags_not_digit)

lemma parse_op_show:
  assumes "wf_sembuf s" "rest = [] \<or> hd rest = CHR '',''"
  shows "parse_op (show_sembuf s @ rest) = Inr s"
proof -
  define fl where "fl = (if sem_nowait s then ''n'' else []) @ (if sem_undo s then ''u'' else []) @ rest"
  define c where "c = (if sem_op s > 0 then CHR ''+'' else if sem_op s < 0 then CHR ''-'' else CHR ''='')"
  define a where "a = \<bar>sem_op s\<bar>"
  have t: "show_sembuf s @ rest = show_int (int (sem_num s)) @ c # show_int a @ fl"
    by (simp add: show_sembuf_def fl_def c_def a_def)
  have a: "0 \<le> a" "a < 32768" using assms(1) by (auto simp: a_def wf_sembuf_def)
  have 1: "strtol (show_int (int (sem_num s)) @ c # show_int a @ fl) 10 =
      (int (sem_num s), c # show_int a @ fl, False)"
    using assms(1) sign_flags_not_digit by (intro strtol_show_int) (auto simp: wf_sembuf_def c_def)
  have 2: "strtol (show_int a @ fl) 10 = (a, fl, False)"
    using a flags_no_digit [OF assms(2) fl_def] by (intro strtol_show_int) auto
  have 3: "to_signed 16 a = a" "to_signed 16 (- a) = - a" using a by (auto intro: to_signed16_id)
  show ?thesis
    unfolding t using assms a 1 2 3 scan_flags_show [OF assms(2), of "sem_nowait s" "sem_undo s"]
      isdigit_show_int [of "int (sem_num s)"] isdigit_show_int [of a]
    by (auto simp: parse_op_def wf_sembuf_def fl_def [symmetric]) (auto simp: c_def a_def split: if_splits intro!: sembuf.equality)
qed

lemma sembuf_comma_free: "CHR '','' \<notin> set (show_sembuf s)"
  using show_int_chars [of "CHR '',''"] sign_flags_not_digit(4) by (auto simp: show_sembuf_def)

lemma parseOps_loop_show:
  "\<lbrakk>ss \<noteq> []; \<forall>s\<in>set ss. wf_sembuf s; n + length ss \<le> MAX_SEMOPS\<rbrakk> \<Longrightarrow>
   parseOps_loop n (show_ops ss) = Inr ss"
proof (induction ss arbitrary: n rule: show_ops.induct)
  case (2 s)
  then show ?case
    using parse_op_show [of s "[]"] by (subst parseOps_loop.simps) (simp add: strchr_miss sembuf_comma_free)
next
  case (3 s t ss)
  then show ?case
    using parse_op_show [of s "CHR '','' # show_ops (t # ss)"]
    by (subst parseOps_loop.simps) (simp add: strchr_hit sembuf_comma_free)
qed simp

lemma parse_op_wf: "parse_op r = Inr s \<Longrightarrow> sem_num s < 65536 \<and> - 32768 \<le> sem_op s \<and> sem_op s < 32768"
  using to_signed_range [of 16]
  by (auto simp: parse_op_def Let_def to_unsigned_def nat_less_iff split: if_splits prod.splits)

lemma parseOps_loop_wf:
  "parseOps_loop n r = Inr ss \<Longrightarrow>
   ss \<noteq> [] \<and> n + length ss \<le> MAX_SEMOPS \<and>
   (\<forall>s\<in>set ss. sem_num s < 65536 \<and> - 32768 \<le> sem_op s \<and> sem_op s < 32768)"
proof (induction n r arbitrary: ss rule: parseOps_loop.induct)
  case (1 n r)
  have n: "\<not> MAX_SEMOPS \<le> n"
    using "1.prems" by (subst (asm) parseOps_loop.simps) (auto split: if_splits)
  then obtain s where s: "parse_op r = Inr s"
    using "1.prems" by (subst (asm) parseOps_loop.simps) (auto split: sum.splits)
  show ?case
  proof (cases "strchr r CHR '',''")
    case None
    then have "ss = [s]" using "1.prems" n s by (subst (asm) parseOps_loop.simps) simp
    then show ?thesis using n parse_op_wf [OF s] by simp
  next
    case (Some x)
    then obtain a rest where x: "strchr r CHR '','' = Some (a, rest)" by (cases x) auto
    then obtain ss' where "parseOps_loop (n + 1) rest = Inr ss'" "ss = s # ss'"
      using "1.prems" n s by (subst (asm) parseOps_loop.simps) (auto split: sum.splits)
    then show ?thesis using "1.IH" [OF n s x refl] parse_op_wf [OF s] by auto
  qed
qed

lemma parseOps_both:
  assumes "ss \<noteq> []" "\<forall>s\<in>set ss. wf_sembuf s" "length ss \<le> MAX_SEMOPS"
  shows "parseOps (show_ops ss) = Inr ss \<and>
    (parseOps arg = Inr rs \<longrightarrow> rs \<noteq> [] \<and> length rs \<le> MAX_SEMOPS \<and>
       (\<forall>s\<in>set rs. sem_num s < 65536 \<and> - 32768 \<le> sem_op s \<and> sem_op s < 32768))"
  using parseOps_loop_show [OF assms(1,2), of 0] parseOps_loop_wf [of 0 arg rs] assms(3)
  by (simp add: parseOps_def)

text \<open>
  C24: \<open>reserveSem\<close>, retrying on \<open>EINTR\<close>, returns 0 as soon as the semaphore is at least 1,
  whatever signals arrive, having taken exactly 1 from it, and sleeps forever only when that never
  happens; without retrying it reports the first signal that finds it asleep and has changed
  nothing. \<open>releaseSem\<close> adds exactly 1. So after \<open>initSemAvailable\<close> one reservation succeeds at
  once and a second one only after another process has added to the semaphore.
  \<open>waitForEventFlag\<close> returns 0 as soon as the flag is set (the semaphore is 0), whatever
  signals arrive, and changes no value; it sleeps forever only when the flag is never set. After
  \<open>setEventFlag\<close> it returns at once and \<open>getFlagState\<close> reports the flag as set; after
  \<open>clearEventFlag\<close> the flag is reported as not set and the wait does not return on its own.
  \<open>parseOps\<close> of svsem_op reads back the text of every nonempty list of at most 1000 operations whose
  numbers fit their types; and whatever text it accepts, it never stores more operations than
  the array holds, and each one is in the range of its type.
\<close>

theorem semaphore_operations:
  assumes "sem_valid semId n (sets k)" "ss \<noteq> []" "\<forall>s\<in>set ss. wf_sembuf s" "length ss \<le> MAX_SEMOPS"
  shows "(parseOps (show_ops ss) = Inr ss \<and>
    (parseOps arg = Inr rs \<longrightarrow> rs \<noteq> [] \<and> length rs \<le> MAX_SEMOPS \<and>
       (\<forall>s\<in>set rs. sem_num s < 65536 \<and> - 32768 \<le> sem_op s \<and> sem_op s < 32768))) \<and>
    (reserveSem u True semId n k =
      (case wait_until (\<lambda>ss. 1 \<le> sem_val semId n ss) (sets k) (script k) of
         None \<Rightarrow> None
       | Some (ss, hs) \<Rightarrow> Some (Inr (), \<lparr>sets = sem_upd semId n (sem_val semId n ss - 1) ss, script = hs\<rparr>)) \<and>
    (sem_val semId n (sets k) < 1 \<and> script k = Signal # hs \<longrightarrow>
      reserveSem u False semId n k = Some (Inl EINTR, k\<lparr>script := hs\<rparr>)) \<and>
    (sem_val semId n (sets k) < SEMVMX \<longrightarrow>
      releaseSem u semId n k = Some (Inr (), k\<lparr>sets := sem_upd semId n (sem_val semId n (sets k) + 1) (sets k)\<rparr>)) \<and>
    (\<exists>k1 k2. initSemAvailable semId n k = (Inr (), k1) \<and> reserveSem u True semId n k1 = Some (Inr (), k2) \<and>
      sem_val semId n (sets k2) = 0 \<and> (script k = [] \<longrightarrow> reserveSem u True semId n k2 = None))) \<and>
    (waitForEventFlag semId n k =
      (case wait_until (\<lambda>ss. sem_val semId n ss = 0) (sets k) (script k) of
         None \<Rightarrow> None | Some (ss, hs) \<Rightarrow> Some (Inr (), \<lparr>sets = sem_upd semId n 0 ss, script = hs\<rparr>)) \<and>
    (\<exists>k'. setEventFlag semId n k = (Inr (), k') \<and> getFlagState semId n k' = Inr True \<and>
      waitForEventFlag semId n k' = Some (Inr (), k')) \<and>
    (\<exists>k'. clearEventFlag semId n k = (Inr (), k') \<and> getFlagState semId n k' = Inr False \<and>
      (script k = [] \<longrightarrow> waitForEventFlag semId n k' = None)))"
  using binary_semaphores_and_flags [OF assms(1)] parseOps_both [OF assms(2-4)] by blast

theorem semaphore_operations_witness:
  "parseOps (show_ops [\<lparr>sem_num = 0, sem_op = 1, sem_nowait = False, sem_undo = False\<rparr>,
      \<lparr>sem_num = 1, sem_op = - 2, sem_nowait = True, sem_undo = True\<rparr>]) =
    Inr [\<lparr>sem_num = 0, sem_op = 1, sem_nowait = False, sem_undo = False\<rparr>,
      \<lparr>sem_num = 1, sem_op = - 2, sem_nowait = True, sem_undo = True\<rparr>] \<and>
   reserveSem False True 7 0 \<lparr>sets = [7 \<mapsto> [0]], script = [Signal, Add 7 0 1, Signal]\<rparr> =
     Some (Inr (), \<lparr>sets = [7 \<mapsto> [0]], script = [Signal]\<rparr>) \<and>
   waitForEventFlag 7 0 \<lparr>sets = [7 \<mapsto> [1]], script = [Signal, Add 7 0 (- 1)]\<rparr> =
     Some (Inr (), \<lparr>sets = [7 \<mapsto> [0]], script = []\<rparr>)"
proof -
  let ?ops = "[\<lparr>sem_num = 0, sem_op = 1, sem_nowait = False, sem_undo = False\<rparr>,
      \<lparr>sem_num = 1, sem_op = - 2, sem_nowait = True, sem_undo = True\<rparr>]"
  have "sem_valid 7 0 [7 \<mapsto> [0]]" "sem_valid 7 0 [7 \<mapsto> [1]]" "\<forall>s\<in>set ?ops. wf_sembuf s"
    by (simp_all add: sem_valid_def wf_sembuf_def)
  with semaphore_operations [of 7 0 "\<lparr>sets = [7 \<mapsto> [0]], script = [Signal, Add 7 0 1, Signal]\<rparr>" ?ops "[]" "[]" False "[]",
      THEN conjunct1, THEN conjunct1]
    semaphore_operations [of 7 0 "\<lparr>sets = [7 \<mapsto> [0]], script = [Signal, Add 7 0 1, Signal]\<rparr>" ?ops "[]" "[]" False "[]",
      THEN conjunct2, THEN conjunct1, THEN conjunct1]
    semaphore_operations [of 7 0 "\<lparr>sets = [7 \<mapsto> [1]], script = [Signal, Add 7 0 (- 1)]\<rparr>" ?ops "[]" "[]" False "[]",
      THEN conjunct2, THEN conjunct2, THEN conjunct1]
  show ?thesis by (simp add: wait_until.simps sem_val_def other_adds_def sem_upd_def)
qed

end
