(* ===== verification/SeqNum.thy ===== *)
theory SeqNum
  imports NumArgs
begin

text \<open>
  The sequence-number service over FIFOs, \<open>pipes/fifo_seqnum_server.c\<close> and
  \<open>pipes/fifo_seqnum_client.c\<close>: each request asks for a number of consecutive integers, and the
  server replies with the first one.
\<close>

record request =
  req_pid :: int
  seqLen :: int

record response =
  seqNum :: int

section \<open>The server\<close>

text \<open>
  What one turn of the server's loop meets: a read that does not deliver a whole request, or a
  request whose client FIFO cannot be opened, or cannot be written to, or is served; the flag
  says whether closing the FIFO succeeds.
\<close>

datatype turn =
    Bad_read
  | No_fifo request
  | Write_fails request bool
  | Served request bool

text \<open>
  The FIFO's name is made with \<open>snprintf\<close>, in \<open>CLIENT_FIFO_NAME_LEN\<close> bytes: the size of the
  template with its null byte, plus 20.
\<close>

definition CLIENT_FIFO_NAME_LEN :: nat where
  "CLIENT_FIFO_NAME_LEN = length ''/tmp/seqnum_cl.%ld'' + 1 + 20"

definition client_fifo :: "int \<Rightarrow> string" where
  "client_fifo pid = snprintf CLIENT_FIFO_NAME_LEN (''/tmp/seqnum_cl.'' @ show_int pid)"

datatype server_out = Diag string | Reply string response

definition server_turn :: "turn \<Rightarrow> int \<Rightarrow> int \<times> server_out list" where
  "server_turn t n =
     (case t of
        Bad_read \<Rightarrow> (n, [Diag (''Error reading request; discarding'' @ [LF])])
      | No_fifo req \<Rightarrow> (n, [Diag (''open '' @ client_fifo (req_pid req))])
      | Write_fails req closed \<Rightarrow>
          (to_signed 32 (n + seqLen req),
           Diag (''Error writing to FIFO '' @ client_fifo (req_pid req) @ [LF]) #
             (if closed then [] else [Diag ''close'']))
      | Served req closed \<Rightarrow>
          (to_signed 32 (n + seqLen req),
           Reply (client_fifo (req_pid req)) \<lparr>seqNum = n\<rparr> # (if closed then [] else [Diag ''close''])))"

text \<open>The loop never ends; this is its output for any finite number of turns.\<close>

fun server_loop :: "turn list \<Rightarrow> int \<Rightarrow> int \<times> server_out list" where
  "server_loop [] n = (n, [])"
| "server_loop (t # ts) n =
     (case server_turn t n of (n', o1) \<Rightarrow>
        (case server_loop ts n' of (n'', o2) \<Rightarrow> (n'', o1 @ o2)))"

text \<open>Before the loop: the FIFO is made (it may exist) and opened twice, and \<open>SIGPIPE\<close> ignored.\<close>

record server_setup =
  mkfifo_r :: "unit result"
  open_rd_r :: "unit result"
  open_wr_r :: "unit result"
  signal_r :: "unit result"

definition seqnum_server_main :: "server_setup \<Rightarrow> turn list \<Rightarrow> failure option \<times> int \<times> server_out list" where
  "seqnum_server_main st ts =
     (case (case mkfifo_r st of Inl e \<Rightarrow> if e \<noteq> EEXIST then Some e else None | Inr _ \<Rightarrow> None) of
        Some e \<Rightarrow> (Some (ErrExit ''mkfifo %s'' e), 0, [])
      | None \<Rightarrow>
          (case open_rd_r st of
             Inl e \<Rightarrow> (Some (ErrExit ''open %s'' e), 0, [])
           | Inr _ \<Rightarrow>
               (case open_wr_r st of
                  Inl e \<Rightarrow> (Some (ErrExit ''open %s'' e), 0, [])
                | Inr _ \<Rightarrow>
                    (case signal_r st of
                       Inl e \<Rightarrow> (Some (ErrExit ''signal'' e), 0, [])
                     | Inr _ \<Rightarrow> (None, server_loop ts 0)))))"

section \<open>The client\<close>

text \<open>The results of the client's system calls, in order.\<close>

record client_env =
  c_pid :: int
  c_mkfifo :: "unit result"
  c_atexit :: bool
  c_open_sv :: "unit result"
  c_write :: bool
  c_open_cl :: "unit result"
  c_read :: "response option"

definition client_request :: "client_env \<Rightarrow> string list \<Rightarrow> failure + request" where
  "client_request env argv =
     (case (if 1 < length argv then getInt (Some (argv ! 1)) GN_GT_0 (Some ''seq-len'') else Inr 1) of
        Inl (GnFail t) \<Rightarrow> Inl (GnFailure t)
      | Inr n \<Rightarrow> Inr \<lparr>req_pid = c_pid env, seqLen = n\<rparr>)"

definition seqnum_client_main :: "client_env \<Rightarrow> string list \<Rightarrow> request option \<times> (failure + string)" where
  "seqnum_client_main env argv =
     (if 1 < length argv \<and> argv ! 1 = ''--help'' then (None, Inl (UsageErr ''%s [seq-len...]''))
      else if (case c_mkfifo env of Inl e \<Rightarrow> e \<noteq> EEXIST | Inr _ \<Rightarrow> False)
        then (None, Inl (ErrExit ''mkfifo %s'' (case c_mkfifo env of Inl e \<Rightarrow> e | Inr _ \<Rightarrow> EIO)))
      else if \<not> c_atexit env then (None, Inl (ErrExit ''atexit'' ENOMEM))
      else
        (case client_request env argv of
           Inl f \<Rightarrow> (None, Inl f)
         | Inr req \<Rightarrow>
             (case c_open_sv env of
                Inl e \<Rightarrow> (None, Inl (ErrExit ''open %s'' e))
              | Inr _ \<Rightarrow>
                  if \<not> c_write env then (None, Inl (Fatal ''Can't write to server''))
                  else
                    (Some req,
                     (case c_open_cl env of
                        Inl e \<Rightarrow> Inl (ErrExit ''open %s'' e)
                      | Inr _ \<Rightarrow>
                          (case c_read env of
                             None \<Rightarrow> Inl (Fatal ''Can't read response from server'')
                           | Some resp \<Rightarrow> Inr (show_int (seqNum resp) @ [LF])))))))"

section \<open>Disjoint sequences\<close>

fun turn_len :: "turn \<Rightarrow> int" where
  "turn_len Bad_read = 0" | "turn_len (No_fifo r) = 0"
| "turn_len (Write_fails r c) = seqLen r" | "turn_len (Served r c) = seqLen r"

text \<open>The sequences handed out: the first number and the length, in the order of service.\<close>

fun grants :: "turn list \<Rightarrow> int \<Rightarrow> (int \<times> int) list" where
  "grants [] n = []"
| "grants (t # ts) n =
     (case t of Served r c \<Rightarrow> [(n, seqLen r)] | _ \<Rightarrow> []) @ grants ts (fst (server_turn t n))"

definition fifo_replies :: "server_out list \<Rightarrow> int list" where
  "fifo_replies os = concat (map (\<lambda>x. case x of Reply f r \<Rightarrow> [seqNum r] | Diag s \<Rightarrow> []) os)"

lemma server_loop_Cons:
  "snd (server_loop (t # ts) n) = snd (server_turn t n) @ snd (server_loop ts (fst (server_turn t n)))"
  by (simp add: case_prod_beta)

lemma fifo_replies_append: "fifo_replies (a @ b) = fifo_replies a @ fifo_replies b"
  by (simp add: fifo_replies_def)

lemma fifo_replies_turn:
  "fifo_replies (snd (server_turn t n)) = (case t of Served r c \<Rightarrow> [n] | _ \<Rightarrow> [])"
  by (cases t) (auto simp: server_turn_def fifo_replies_def)

lemma fifo_replies_grants: "fifo_replies (snd (server_loop ts n)) = map fst (grants ts n)"
proof (induction ts arbitrary: n)
  case Nil
  then show ?case by (simp add: fifo_replies_def)
next
  case (Cons t ts)
  then show ?case
    by (cases t) (simp_all add: server_loop_Cons fifo_replies_append fifo_replies_turn del: server_loop.simps)
qed

lemma server_turn_fst:
  "0 \<le> n \<Longrightarrow> n + turn_len t \<le> INT_MAX \<Longrightarrow> 0 \<le> turn_len t \<Longrightarrow> fst (server_turn t n) = n + turn_len t"
  by (cases t) (auto simp: server_turn_def)

lemma grants_ordered:
  assumes "\<forall>t\<in>set ts. 0 \<le> turn_len t" "0 \<le> n" "n + sum_list (map turn_len ts) \<le> INT_MAX"
  shows "sorted_wrt (\<lambda>(a, l) (b, m). a + l \<le> b) (grants ts n) \<and>
    (\<forall>(a, l)\<in>set (grants ts n). n \<le> a \<and> a + l \<le> n + sum_list (map turn_len ts))"
  using assms
proof (induction ts arbitrary: n)
  case (Cons t ts)
  have nn: "0 \<le> sum_list (map turn_len ts)" using Cons.prems(1) by (intro sum_list_nonneg) auto
  have "n + turn_len t \<le> INT_MAX" using Cons.prems(3) nn by simp
  then have f: "fst (server_turn t n) = n + turn_len t" using Cons.prems by (intro server_turn_fst) auto
  have ih: "sorted_wrt (\<lambda>(a, l) (b, m). a + l \<le> b) (grants ts (n + turn_len t)) \<and>
      (\<forall>(a, l)\<in>set (grants ts (n + turn_len t)).
         n + turn_len t \<le> a \<and> a + l \<le> n + turn_len t + sum_list (map turn_len ts))"
    using Cons.prems by (intro Cons.IH) auto
  show ?case
  proof (cases t)
    case (Served r c)
    have "0 \<le> seqLen r" using Cons.prems(1) Served by simp
    then show ?thesis using ih f nn Served by fastforce
  next
    case (Write_fails r c)
    have "0 \<le> seqLen r" using Cons.prems(1) Write_fails by simp
    then show ?thesis using ih f Write_fails by fastforce
  qed (use ih f in auto)
qed simp

lemma seqnums_disjoint:
  assumes "\<forall>t\<in>set ts. 0 \<le> turn_len t" "sum_list (map turn_len ts) \<le> INT_MAX"
    and "mkfifo_r st = Inr () \<or> mkfifo_r st = Inl EEXIST"
    and "open_rd_r st = Inr ()" "open_wr_r st = Inr ()" "signal_r st = Inr ()"
  shows "(\<exists>n os. seqnum_server_main st ts = (None, n, os) \<and> fifo_replies os = map fst (grants ts 0) \<and>
      sorted_wrt (\<lambda>(a, l) (b, m). a + l \<le> b) (grants ts 0) \<and>
      (\<forall>(a, l)\<in>set (grants ts 0). 0 \<le> a \<and> a + l \<le> INT_MAX)) \<and>
    (seqnum_client_main env argv = (Some req, res) \<longrightarrow> 0 < seqLen req)"
proof (intro conjI impI)
  obtain n os where l: "server_loop ts 0 = (n, os)" by fastforce
  have "seqnum_server_main st ts = (None, n, os)"
    using assms(3-6) l by (auto simp: seqnum_server_main_def)
  moreover have "fifo_replies os = map fst (grants ts 0)" using fifo_replies_grants [of ts 0] l by simp
  moreover have "sorted_wrt (\<lambda>(a, l) (b, m). a + l \<le> b) (grants ts 0) \<and>
      (\<forall>(a, l)\<in>set (grants ts 0). 0 \<le> a \<and> a + l \<le> INT_MAX)"
    using grants_ordered [OF assms(1), of 0] assms(2) by force
  ultimately show "\<exists>n os. seqnum_server_main st ts = (None, n, os) \<and> fifo_replies os = map fst (grants ts 0) \<and>
      sorted_wrt (\<lambda>(a, l) (b, m). a + l \<le> b) (grants ts 0) \<and>
      (\<forall>(a, l)\<in>set (grants ts 0). 0 \<le> a \<and> a + l \<le> INT_MAX)" by blast
next
  assume "seqnum_client_main env argv = (Some req, res)"
  then have "client_request env argv = Inr req"
    by (auto simp: seqnum_client_main_def split: if_splits sum.splits)
  moreover have "getInt (Some a) GN_GT_0 nm = Inr v \<Longrightarrow> 0 < v" for a nm v
    using getNum_range [of "''getInt''" "Some a" GN_GT_0 nm v]
    by (auto simp: getInt_def split: sum.splits if_splits)
  ultimately show "0 < seqLen req"
    by (auto simp: client_request_def split: if_splits sum.splits gn_exit.splits)
qed

end
