(* ===== verification/Sockets.thy ===== *)
theory Sockets
  imports CString
begin

text \<open>
  The socket functions of the library: \<open>lib/inet_sockets.c\<close> and \<open>lib/unix_sockets.c\<close>. The state is
  the table of open descriptors, each with what it refers to, and \<open>errno\<close>. What the kernel and the
  resolver answer is given: every entry of the list of addresses carries the results of the calls
  that are made for it.
\<close>

section \<open>Descriptors\<close>

record descs =
  fds :: "int \<rightharpoonup> string"
  errno_v :: "errno option"

text \<open>\<open>close\<close> may change \<open>errno\<close>: \<open>ce\<close> is the error that it leaves, if any.\<close>

definition close_fd :: "int \<Rightarrow> errno option \<Rightarrow> descs \<Rightarrow> descs" where
  "close_fd fd ce s = s\<lparr>fds := (fds s)(fd := None), errno_v := (if ce = None then errno_v s else ce)\<rparr>"

definition open_fd :: "int \<Rightarrow> string \<Rightarrow> descs \<Rightarrow> descs" where
  "open_fd fd what s = s\<lparr>fds := (fds s)(fd \<mapsto> what)\<rparr>"

definition failed :: "errno \<Rightarrow> descs \<Rightarrow> descs" where
  "failed e s = s\<lparr>errno_v := Some e\<rparr>"

text \<open>\<open>savedErrno = errno; close(fd); errno = savedErrno\<close>\<close>

definition close_saving :: "int \<Rightarrow> errno option \<Rightarrow> descs \<Rightarrow> descs" where
  "close_saving fd ce s = (close_fd fd ce s)\<lparr>errno_v := errno_v s\<rparr>"

lemma close_open [simp]: "fds s fd = None \<Longrightarrow> fds (close_fd fd ce (open_fd fd w s)) = fds s"
  by (auto simp: close_fd_def open_fd_def)

lemma desc_simps [simp]:
  "fds (failed e s) = fds s" "fds (open_fd fd w s) = (fds s)(fd \<mapsto> w)" "fds (close_fd fd ce s) = (fds s)(fd := None)"
  "fds (close_saving fd ce s) = (fds s)(fd := None)" "errno_v (failed e s) = Some e"
  "errno_v (open_fd fd w s) = errno_v s" "errno_v (close_saving fd ce s) = errno_v s"
  by (simp_all add: failed_def open_fd_def close_fd_def close_saving_def)

section \<open>Internet sockets\<close>

record addrinfo =
  ai_socket :: "int result"
  ai_connect :: "errno option"
  ai_setsockopt :: "errno option"
  ai_bind :: "errno option"
  ai_close :: "errno option"
  ai_addrlen :: nat

fun connect_loop :: "addrinfo list \<Rightarrow> descs \<Rightarrow> int option \<times> descs" where
  "connect_loop [] s = (None, s)"
| "connect_loop (rp # rps) s =
     (case ai_socket rp of
        Inl e \<Rightarrow> connect_loop rps (failed e s)
      | Inr sfd \<Rightarrow>
          (let s1 = open_fd sfd ''socket'' s
           in case ai_connect rp of
                None \<Rightarrow> (Some sfd, s1)
              | Some e \<Rightarrow> connect_loop rps (close_fd sfd (ai_close rp) (failed e s1))))"

text \<open>\<open>gai\<close>: the list that \<open>getaddrinfo\<close> gives, \<open>None\<close> when it fails.\<close>

definition inetConnect :: "addrinfo list option \<Rightarrow> descs \<Rightarrow> int \<times> descs" where
  "inetConnect gai s =
     (case gai of
        None \<Rightarrow> (- 1, failed ENOSYS s)
      | Some result \<Rightarrow>
          (case connect_loop result s of (None, s') \<Rightarrow> (- 1, s') | (Some sfd, s') \<Rightarrow> (sfd, s')))"

text \<open>The loop of \<open>inetPassiveSocket\<close>: it may return from the function (\<open>Inl\<close>).\<close>

fun bind_loop :: "bool \<Rightarrow> addrinfo list \<Rightarrow> descs \<Rightarrow> descs + ((int \<times> addrinfo) option \<times> descs)" where
  "bind_loop doListen [] s = Inr (None, s)"
| "bind_loop doListen (rp # rps) s =
     (case ai_socket rp of
        Inl e \<Rightarrow> bind_loop doListen rps (failed e s)
      | Inr sfd \<Rightarrow>
          (let s1 = open_fd sfd ''socket'' s
           in case (if doListen then ai_setsockopt rp else None) of
                Some e \<Rightarrow> Inl (close_fd sfd (ai_close rp) (failed e s1))
              | None \<Rightarrow>
                  (case ai_bind rp of
                     None \<Rightarrow> Inr (Some (sfd, rp), s1)
                   | Some e \<Rightarrow> bind_loop doListen rps (close_fd sfd (ai_close rp) (failed e s1)))))"

text \<open>The result: the descriptor or -1, and the value stored through \<open>addrlen\<close>.\<close>

definition inetPassiveSocket ::
    "addrinfo list option \<Rightarrow> bool \<Rightarrow> bool \<Rightarrow> errno option \<Rightarrow> descs \<Rightarrow> int \<times> nat option \<times> descs" where
  "inetPassiveSocket gai addrlen doListen listenErr s =
     (case gai of
        None \<Rightarrow> (- 1, None, s)
      | Some result \<Rightarrow>
          (case bind_loop doListen result s of
             Inl s' \<Rightarrow> (- 1, None, s')
           | Inr (None, s') \<Rightarrow> (- 1, None, s')
           | Inr (Some (sfd, rp), s') \<Rightarrow>
               (case (if doListen then listenErr else None) of
                  Some e \<Rightarrow> (- 1, None, failed e s')
                | None \<Rightarrow> (sfd, if addrlen then Some (ai_addrlen rp) else None, s'))))"

definition inetListen :: "addrinfo list option \<Rightarrow> bool \<Rightarrow> errno option \<Rightarrow> descs \<Rightarrow> int \<times> nat option \<times> descs" where
  "inetListen gai addrlen listenErr s = inetPassiveSocket gai addrlen True listenErr s"

definition inetBind :: "addrinfo list option \<Rightarrow> bool \<Rightarrow> descs \<Rightarrow> int \<times> nat option \<times> descs" where
  "inetBind gai addrlen s = inetPassiveSocket gai addrlen False None s"

text \<open>\<open>snprintf\<close> keeps all but the last byte of the buffer for the text.\<close>

definition inetAddressStr :: "(string \<times> string) option \<Rightarrow> nat \<Rightarrow> string" where
  "inetAddressStr name addrStrLen =
     take (addrStrLen - 1)
       (case name of
          Some (host, service) \<Rightarrow> ''('' @ host @ '', '' @ service @ '')''
        | None \<Rightarrow> ''(?UNKNOWN?)'')"

section \<open>Unix domain sockets\<close>

abbreviation (input) SUN_PATH :: nat where "SUN_PATH \<equiv> 108"

text \<open>The address as the bytes of \<open>sun_path\<close>, cleared before the path is copied.\<close>

definition unixBuildAddress :: "string option \<Rightarrow> bool \<Rightarrow> (int \<times> string option \<times> errno option)" where
  "unixBuildAddress path addrNull =
     (if addrNull \<or> path = None \<or> SUN_PATH - 1 \<le> length (the path) then (- 1, None, Some EINVAL)
      else if length (the path) < SUN_PATH
        then (0, Some (take (SUN_PATH - 1) (the path) @ replicate (SUN_PATH - length (the path)) NUL), None)
      else (- 1, Some (replicate SUN_PATH NUL), Some ENAMETOOLONG))"

definition unixConnect :: "string option \<Rightarrow> int result \<Rightarrow> errno option \<Rightarrow> errno option \<Rightarrow> descs \<Rightarrow> int \<times> descs" where
  "unixConnect path sock conn ce s =
     (case unixBuildAddress path False of (r, _, e) \<Rightarrow>
        if r = - 1 then (- 1, s\<lparr>errno_v := e\<rparr>)
        else
          (case sock of
             Inl e' \<Rightarrow> (- 1, failed e' s)
           | Inr sd \<Rightarrow>
               (let s1 = open_fd sd ''socket'' s
                in case conn of
                     Some e' \<Rightarrow> (- 1, close_saving sd ce (failed e' s1))
                   | None \<Rightarrow> (sd, s1))))"

definition unixPassiveSocket ::
    "string option \<Rightarrow> int result \<Rightarrow> errno option \<Rightarrow> bool \<Rightarrow> errno option \<Rightarrow> errno option \<Rightarrow> descs \<Rightarrow> int \<times> descs" where
  "unixPassiveSocket path sock bindErr doListen listenErr ce s =
     (case unixBuildAddress path False of (r, _, e) \<Rightarrow>
        if r = - 1 then (- 1, s\<lparr>errno_v := e\<rparr>)
        else
          (case sock of
             Inl e' \<Rightarrow> (- 1, failed e' s)
           | Inr sd \<Rightarrow>
               (let s1 = open_fd sd ''socket'' s
                in case bindErr of
                     Some e' \<Rightarrow> (- 1, close_saving sd ce (failed e' s1))
                   | None \<Rightarrow>
                       (case (if doListen then listenErr else None) of
                          Some e' \<Rightarrow> (- 1, close_saving sd ce (failed e' s1))
                        | None \<Rightarrow> (sd, s1)))))"

definition unixListen :: "string option \<Rightarrow> int result \<Rightarrow> errno option \<Rightarrow> errno option \<Rightarrow> errno option \<Rightarrow> descs \<Rightarrow> int \<times> descs" where
  "unixListen path sock bindErr listenErr ce s = unixPassiveSocket path sock bindErr True listenErr ce s"

definition unixBind :: "string option \<Rightarrow> int result \<Rightarrow> errno option \<Rightarrow> errno option \<Rightarrow> descs \<Rightarrow> int \<times> descs" where
  "unixBind path sock bindErr ce s = unixPassiveSocket path sock bindErr False None ce s"

section \<open>Properties\<close>

text \<open>\<open>socket\<close> gives descriptors that are not in use.\<close>

definition fresh_sockets :: "addrinfo list \<Rightarrow> descs \<Rightarrow> bool" where
  "fresh_sockets rps s \<longleftrightarrow> (\<forall>rp\<in>set rps. \<forall>fd. ai_socket rp = Inr fd \<longrightarrow> 0 \<le> fd \<and> fds s fd = None)"

lemma fresh_sockets_fds: "fds s' = fds s \<Longrightarrow> fresh_sockets rps s' = fresh_sockets rps s"
  by (simp add: fresh_sockets_def)

definition usable :: "addrinfo \<Rightarrow> bool" where
  "usable rp \<longleftrightarrow> (\<exists>fd. ai_socket rp = Inr fd) \<and> ai_connect rp = None"

lemma connect_loop_ok:
  "fresh_sockets rps s \<Longrightarrow> connect_loop rps s = (r, s') \<Longrightarrow>
   (case find usable rps of
      None \<Rightarrow> r = None \<and> fds s' = fds s
    | Some rp \<Rightarrow> \<exists>fd. ai_socket rp = Inr fd \<and> r = Some fd \<and> 0 \<le> fd \<and> fds s' = (fds s)(fd \<mapsto> ''socket''))"
proof (induction rps s rule: connect_loop.induct)
  case (2 rp rps s)
  show ?case
  proof (cases "ai_socket rp")
    case (Inl e)
    have k: "fds (failed e s) = fds s" by simp
    have "fresh_sockets rps (failed e s)"
      using "2.prems"(1) fresh_sockets_fds [OF k] by (simp add: fresh_sockets_def)
    from "2.IH"(1) [OF Inl this] show ?thesis
      using "2.prems"(2) Inl unfolding k by (simp add: usable_def)
  next
    case (Inr fd)
    then have f: "0 \<le> fd" "fds s fd = None" using "2.prems"(1) by (auto simp: fresh_sockets_def)
    show ?thesis
    proof (cases "ai_connect rp")
      case None
      then show ?thesis using Inr "2.prems" f by (auto simp: usable_def)
    next
      case (Some e)
      let ?s = "close_fd fd (ai_close rp) (failed e (open_fd fd ''socket'' s))"
      have k: "fds ?s = fds s" using f(2) by auto
      have "fresh_sockets rps ?s"
        using "2.prems"(1) fresh_sockets_fds [OF k] by (simp add: fresh_sockets_def)
      from "2.IH"(2) [OF Inr refl Some this] show ?thesis
        using "2.prems"(2) Inr Some unfolding k by (simp add: usable_def)
    qed
  qed
qed simp

text \<open>The address at which the loop of \<open>inetPassiveSocket\<close> stops.\<close>

definition decides :: "bool \<Rightarrow> addrinfo \<Rightarrow> bool" where
  "decides doListen rp \<longleftrightarrow>
     (\<exists>fd. ai_socket rp = Inr fd) \<and> (doListen \<and> ai_setsockopt rp \<noteq> None \<or> ai_bind rp = None)"

lemma bind_loop_ok:
  "fresh_sockets rps s \<Longrightarrow>
   (case find (decides doListen) rps of
      None \<Rightarrow> \<exists>s'. bind_loop doListen rps s = Inr (None, s') \<and> fds s' = fds s
    | Some rp \<Rightarrow>
        if doListen \<and> ai_setsockopt rp \<noteq> None then \<exists>s'. bind_loop doListen rps s = Inl s' \<and> fds s' = fds s
        else \<exists>fd s'. ai_socket rp = Inr fd \<and> 0 \<le> fd \<and> bind_loop doListen rps s = Inr (Some (fd, rp), s') \<and>
               fds s' = (fds s)(fd \<mapsto> ''socket''))"
proof (induction doListen rps s rule: bind_loop.induct)
  case (2 doListen rp rps s)
  show ?case
  proof (cases "ai_socket rp")
    case (Inl e)
    have k: "fds (failed e s) = fds s" by simp
    have "fresh_sockets rps (failed e s)"
      using "2.prems" fresh_sockets_fds [OF k] by (simp add: fresh_sockets_def)
    note ih = "2.IH"(1) [OF Inl this]
    have "bind_loop doListen (rp # rps) s = bind_loop doListen rps (failed e s)"
      "find (decides doListen) (rp # rps) = find (decides doListen) rps" using Inl by (simp_all add: decides_def)
    with ih show ?thesis by (simp only: k)
  next
    case (Inr fd)
    then have f: "0 \<le> fd" "fds s fd = None" using "2.prems"(1) by (auto simp: fresh_sockets_def)
    show ?thesis
    proof (cases "decides doListen rp")
      case True
      then show ?thesis using Inr f by (auto simp: decides_def fun_upd_idem split: option.splits)
    next
      case False
      then obtain e where e: "ai_bind rp = Some e" "(if doListen then ai_setsockopt rp else None) = None"
        using Inr by (auto simp: decides_def)
      let ?s = "close_fd fd (ai_close rp) (failed e (open_fd fd ''socket'' s))"
      have k: "fds ?s = fds s" using f(2) by auto
      have "fresh_sockets rps ?s"
        using "2.prems"(1) fresh_sockets_fds [OF k] by (simp add: fresh_sockets_def)
      note ih = "2.IH"(2) [OF Inr refl e(2,1) this]
      have "bind_loop doListen (rp # rps) s = bind_loop doListen rps ?s"
        "find (decides doListen) (rp # rps) = find (decides doListen) rps" using False Inr e by (simp_all add: Let_def)
      with ih show ?thesis by (simp only: k)
    qed
  qed
qed simp

lemma sockets_no_leak:
  assumes "fresh_sockets rps s" "fds s sd = None" "0 \<le> sd"
  shows "(case find usable rps of
       None \<Rightarrow> fst (inetConnect (Some rps) s) = - 1 \<and> fds (snd (inetConnect (Some rps) s)) = fds s
     | Some rp \<Rightarrow> \<exists>fd. ai_socket rp = Inr fd \<and> fst (inetConnect (Some rps) s) = fd \<and> 0 \<le> fd \<and>
         fds (snd (inetConnect (Some rps) s)) = (fds s)(fd \<mapsto> ''socket'')) \<and>
   (fst (inetBind (Some rps) al s) = - 1 \<longrightarrow> fds (snd (snd (inetBind (Some rps) al s))) = fds s) \<and>
   (fst (inetListen (Some rps) al None s) = - 1 \<longrightarrow> fds (snd (snd (inetListen (Some rps) al None s))) = fds s) \<and>
   (find (decides True) rps = Some rp \<and> ai_setsockopt rp = None \<longrightarrow>
      (\<exists>fd. ai_socket rp = Inr fd \<and> fst (inetListen (Some rps) al None s) = fd \<and>
        fst (inetListen (Some rps) al (Some e) s) = - 1 \<and>
        fds (snd (snd (inetListen (Some rps) al (Some e) s))) = (fds s)(fd \<mapsto> ''socket''))) \<and>
   (fst (unixBuildAddress (Some path) False) = 0 \<longleftrightarrow> length path < 107) \<and>
   (length path < 107 \<longrightarrow> fst (snd (unixBuildAddress (Some path) False)) =
      Some (path @ replicate (108 - length path) NUL)) \<and>
   (fst (unixConnect (Some path) (Inr sd) conn ce s) = - 1 \<longrightarrow>
      fds (snd (unixConnect (Some path) (Inr sd) conn ce s)) = fds s \<and>
      errno_v (snd (unixConnect (Some path) (Inr sd) conn ce s)) = (if length path < 107 then conn else Some EINVAL)) \<and>
   (fst (unixListen (Some path) (Inr sd) be le ce s) = - 1 \<longrightarrow>
      fds (snd (unixListen (Some path) (Inr sd) be le ce s)) = fds s \<and>
      errno_v (snd (unixListen (Some path) (Inr sd) be le ce s)) =
        (if 107 \<le> length path then Some EINVAL else if be \<noteq> None then be else le))"
    (is "?conn \<and> ?bind \<and> ?listen \<and> ?leak \<and> ?rest")
proof -
  obtain r s' where c: "connect_loop rps s = (r, s')" by fastforce
  then have ?conn
    using connect_loop_ok [OF assms(1) c] by (auto simp: inetConnect_def split: option.splits)
  moreover have ?bind
    using bind_loop_ok [OF assms(1), of False]
    by (auto simp: inetBind_def inetPassiveSocket_def split: option.splits if_splits)
  moreover have ?listen
    using bind_loop_ok [OF assms(1), of True]
    by (auto simp: inetListen_def inetPassiveSocket_def split: option.splits if_splits)
  moreover have ?leak
    using bind_loop_ok [OF assms(1), of True] by (auto simp: inetListen_def inetPassiveSocket_def)
  moreover have ?rest
    using assms(2,3)
    by (auto simp: unixBuildAddress_def unixConnect_def unixListen_def unixPassiveSocket_def Let_def fun_upd_idem
        split: option.splits if_splits)
  ultimately show ?thesis by blast
qed

end
