(* ===== verification/NetSeq.thy ===== *)
theory NetSeq
  imports StreamIO Sockets NumArgs
begin

text \<open>
  The sequence-number service over Internet sockets, in both versions: \<open>sockets/is_seqnum_sv.c\<close> and
  \<open>is_seqnum_cl.c\<close>, which set up their sockets themselves, and \<open>is_seqnum_v2_sv.c\<close> and \<open>is_seqnum_v2_cl.c\<close>,
  which use the functions of Sockets. Both read lines with \<open>readLine\<close> of StreamIO from any descriptor that meets
  its interface.
\<close>

section \<open>The server\<close>

abbreviation (input) INT_LEN :: nat where "INT_LEN \<equiv> 30"
abbreviation (input) ADDRSTRLEN :: nat where "ADDRSTRLEN \<equiv> 1025 + 32 + 10"
abbreviation (input) IS_ADDR_STR_LEN :: nat where "IS_ADDR_STR_LEN \<equiv> 4096"

text \<open>
  What one turn of the loop meets: \<open>accept\<close> fails, or gives a connection, with the name of the peer, the
  descriptor to read from and the results of \<open>write\<close> and \<open>close\<close>.
\<close>

record 'k conn =
  cfd :: int
  peer :: "(string \<times> string) option"
  cin :: 'k
  cwrite :: "nat result"
  cclose :: "errno option"

datatype 'k visit = Accept_err errno | Conn "'k conn"

datatype net_out = Said string | Complained string | Replied "byte list"

definition c_string :: "byte list \<Rightarrow> string" where
  "c_string bs = takeWhile (\<lambda>c. c \<noteq> NUL) bs"

definition reply_text :: "32 word \<Rightarrow> string" where
  "reply_text seqNum = snprintf INT_LEN (show_int (sint seqNum) @ [LF])"

definition serve_conn ::
    "'k reader \<Rightarrow> nat \<Rightarrow> 'k visit \<Rightarrow> 32 word \<Rightarrow> descs \<Rightarrow> (32 word \<times> descs \<times> net_out list) option" where
  "serve_conn sys_read addrStrLen v seqNum s =
     (case v of
        Accept_err e \<Rightarrow> Some (seqNum, failed e s, [Complained ''accept''])
      | Conn c \<Rightarrow>
          (let s1 = open_fd (cfd c) ''connection'' s;
               hello = Said (''Connection from '' @ inetAddressStr (peer c) addrStrLen @ [LF]);
               s2 = close_fd (cfd c) (cclose c) s1
           in case readLine sys_read False INT_LEN (cin c) of
                None \<Rightarrow> None
              | Some (Inl e, _, _) \<Rightarrow> Some (seqNum, s2, [hello])
              | Some (Inr numRead, buf, _) \<Rightarrow>
                  if numRead = 0 then Some (seqNum, s2, [hello])
                  else
                    (let reqLen = atoi (c_string (case buf of None \<Rightarrow> [] | Some bs \<Rightarrow> bs));
                         text = reply_text seqNum
                     in if reqLen \<le> 0 then Some (seqNum, s2, [hello])
                        else Some (seqNum + word_of_int reqLen, s2,
                               hello #
                               (case cwrite c of
                                  Inl _ \<Rightarrow> [Complained ''Error on write'']
                                | Inr m \<Rightarrow> Replied (take m text) #
                                    (if m \<noteq> length text then [Complained ''Error on write''] else [])) @
                               (if cclose c \<noteq> None then [Complained ''close''] else [])))))"

text \<open>The loop never ends; this is what it does for any finite number of turns.\<close>

fun serve ::
    "'k reader \<Rightarrow> nat \<Rightarrow> 'k visit list \<Rightarrow> 32 word \<Rightarrow> descs \<Rightarrow> (32 word \<times> descs \<times> net_out list list) option" where
  "serve sys_read n [] seqNum s = Some (seqNum, s, [])"
| "serve sys_read n (v # vs) seqNum s =
     (case serve_conn sys_read n v seqNum s of
        None \<Rightarrow> None
      | Some (seqNum', s', o1) \<Rightarrow>
          (case serve sys_read n vs seqNum' s' of
             None \<Rightarrow> None
           | Some (seqNum'', s'', os) \<Rightarrow> Some (seqNum'', s'', o1 # os)))"

definition init_seq_num :: "string list \<Rightarrow> failure + 32 word" where
  "init_seq_num argv =
     (if 1 < length argv \<and> argv ! 1 = ''--help'' then Inl (UsageErr ''%s [init-seq-num]'')
      else if 1 < length argv
      then (case getInt (Some (argv ! 1)) 0 (Some ''init-seq-num'') of
              Inl (GnFail t) \<Rightarrow> Inl (GnFailure t) | Inr n \<Rightarrow> Inr (word_of_int n))
      else Inr 0)"

text \<open>The loop over the addresses in the first version: \<open>setsockopt\<close> must not fail.\<close>

fun sv_bind_loop :: "addrinfo list \<Rightarrow> descs \<Rightarrow> failure + (int option \<times> descs)" where
  "sv_bind_loop [] s = Inr (None, s)"
| "sv_bind_loop (rp # rps) s =
     (case ai_socket rp of
        Inl e \<Rightarrow> sv_bind_loop rps (failed e s)
      | Inr lfd \<Rightarrow>
          (let s1 = open_fd lfd ''socket'' s
           in case ai_setsockopt rp of
                Some e \<Rightarrow> Inl (ErrExit ''setsockopt'' e)
              | None \<Rightarrow>
                  (case ai_bind rp of
                     None \<Rightarrow> Inr (Some lfd, s1)
                   | Some e \<Rightarrow> sv_bind_loop rps (close_fd lfd (ai_close rp) (failed e s1)))))"

text \<open>
  \<open>main\<close> of both versions: a failure, or what the loop does (\<open>None\<close> when it hangs in a read). \<open>gai\<close> is the result of \<open>getaddrinfo\<close>.
\<close>

definition is_seqnum_sv_main ::
    "'k reader \<Rightarrow> errno option \<Rightarrow> (errno + addrinfo list) \<Rightarrow> errno option \<Rightarrow> string list \<Rightarrow> 'k visit list \<Rightarrow> descs \<Rightarrow>
       failure + (32 word \<times> descs \<times> net_out list list) option" where
  "is_seqnum_sv_main sys_read signalErr gai listenErr argv vs s =
     (case init_seq_num argv of
        Inl f \<Rightarrow> Inl f
      | Inr seqNum \<Rightarrow>
          (case signalErr of
             Some e \<Rightarrow> Inl (ErrExit ''signal'' e)
           | None \<Rightarrow>
               (case gai of
                  Inl e \<Rightarrow> Inl (ErrExit ''getaddrinfo'' e)
                | Inr result \<Rightarrow>
                    (case sv_bind_loop result s of
                       Inl f \<Rightarrow> Inl f
                     | Inr (None, s') \<Rightarrow> Inl (Fatal ''Could not bind socket to any address'')
                     | Inr (Some lfd, s') \<Rightarrow>
                         (case listenErr of
                            Some e \<Rightarrow> Inl (ErrExit ''listen'' e)
                          | None \<Rightarrow> Inr (serve sys_read ADDRSTRLEN vs seqNum s'))))))"

definition is_seqnum_v2_sv_main ::
    "'k reader \<Rightarrow> errno option \<Rightarrow> addrinfo list option \<Rightarrow> errno option \<Rightarrow> bool \<Rightarrow> string list \<Rightarrow> 'k visit list \<Rightarrow> descs \<Rightarrow>
       failure + (32 word \<times> descs \<times> net_out list list) option" where
  "is_seqnum_v2_sv_main sys_read signalErr gai listenErr mallocOk argv vs s =
     (case init_seq_num argv of
        Inl f \<Rightarrow> Inl f
      | Inr seqNum \<Rightarrow>
          (case signalErr of
             Some e \<Rightarrow> Inl (ErrExit ''signal'' e)
           | None \<Rightarrow>
               (case inetListen gai True listenErr s of (lfd, addrlen, s') \<Rightarrow>
                  if lfd = - 1 then Inl (Fatal ''inetListen() failed'')
                  else if \<not> mallocOk then Inl (ErrExit ''malloc'' ENOMEM)
                  else Inr (serve sys_read IS_ADDR_STR_LEN vs seqNum s'))))"

section \<open>The client\<close>

text \<open>
  The exchange with the server: what has been written to the connection, and a failure or what is printed.
  \<open>w1\<close> and \<open>w2\<close> are the results of the two calls of \<open>write\<close>.
\<close>

definition ask ::
    "'k reader \<Rightarrow> nat result \<Rightarrow> nat result \<Rightarrow> string \<Rightarrow> 'k \<Rightarrow> (byte list \<times> (failure + string)) option" where
  "ask sys_read w1 w2 reqLenStr k =
     (if w1 \<noteq> Inr (length reqLenStr)
      then Some (case w1 of Inl _ \<Rightarrow> [] | Inr m \<Rightarrow> take m reqLenStr, Inl (Fatal ''Partial/failed write (reqLenStr)''))
      else if w2 \<noteq> Inr 1 then Some (reqLenStr, Inl (Fatal ''Partial/failed write (newline)''))
      else
        (case readLine sys_read False INT_LEN k of
           None \<Rightarrow> None
         | Some (Inl e, _, _) \<Rightarrow> Some (reqLenStr @ [LF], Inl (ErrExit ''readLine'' e))
         | Some (Inr numRead, buf, _) \<Rightarrow>
             Some (reqLenStr @ [LF],
               if numRead = 0 then Inl (Fatal ''Unexpected EOF from server'')
               else Inr (''Sequence number: '' @ c_string (case buf of None \<Rightarrow> [] | Some bs \<Rightarrow> bs)))))"

definition req_len_arg :: "string list \<Rightarrow> string" where
  "req_len_arg argv = (if 2 < length argv then argv ! 2 else ''1'')"

definition is_seqnum_cl_main ::
    "'k reader \<Rightarrow> (errno + addrinfo list) \<Rightarrow> nat result \<Rightarrow> nat result \<Rightarrow> string list \<Rightarrow> 'k \<Rightarrow> descs \<Rightarrow>
       (byte list \<times> (failure + string)) option" where
  "is_seqnum_cl_main sys_read gai w1 w2 argv k s =
     (if length argv < 2 \<or> argv ! 1 = ''--help'' then Some ([], Inl (UsageErr ''%s server-host [sequence-len]''))
      else
        (case gai of
           Inl e \<Rightarrow> Some ([], Inl (ErrExit ''getaddrinfo'' e))
         | Inr result \<Rightarrow>
             (case connect_loop result s of
                (None, _) \<Rightarrow> Some ([], Inl (Fatal ''Could not connect socket to any address''))
              | (Some fd, _) \<Rightarrow> ask sys_read w1 w2 (req_len_arg argv) k)))"

definition is_seqnum_v2_cl_main ::
    "'k reader \<Rightarrow> addrinfo list option \<Rightarrow> nat result \<Rightarrow> nat result \<Rightarrow> string list \<Rightarrow> 'k \<Rightarrow> descs \<Rightarrow>
       (byte list \<times> (failure + string)) option" where
  "is_seqnum_v2_cl_main sys_read gai w1 w2 argv k s =
     (if length argv < 2 \<or> argv ! 1 = ''--help'' then Some ([], Inl (UsageErr ''%s server-host [sequence-len]''))
      else if fst (inetConnect gai s) = - 1 then Some ([], Inl (Fatal ''inetConnect() failed''))
      else ask sys_read w1 w2 (req_len_arg argv) k)"

section \<open>What the server grants\<close>

text \<open>How many numbers a visit is granted, from what the connection delivers.\<close>

definition asked :: "('k \<Rightarrow> byte list) \<Rightarrow> 'k visit \<Rightarrow> int" where
  "asked pending v =
     (case v of Accept_err _ \<Rightarrow> 0 | Conn c \<Rightarrow> max 0 (atoi (c_string (take (INT_LEN - 1) (first_line (pending (cin c)))))))"

definition start :: "('k \<Rightarrow> byte list) \<Rightarrow> 'k visit list \<Rightarrow> nat \<Rightarrow> int" where
  "start pending vs i = (\<Sum>v\<leftarrow>take i vs. asked pending v)"

lemma asked_nonneg [simp]: "0 \<le> asked pending v"
  by (simp add: asked_def split: visit.split)

lemma start_Suc: "i < length vs \<Longrightarrow> start pending vs (Suc i) = start pending vs i + asked pending (vs ! i)"
  by (simp add: start_def take_Suc_conv_app_nth)

lemma start_Cons [simp]: "start pending (v # vs) (Suc i) = asked pending v + start pending vs i" "start pending vs 0 = 0"
  by (simp_all add: start_def)

lemma start_mono: "i \<le> j \<Longrightarrow> j \<le> length vs \<Longrightarrow> start pending vs i \<le> start pending vs j"
proof (induction j)
  case (Suc j)
  then show ?case
    using start_Suc [of j vs pending] asked_nonneg [of pending "vs ! j"] by (cases "i = Suc j") (simp, linarith)
qed simp

text \<open>The answers that are written to the connection.\<close>

definition replies :: "net_out list \<Rightarrow> byte list list" where
  "replies os = List.map_filter (\<lambda>x. case x of Replied t \<Rightarrow> Some t | _ \<Rightarrow> None) os"

definition reply_to :: "('k \<Rightarrow> byte list) \<Rightarrow> 'k visit \<Rightarrow> 32 word \<Rightarrow> byte list list" where
  "reply_to pending v q =
     (case v of
        Accept_err _ \<Rightarrow> []
      | Conn c \<Rightarrow>
          (case cwrite c of
             Inl _ \<Rightarrow> []
           | Inr m \<Rightarrow> if 0 < asked pending v then [take m (show_int (sint q) @ [LF])] else []))"

lemma replies_simps [simp]:
  "replies [] = []" "replies (Replied t # os) = t # replies os" "replies (Said x # os) = replies os"
  "replies (Complained x # os) = replies os"
  by (simp_all add: replies_def map_filter_simps)

lemma show_int_sint_length: "length (show_int (sint (q :: 32 word))) \<le> 11"
proof -
  have "\<bar>sint q\<bar> \<le> 2 ^ 31" using sint_ge [of q] sint_lt [of q] by (simp add: abs_le_iff)
  then have "nat \<bar>sint q\<bar> < 10 ^ Suc 9" by simp
  from show_nat_length [OF this] show ?thesis by (auto simp: show_int_def abs_if split: if_splits)
qed

lemma reply_text: "reply_text q = show_int (sint q) @ [LF]"
  using show_int_sint_length [of q] by (simp add: reply_text_def snprintf_def)

definition good_visit :: "('k \<Rightarrow> byte list) \<Rightarrow> ('k \<Rightarrow> errno option) \<Rightarrow> descs \<Rightarrow> 'k visit \<Rightarrow> bool" where
  "good_visit pending fault s v =
     (case v of
        Accept_err _ \<Rightarrow> True
      | Conn c \<Rightarrow> (fault (cin c) = None \<or> LF \<in> set (pending (cin c))) \<and> fds s (cfd c) = None)"

context input_fd
begin

lemma serve_conn_result:
  assumes "good_visit pending fault s v"
  shows "\<exists>s' os. serve_conn sys_read n v q s = Some (q + word_of_int (asked pending v), s', os) \<and>
    fds s' = fds s \<and> replies os = reply_to pending v q"
proof (cases v)
  case (Accept_err e)
  then show ?thesis by (simp add: serve_conn_def asked_def reply_to_def)
next
  case (Conn c)
  then have g: "fault (cin c) = None \<or> LF \<in> set (pending (cin c))" "fds s (cfd c) = None"
    using assms by (simp_all add: good_visit_def)
  define kept where "kept = take 29 (first_line (pending (cin c)))"
  obtain k' where r: "readLine sys_read False INT_LEN (cin c) =
      Some (Inr (length kept), if kept = [] \<and> LF \<notin> set (pending (cin c)) then None else Some kept, k')"
    using readLine_total [OF _ g(1), of INT_LEN] unfolding kept_def by (auto simp: line_result_def line_string_def)
  have fds: "fds (close_fd (cfd c) ce (open_fd (cfd c) w s)) = fds s" for ce w using g(2) by auto
  have a: "asked pending v = max 0 (atoi (c_string kept))" by (simp add: Conn asked_def kept_def)
  show ?thesis
  proof (cases "kept = [] \<or> atoi (c_string kept) \<le> 0")
    case True
    moreover have "atoi (c_string []) = 0" by (simp add: c_string_def atoi_def strtol_def strtol_sign_def)
    ultimately have "asked pending v = 0" using a by auto
    moreover have "\<exists>os. serve_conn sys_read n v q s = Some (q, close_fd (cfd c) (cclose c) (open_fd (cfd c) ''connection'' s), os) \<and>
        replies os = []"
      using True r by (auto simp: serve_conn_def Conn Let_def)
    ultimately show ?thesis using fds Conn by (auto simp: reply_to_def split: sum.split)
  next
    case False
    then have "0 < asked pending v" "asked pending v = atoi (c_string kept)" using a by auto
    then show ?thesis
      using False r fds Conn by (simp add: serve_conn_def Let_def reply_to_def reply_text split: sum.split)
  qed
qed

lemma serve_result:
  assumes "\<forall>v\<in>set vs. good_visit pending fault s v"
  shows "\<exists>s' os. serve sys_read n vs q s = Some (q + word_of_int (start pending vs (length vs)), s', os) \<and>
    fds s' = fds s \<and>
    map replies os = map (\<lambda>i. reply_to pending (vs ! i) (q + word_of_int (start pending vs i))) [0..<length vs]"
  using assms
proof (induction vs arbitrary: q s)
  case (Cons v vs)
  obtain s1 o1 where 1: "serve_conn sys_read n v q s = Some (q + word_of_int (asked pending v), s1, o1)"
    "fds s1 = fds s" "replies o1 = reply_to pending v q"
    using serve_conn_result Cons.prems by force
  have "\<forall>v\<in>set vs. good_visit pending fault s1 v"
    using Cons.prems 1(2) by (auto simp: good_visit_def split: visit.splits)
  from Cons.IH [OF this, of "q + word_of_int (asked pending v)"] show ?case
    by (auto simp: 1 upt_conv_Cons map_Suc_upt [symmetric] add.assoc simp del: upt_Suc)
qed simp

end

section \<open>Granted numbers\<close>

definition granted :: "('k \<Rightarrow> byte list) \<Rightarrow> 'k visit list \<Rightarrow> 32 word \<Rightarrow> nat \<Rightarrow> 32 word set" where
  "granted pending vs q i = (\<lambda>a. q + word_of_int a) ` {start pending vs i..<start pending vs i + asked pending (vs ! i)}"

lemma word_of_int_inj:
  assumes "word_of_int a = (word_of_int b :: 32 word)" "0 \<le> a" "a < 2 ^ 32" "0 \<le> b" "b < 2 ^ 32"
  shows "a = b"
proof -
  have "uint (word_of_int a :: 32 word) = uint (word_of_int b :: 32 word)" using assms(1) by simp
  then show ?thesis using assms(2-) by (simp add: unsigned_of_int take_bit_int_eq_self)
qed

lemma granted_disjoint:
  assumes "start pending vs (length vs) \<le> 2 ^ 32" "i < j" "j < length vs"
  shows "granted pending vs q i \<inter> granted pending vs q j = {}" "card (granted pending vs q i) = nat (asked pending (vs ! i))"
proof -
  have b: "0 \<le> a \<and> a < 2 ^ 32" if "start pending vs k \<le> a" "a < start pending vs k + asked pending (vs ! k)" "k < length vs" for a k
    using that start_mono [of 0 k vs pending] start_mono [of "Suc k" "length vs" vs pending] start_Suc [of k vs pending] assms(1)
    by auto
  have "start pending vs i + asked pending (vs ! i) \<le> start pending vs j"
    using start_mono [of "Suc i" j vs pending] start_Suc [of i vs pending] assms(2,3) by simp
  then show "granted pending vs q i \<inter> granted pending vs q j = {}"
    using assms(2,3) b [of i] b [of j] word_of_int_inj by (fastforce simp: granted_def)
  have "inj_on (\<lambda>a. q + word_of_int a) {start pending vs i..<start pending vs i + asked pending (vs ! i)}"
    using assms(2,3) b [of i] word_of_int_inj by (auto simp: inj_on_def)
  then show "card (granted pending vs q i) = nat (asked pending (vs ! i))"
    by (simp add: granted_def card_image)
qed

section \<open>Client and server together\<close>

lemma show_int_text:
  shows "c_string (show_int z @ [LF]) = show_int z @ [LF]" "LF \<notin> set (show_int z)"
    "first_line (show_int z @ [LF]) = show_int z @ [LF]"
proof -
  have d: "c \<noteq> NUL \<and> c \<noteq> LF" if "c \<in> set (show_int z)" for c
    using show_int_chars [OF that] by (auto simp: digit_val_def)
  then show "c_string (show_int z @ [LF]) = show_int z @ [LF]" by (auto simp: c_string_def takeWhile_append2)
  show lf: "LF \<notin> set (show_int z)" using d by blast
  have "first_line (xs @ [LF]) = xs @ [LF]" if "LF \<notin> set xs" for xs using that by (induction xs) auto
  with lf show "first_line (show_int z @ [LF]) = show_int z @ [LF]" by blast
qed

lemma int_text_fits:
  assumes "INT_MIN \<le> z" "z \<le> INT_MAX"
  shows "take 29 (show_int z @ [LF]) = show_int z @ [LF]" "atoi (show_int z @ [LF]) = z"
proof -
  have "sint (word_of_int z :: 32 word) = z" using assms by (intro signed_take_bit_int_eq_self [THEN trans [OF sint_sbintrunc']]) simp_all
  then show "take 29 (show_int z @ [LF]) = show_int z @ [LF]"
    using show_int_sint_length [of "word_of_int z"] by simp
  show "atoi (show_int z @ [LF]) = z"
    using assms strtol_show_int [of z "[LF]"] by (simp add: atoi_def digit_val_def)
qed

lemma sv_bind_loop_lib:
  "sv_bind_loop rps s = Inr (Some fd, s') \<Longrightarrow> \<exists>rp. bind_loop True rps s = Inr (Some (fd, rp), s')"
  by (induction rps s rule: sv_bind_loop.induct) (auto simp: Let_def split: sum.splits option.splits)

lemma sv_mains:
  assumes "init_seq_num argv = Inr q" "sv_bind_loop rps s0 = Inr (Some lfd, s)" "0 \<le> lfd"
  shows "is_seqnum_sv_main sys_read None (Inr rps) None argv vs s0 = Inr (serve sys_read ADDRSTRLEN vs q s)"
    and "is_seqnum_v2_sv_main sys_read None (Some rps) None True argv vs s0 = Inr (serve sys_read IS_ADDR_STR_LEN vs q s)"
  using assms sv_bind_loop_lib [OF assms(2)]
  by (auto simp: is_seqnum_sv_main_def is_seqnum_v2_sv_main_def inetListen_def inetPassiveSocket_def)

lemma cl_mains:
  assumes "connect_loop rps s = (Some fd, s')" "0 \<le> fd" "host \<noteq> ''--help''"
  shows "is_seqnum_cl_main sys_read (Inr rps) w1 w2 [prog, host, t] k s = ask sys_read w1 w2 t k"
    and "is_seqnum_v2_cl_main sys_read (Some rps) w1 w2 [prog, host, t] k s = ask sys_read w1 w2 t k"
  using assms by (simp_all add: is_seqnum_cl_main_def is_seqnum_v2_cl_main_def inetConnect_def req_len_arg_def)

lemma net_seqnums:
  assumes fd: "input_fd sys_read pending fault interrupts"
    and visits: "\<forall>v\<in>set vs. good_visit pending fault s v"
    and up: "init_seq_num argv = Inr q" "sv_bind_loop rps s0 = Inr (Some lfd, s)" "0 \<le> lfd"
  shows "(\<exists>s' os s'' os'.
      is_seqnum_sv_main sys_read None (Inr rps) None argv vs s0 =
        Inr (Some (q + word_of_int (start pending vs (length vs)), s', os)) \<and>
      is_seqnum_v2_sv_main sys_read None (Some rps) None True argv vs s0 =
        Inr (Some (q + word_of_int (start pending vs (length vs)), s'', os')) \<and>
      fds s' = fds s \<and> fds s'' = fds s \<and> map replies os' = map replies os \<and>
      map replies os = map (\<lambda>i. reply_to pending (vs ! i) (q + word_of_int (start pending vs i))) [0..<length vs]) \<and>
    (start pending vs (length vs) \<le> 2 ^ 32 \<and> i < j \<and> j < length vs \<longrightarrow>
      granted pending vs q i \<inter> granted pending vs q j = {} \<and> card (granted pending vs q i) = nat (asked pending (vs ! i))) \<and>
    (connect_loop crps cs = (Some sfd, cs') \<and> 0 \<le> sfd \<and> host \<noteq> ''--help'' \<and> 0 < z \<and> z \<le> INT_MAX \<and>
     pending k = show_int (sint (n :: 32 word)) @ [LF] \<longrightarrow>
      is_seqnum_cl_main sys_read (Inr crps) (Inr (length (show_int z))) (Inr 1) [prog, host, show_int z] k cs =
        Some (show_int z @ [LF], Inr (''Sequence number: '' @ show_int (sint n) @ [LF])) \<and>
      is_seqnum_v2_cl_main sys_read (Some crps) (Inr (length (show_int z))) (Inr 1) [prog, host, show_int z] k cs =
        Some (show_int z @ [LF], Inr (''Sequence number: '' @ show_int (sint n) @ [LF])) \<and>
      (\<forall>c. pending (cin c) = show_int z @ [LF] \<longrightarrow> asked pending (Conn c) = z))"
proof (intro conjI impI)
  note serve = input_fd.serve_result [OF fd visits]
  show "\<exists>s' os s'' os'.
      is_seqnum_sv_main sys_read None (Inr rps) None argv vs s0 =
        Inr (Some (q + word_of_int (start pending vs (length vs)), s', os)) \<and>
      is_seqnum_v2_sv_main sys_read None (Some rps) None True argv vs s0 =
        Inr (Some (q + word_of_int (start pending vs (length vs)), s'', os')) \<and>
      fds s' = fds s \<and> fds s'' = fds s \<and> map replies os' = map replies os \<and>
      map replies os = map (\<lambda>i. reply_to pending (vs ! i) (q + word_of_int (start pending vs i))) [0..<length vs]"
    using serve [of ADDRSTRLEN q] serve [of IS_ADDR_STR_LEN q] unfolding sv_mains [OF up] by auto
next
  assume "start pending vs (length vs) \<le> 2 ^ 32 \<and> i < j \<and> j < length vs"
  then show "granted pending vs q i \<inter> granted pending vs q j = {}" "card (granted pending vs q i) = nat (asked pending (vs ! i))"
    using granted_disjoint by blast+
next
  assume a: "connect_loop crps cs = (Some sfd, cs') \<and> 0 \<le> sfd \<and> host \<noteq> ''--help'' \<and> 0 < z \<and> z \<le> INT_MAX \<and>
     pending k = show_int (sint n) @ [LF]"
  have fits: "take 29 (show_int (sint n) @ [LF]) = show_int (sint n) @ [LF]"
    using show_int_sint_length [of n] by simp
  obtain k' where "readLine sys_read False INT_LEN k =
      Some (Inr (length (show_int (sint n) @ [LF])), Some (show_int (sint n) @ [LF]), k')"
    using input_fd.readLine_total [OF fd, of INT_LEN k] a
    by (auto simp: line_result_def line_string_def show_int_text fits simp del: take_append)
  then have "ask sys_read (Inr (length (show_int z))) (Inr 1) (show_int z) k =
      Some (show_int z @ [LF], Inr (''Sequence number: '' @ show_int (sint n) @ [LF]))"
    by (simp add: ask_def show_int_text)
  with a cl_mains [of crps cs sfd cs' host] show
    "is_seqnum_cl_main sys_read (Inr crps) (Inr (length (show_int z))) (Inr 1) [prog, host, show_int z] k cs =
        Some (show_int z @ [LF], Inr (''Sequence number: '' @ show_int (sint n) @ [LF]))"
    "is_seqnum_v2_cl_main sys_read (Some crps) (Inr (length (show_int z))) (Inr 1) [prog, host, show_int z] k cs =
        Some (show_int z @ [LF], Inr (''Sequence number: '' @ show_int (sint n) @ [LF]))" by metis+
  show "\<forall>c. pending (cin c) = show_int z @ [LF] \<longrightarrow> asked pending (Conn c) = z"
    using a int_text_fits [of z] by (simp add: asked_def show_int_text del: take_append)
qed

end
