(* ===== verification/SeqServices.thy ===== *)
theory SeqServices
  imports SeqNum NetSeq
begin

text \<open>
  The two services for sequence numbers together: over FIFOs (SeqNum) and over Internet sockets (NetSeq).
\<close>

text \<open>
  C15: both versions of the server go through any sequence of connections, whose streams end or hold a
  line, without leaking a descriptor, and answer each valid request with the number at which its
  sequence starts: the initial number plus all lengths granted before, modulo \<open>2 ^ 32\<close>. As long as no more than
  \<open>2 ^ 32\<close> numbers are granted the sequences are disjoint and as long as asked for. Both clients
  send a length that the server reads back, and print the server's answer. The server over FIFOs: for every sequence of requests that clients can send, as long
  as the total fits an \<open>int\<close>, the sequences that the server hands out follow each other without overlap in the order of
  service, starting at 0, whatever errors occur in between; and a client never sends a request
  for fewer than one number.
\<close>

theorem sequence_services:
  assumes fd: "input_fd sys_read pending fault interrupts"
    and visits: "\<forall>v\<in>set vs. good_visit pending fault s v"
    and up: "init_seq_num argv = Inr q" "sv_bind_loop rps s0 = Inr (Some lfd, s)" "0 \<le> lfd"
    and fifo: "\<forall>t\<in>set ts. 0 \<le> turn_len t" "sum_list (map turn_len ts) \<le> INT_MAX"
      "mkfifo_r st = Inr () \<or> mkfifo_r st = Inl EEXIST"
      "open_rd_r st = Inr ()" "open_wr_r st = Inr ()" "signal_r st = Inr ()"
  shows "((\<exists>s' os s'' os'.
      is_seqnum_sv_main sys_read None (Inr rps) None argv vs s0 =
        Inr (Some (q + word_of_int (start pending vs (length vs)), s', os)) \<and>
      is_seqnum_v2_sv_main sys_read None (Some rps) None True argv vs s0 =
        Inr (Some (q + word_of_int (start pending vs (length vs)), s'', os')) \<and>
      fds s' = fds s \<and> fds s'' = fds s \<and> map replies os' = map replies os \<and>
      map replies os = map (\<lambda>i. reply_to pending (vs ! i) (q + word_of_int (start pending vs i))) [0..<length vs]) \<and>
    (start pending vs (length vs) \<le> 2 ^ 32 \<and> i < j \<and> j < length vs \<longrightarrow>
      granted pending vs q i \<inter> granted pending vs q j = {} \<and> card (granted pending vs q i) = nat (asked pending (vs ! i))) \<and>
    (connect_loop crps cs = (Some sfd, cs') \<and> 0 \<le> sfd \<and> host \<noteq> ''--help'' \<and> 0 < z \<and> z \<le> INT_MAX \<and>
     pending k = show_int (sint (n :: 32 word)) @ [LF] \<longrightarrow>
      is_seqnum_cl_main sys_read (Inr crps) (Inr (length (show_int z))) (Inr 1) [prog, host, show_int z] k cs =
        Some (show_int z @ [LF], Inr (''Sequence number: '' @ show_int (sint n) @ [LF])) \<and>
      is_seqnum_v2_cl_main sys_read (Some crps) (Inr (length (show_int z))) (Inr 1) [prog, host, show_int z] k cs =
        Some (show_int z @ [LF], Inr (''Sequence number: '' @ show_int (sint n) @ [LF])) \<and>
      (\<forall>c. pending (cin c) = show_int z @ [LF] \<longrightarrow> asked pending (Conn c) = z))) \<and>
    (\<exists>n os. seqnum_server_main st ts = (None, n, os) \<and> fifo_replies os = map fst (grants ts 0) \<and>
      sorted_wrt (\<lambda>(a, l) (b, m). a + l \<le> b) (grants ts 0) \<and>
      (\<forall>(a, l)\<in>set (grants ts 0). 0 \<le> a \<and> a + l \<le> INT_MAX)) \<and>
    (seqnum_client_main env cargv = (Some req, res) \<longrightarrow> 0 < seqLen req)"
  using net_seqnums [OF fd visits up] seqnums_disjoint [OF fifo] by (rule conjI)

theorem sequence_services_witness:
  "(let conn = (\<lambda>t. Conn \<lparr>cfd = 4, peer = None, cin = \<lparr>evs = [Chunk t], src_fault = None\<rparr>, cwrite = Inr 2, cclose = None\<rparr>);
        rp = \<lparr>ai_socket = Inr 3, ai_connect = None, ai_setsockopt = None, ai_bind = None, ai_close = None, ai_addrlen = 16\<rparr>
    in \<exists>s os. is_seqnum_sv_main src_read None (Inr [rp]) None [''is_seqnum_sv'']
        [conn (''5'' @ [LF]), conn (''x'' @ [LF]), conn (''2'' @ [LF])] \<lparr>fds = Map.empty, errno_v = None\<rparr> = Inr (Some (7, s, os)) \<and>
      map replies os = [[''0'' @ [LF]], [], [''5'' @ [LF]]]) \<and>
   (\<exists>n os. seqnum_server_main \<lparr>mkfifo_r = Inl EEXIST, open_rd_r = Inr (), open_wr_r = Inr (), signal_r = Inr ()\<rparr>
      [Served \<lparr>req_pid = 1, seqLen = 3\<rparr> True, Bad_read, Served \<lparr>req_pid = 2, seqLen = 1\<rparr> False] = (None, n, os) \<and>
    fifo_replies os = [0, 3])"
proof -
  let ?conn = "\<lambda>t. Conn \<lparr>cfd = 4, peer = None, cin = \<lparr>evs = [Chunk t], src_fault = None\<rparr>, cwrite = Inr 2, cclose = None\<rparr>"
  let ?rp = "\<lparr>ai_socket = Inr 3, ai_connect = None, ai_setsockopt = None, ai_bind = None, ai_close = None, ai_addrlen = 16\<rparr>"
  let ?vs = "[?conn (''5'' @ [LF]), ?conn (''x'' @ [LF]), ?conn (''2'' @ [LF])]"
  let ?s0 = "\<lparr>fds = Map.empty, errno_v = None\<rparr>"
  let ?pend = "\<lambda>d. ev_bytes (evs d)"
  have up: "init_seq_num [''is_seqnum_sv''] = Inr 0" "sv_bind_loop [?rp] ?s0 = Inr (Some 3, open_fd 3 ''socket'' ?s0)" "0 \<le> (3 :: int)"
    by (simp_all add: init_seq_num_def)
  have vis: "\<forall>v\<in>set ?vs. good_visit ?pend src_ok_fault (open_fd 3 ''socket'' ?s0) v"
    by (simp add: good_visit_def src_ok_fault_def)
  have st7: "start ?pend ?vs (length ?vs) = 7" by code_simp
  have rep: "map (\<lambda>i. reply_to ?pend (?vs ! i) (0 + word_of_int (start ?pend ?vs i))) [0..<length ?vs] = [[''0'' @ [LF]], [], [''5'' @ [LF]]]"
    by code_simp
  let ?ts = "[Served \<lparr>req_pid = 1, seqLen = 3\<rparr> True, Bad_read, Served \<lparr>req_pid = 2, seqLen = 1\<rparr> False]"
  let ?st = "\<lparr>mkfifo_r = Inl EEXIST, open_rd_r = Inr (), open_wr_r = Inr (), signal_r = Inr ()\<rparr>"
  have ts: "\<forall>t\<in>set ?ts. 0 \<le> turn_len t" "sum_list (map turn_len ?ts) \<le> INT_MAX"
    "mkfifo_r ?st = Inr () \<or> mkfifo_r ?st = Inl EEXIST" "open_rd_r ?st = Inr ()" "open_wr_r ?st = Inr ()" "signal_r ?st = Inr ()"
    by simp_all
  note both = sequence_services [OF script_in.input_fd_axioms vis up ts]
  have grants: "map fst (grants ?ts 0) = [0, 3]" by code_simp
  obtain s os where net: "is_seqnum_sv_main src_read None (Inr [?rp]) None [''is_seqnum_sv''] ?vs ?s0 =
      Inr (Some (0 + word_of_int (start ?pend ?vs (length ?vs)), s, os))"
    "map replies os = map (\<lambda>i. reply_to ?pend (?vs ! i) (0 + word_of_int (start ?pend ?vs i))) [0..<length ?vs]"
    using both [THEN conjunct1, THEN conjunct1] by blast
  obtain n os' where fifo: "seqnum_server_main ?st ?ts = (None, n, os')" "fifo_replies os' = map fst (grants ?ts 0)"
    using both [THEN conjunct2, THEN conjunct1] by blast
  have "(0 :: 32 word) + word_of_int 7 = 7" by simp
  with net fifo st7 rep grants show ?thesis unfolding Let_def by metis
qed

end
