(* ===== verification/ShellCall.thy ===== *)
theory ShellCall
  imports CString
begin

text \<open>
  \<open>procexec/system.c\<close>, an implementation of \<open>system\<close>, and \<open>lib/print_wait_status.c\<close>, which prints
  the status it returns.
\<close>

section \<open>system\<close>

datatype disposition = SIG_DFL | SIG_IGN | Handler nat

abbreviation (input) SIGINT :: nat where "SIGINT \<equiv> 2"
abbreviation (input) SIGQUIT :: nat where "SIGQUIT \<equiv> 3"
abbreviation (input) SIGCHLD :: nat where "SIGCHLD \<equiv> 17"

text \<open>The signal attributes of a process: the blocked signals and the dispositions.\<close>

record sigs =
  sigmask :: "nat set"
  handlers :: "nat \<Rightarrow> disposition"

definition sigaction :: "nat \<Rightarrow> disposition \<Rightarrow> sigs \<Rightarrow> sigs" where
  "sigaction sig d s = s\<lparr>handlers := (handlers s)(sig := d)\<rparr>"

text \<open>
  What the kernel does for one call: whether \<open>fork\<close> works, whether the child can execute the shell,
  and the results of the calls of \<open>waitpid\<close> in order, the last of which is repeated.
\<close>

record world =
  fork_ok :: bool
  exec_ok :: bool
  waits :: "(errno + int) list"

fun wait_loop :: "(errno + int) list \<Rightarrow> int option" where
  "wait_loop [] = None"
| "wait_loop (Inr status # ws) = Some status"
| "wait_loop (Inl e # ws) = (if e \<noteq> EINTR then Some (- 1) else wait_loop ws)"

definition child_sigs :: "sigs \<Rightarrow> sigs \<Rightarrow> sigs" where
  "child_sigs orig s =
     (let s1 = (if handlers orig SIGINT \<noteq> SIG_IGN then sigaction SIGINT SIG_DFL s else s);
          s2 = (if handlers orig SIGQUIT \<noteq> SIG_IGN then sigaction SIGQUIT SIG_DFL s1 else s1)
      in s2\<lparr>sigmask := sigmask orig\<rparr>)"

text \<open>
  The result: the return value (\<open>None\<close>: \<open>waitpid\<close> is interrupted forever), the signal attributes
  afterwards, and what the child ran with which attributes.
\<close>

definition system_cmd :: "world \<Rightarrow> string \<Rightarrow> sigs \<Rightarrow> int option \<times> sigs \<times> (string list option \<times> sigs) option" where
  "system_cmd w command s =
     (let origMask = sigmask s;
          s1 = s\<lparr>sigmask := sigmask s \<union> {SIGCHLD}\<rparr>;
          saOrigInt = handlers s1 SIGINT;
          s2 = sigaction SIGINT SIG_IGN s1;
          saOrigQuit = handlers s2 SIGQUIT;
          s3 = sigaction SIGQUIT SIG_IGN s2;
          (status, child) =
            (if \<not> fork_ok w then (Some (- 1), None)
             else (wait_loop (waits w),
                   Some (if exec_ok w then Some [''sh'', ''-c'', command] else None,
                         child_sigs (s1\<lparr>handlers := (handlers s1)(SIGINT := saOrigInt, SIGQUIT := saOrigQuit),
                                        sigmask := origMask\<rparr>) s3)));
          s4 = s3\<lparr>sigmask := origMask\<rparr>;
          s5 = sigaction SIGINT saOrigInt s4;
          s6 = sigaction SIGQUIT saOrigQuit s5
      in (status, s6, child))"

definition system :: "world \<Rightarrow> string option \<Rightarrow> sigs \<Rightarrow> int option \<times> sigs \<times> (string list option \<times> sigs) option" where
  "system w command s =
     (case command of
        None \<Rightarrow>
          (case system_cmd w '':'' s of
             (r, s', c) \<Rightarrow> (map_option (\<lambda>v. if v = 0 then 1 else 0) r, s', c))
      | Some cmd \<Rightarrow> system_cmd w cmd s)"

lemma wait_loop_eintr:
  "wait_loop (replicate n (Inl EINTR) @ r # ws) =
     (case r of Inr st \<Rightarrow> Some st | Inl e \<Rightarrow> if e \<noteq> EINTR then Some (- 1) else wait_loop ws)"
  by (induction n) (auto split: sum.splits)

lemma system_correct:
  "fst (snd (system w command s)) = s \<and>
   (waits w = replicate n (Inl EINTR) @ r # ws \<and> r \<noteq> Inl EINTR \<longrightarrow>
      fst (system w (Some cmd) s) =
        Some (if fork_ok w then (case r of Inr st \<Rightarrow> st | Inl e \<Rightarrow> - 1) else - 1)) \<and>
   (fork_ok w \<and> exec_ok w \<longrightarrow>
      (\<exists>cs. snd (snd (system w (Some cmd) s)) = Some (Some [''sh'', ''-c'', cmd], cs) \<and>
        sigmask cs = sigmask s \<and>
        (\<forall>sig. handlers cs sig =
           (if sig \<in> {SIGINT, SIGQUIT} \<and> handlers s sig \<noteq> SIG_IGN then SIG_DFL else handlers s sig))))"
proof (intro conjI impI)
  have r: "fst (snd (system_cmd w cmd s)) = s" for cmd
    by (cases s) (auto simp: system_cmd_def Let_def sigaction_def fun_eq_iff)
  show "fst (snd (system w command s)) = s"
    using r [of "'':''"] r [of "the command"]
    by (cases command) (auto simp: system_def split: prod.splits)
  show "fst (system w (Some cmd) s) = Some (if fork_ok w then (case r of Inr st \<Rightarrow> st | Inl e \<Rightarrow> - 1) else - 1)"
    if "waits w = replicate n (Inl EINTR) @ r # ws \<and> r \<noteq> Inl EINTR"
    using that wait_loop_eintr [of n r ws]
    by (auto simp: system_def system_cmd_def Let_def split: sum.splits)
  show "\<exists>cs. snd (snd (system w (Some cmd) s)) = Some (Some [''sh'', ''-c'', cmd], cs) \<and>
      sigmask cs = sigmask s \<and>
      (\<forall>sig. handlers cs sig =
         (if sig \<in> {SIGINT, SIGQUIT} \<and> handlers s sig \<noteq> SIG_IGN then SIG_DFL else handlers s sig))"
    if "fork_ok w \<and> exec_ok w"
    using that by (auto simp: system_def system_cmd_def Let_def child_sigs_def sigaction_def)
qed

section \<open>printWaitStatus\<close>

text \<open>The macros of \<open><sys/wait.h>\<close> on a status word.\<close>

definition WIFEXITED :: "nat \<Rightarrow> bool" where "WIFEXITED st \<longleftrightarrow> st mod 128 = 0"
definition WEXITSTATUS :: "nat \<Rightarrow> nat" where "WEXITSTATUS st = st div 256 mod 256"
definition WIFSIGNALED :: "nat \<Rightarrow> bool" where "WIFSIGNALED st \<longleftrightarrow> st mod 128 \<noteq> 0 \<and> st mod 128 \<noteq> 127"
definition WTERMSIG :: "nat \<Rightarrow> nat" where "WTERMSIG st = st mod 128"
definition WCOREDUMP :: "nat \<Rightarrow> bool" where "WCOREDUMP st \<longleftrightarrow> st div 128 mod 2 = 1"
definition WIFSTOPPED :: "nat \<Rightarrow> bool" where "WIFSTOPPED st \<longleftrightarrow> st mod 256 = 127"
definition WSTOPSIG :: "nat \<Rightarrow> nat" where "WSTOPSIG st = st div 256 mod 256"
definition WIFCONTINUED :: "nat \<Rightarrow> bool" where "WIFCONTINUED st \<longleftrightarrow> st = 65535"

fun show_hex :: "nat \<Rightarrow> string" where
  "show_hex n =
     (let d = (\<lambda>x. char_of (if x < 10 then 48 + x else 87 + x))
      in if n < 16 then [d n] else show_hex (n div 16) @ [d (n mod 16)])"

declare show_hex.simps [simp del]

definition printWaitStatus :: "(nat \<Rightarrow> string) \<Rightarrow> string option \<Rightarrow> nat \<Rightarrow> string" where
  "printWaitStatus strsignal msg status =
     (case msg of None \<Rightarrow> [] | Some m \<Rightarrow> m) @
     (if WIFEXITED status then ''child exited, status='' @ show_nat (WEXITSTATUS status) @ [LF]
      else if WIFSIGNALED status then
        ''child killed by signal '' @ show_nat (WTERMSIG status) @ '' ('' @ strsignal (WTERMSIG status) @ '')'' @
        (if WCOREDUMP status then '' (core dumped)'' else []) @ [LF]
      else if WIFSTOPPED status then
        ''child stopped by signal '' @ show_nat (WSTOPSIG status) @ '' ('' @ strsignal (WSTOPSIG status) @ '')'' @ [LF]
      else if WIFCONTINUED status then ''child continued'' @ [LF]
      else ''what happened to this child? (status='' @ show_hex status @ '')'' @ [LF])"

text \<open>How the kernel encodes what has happened to a child.\<close>

datatype fate = Exit_with nat | Killed_by nat bool | Stopped_by nat | Continued

fun encode_fate :: "fate \<Rightarrow> nat" where
  "encode_fate (Exit_with c) = 256 * c"
| "encode_fate (Killed_by sig core) = sig + (if core then 128 else 0)"
| "encode_fate (Stopped_by sig) = 256 * sig + 127"
| "encode_fate Continued = 65535"

fun possible :: "fate \<Rightarrow> bool" where
  "possible (Exit_with c) = (c < 256)"
| "possible (Killed_by sig core) = (0 < sig \<and> sig < 127)"
| "possible (Stopped_by sig) = (0 < sig \<and> sig < 127)"
| "possible Continued = True"

lemma printWaitStatus_decodes:
  assumes "possible f"
  shows "printWaitStatus strsignal msg (encode_fate f) =
    (case msg of None \<Rightarrow> [] | Some m \<Rightarrow> m) @
    (case f of
       Exit_with c \<Rightarrow> ''child exited, status='' @ show_nat c @ [LF]
     | Killed_by sig core \<Rightarrow>
         ''child killed by signal '' @ show_nat sig @ '' ('' @ strsignal sig @ '')'' @
         (if core then '' (core dumped)'' else []) @ [LF]
     | Stopped_by sig \<Rightarrow> ''child stopped by signal '' @ show_nat sig @ '' ('' @ strsignal sig @ '')'' @ [LF]
     | Continued \<Rightarrow> ''child continued'' @ [LF])"
proof (cases f)
  case (Exit_with c)
  have "256 * c mod 128 = 0" by presburger
  moreover have "256 * c div 256 mod 256 = c" using assms Exit_with by simp
  ultimately show ?thesis by (simp add: printWaitStatus_def WIFEXITED_def WEXITSTATUS_def Exit_with)
next
  case (Killed_by sig core)
  have "(sig + 128) mod 128 = sig" "(sig + 128) div 128 = 1" using assms Killed_by by auto
  then show ?thesis using assms Killed_by
    by (auto simp: printWaitStatus_def WIFEXITED_def WIFSIGNALED_def WTERMSIG_def WCOREDUMP_def)
next
  case (Stopped_by sig)
  have "(256 * sig + 127) mod 128 = 127" by presburger
  moreover have "(256 * sig + 127) mod 256 = 127" by simp
  moreover have "(256 * sig + 127) div 256 mod 256 = sig" using assms Stopped_by by simp
  ultimately show ?thesis
    by (simp add: printWaitStatus_def WIFEXITED_def WIFSIGNALED_def WIFSTOPPED_def WSTOPSIG_def Stopped_by)
next
  case Continued
  then show ?thesis
    by (simp add: printWaitStatus_def WIFEXITED_def WIFSIGNALED_def WIFSTOPPED_def WIFCONTINUED_def)
qed

text \<open>
  C32: \<open>system\<close> leaves the signal mask and all dispositions of its caller as they were, whether
  \<open>fork\<close>, the shell or \<open>waitpid\<close> fail or not; it returns the status of the child however many signal
  handlers interrupt the wait, and \<open>- 1\<close> when \<open>fork\<close> or the wait fails; and the command runs with
  the caller's mask, and with \<open>SIGINT\<close> and \<open>SIGQUIT\<close> ignored exactly if the caller ignored them.
  \<open>printWaitStatus\<close> reports every possible fate of a child as what it was, with its exit code
  or signal, and the core dump if there was one: the tests are made in an order in which no
  encoding is taken for another.
\<close>

theorem system_and_wait_status:
  assumes "possible f"
  shows "(fst (snd (system w command s)) = s \<and>
    (waits w = replicate n (Inl EINTR) @ r # ws \<and> r \<noteq> Inl EINTR \<longrightarrow>
      fst (system w (Some cmd) s) =
        Some (if fork_ok w then (case r of Inr st \<Rightarrow> st | Inl e \<Rightarrow> - 1) else - 1)) \<and>
    (fork_ok w \<and> exec_ok w \<longrightarrow>
      (\<exists>cs. snd (snd (system w (Some cmd) s)) = Some (Some [''sh'', ''-c'', cmd], cs) \<and>
        sigmask cs = sigmask s \<and>
        (\<forall>sig. handlers cs sig =
           (if sig \<in> {SIGINT, SIGQUIT} \<and> handlers s sig \<noteq> SIG_IGN then SIG_DFL else handlers s sig))))) \<and>
    printWaitStatus strsignal msg (encode_fate f) =
      (case msg of None \<Rightarrow> [] | Some m \<Rightarrow> m) @
      (case f of
         Exit_with c \<Rightarrow> ''child exited, status='' @ show_nat c @ [LF]
       | Killed_by sig core \<Rightarrow>
           ''child killed by signal '' @ show_nat sig @ '' ('' @ strsignal sig @ '')'' @
           (if core then '' (core dumped)'' else []) @ [LF]
       | Stopped_by sig \<Rightarrow> ''child stopped by signal '' @ show_nat sig @ '' ('' @ strsignal sig @ '')'' @ [LF]
       | Continued \<Rightarrow> ''child continued'' @ [LF])"
  using system_correct printWaitStatus_decodes [OF assms] by (rule conjI)

theorem system_and_wait_status_witness:
  "fst (system \<lparr>fork_ok = True, exec_ok = True, waits = [Inl EINTR, Inr 256]\<rparr> (Some ''false'')
     \<lparr>sigmask = {}, handlers = (\<lambda>_. SIG_DFL)\<rparr>) = Some 256 \<and>
   printWaitStatus (\<lambda>_. ''Killed'') None (encode_fate (Killed_by 9 False)) =
     ''child killed by signal '' @ show_nat 9 @ '' (Killed)'' @ [LF]"
  using system_and_wait_status [of "Killed_by 9 False" "\<lparr>fork_ok = True, exec_ok = True, waits = [Inl EINTR, Inr 256]\<rparr>"
      "Some ''false''" "\<lparr>sigmask = {}, handlers = (\<lambda>_. SIG_DFL)\<rparr>" 1 "Inr 256" "[]" "''false''" "\<lambda>_. ''Killed''" None]
  by simp

end
