(* ===== verification/Steps.thy ===== *)
theory Steps
  imports Prelude
begin

text \<open>
  Programs of several processes as step relations: what an invariant, a measure and a progress
  property of single steps give for whole runs. The components that model processes side by side
  interpret these locales.
\<close>

locale invariant_system =
  fixes step :: "'s \<Rightarrow> 's \<Rightarrow> bool" and I :: "'s \<Rightarrow> bool"
  assumes preserved: "I s \<Longrightarrow> step s t \<Longrightarrow> I t"
begin

lemma reachable_inv: "step\<^sup>*\<^sup>* s t \<Longrightarrow> I s \<Longrightarrow> I t"
  by (induction rule: rtranclp_induct) (auto intro: preserved)

end

text \<open>Every step uses up some of the work that is left.\<close>

locale ending_system = invariant_system +
  fixes work :: "'s \<Rightarrow> nat"
  assumes less_work: "I s \<Longrightarrow> step s t \<Longrightarrow> work t < work s"
begin

lemma run_ends: "I s \<Longrightarrow> \<exists>t. step\<^sup>*\<^sup>* s t \<and> (\<nexists>u. step t u)"
proof (induction "work s" arbitrary: s rule: less_induct)
  case less
  show ?case
  proof (cases "\<exists>u. step s u")
    case True
    then obtain u where u: "step s u" by blast
    obtain t where "step\<^sup>*\<^sup>* u t" "\<nexists>v. step t v"
      using less.hyps [OF less_work preserved] less.prems u by blast
    then show ?thesis using u by (blast intro: converse_rtranclp_into_rtranclp)
  qed blast
qed

lemma run_bounded:
  assumes "I (run 0)" "\<forall>i<n. step (run i) (run (Suc i))"
  shows "work (run n) + n \<le> work (run 0)"
proof -
  have "I (run k) \<and> work (run k) + k \<le> work (run 0)" if "k \<le> n" for k
    using that
  proof (induction k)
    case (Suc k)
    then have "I (run k)" "step (run k) (run (Suc k))" "work (run k) + k \<le> work (run 0)"
      using assms(2) by auto
    then show ?case using preserved less_work by fastforce
  qed (simp add: assms(1))
  then show ?thesis by blast
qed

end

text \<open>A state that is not final has a successor, so that every run comes to a final state.\<close>

locale live_system = ending_system +
  fixes final :: "'s \<Rightarrow> bool"
  assumes progress: "I s \<Longrightarrow> \<not> final s \<Longrightarrow> \<exists>t. step s t"
begin

lemma stuck_final: "step\<^sup>*\<^sup>* s t \<Longrightarrow> I s \<Longrightarrow> \<nexists>u. step t u \<Longrightarrow> final t"
  using reachable_inv progress by blast

lemma reaches_final: "I s \<Longrightarrow> \<exists>t. step\<^sup>*\<^sup>* s t \<and> final t"
  using run_ends stuck_final by blast

end

text \<open>A sum over processes of which one has changed.\<close>

lemma sum_upd:
  fixes h :: "nat \<Rightarrow> int"
  assumes "i < n" "\<forall>k<n. k \<noteq> i \<longrightarrow> h' k = h k"
  shows "(\<Sum>k<n. h' k) = (\<Sum>k<n. h k) - h i + h' i"
proof -
  have "(\<Sum>k<n. h' k) = h' i + (\<Sum>k\<in>{..<n} - {i}. h' k)" "(\<Sum>k<n. h k) = h i + (\<Sum>k\<in>{..<n} - {i}. h k)"
    using assms(1) by (simp_all add: sum.remove)
  moreover have "(\<Sum>k\<in>{..<n} - {i}. h' k) = (\<Sum>k\<in>{..<n} - {i}. h k)"
    by (rule sum.cong) (use assms(2) in auto)
  ultimately show ?thesis by simp
qed

end
