(* ===== verification/ShmXfer.thy ===== *)
theory ShmXfer
  imports Steps
begin

text \<open>
  \<open>svshm/svshm_xfr_writer.c\<close> and \<open>svshm/svshm_xfr_reader.c\<close>: two processes that pass blocks
  through shared memory, taking turns with two binary semaphores. Each process is a program
  counter over the calls of its \<open>main\<close>; a step is one call or test of one process. The writer
  creates and initialises the semaphores before the reader is started, as the program
  requires, so the initial state is the one after that. \<open>reserveSem\<close> retries on \<open>EINTR\<close>, so that
  it is a step exactly when the semaphore is positive.
\<close>

abbreviation (input) XFR_BUF_SIZE :: nat where "XFR_BUF_SIZE \<equiv> 1024"

datatype wpc = W_Reserve | W_Read | W_Release | W_Test | W_LastReserve | W_Cleanup | W_Exit | W_Failed
datatype rpc = R_Reserve | R_Test | R_Write | R_Release | R_Detach | R_LastRelease | R_Exit | R_Failed

record shmseg =
  cnt :: int
  sbuf :: "byte list"

record xfr =
  write_sem :: nat
  read_sem :: nat
  shm :: shmseg
  wp :: wpc
  wbytes :: int
  wxfrs :: int
  stdin :: "byte list"
  rp :: rpc
  rbytes :: int
  rxfrs :: int
  stdout :: "byte list"
  ipc_removed :: bool

definition xfr_init :: "byte list \<Rightarrow> xfr" where
  "xfr_init input = \<lparr>write_sem = 1, read_sem = 0, shm = \<lparr>cnt = 0, sbuf = replicate XFR_BUF_SIZE NUL\<rparr>,
     wp = W_Reserve, wbytes = 0, wxfrs = 0, stdin = input,
     rp = R_Reserve, rbytes = 0, rxfrs = 0, stdout = [], ipc_removed = False\<rparr>"

definition load :: "byte list \<Rightarrow> shmseg \<Rightarrow> shmseg" where
  "load bs m = m\<lparr>cnt := int (length bs), sbuf := bs @ drop (length bs) (sbuf m)\<rparr>"

definition shm_data :: "shmseg \<Rightarrow> byte list" where
  "shm_data m = take (nat (cnt m)) (sbuf m)"

text \<open>A \<open>read\<close> delivers some bytes, at most the buffer, and none only at the end of the input.\<close>

definition can_read :: "nat \<Rightarrow> byte list \<Rightarrow> bool" where
  "can_read n input \<longleftrightarrow> n \<le> XFR_BUF_SIZE \<and> n \<le> length input \<and> (n = 0 \<longleftrightarrow> input = [])"

inductive wstep :: "xfr \<Rightarrow> xfr \<Rightarrow> bool" where
  w_reserve: "\<lbrakk>wp s = W_Reserve; 0 < write_sem s\<rbrakk> \<Longrightarrow>
    wstep s (s\<lparr>write_sem := write_sem s - 1, wp := W_Read\<rparr>)"
| w_read: "\<lbrakk>wp s = W_Read; can_read n (stdin s)\<rbrakk> \<Longrightarrow>
    wstep s (s\<lparr>shm := load (take n (stdin s)) (shm s), stdin := drop n (stdin s), wp := W_Release\<rparr>)"
| w_read_error: "wp s = W_Read \<Longrightarrow> wstep s (s\<lparr>shm := (shm s)\<lparr>cnt := - 1\<rparr>, wp := W_Failed\<rparr>)"
| w_release: "wp s = W_Release \<Longrightarrow> wstep s (s\<lparr>read_sem := read_sem s + 1, wp := W_Test\<rparr>)"
| w_test_eof: "\<lbrakk>wp s = W_Test; cnt (shm s) = 0\<rbrakk> \<Longrightarrow> wstep s (s\<lparr>wp := W_LastReserve\<rparr>)"
| w_test: "\<lbrakk>wp s = W_Test; cnt (shm s) \<noteq> 0\<rbrakk> \<Longrightarrow>
    wstep s (s\<lparr>wxfrs := wxfrs s + 1, wbytes := to_signed 32 (wbytes s + cnt (shm s)), wp := W_Reserve\<rparr>)"
| w_last: "\<lbrakk>wp s = W_LastReserve; 0 < write_sem s\<rbrakk> \<Longrightarrow>
    wstep s (s\<lparr>write_sem := write_sem s - 1, wp := W_Cleanup\<rparr>)"
| w_cleanup: "wp s = W_Cleanup \<Longrightarrow> wstep s (s\<lparr>ipc_removed := True, wp := W_Exit\<rparr>)"

inductive rstep :: "xfr \<Rightarrow> xfr \<Rightarrow> bool" where
  r_reserve: "\<lbrakk>rp s = R_Reserve; 0 < read_sem s\<rbrakk> \<Longrightarrow>
    rstep s (s\<lparr>read_sem := read_sem s - 1, rp := R_Test\<rparr>)"
| r_test_eof: "\<lbrakk>rp s = R_Test; cnt (shm s) = 0\<rbrakk> \<Longrightarrow> rstep s (s\<lparr>rp := R_Detach\<rparr>)"
| r_test: "\<lbrakk>rp s = R_Test; cnt (shm s) \<noteq> 0\<rbrakk> \<Longrightarrow>
    rstep s (s\<lparr>rbytes := to_signed 32 (rbytes s + cnt (shm s)), rp := R_Write\<rparr>)"
| r_write: "rp s = R_Write \<Longrightarrow> rstep s (s\<lparr>stdout := stdout s @ shm_data (shm s), rp := R_Release\<rparr>)"
| r_write_error: "\<lbrakk>rp s = R_Write; m < nat (cnt (shm s))\<rbrakk> \<Longrightarrow>
    rstep s (s\<lparr>stdout := stdout s @ take m (shm_data (shm s)), rp := R_Failed\<rparr>)"
| r_release: "rp s = R_Release \<Longrightarrow>
    rstep s (s\<lparr>write_sem := write_sem s + 1, rxfrs := rxfrs s + 1, rp := R_Reserve\<rparr>)"
| r_detach: "rp s = R_Detach \<Longrightarrow> rstep s (s\<lparr>rp := R_LastRelease\<rparr>)"
| r_last: "rp s = R_LastRelease \<Longrightarrow> rstep s (s\<lparr>write_sem := write_sem s + 1, rp := R_Exit\<rparr>)"

definition xfr_step :: "xfr \<Rightarrow> xfr \<Rightarrow> bool" where
  "xfr_step s s' \<longleftrightarrow> wstep s s' \<or> rstep s s'"

section \<open>The invariant\<close>

text \<open>One token: a semaphore that is up, or the process that has reserved it.\<close>

definition w_holds :: "xfr \<Rightarrow> bool" where
  "w_holds s \<longleftrightarrow> wp s \<in> {W_Read, W_Release, W_Cleanup, W_Exit, W_Failed}"

definition r_holds :: "xfr \<Rightarrow> bool" where
  "r_holds s \<longleftrightarrow> rp s \<in> {R_Test, R_Write, R_Release, R_Detach, R_LastRelease, R_Failed}"

definition tokens :: "xfr \<Rightarrow> nat" where
  "tokens s = write_sem s + read_sem s + (if w_holds s then 1 else 0) + (if r_holds s then 1 else 0)"

text \<open>A block is in the buffer and has not been written out.\<close>

definition inflight :: "xfr \<Rightarrow> bool" where
  "inflight s \<longleftrightarrow> wp s = W_Release \<or> 0 < read_sem s \<or> rp s \<in> {R_Test, R_Write}"

definition ind :: "bool \<Rightarrow> int" where
  "ind b = (if b then 1 else 0)"

definition xfr_inv :: "byte list \<Rightarrow> xfr \<Rightarrow> bool" where
  "xfr_inv input s \<longleftrightarrow>
     tokens s = 1 \<and>
     (rp s \<noteq> R_Failed \<longrightarrow>
        input = stdout s @ (if inflight s then shm_data (shm s) else []) @ stdin s) \<and>
     (\<exists>rest. input = stdout s @ rest) \<and>
     (inflight s \<or> wp s = W_Test \<or> wp s = W_LastReserve \<longrightarrow> cnt (shm s) = int (length (shm_data (shm s)))) \<and>
     (wp s \<in> {W_LastReserve, W_Cleanup, W_Exit} \<or> rp s \<in> {R_Detach, R_LastRelease, R_Exit} \<longrightarrow>
        cnt (shm s) = 0 \<and> stdin s = []) \<and>
     (wp s \<in> {W_Release, W_Test} \<and> cnt (shm s) = 0 \<longrightarrow> stdin s = []) \<and>
     (inflight s \<and> cnt (shm s) = 0 \<longrightarrow> stdin s = []) \<and>
     (wp s = W_Reserve \<and> write_sem s = 0 \<longrightarrow> cnt (shm s) \<noteq> 0) \<and>
     (rp s = R_Exit \<longrightarrow> read_sem s = 0) \<and>
     (rp s \<in> {R_Write, R_Release, R_Failed} \<longrightarrow> cnt (shm s) \<noteq> 0) \<and>
     (rp s \<in> {R_Detach, R_LastRelease, R_Exit} \<longrightarrow> wp s \<in> {W_Test, W_LastReserve, W_Cleanup, W_Exit}) \<and>
     (wp s \<in> {W_Test, W_LastReserve} \<and> cnt (shm s) = 0 \<and> write_sem s = 1 \<longrightarrow> rp s = R_Exit) \<and>
     (wp s \<in> {W_Cleanup, W_Exit} \<longrightarrow> rp s = R_Exit)"

definition count_inv :: "byte list \<Rightarrow> xfr \<Rightarrow> bool" where
  "count_inv input s \<longleftrightarrow>
     wbytes s = to_signed 32 (int (length input - length (stdin s)) -
                  (if wp s \<in> {W_Release, W_Test} then cnt (shm s) else 0)) \<and>
     (rp s \<noteq> R_Failed \<longrightarrow>
        rbytes s = to_signed 32 (int (length (stdout s)) + (if rp s = R_Write then cnt (shm s) else 0))) \<and>
     wxfrs s + ind (wp s \<in> {W_Release, W_Test} \<and> cnt (shm s) \<noteq> 0) =
       rxfrs s + ind ((inflight s \<or> rp s = R_Release \<or> rp s = R_Failed) \<and> cnt (shm s) \<noteq> 0)"

lemma to_signed_add: "to_signed w (to_signed w a + b) = to_signed w (a + b)"
proof -
  have "(to_signed w a + b + 2 ^ (w - 1)) mod 2 ^ w = ((a + 2 ^ (w - 1)) mod 2 ^ w + b) mod 2 ^ w"
    by (simp add: to_signed_def algebra_simps)
  also have "\<dots> = (a + b + 2 ^ (w - 1)) mod 2 ^ w" by (simp add: mod_simps algebra_simps)
  finally show ?thesis by (simp add: to_signed_def)
qed

lemma load_simps [simp]: "cnt (load bs m) = int (length bs)" "shm_data (load bs m) = bs"
  by (simp_all add: load_def shm_data_def)

lemma shm_data_cnt [simp]: "shm_data (m\<lparr>cnt := - 1\<rparr>) = []"
  by (simp add: shm_data_def)

lemmas inv_defs = xfr_inv_def tokens_def w_holds_def r_holds_def inflight_def can_read_def

lemma xfr_inv_init: "xfr_inv input (xfr_init input)" "count_inv input (xfr_init input)"
  by (auto simp: inv_defs count_inv_def xfr_init_def shm_data_def ind_def to_signed_def)

lemma xfr_inv_wstep: "wstep s s' \<Longrightarrow> xfr_inv input s \<Longrightarrow> xfr_inv input s'"
proof (induction rule: wstep.induct)
  case (w_reserve s)
  then show ?case by (cases "rp s") (simp_all add: inv_defs split: if_splits)
next
  case (w_read s n)
  then show ?case by (cases "rp s") (simp_all add: inv_defs split: if_splits)
next
  case (w_read_error s)
  then show ?case by (cases "rp s") (simp_all add: inv_defs split: if_splits)
next
  case (w_release s)
  then show ?case by (cases "rp s") (simp_all add: inv_defs split: if_splits)
next
  case (w_test_eof s)
  then show ?case by (cases "rp s") (simp_all add: inv_defs split: if_splits)
next
  case (w_test s)
  then show ?case by (cases "rp s") (simp_all add: inv_defs split: if_splits)
next
  case (w_last s)
  then show ?case by (cases "rp s") (auto simp: inv_defs split: if_splits)
next
  case (w_cleanup s)
  then show ?case by (cases "rp s") (simp_all add: inv_defs split: if_splits)
qed

lemma ex_take_append: "\<exists>rest. xs @ ys = take m xs @ rest"
  by (rule exI [of _ "drop m xs @ ys"]) simp

lemma xfr_inv_rstep: "rstep s s' \<Longrightarrow> xfr_inv input s \<Longrightarrow> xfr_inv input s'"
proof (induction rule: rstep.induct)
  case (r_reserve s)
  then show ?case by (cases "wp s") (auto simp: inv_defs split: if_splits)
next
  case (r_test_eof s)
  then show ?case by (cases "wp s") (auto simp: inv_defs split: if_splits)
next
  case (r_test s)
  then show ?case by (cases "wp s") (simp_all add: inv_defs split: if_splits)
next
  case (r_write s)
  then show ?case by (cases "wp s") (auto simp: inv_defs split: if_splits)
next
  case (r_write_error s m)
  then show ?case by (cases "wp s") (auto simp: ex_take_append inv_defs split: if_splits)
next
  case (r_release s)
  then show ?case by (cases "wp s") (auto simp: inv_defs split: if_splits)
next
  case (r_detach s)
  then show ?case by (cases "wp s") (auto simp: inv_defs split: if_splits)
next
  case (r_last s)
  then show ?case by (cases "wp s") (auto simp: inv_defs split: if_splits)
qed

lemma count_inv_wstep: "wstep s s' \<Longrightarrow> xfr_inv input s \<Longrightarrow> count_inv input s \<Longrightarrow> count_inv input s'"
proof (induction rule: wstep.induct)
  case (w_reserve s)
  then show ?case by (cases "rp s") (simp_all add: inv_defs count_inv_def ind_def to_signed_add split: if_splits)
next
  case (w_read s n)
  then show ?case by (cases "rp s") (simp_all add: inv_defs count_inv_def ind_def to_signed_add split: if_splits)
next
  case (w_read_error s)
  then show ?case by (cases "rp s") (simp_all add: inv_defs count_inv_def ind_def to_signed_add split: if_splits)
next
  case (w_release s)
  then show ?case by (cases "rp s") (simp_all add: inv_defs count_inv_def ind_def to_signed_add split: if_splits)
next
  case (w_test_eof s)
  then show ?case by (cases "rp s") (simp_all add: inv_defs count_inv_def ind_def to_signed_add split: if_splits)
next
  case (w_test s)
  then show ?case by (cases "rp s") (simp_all add: inv_defs count_inv_def ind_def to_signed_add split: if_splits)
next
  case (w_last s)
  then show ?case by (cases "rp s") (simp_all add: inv_defs count_inv_def ind_def to_signed_add split: if_splits)
next
  case (w_cleanup s)
  then show ?case by (cases "rp s") (simp_all add: inv_defs count_inv_def ind_def to_signed_add split: if_splits)
qed

lemma count_inv_rstep: "rstep s s' \<Longrightarrow> xfr_inv input s \<Longrightarrow> count_inv input s \<Longrightarrow> count_inv input s'"
proof (induction rule: rstep.induct)
  case (r_reserve s)
  then show ?case by (cases "wp s") (simp_all add: inv_defs count_inv_def ind_def to_signed_add split: if_splits)
next
  case (r_test_eof s)
  then show ?case by (cases "wp s") (simp_all add: inv_defs count_inv_def ind_def to_signed_add split: if_splits)
next
  case (r_test s)
  then show ?case by (cases "wp s") (simp_all add: inv_defs count_inv_def ind_def to_signed_add split: if_splits)
next
  case (r_write s)
  then show ?case by (cases "wp s") (simp_all add: inv_defs count_inv_def ind_def to_signed_add split: if_splits)
next
  case (r_write_error s m)
  then show ?case by (cases "wp s") (simp_all add: inv_defs count_inv_def ind_def to_signed_add split: if_splits)
next
  case (r_release s)
  then show ?case by (cases "wp s") (auto simp: inv_defs count_inv_def ind_def to_signed_add split: if_splits)
next
  case (r_detach s)
  then show ?case by (cases "wp s") (simp_all add: inv_defs count_inv_def ind_def to_signed_add split: if_splits)
next
  case (r_last s)
  then show ?case by (cases "wp s") (simp_all add: inv_defs count_inv_def ind_def to_signed_add split: if_splits)
qed

section \<open>Termination and progress\<close>

text \<open>What is left to do: every step makes it smaller.\<close>

fun wrank :: "wpc \<Rightarrow> int \<Rightarrow> nat" where
  "wrank W_Reserve c = 20" | "wrank W_Read c = 20"
| "wrank W_Release c = (if c = 0 then 19 else 39)" | "wrank W_Test c = (if c = 0 then 12 else 21)"
| "wrank W_LastReserve c = 11" | "wrank W_Cleanup c = 11" | "wrank W_Exit c = 0" | "wrank W_Failed c = 0"

fun rrank :: "rpc \<Rightarrow> nat" where
  "rrank R_Reserve = 0" | "rrank R_Test = 5" | "rrank R_Write = 4" | "rrank R_Release = 3"
| "rrank R_Detach = 4" | "rrank R_LastRelease = 3" | "rrank R_Exit = 0" | "rrank R_Failed = 0"

definition potential :: "xfr \<Rightarrow> nat" where
  "potential s = 20 * length (stdin s) + wrank (wp s) (cnt (shm s)) + rrank (rp s) +
     write_sem s + 6 * read_sem s"

lemma potential_decreases: "xfr_step s s' \<Longrightarrow> potential s' < potential s"
  unfolding xfr_step_def
  by (auto simp: potential_def can_read_def elim!: wstep.cases rstep.cases)

lemma can_read_something: "\<exists>n. can_read n input"
  by (cases input) (auto simp: can_read_def intro: exI [of _ "Suc 0"] exI [of _ 0])

lemma xfr_progress:
  assumes "xfr_inv input s" "wp s \<noteq> W_Failed" "rp s \<noteq> R_Failed" "\<not> (wp s = W_Exit \<and> rp s = R_Exit)"
  shows "\<exists>s'. xfr_step s s'"
proof (cases "wp s \<in> {W_Read, W_Release, W_Test, W_Cleanup}")
  case True
  then have "\<exists>s'. wstep s s'"
    using can_read_something [of "stdin s"] by (cases "cnt (shm s) = 0") (auto intro: wstep.intros)
  then show ?thesis by (auto simp: xfr_step_def)
next
  case w: False
  show ?thesis
  proof (cases "rp s \<in> {R_Test, R_Write, R_Release, R_Detach, R_LastRelease}")
    case True
    then have "\<exists>s'. rstep s s'" by (cases "cnt (shm s) = 0") (auto intro: rstep.intros)
    then show ?thesis by (auto simp: xfr_step_def)
  next
    case False
    then have r: "rp s = R_Reserve \<or> rp s = R_Exit" using assms(3) by (cases "rp s") auto
    have "wp s = W_Reserve \<or> wp s = W_LastReserve \<or> wp s = W_Exit"
      using w assms(2) by (cases "wp s") auto
    then have "(wp s = W_Reserve \<or> wp s = W_LastReserve) \<and> 0 < write_sem s \<or>
        rp s = R_Reserve \<and> 0 < read_sem s"
      using r assms by (elim disjE) (simp_all add: inv_defs split: if_splits)
    then show ?thesis unfolding xfr_step_def by (blast intro: wstep.intros rstep.intros)
  qed
qed

interpretation xfr_run: live_system xfr_step "\<lambda>s. xfr_inv input s \<and> count_inv input s" potential
    "\<lambda>s. wp s = W_Failed \<or> rp s = R_Failed \<or> wp s = W_Exit \<and> rp s = R_Exit"
  for input
proof
  fix s t assume "xfr_inv input s \<and> count_inv input s" "xfr_step s t"
  then show "xfr_inv input t \<and> count_inv input t"
    using xfr_inv_wstep xfr_inv_rstep count_inv_wstep count_inv_rstep unfolding xfr_step_def by blast
qed (use potential_decreases xfr_progress in blast)+

text \<open>
  C27: in every reachable state of the two processes, for every interleaving and every way the
  input is cut into blocks, at most one of them is using the shared memory and the output is a
  beginning of the input; when both have exited the output is the input and both report the same
  numbers of bytes and of transfers; unless a \<open>read\<close> or \<open>write\<close> has failed there is no deadlock;
  and every step reduces the work that is left, so that every transfer comes to the exit of both
  processes or to a failure.
\<close>

theorem shm_transfer_correct:
  assumes "xfr_step\<^sup>*\<^sup>* (xfr_init input) s"
  shows "\<not> (wp s \<in> {W_Read, W_Release} \<and> rp s \<in> {R_Test, R_Write, R_Release}) \<and>
    (\<exists>rest. input = stdout s @ rest) \<and>
    (wp s = W_Exit \<and> rp s = R_Exit \<longrightarrow> stdout s = input \<and> wxfrs s = rxfrs s \<and>
       wbytes s = to_signed 32 (int (length input)) \<and> rbytes s = to_signed 32 (int (length input))) \<and>
    (wp s \<noteq> W_Failed \<and> rp s \<noteq> R_Failed \<and> \<not> (wp s = W_Exit \<and> rp s = R_Exit) \<longrightarrow> (\<exists>s'. xfr_step s s')) \<and>
    (\<forall>s'. xfr_step s s' \<longrightarrow> potential s' < potential s) \<and>
    (\<exists>s'. xfr_step\<^sup>*\<^sup>* s s' \<and> (wp s' = W_Failed \<or> rp s' = R_Failed \<or> wp s' = W_Exit \<and> rp s' = R_Exit))"
proof -
  have ic: "xfr_inv input s \<and> count_inv input s" using xfr_run.reachable_inv [OF assms] xfr_inv_init by blast
  then have i: "xfr_inv input s" and c: "count_inv input s" by auto
  have mutex: "\<not> (w_holds s \<and> r_holds s)"
  proof -
    have "tokens s = 1" using i by (simp add: xfr_inv_def)
    then show ?thesis by (auto simp: tokens_def split: if_splits)
  qed
  have fin: "stdout s = input \<and> wxfrs s = rxfrs s \<and>
       wbytes s = to_signed 32 (int (length input)) \<and> rbytes s = to_signed 32 (int (length input))"
    if "wp s = W_Exit \<and> rp s = R_Exit"
    using i c that by (simp add: inv_defs count_inv_def ind_def)
  have pre: "\<exists>rest. input = stdout s @ rest" using i unfolding xfr_inv_def by blast
  have excl: "\<not> (wp s \<in> {W_Read, W_Release} \<and> rp s \<in> {R_Test, R_Write, R_Release})"
    using mutex by (auto simp: w_holds_def r_holds_def)
  show ?thesis
  proof (intro conjI)
    show "wp s = W_Exit \<and> rp s = R_Exit \<longrightarrow> stdout s = input \<and> wxfrs s = rxfrs s \<and>
        wbytes s = to_signed 32 (int (length input)) \<and> rbytes s = to_signed 32 (int (length input))"
      using fin by blast
    show "wp s \<noteq> W_Failed \<and> rp s \<noteq> R_Failed \<and> \<not> (wp s = W_Exit \<and> rp s = R_Exit) \<longrightarrow> (\<exists>s'. xfr_step s s')"
      using xfr_progress [OF i] by blast
    show "\<forall>s'. xfr_step s s' \<longrightarrow> potential s' < potential s" using potential_decreases by blast
    show "\<exists>s'. xfr_step\<^sup>*\<^sup>* s s' \<and> (wp s' = W_Failed \<or> rp s' = R_Failed \<or> wp s' = W_Exit \<and> rp s' = R_Exit)"
      using xfr_run.reaches_final [OF ic] .
  qed (rule excl, rule pre)
qed

theorem shm_transfer_correct_witness:
  "xfr_step\<^sup>*\<^sup>* (xfr_init ''x'') ((xfr_init ''x'')\<lparr>write_sem := 0, wp := W_Read\<rparr>) \<and>
   (\<exists>s'. xfr_step ((xfr_init ''x'')\<lparr>write_sem := 0, wp := W_Read\<rparr>) s')"
proof -
  have "wstep (xfr_init ''x'') ((xfr_init ''x'')\<lparr>write_sem := 0, wp := W_Read\<rparr>)"
    using w_reserve [of "xfr_init ''x''"] by (simp add: xfr_init_def)
  then have r: "xfr_step\<^sup>*\<^sup>* (xfr_init ''x'') ((xfr_init ''x'')\<lparr>write_sem := 0, wp := W_Read\<rparr>)"
    by (simp add: xfr_step_def r_into_rtranclp)
  with shm_transfer_correct [OF r] show ?thesis by (simp add: xfr_init_def)
qed

end
