(* ===== verification/CondVar.thy ===== *)
theory CondVar
  imports Steps
begin

text \<open>
  Producers and a consumer over a mutex and a condition variable (threads/prod\_condvar.c). Every
  thread is a program counter; a step is one call or one assignment, so that runs are the
  interleavings of the threads. \<open>cnts\<close> are the numbers of the command line. A thread that waits in
  \<open>pthread_cond_wait\<close> has released the mutex and takes it again before it returns. The calls on the
  mutex and the condition variable, which are used correctly, do not fail; \<open>pthread_create\<close> may.
\<close>

datatype producer_pc = P_New | P_Test | P_Lock | P_Inc | P_Unlock | P_Signal | P_Done
datatype consumer_pc =
    M_Create nat | M_Lock | M_Test | M_Wait | M_Relock | M_Consume | M_Unlock | M_Check | M_Exit | M_Fail
datatype owner = Producer nat | Consumer

record prodcons =
  ppc :: "nat \<Rightarrow> producer_pc"
  idx :: "nat \<Rightarrow> int"
  mpc :: consumer_pc
  avail :: int
  mtx :: "owner option"
  totRequired :: int
  numConsumed :: int
  finished :: bool

definition prodcons_init :: prodcons where
  "prodcons_init = \<lparr>ppc = (\<lambda>_. P_New), idx = (\<lambda>_. 0), mpc = M_Create 0, avail = 0, mtx = None,
     totRequired = 0, numConsumed = 0, finished = False\<rparr>"

text \<open>\<open>threadFunc\<close>\<close>

inductive pstep :: "int list \<Rightarrow> nat \<Rightarrow> prodcons \<Rightarrow> prodcons \<Rightarrow> bool" for cnts i where
  p_test: "ppc s i = P_Test \<Longrightarrow>
     pstep cnts i s (s\<lparr>ppc := (ppc s)(i := if idx s i < cnts ! i then P_Lock else P_Done)\<rparr>)"
| p_lock: "ppc s i = P_Lock \<Longrightarrow> mtx s = None \<Longrightarrow>
     pstep cnts i s (s\<lparr>mtx := Some (Producer i), ppc := (ppc s)(i := P_Inc)\<rparr>)"
| p_inc: "ppc s i = P_Inc \<Longrightarrow>
     pstep cnts i s (s\<lparr>avail := to_signed 32 (avail s + 1), ppc := (ppc s)(i := P_Unlock)\<rparr>)"
| p_unlock: "ppc s i = P_Unlock \<Longrightarrow>
     pstep cnts i s (s\<lparr>mtx := None, ppc := (ppc s)(i := P_Signal)\<rparr>)"
| p_signal: "ppc s i = P_Signal \<Longrightarrow>
     pstep cnts i s (s\<lparr>mpc := (if mpc s = M_Wait then M_Relock else mpc s),
       idx := (idx s)(i := idx s i + 1), ppc := (ppc s)(i := P_Test)\<rparr>)"

text \<open>\<open>main\<close>\<close>

inductive mstep :: "int list \<Rightarrow> prodcons \<Rightarrow> prodcons \<Rightarrow> bool" for cnts where
  m_create: "mpc s = M_Create j \<Longrightarrow> j < length cnts \<Longrightarrow>
     mstep cnts s (s\<lparr>totRequired := to_signed 32 (totRequired s + cnts ! j),
       ppc := (ppc s)(j := P_Test), mpc := M_Create (Suc j)\<rparr>)"
| m_create_fails: "mpc s = M_Create j \<Longrightarrow> j < length cnts \<Longrightarrow> mstep cnts s (s\<lparr>mpc := M_Fail\<rparr>)"
| m_created: "mpc s = M_Create j \<Longrightarrow> j = length cnts \<Longrightarrow>
     mstep cnts s (s\<lparr>numConsumed := 0, finished := False, mpc := M_Lock\<rparr>)"
| m_lock: "mpc s = M_Lock \<Longrightarrow> mtx s = None \<Longrightarrow> mstep cnts s (s\<lparr>mtx := Some Consumer, mpc := M_Test\<rparr>)"
| m_wait: "mpc s = M_Test \<Longrightarrow> avail s = 0 \<Longrightarrow> mstep cnts s (s\<lparr>mtx := None, mpc := M_Wait\<rparr>)"
| m_relock: "mpc s = M_Relock \<Longrightarrow> mtx s = None \<Longrightarrow> mstep cnts s (s\<lparr>mtx := Some Consumer, mpc := M_Test\<rparr>)"
| m_avail: "mpc s = M_Test \<Longrightarrow> avail s \<noteq> 0 \<Longrightarrow> mstep cnts s (s\<lparr>mpc := M_Consume\<rparr>)"
| m_consume: "mpc s = M_Consume \<Longrightarrow> 0 < avail s \<Longrightarrow>
     mstep cnts s (s\<lparr>numConsumed := to_signed 32 (numConsumed s + 1), avail := avail s - 1,
       finished := totRequired s \<le> to_signed 32 (numConsumed s + 1)\<rparr>)"
| m_consumed: "mpc s = M_Consume \<Longrightarrow> \<not> 0 < avail s \<Longrightarrow> mstep cnts s (s\<lparr>mpc := M_Unlock\<rparr>)"
| m_unlock: "mpc s = M_Unlock \<Longrightarrow> mstep cnts s (s\<lparr>mtx := None, mpc := M_Check\<rparr>)"
| m_exit: "mpc s = M_Check \<Longrightarrow> mstep cnts s (s\<lparr>mpc := (if finished s then M_Exit else M_Lock)\<rparr>)"

text \<open>
  A step of the program, which ends with its main thread; and a wake-up without a signal, which
  \<open>pthread_cond_wait\<close> allows.
\<close>

definition prodcons_step :: "int list \<Rightarrow> prodcons \<Rightarrow> prodcons \<Rightarrow> bool" where
  "prodcons_step cnts s s' \<longleftrightarrow>
     mpc s \<noteq> M_Exit \<and> mpc s \<noteq> M_Fail \<and> (mstep cnts s s' \<or> (\<exists>i<length cnts. pstep cnts i s s'))"

definition spurious :: "prodcons \<Rightarrow> prodcons \<Rightarrow> bool" where
  "spurious s s' \<longleftrightarrow> mpc s = M_Wait \<and> s' = s\<lparr>mpc := M_Relock\<rparr>"

definition prodcons_any :: "int list \<Rightarrow> prodcons \<Rightarrow> prodcons \<Rightarrow> bool" where
  "prodcons_any cnts s s' \<longleftrightarrow> prodcons_step cnts s s' \<or> spurious s s'"

section \<open>The invariant\<close>

text \<open>The units that a producer has added to \<open>avail\<close>.\<close>

definition made :: "prodcons \<Rightarrow> nat \<Rightarrow> int" where
  "made s i = idx s i + (if ppc s i = P_Unlock \<or> ppc s i = P_Signal then 1 else 0)"

definition p_ok :: "int list \<Rightarrow> prodcons \<Rightarrow> nat \<Rightarrow> bool" where
  "p_ok cnts s i \<longleftrightarrow>
     0 \<le> idx s i \<and> idx s i \<le> cnts ! i \<and>
     (ppc s i \<in> {P_Lock, P_Inc, P_Unlock, P_Signal} \<longrightarrow> idx s i < cnts ! i) \<and>
     (ppc s i = P_Done \<longrightarrow> idx s i = cnts ! i) \<and>
     (ppc s i = P_New \<longrightarrow> idx s i = 0) \<and>
     (mtx s = Some (Producer i) \<longleftrightarrow> ppc s i \<in> {P_Inc, P_Unlock}) \<and>
     (ppc s i = P_New \<longleftrightarrow> (\<exists>j. mpc s = M_Create j \<and> j \<le> i))"

definition own_ok :: "int list \<Rightarrow> prodcons \<Rightarrow> bool" where
  "own_ok cnts s \<longleftrightarrow>
     (mtx s = Some Consumer \<longleftrightarrow> mpc s \<in> {M_Test, M_Consume, M_Unlock}) \<and>
     (\<forall>j. mtx s = Some (Producer j) \<longrightarrow> j < length cnts)"

definition total_ok :: "int list \<Rightarrow> prodcons \<Rightarrow> bool" where
  "total_ok cnts s \<longleftrightarrow>
     (case mpc s of
        M_Create j \<Rightarrow> j \<le> length cnts \<and> totRequired s = (\<Sum>k<j. cnts ! k) \<and> numConsumed s = 0
      | _ \<Rightarrow> totRequired s = (\<Sum>k<length cnts. cnts ! k) \<and> (finished s \<longleftrightarrow> totRequired s \<le> numConsumed s)) \<and>
     (mpc s \<in> {M_Lock, M_Test, M_Wait, M_Relock} \<longrightarrow> \<not> finished s) \<and> (mpc s = M_Exit \<longrightarrow> finished s)"

definition wait_ok :: "int list \<Rightarrow> prodcons \<Rightarrow> bool" where
  "wait_ok cnts s \<longleftrightarrow>
     (mpc s = M_Wait \<longrightarrow> avail s = 0 \<or> (\<exists>i<length cnts. ppc s i \<in> {P_Unlock, P_Signal}))"

definition requested :: "int list \<Rightarrow> int" where
  "requested cnts = (\<Sum>k<length cnts. cnts ! k)"

definition count_ok :: "int list \<Rightarrow> prodcons \<Rightarrow> bool" where
  "count_ok cnts s \<longleftrightarrow>
     0 \<le> avail s \<and> 0 \<le> numConsumed s \<and> avail s + numConsumed s = (\<Sum>k<length cnts. made s k)"

definition pc_inv :: "int list \<Rightarrow> prodcons \<Rightarrow> bool" where
  "pc_inv cnts s \<longleftrightarrow> (\<forall>i<length cnts. p_ok cnts s i) \<and> own_ok cnts s \<and> total_ok cnts s \<and> wait_ok cnts s \<and> count_ok cnts s"

text \<open>The arguments: no negative numbers, and a total between 1 and \<open>INT_MAX\<close>.\<close>

definition cnts_ok :: "int list \<Rightarrow> bool" where
  "cnts_ok cnts \<longleftrightarrow> (\<forall>c\<in>set cnts. 0 \<le> c) \<and> 0 < requested cnts \<and> requested cnts \<le> INT_MAX"

lemma made_le:
  assumes "pc_inv cnts s" "i < length cnts"
  shows "made s i \<le> cnts ! i"
  using assms by (auto simp: pc_inv_def p_ok_def made_def)

lemma count_bound:
  assumes "pc_inv cnts s" "cnts_ok cnts"
  shows "avail s + numConsumed s \<le> requested cnts"
proof -
  have "(\<Sum>k<length cnts. made s k) \<le> requested cnts"
    unfolding requested_def by (rule sum_mono) (use made_le [OF assms(1)] in simp)
  then show ?thesis using assms(1) by (simp add: pc_inv_def count_ok_def)
qed

lemma count_bound_inc:
  assumes "pc_inv cnts s" "cnts_ok cnts" "i < length cnts" "made s i < cnts ! i"
  shows "avail s + numConsumed s < requested cnts"
proof -
  have "(\<Sum>k<length cnts. made s k) < requested cnts"
    unfolding requested_def
    by (rule sum_strict_mono_ex1) (use made_le [OF assms(1)] assms(3,4) in auto)
  then show ?thesis using assms(1) by (simp add: pc_inv_def count_ok_def)
qed

lemma prefix_bound:
  assumes "cnts_ok cnts" "j \<le> length cnts"
  shows "0 \<le> (\<Sum>k<j. cnts ! k) \<and> (\<Sum>k<j. cnts ! k) \<le> INT_MAX"
proof -
  have "(\<Sum>k<j. cnts ! k) \<le> requested cnts"
    unfolding requested_def by (rule sum_mono2) (use assms in \<open>auto simp: cnts_ok_def\<close>)
  moreover have "0 \<le> (\<Sum>k<j. cnts ! k)"
    by (rule sum_nonneg) (use assms in \<open>auto simp: cnts_ok_def\<close>)
  ultimately show ?thesis using assms(1) by (simp add: cnts_ok_def)
qed

lemma made_sum:
  assumes "pc_inv cnts s" "i < length cnts" "\<forall>k. k \<noteq> i \<longrightarrow> ppc s' k = ppc s k \<and> idx s' k = idx s k"
  shows "(\<Sum>k<length cnts. made s' k) = avail s + numConsumed s - made s i + made s' i"
proof -
  have "(\<Sum>k<length cnts. made s' k) = (\<Sum>k<length cnts. made s k) - made s i + made s' i"
    by (rule sum_upd) (use assms in \<open>auto simp: made_def\<close>)
  then show ?thesis using assms(1) by (simp add: pc_inv_def count_ok_def)
qed

lemma p_ok_pstep:
  assumes "pstep cnts i s s'" "p_ok cnts s i" "p_ok cnts s k"
  shows "p_ok cnts s' k"
  using assms by (cases rule: pstep.cases) (auto simp: p_ok_def)

lemma own_ok_pstep:
  assumes "pstep cnts i s s'" "i < length cnts" "p_ok cnts s i" "own_ok cnts s"
  shows "own_ok cnts s'"
  using assms by (cases rule: pstep.cases) (auto simp: own_ok_def p_ok_def)

lemma total_ok_pstep:
  assumes "pstep cnts i s s'" "total_ok cnts s"
  shows "total_ok cnts s'"
  using assms by (cases rule: pstep.cases) (auto simp: total_ok_def split: consumer_pc.splits)

lemma wait_ok_pstep:
  assumes "pstep cnts i s s'" "i < length cnts" "wait_ok cnts s"
  shows "wait_ok cnts s'"
proof (cases "mpc s' = M_Wait")
  case True
  have "mpc s = M_Wait \<and> ppc s i \<noteq> P_Signal"
    using assms(1) True by (cases rule: pstep.cases) (simp_all split: if_splits)
  then have w: "mpc s = M_Wait" "ppc s i \<noteq> P_Signal" by simp_all
  then consider "avail s = 0" | k where "k < length cnts" "ppc s k \<in> {P_Unlock, P_Signal}"
    using assms(3) unfolding wait_ok_def by blast
  then show ?thesis
  proof cases
    case 1
    with assms(1,2) show ?thesis by (cases rule: pstep.cases) (auto simp: wait_ok_def)
  next
    case 2
    have "ppc s' k \<in> {P_Unlock, P_Signal}"
      using assms(1) w(2) 2(2) by (cases rule: pstep.cases) auto
    with 2(1) show ?thesis unfolding wait_ok_def by blast
  qed
qed (simp add: wait_ok_def)

lemma count_ok_pstep:
  assumes "pstep cnts i s s'" "i < length cnts" "pc_inv cnts s" "cnts_ok cnts"
  shows "count_ok cnts s'"
proof -
  have c: "0 \<le> avail s" "0 \<le> numConsumed s" "p_ok cnts s i"
    using assms(2,3) by (simp_all add: pc_inv_def count_ok_def)
  note ms = made_sum [OF assms(3,2), of s']
  show ?thesis
  proof (cases "ppc s i = P_Inc")
    case True
    then have a: "avail s + 1 \<le> INT_MAX"
      using count_bound_inc [OF assms(3,4,2)] c assms(4) by (simp add: made_def p_ok_def cnts_ok_def)
    from assms(1) show ?thesis
      using True ms a c by (cases rule: pstep.cases) (simp_all add: count_ok_def made_def)
  next
    case False
    from assms(1) show ?thesis
      using False ms c by (cases rule: pstep.cases) (simp_all add: count_ok_def made_def)
  qed
qed

lemma pc_inv_pstep:
  assumes "pstep cnts i s s'" "i < length cnts" "pc_inv cnts s" "cnts_ok cnts"
  shows "pc_inv cnts s'"
  using p_ok_pstep [OF assms(1)] own_ok_pstep [OF assms(1,2)] total_ok_pstep [OF assms(1)]
    wait_ok_pstep [OF assms(1,2)] count_ok_pstep [OF assms] assms(2,3)
  by (simp add: pc_inv_def)

lemma p_ok_mstep:
  assumes "mstep cnts s s'" "p_ok cnts s k" "own_ok cnts s" "k < length cnts" "mpc s' \<noteq> M_Fail"
  shows "p_ok cnts s' k"
  using assms by (cases rule: mstep.cases) (auto simp: p_ok_def own_ok_def)

lemma own_ok_mstep:
  assumes "mstep cnts s s'" "own_ok cnts s"
  shows "own_ok cnts s'"
  using assms by (cases rule: mstep.cases) (auto simp: own_ok_def)

lemma wait_ok_mstep:
  assumes "mstep cnts s s'"
  shows "wait_ok cnts s'"
  using assms by (cases rule: mstep.cases) (auto simp: wait_ok_def)

lemma total_ok_mstep:
  assumes "mstep cnts s s'" "pc_inv cnts s" "cnts_ok cnts" "mpc s' \<noteq> M_Fail"
  shows "total_ok cnts s'"
proof -
  have t: "total_ok cnts s" and c: "0 \<le> avail s" "0 \<le> numConsumed s"
    using assms(2) by (simp_all add: pc_inv_def count_ok_def)
  have r: "0 < (\<Sum>k<length cnts. cnts ! k)" using assms(3) by (simp add: cnts_ok_def requested_def)
  from assms(1) show ?thesis
  proof cases
    case (m_create j)
    have "0 \<le> (\<Sum>k<j. cnts ! k) + cnts ! j" "(\<Sum>k<j. cnts ! k) + cnts ! j \<le> INT_MAX"
      using prefix_bound [OF assms(3), of "Suc j"] m_create(3) by simp_all
    then show ?thesis using m_create t by (simp add: total_ok_def)
  next
    case m_consume
    have "numConsumed s + 1 \<le> INT_MAX"
      using count_bound [OF assms(2,3)] assms(3) m_consume(3) by (simp add: cnts_ok_def)
    then show ?thesis using m_consume t c by (simp add: total_ok_def)
  qed (use t r assms(4) in \<open>auto simp: total_ok_def\<close>)
qed

lemma count_ok_mstep:
  assumes "mstep cnts s s'" "pc_inv cnts s" "cnts_ok cnts"
  shows "count_ok cnts s'"
proof -
  have t: "total_ok cnts s" and c: "0 \<le> avail s" "0 \<le> numConsumed s" "count_ok cnts s"
    and p: "\<forall>k<length cnts. p_ok cnts s k"
    using assms(2) by (simp_all add: pc_inv_def count_ok_def)
  from assms(1) show ?thesis
  proof cases
    case (m_create j)
    then have "made s' j = made s j" using p by (auto simp: made_def p_ok_def)
    then show ?thesis using made_sum [OF assms(2) m_create(3), of s'] m_create c by (simp add: count_ok_def)
  next
    case m_consume
    have "numConsumed s + 1 \<le> INT_MAX"
      using count_bound [OF assms(2,3)] assms(3) m_consume(3) by (simp add: cnts_ok_def)
    then show ?thesis using m_consume c by (simp add: count_ok_def made_def)
  next
    case (m_created j)
    then show ?thesis using c t by (simp add: count_ok_def made_def total_ok_def)
  qed (use c in \<open>simp_all add: count_ok_def made_def\<close>)
qed

lemma pc_inv_mstep:
  assumes "mstep cnts s s'" "pc_inv cnts s" "cnts_ok cnts" "mpc s' \<noteq> M_Fail"
  shows "pc_inv cnts s'"
  using p_ok_mstep [OF assms(1)] own_ok_mstep [OF assms(1)] total_ok_mstep [OF assms]
    wait_ok_mstep [OF assms(1)] count_ok_mstep [OF assms(1-3)] assms(2,4)
  by (simp add: pc_inv_def)

definition run_inv :: "int list \<Rightarrow> prodcons \<Rightarrow> bool" where
  "run_inv cnts s \<longleftrightarrow> cnts_ok cnts \<and> (mpc s = M_Fail \<or> pc_inv cnts s)"

lemma run_inv_step: "run_inv cnts s \<Longrightarrow> prodcons_step cnts s s' \<Longrightarrow> run_inv cnts s'"
  using pc_inv_mstep pc_inv_pstep unfolding run_inv_def prodcons_step_def by blast

lemma run_inv_spurious: "run_inv cnts s \<Longrightarrow> spurious s s' \<Longrightarrow> run_inv cnts s'"
  by (auto simp: run_inv_def spurious_def pc_inv_def p_ok_def own_ok_def total_ok_def wait_ok_def count_ok_def made_def)

lemma run_inv_init: "cnts_ok cnts \<Longrightarrow> run_inv cnts prodcons_init"
  by (auto simp: run_inv_def prodcons_init_def pc_inv_def p_ok_def own_ok_def total_ok_def wait_ok_def
      count_ok_def made_def cnts_ok_def)

section \<open>Progress and termination\<close>

fun prank :: "producer_pc \<Rightarrow> nat" where
  "prank P_New = 5" | "prank P_Test = 4" | "prank P_Lock = 3" | "prank P_Inc = 2" | "prank P_Unlock = 1"
| "prank P_Signal = 0" | "prank P_Done = 0"

definition pwork :: "int list \<Rightarrow> prodcons \<Rightarrow> nat \<Rightarrow> int" where
  "pwork cnts s i = 5 * (cnts ! i - idx s i) + int (prank (ppc s i))"

fun mrank :: "nat \<Rightarrow> int \<Rightarrow> consumer_pc \<Rightarrow> int" where
  "mrank n a (M_Create j) = 10 + int n - int j"
| "mrank n a M_Lock = 3" | "mrank n a M_Test = 1" | "mrank n a M_Wait = 0" | "mrank n a M_Relock = 3"
| "mrank n a M_Consume = (if 0 < a then 0 else 6)" | "mrank n a M_Unlock = 5" | "mrank n a M_Check = 4"
| "mrank n a M_Exit = 0" | "mrank n a M_Fail = 0"

definition work_left :: "int list \<Rightarrow> prodcons \<Rightarrow> int" where
  "work_left cnts s =
     20 * (\<Sum>i<length cnts. pwork cnts s i) + 8 * avail s + mrank (length cnts) (avail s) (mpc s)"

lemma work_left_pstep:
  assumes "pstep cnts i s s'" "i < length cnts" "pc_inv cnts s" "cnts_ok cnts"
  shows "work_left cnts s' < work_left cnts s"
proof -
  have c: "0 \<le> avail s" "0 \<le> numConsumed s" "p_ok cnts s i"
    using assms(2,3) by (simp_all add: pc_inv_def count_ok_def)
  have e: "(\<Sum>k<length cnts. pwork cnts s' k) = (\<Sum>k<length cnts. pwork cnts s k) - pwork cnts s i + pwork cnts s' i"
    by (rule sum_upd [OF assms(2)]) (use assms(1) in \<open>cases rule: pstep.cases; simp add: pwork_def\<close>)
  have a: "avail s' \<le> avail s + 1"
  proof (cases "ppc s i = P_Inc")
    case True
    have b: "avail s + 1 \<le> INT_MAX"
      using count_bound_inc [OF assms(3,4,2)] c assms(4) True by (simp add: made_def p_ok_def cnts_ok_def)
    show ?thesis using assms(1) b c by (cases rule: pstep.cases) simp_all
  qed (use assms(1) in \<open>cases rule: pstep.cases; simp\<close>)
  have w: "pwork cnts s' i < pwork cnts s i"
    using assms(1) c(3) by (cases rule: pstep.cases) (simp_all add: pwork_def p_ok_def)
  have m: "mrank (length cnts) (avail s') (mpc s') \<le> mrank (length cnts) (avail s) (mpc s) + 6"
    using assms(1) by (cases rule: pstep.cases; cases "mpc s") simp_all
  show ?thesis using e a w m by (simp add: work_left_def)
qed

lemma work_left_mstep:
  assumes "mstep cnts s s'" "pc_inv cnts s"
  shows "work_left cnts s' < work_left cnts s"
proof -
  have c: "0 \<le> avail s" using assms(2) by (simp add: pc_inv_def count_ok_def)
  have e: "(\<Sum>k<length cnts. pwork cnts s' k) \<le> (\<Sum>k<length cnts. pwork cnts s k)"
    by (rule sum_mono) (use assms in \<open>cases rule: mstep.cases; auto simp: pwork_def pc_inv_def p_ok_def\<close>)
  from assms(1) show ?thesis
    using e c by (cases rule: mstep.cases; cases "finished s") (simp_all add: work_left_def)
qed

lemma work_left_nonneg:
  assumes "pc_inv cnts s"
  shows "0 \<le> work_left cnts s"
proof -
  have "0 \<le> (\<Sum>k<length cnts. pwork cnts s k)"
    by (rule sum_nonneg) (use assms in \<open>auto simp: pwork_def pc_inv_def p_ok_def\<close>)
  moreover have "0 \<le> mrank (length cnts) (avail s) (mpc s)"
    using assms by (cases "mpc s") (auto simp: pc_inv_def total_ok_def)
  ultimately show ?thesis using assms by (simp add: work_left_def pc_inv_def count_ok_def)
qed

text \<open>
  Somebody can always move: the owner of the mutex; else, while there is a producer that has not
  ended, that producer; and when all have ended, the consumer, for whom a signal was sent after the
  last unit.
\<close>

lemma prodcons_progress:
  assumes "pc_inv cnts s" "cnts_ok cnts" "mpc s \<noteq> M_Exit" "mpc s \<noteq> M_Fail"
  shows "\<exists>s'. prodcons_step cnts s s'"
proof -
  have p: "p_ok cnts s i" if "i < length cnts" for i using assms(1) that by (simp add: pc_inv_def)
  have m: "own_ok cnts s" "total_ok cnts s" "wait_ok cnts s" "count_ok cnts s" using assms(1) by (simp_all add: pc_inv_def)
  have main: "\<exists>s'. mstep cnts s s'" if "mpc s \<noteq> M_Wait" "mpc s \<in> {M_Lock, M_Relock} \<Longrightarrow> mtx s = None"
  proof (cases "mpc s")
    case (M_Create j)
    then have "j < length cnts \<or> j = length cnts" using m(2) by (auto simp: total_ok_def)
    then show ?thesis using m_create [OF M_Create] m_created [OF M_Create] by blast
  next
    case M_Test
    then show ?thesis using m_wait [OF M_Test] m_avail [OF M_Test] by blast
  next
    case M_Consume
    then show ?thesis using m_consume [OF M_Consume] m_consumed [OF M_Consume] by blast
  qed (use that assms(3,4) in \<open>auto intro: m_lock m_relock m_unlock m_exit\<close>)
  have prod: "\<exists>s'. pstep cnts i s s'" if "ppc s i \<notin> {P_New, P_Done}" "ppc s i = P_Lock \<Longrightarrow> mtx s = None" for i
    using that by (cases "ppc s i") (auto intro: pstep.intros)
  show ?thesis
  proof (cases "mtx s")
    case (Some w)
    show ?thesis
    proof (cases w)
      case (Producer i)
      then have "i < length cnts" "ppc s i \<in> {P_Inc, P_Unlock}" using Some m(1) p by (auto simp: own_ok_def p_ok_def)
      moreover from this obtain s' where "pstep cnts i s s'" using prod [of i] by auto
      ultimately show ?thesis using assms(3,4) unfolding prodcons_step_def by blast
    next
      case Consumer
      then show ?thesis using Some m(1) main assms(3,4) unfolding prodcons_step_def own_ok_def by auto
    qed
  next
    case None
    show ?thesis
    proof (cases "mpc s = M_Wait")
      case True
      have "\<exists>i<length cnts. ppc s i \<notin> {P_New, P_Done}"
      proof (rule ccontr)
        assume "\<not> ?thesis"
        then have d: "ppc s i = P_Done" if "i < length cnts" for i using that p [OF that] True by (auto simp: p_ok_def)
        then have "avail s = 0" using m(3) True by (auto simp: wait_ok_def)
        moreover have "made s i = cnts ! i" if "i < length cnts" for i
          using d [OF that] p [OF that] by (simp add: made_def p_ok_def)
        ultimately show False using m(2,4) True by (auto simp: total_ok_def count_ok_def)
      qed
      then show ?thesis using prod None assms(3,4) unfolding prodcons_step_def by blast
    qed (use main None assms(3,4) in \<open>auto simp: prodcons_step_def\<close>)
  qed
qed

interpretation prodcons_run: live_system "prodcons_step cnts" "run_inv cnts"
    "\<lambda>s. if mpc s = M_Fail then 0 else nat (work_left cnts s + 1)" "\<lambda>s. mpc s = M_Exit \<or> mpc s = M_Fail"
  for cnts
proof
  fix s t assume a: "run_inv cnts s" "prodcons_step cnts s t"
  show "run_inv cnts t" using a by (rule run_inv_step)
  have "pc_inv cnts s" "cnts_ok cnts" using a by (auto simp: run_inv_def prodcons_step_def)
  then have "work_left cnts t < work_left cnts s" "0 \<le> work_left cnts s"
    using a(2) work_left_pstep work_left_mstep work_left_nonneg unfolding prodcons_step_def by blast+
  then show "(if mpc t = M_Fail then 0 else nat (work_left cnts t + 1)) <
      (if mpc s = M_Fail then 0 else nat (work_left cnts s + 1))"
    using a(2) by (simp add: prodcons_step_def)
qed (use prodcons_progress in \<open>auto simp: run_inv_def\<close>)

interpretation prodcons_all: invariant_system "prodcons_any cnts" "run_inv cnts" for cnts
  by unfold_locales (auto simp: prodcons_any_def intro: run_inv_step run_inv_spurious)

text \<open>Without anything to produce, \<open>avail\<close> stays 0 and the consumer waits forever.\<close>

definition idle_inv :: "prodcons \<Rightarrow> bool" where
  "idle_inv s \<longleftrightarrow> avail s = 0 \<and> (\<forall>i. idx s i = 0 \<and> ppc s i \<in> {P_New, P_Test, P_Done}) \<and>
     mpc s \<notin> {M_Consume, M_Unlock, M_Check, M_Exit}"

lemma idle_inv_step:
  assumes "idle_inv s" "prodcons_any cnts s t" "\<forall>c\<in>set cnts. c \<le> 0"
  shows "idle_inv t"
proof -
  have "idle_inv t" if "pstep cnts i s t" "i < length cnts" for i
  proof -
    have "cnts ! i \<le> 0" "idx s i = 0" "ppc s i \<in> {P_New, P_Test, P_Done}"
      using assms(1,3) that(2) nth_mem [of i cnts] by (auto simp: idle_inv_def)
    with that(1) assms(1) show ?thesis by (cases rule: pstep.cases) (auto simp: idle_inv_def)
  qed
  moreover have "idle_inv t" if "mstep cnts s t"
    using that assms(1) by (cases rule: mstep.cases) (auto simp: idle_inv_def)
  moreover have "spurious s t \<Longrightarrow> idle_inv t" using assms(1) by (auto simp: idle_inv_def spurious_def)
  ultimately show ?thesis using assms(2) unfolding prodcons_any_def prodcons_step_def by blast
qed

interpretation idle_run: invariant_system "prodcons_any cnts" "\<lambda>s. idle_inv s \<and> (\<forall>c\<in>set cnts. c \<le> 0)" for cnts
  by unfold_locales (auto intro: idle_inv_step)

text \<open>
  C38: for counts that are not negative and whose total is between 1 and \<open>INT_MAX\<close>: in every
  reachable state, for every interleaving and with wake-ups without a signal, no unit is lost or
  consumed twice and at most one thread is inside the mutex; when the program exits it has consumed
  the total; as long as it has not ended some thread can move, so no wake-up is lost; and, unless a
  thread cannot be created, every run without such wake-ups comes to that exit, after a bounded number of steps.
  When nothing is to be produced the program never exits.
\<close>

theorem condvar_consumes_all:
  "(cnts_ok cnts \<and> (prodcons_any cnts)\<^sup>*\<^sup>* prodcons_init s \<longrightarrow>
      mpc s = M_Fail \<or>
      (0 \<le> avail s \<and> avail s + numConsumed s = (\<Sum>i<length cnts. made s i) \<and>
       (\<forall>i<length cnts. ppc s i \<in> {P_Inc, P_Unlock} \<longrightarrow>
          mpc s \<notin> {M_Test, M_Consume, M_Unlock} \<and> (\<forall>j<length cnts. ppc s j \<in> {P_Inc, P_Unlock} \<longrightarrow> j = i)) \<and>
       (mpc s = M_Exit \<longrightarrow> numConsumed s = requested cnts) \<and>
       (mpc s \<noteq> M_Exit \<longrightarrow> (\<exists>t. prodcons_step cnts s t)))) \<and>
   (cnts_ok cnts \<and> run 0 = prodcons_init \<and> (\<forall>i<n. prodcons_step cnts (run i) (run (Suc i))) \<longrightarrow>
      int n \<le> work_left cnts prodcons_init + 1) \<and>
   (cnts_ok cnts \<and> (prodcons_step cnts)\<^sup>*\<^sup>* prodcons_init s \<and> (\<nexists>t. prodcons_step cnts s t) \<longrightarrow>
      mpc s = M_Fail \<or> mpc s = M_Exit \<and> numConsumed s = requested cnts) \<and>
   ((\<forall>c\<in>set cnts. c \<le> 0) \<and> (prodcons_any cnts)\<^sup>*\<^sup>* prodcons_init s \<longrightarrow> mpc s \<noteq> M_Exit)"
proof -
  have fin: "numConsumed s = requested cnts" if "pc_inv cnts s" "cnts_ok cnts" "mpc s = M_Exit"
    using that count_bound [OF that(1,2)] by (auto simp: pc_inv_def total_ok_def count_ok_def requested_def)
  have 1: "mpc s = M_Fail \<or>
      (0 \<le> avail s \<and> avail s + numConsumed s = (\<Sum>i<length cnts. made s i) \<and>
       (\<forall>i<length cnts. ppc s i \<in> {P_Inc, P_Unlock} \<longrightarrow>
          mpc s \<notin> {M_Test, M_Consume, M_Unlock} \<and> (\<forall>j<length cnts. ppc s j \<in> {P_Inc, P_Unlock} \<longrightarrow> j = i)) \<and>
       (mpc s = M_Exit \<longrightarrow> numConsumed s = requested cnts) \<and>
       (mpc s \<noteq> M_Exit \<longrightarrow> (\<exists>t. prodcons_step cnts s t)))"
    if r: "cnts_ok cnts" "(prodcons_any cnts)\<^sup>*\<^sup>* prodcons_init s"
  proof (cases "mpc s = M_Fail")
    case False
    then have i: "pc_inv cnts s"
      using prodcons_all.reachable_inv [OF r(2) run_inv_init [OF r(1)]] by (simp add: run_inv_def)
    have "mpc s \<notin> {M_Test, M_Consume, M_Unlock} \<and> (\<forall>j<length cnts. ppc s j \<in> {P_Inc, P_Unlock} \<longrightarrow> j = i)"
      if "i < length cnts" "ppc s i \<in> {P_Inc, P_Unlock}" for i
    proof -
      have "mtx s = Some (Producer i)" using that i by (simp add: pc_inv_def p_ok_def)
      then show ?thesis using i by (auto simp: pc_inv_def p_ok_def own_ok_def)
    qed
    then show ?thesis
      using i fin [OF i r(1)] prodcons_progress [OF i r(1) _ False] unfolding pc_inv_def count_ok_def by blast
  qed simp
  have 2: "int n \<le> work_left cnts prodcons_init + 1"
    if "cnts_ok cnts" "run 0 = prodcons_init" "\<forall>i<n. prodcons_step cnts (run i) (run (Suc i))"
  proof -
    have "pc_inv cnts prodcons_init" using run_inv_init [OF that(1)] by (simp add: run_inv_def prodcons_init_def)
    from work_left_nonneg [OF this] prodcons_run.run_bounded [of cnts run n] that run_inv_init [OF that(1)]
    show ?thesis by (simp add: prodcons_init_def split: if_splits)
  qed
  have 3: "mpc s = M_Fail \<or> mpc s = M_Exit \<and> numConsumed s = requested cnts"
    if "cnts_ok cnts" "(prodcons_step cnts)\<^sup>*\<^sup>* prodcons_init s" "\<nexists>t. prodcons_step cnts s t"
    using prodcons_run.stuck_final [OF that(2) run_inv_init [OF that(1)] that(3)]
      prodcons_run.reachable_inv [OF that(2) run_inv_init [OF that(1)]] fin by (auto simp: run_inv_def)
  have 4: "mpc s \<noteq> M_Exit" if "\<forall>c\<in>set cnts. c \<le> 0" "(prodcons_any cnts)\<^sup>*\<^sup>* prodcons_init s"
    using idle_run.reachable_inv [OF that(2)] that(1) by (auto simp: idle_inv_def prodcons_init_def)
  from 1 2 3 4 show ?thesis by blast
qed

theorem condvar_consumes_all_witness:
  "(\<exists>t. prodcons_step [2, 1] prodcons_init t) \<and> mpc prodcons_init \<noteq> M_Exit"
proof -
  have "cnts_ok [2, 1]" by (simp add: cnts_ok_def requested_def)
  with condvar_consumes_all [of "[2, 1]" prodcons_init] show ?thesis
    by (auto simp: prodcons_init_def)
qed

end
