(* ===== verification/Counters.thy ===== *)
theory Counters
  imports Steps NumArgs
begin

text \<open>
  Two threads that increment a global variable (threads/thread\_incr.c), under a mutex
  (threads/thread\_incr\_mutex.c) or a semaphore (psem/thread\_incr\_psem.c). A step is one call, test or
  assignment of one thread; loading, incrementing and storing are three steps. \<open>T_Unlock\<close> is the
  unlocking call, if there is one, together with \<open>j++\<close>. The calls on
  the mutex and the semaphore, which are used correctly, do not fail; \<open>pthread_create\<close> may.
\<close>

datatype guard = Unguarded | Mutex | Semaphore
datatype thread_pc = T_New | T_Test | T_Lock | T_Load | T_Inc | T_Store | T_Unlock | T_End
datatype main_pc = M_Create1 | M_Create2 | M_Join1 | M_Join2 | M_Print | M_Exit int | M_Failed

record incr_state =
  glob :: int
  mtx_owner :: "nat option"
  sem_val :: int
  tpc :: "nat \<Rightarrow> thread_pc"
  tj :: "nat \<Rightarrow> int"
  loc :: "nat \<Rightarrow> int"
  main_pc :: main_pc

definition incr_loops :: "string list \<Rightarrow> gn_exit + int" where
  "incr_loops argv = (if 1 < length argv then getInt (Some (argv ! 1)) GN_GT_0 (Some ''num-loops'') else Inr 10000000)"

definition incr_init :: incr_state where
  "incr_init = \<lparr>glob = 0, mtx_owner = None, sem_val = 1, tpc = (\<lambda>_. T_New), tj = (\<lambda>_. 0), loc = (\<lambda>_. 0), main_pc = M_Create1\<rparr>"

text \<open>\<open>pthread_mutex_lock\<close> and \<open>sem_wait\<close>, which wait when they cannot go on, and their counterparts.\<close>

definition acquire :: "guard \<Rightarrow> nat \<Rightarrow> incr_state \<Rightarrow> incr_state option" where
  "acquire g k s =
     (case g of
        Unguarded \<Rightarrow> Some s
      | Mutex \<Rightarrow> if mtx_owner s = None then Some (s\<lparr>mtx_owner := Some k\<rparr>) else None
      | Semaphore \<Rightarrow> if 0 < sem_val s then Some (s\<lparr>sem_val := sem_val s - 1\<rparr>) else None)"

definition release :: "guard \<Rightarrow> incr_state \<Rightarrow> incr_state" where
  "release g s =
     (case g of
        Unguarded \<Rightarrow> s | Mutex \<Rightarrow> s\<lparr>mtx_owner := None\<rparr> | Semaphore \<Rightarrow> s\<lparr>sem_val := sem_val s + 1\<rparr>)"

text \<open>\<open>threadFunc\<close>\<close>

definition tnext :: "guard \<Rightarrow> int \<Rightarrow> nat \<Rightarrow> incr_state \<Rightarrow> incr_state option" where
  "tnext g loops k s =
     (let goto = (\<lambda>p s. s\<lparr>tpc := (tpc s)(k := p)\<rparr>)
      in case tpc s k of
           T_New \<Rightarrow> None
         | T_Test \<Rightarrow> Some (goto (if tj s k < loops then (if g = Unguarded then T_Load else T_Lock) else T_End) s)
         | T_Lock \<Rightarrow> map_option (goto T_Load) (acquire g k s)
         | T_Load \<Rightarrow> Some (goto T_Inc (s\<lparr>loc := (loc s)(k := glob s)\<rparr>))
         | T_Inc \<Rightarrow> Some (goto T_Store (s\<lparr>loc := (loc s)(k := to_signed 32 (loc s k + 1))\<rparr>))
         | T_Store \<Rightarrow> Some (goto T_Unlock (s\<lparr>glob := loc s k\<rparr>))
         | T_Unlock \<Rightarrow> Some (goto T_Test (release g s\<lparr>tj := (tj s)(k := tj s k + 1)\<rparr>))
         | T_End \<Rightarrow> None)"

text \<open>\<open>main\<close>: \<open>ok\<close> says whether \<open>pthread_create\<close> succeeds.\<close>

definition main_next :: "bool \<Rightarrow> incr_state \<Rightarrow> incr_state option" where
  "main_next ok s =
     (case main_pc s of
        M_Create1 \<Rightarrow> Some (if ok then s\<lparr>tpc := (tpc s)(0 := T_Test), main_pc := M_Create2\<rparr> else s\<lparr>main_pc := M_Failed\<rparr>)
      | M_Create2 \<Rightarrow> Some (if ok then s\<lparr>tpc := (tpc s)(1 := T_Test), main_pc := M_Join1\<rparr> else s\<lparr>main_pc := M_Failed\<rparr>)
      | M_Join1 \<Rightarrow> if tpc s 0 = T_End then Some (s\<lparr>main_pc := M_Join2\<rparr>) else None
      | M_Join2 \<Rightarrow> if tpc s 1 = T_End then Some (s\<lparr>main_pc := M_Print\<rparr>) else None
      | M_Print \<Rightarrow> Some (s\<lparr>main_pc := M_Exit (glob s)\<rparr>)
      | M_Exit _ \<Rightarrow> None
      | M_Failed \<Rightarrow> None)"

definition incr_over :: "incr_state \<Rightarrow> bool" where
  "incr_over s \<longleftrightarrow> main_pc s = M_Failed \<or> (\<exists>v. main_pc s = M_Exit v)"

definition incr_step :: "guard \<Rightarrow> int \<Rightarrow> incr_state \<Rightarrow> incr_state \<Rightarrow> bool" where
  "incr_step g loops s s' \<longleftrightarrow>
     \<not> incr_over s \<and> ((\<exists>ok. main_next ok s = Some s') \<or> (\<exists>k<2. tnext g loops k s = Some s'))"

section \<open>The invariant\<close>

text \<open>
  How often a thread has stored, and what it may have in \<open>loc\<close> at each place, with \<open>n\<close> stores done
  and the value \<open>v\<close> in \<open>glob\<close>.
\<close>

definition stored :: "incr_state \<Rightarrow> nat \<Rightarrow> int" where
  "stored s k = tj s k + (if tpc s k = T_Unlock then 1 else 0)"

fun inside :: "thread_pc \<Rightarrow> bool" where
  "inside T_Load = True"
| "inside T_Inc = True"
| "inside T_Store = True"
| "inside T_Unlock = True"
| "inside _ = False"

fun local_ok :: "guard \<Rightarrow> int \<Rightarrow> int \<Rightarrow> int \<Rightarrow> thread_pc \<Rightarrow> int \<Rightarrow> int \<Rightarrow> bool" where
  "local_ok g loops n v T_New j l \<longleftrightarrow> j = 0"
| "local_ok g loops n v T_Test j l \<longleftrightarrow> 0 \<le> j \<and> j \<le> loops"
| "local_ok g loops n v T_Lock j l \<longleftrightarrow> 0 \<le> j \<and> j < loops \<and> g \<noteq> Unguarded"
| "local_ok g loops n v T_Load j l \<longleftrightarrow> 0 \<le> j \<and> j < loops"
| "local_ok g loops n v T_Inc j l \<longleftrightarrow> 0 \<le> j \<and> j < loops \<and> 0 \<le> l \<and> l \<le> n \<and> (g \<noteq> Unguarded \<longrightarrow> l = v)"
| "local_ok g loops n v T_Store j l \<longleftrightarrow> 0 \<le> j \<and> j < loops \<and> 0 \<le> l \<and> l \<le> n + 1 \<and> (g \<noteq> Unguarded \<longrightarrow> l = v + 1)"
| "local_ok g loops n v T_Unlock j l \<longleftrightarrow> 0 \<le> j \<and> j < loops"
| "local_ok g loops n v T_End j l \<longleftrightarrow> j = loops"

text \<open>The two threads are \<open>k\<close> and \<open>i\<close>: the invariant is stated of 0 and 1 and is the same of 1 and 0.\<close>

abbreviation (input) thread_ok :: "guard \<Rightarrow> int \<Rightarrow> incr_state \<Rightarrow> nat \<Rightarrow> nat \<Rightarrow> bool" where
  "thread_ok g loops s k i \<equiv> local_ok g loops (stored s k + stored s i) (glob s) (tpc s k) (tj s k) (loc s k)"

definition guard_ok :: "guard \<Rightarrow> incr_state \<Rightarrow> nat \<Rightarrow> nat \<Rightarrow> bool" where
  "guard_ok g s k i \<longleftrightarrow>
     (case g of
        Unguarded \<Rightarrow> True
      | Mutex \<Rightarrow> mtx_owner s = (if inside (tpc s k) then Some k else if inside (tpc s i) then Some i else None)
      | Semaphore \<Rightarrow> sem_val s = (if inside (tpc s k) \<or> inside (tpc s i) then 0 else 1)) \<and>
     (g \<noteq> Unguarded \<longrightarrow> \<not> (inside (tpc s k) \<and> inside (tpc s i)))"

definition glob_ok :: "guard \<Rightarrow> incr_state \<Rightarrow> nat \<Rightarrow> nat \<Rightarrow> bool" where
  "glob_ok g s k i \<longleftrightarrow>
     0 \<le> glob s \<and> glob s \<le> stored s k + stored s i \<and> (g \<noteq> Unguarded \<longrightarrow> glob s = stored s k + stored s i)"

definition pair_ok :: "guard \<Rightarrow> int \<Rightarrow> incr_state \<Rightarrow> nat \<Rightarrow> nat \<Rightarrow> bool" where
  "pair_ok g loops s k i \<longleftrightarrow>
     0 < loops \<and> 2 * loops \<le> INT_MAX \<and>
     thread_ok g loops s k i \<and> thread_ok g loops s i k \<and> guard_ok g s k i \<and> glob_ok g s k i"

fun main_ok :: "main_pc \<Rightarrow> thread_pc \<Rightarrow> thread_pc \<Rightarrow> int \<Rightarrow> bool" where
  "main_ok M_Create1 p q v \<longleftrightarrow> p = T_New \<and> q = T_New"
| "main_ok M_Create2 p q v \<longleftrightarrow> p \<noteq> T_New \<and> q = T_New"
| "main_ok M_Join1 p q v \<longleftrightarrow> p \<noteq> T_New \<and> q \<noteq> T_New"
| "main_ok M_Join2 p q v \<longleftrightarrow> p = T_End \<and> q \<noteq> T_New"
| "main_ok M_Print p q v \<longleftrightarrow> p = T_End \<and> q = T_End"
| "main_ok (M_Exit x) p q v \<longleftrightarrow> p = T_End \<and> q = T_End \<and> x = v"
| "main_ok M_Failed p q v \<longleftrightarrow> True"

definition incr_inv :: "guard \<Rightarrow> int \<Rightarrow> incr_state \<Rightarrow> bool" where
  "incr_inv g loops s \<longleftrightarrow> pair_ok g loops s 0 1 \<and> main_ok (main_pc s) (tpc s 0) (tpc s 1) (glob s)"

lemma incr_inv_init: "0 < loops \<Longrightarrow> 2 * loops \<le> INT_MAX \<Longrightarrow> incr_inv g loops incr_init"
  by (cases g) (simp_all add: incr_inv_def pair_ok_def incr_init_def guard_ok_def glob_ok_def stored_def)

lemma pair_ok_swap: "pair_ok g loops s k i \<longleftrightarrow> pair_ok g loops s i k"
  by (cases g) (auto simp: pair_ok_def guard_ok_def glob_ok_def add.commute)

text \<open>What one thread does leaves the facts about the other one as they are.\<close>

lemma local_ok_other:
  assumes "local_ok g loops n v p j l" "n \<le> n'" "g \<noteq> Unguarded \<Longrightarrow> inside p \<Longrightarrow> v' = v"
  shows "local_ok g loops n' v' p j l"
  using assms by (cases p) auto

lemma stored_bound:
  assumes "local_ok g loops n v (tpc s k) (tj s k) (loc s k)" "0 < loops"
  shows "0 \<le> stored s k" "stored s k \<le> loops"
  using assms by (cases "tpc s k"; simp add: stored_def)+

lemma loc_fits:
  assumes "pair_ok g loops s k i" "tpc s k = T_Inc"
  shows "to_signed 32 (loc s k + 1) = loc s k + 1"
proof -
  have ok: "thread_ok g loops s k i" "thread_ok g loops s i k" "0 < loops" "2 * loops \<le> INT_MAX"
    using assms(1) by (simp_all add: pair_ok_def)
  have "0 \<le> loc s k" "loc s k \<le> stored s k + stored s i" "stored s k < loops"
    using ok(1) assms(2) by (simp_all add: stored_def)
  moreover have "stored s i \<le> loops" using stored_bound(2) [OF ok(2,3)] .
  ultimately show ?thesis using ok(4) by (intro to_signed32_id) auto
qed

text \<open>One step of thread \<open>k\<close>, place by place.\<close>

lemma acquire_cases:
  assumes "acquire g k s = Some s'"
  obtains "g = Unguarded" "s' = s"
    | "g = Mutex" "mtx_owner s = None" "s' = s\<lparr>mtx_owner := Some k\<rparr>"
    | "g = Semaphore" "0 < sem_val s" "s' = s\<lparr>sem_val := sem_val s - 1\<rparr>"
  using assms by (cases g) (auto simp: acquire_def split: if_splits)

lemma tnext_cases:
  assumes "tnext g loops k s = Some s'"
  obtains (Test) p where "tpc s k = T_Test" "s' = s\<lparr>tpc := (tpc s)(k := p)\<rparr>"
      "p = (if tj s k < loops then if g = Unguarded then T_Load else T_Lock else T_End)"
    | (Lock) t where "tpc s k = T_Lock" "acquire g k s = Some t" "s' = t\<lparr>tpc := (tpc t)(k := T_Load)\<rparr>"
    | (Load) "tpc s k = T_Load" "s' = s\<lparr>tpc := (tpc s)(k := T_Inc), loc := (loc s)(k := glob s)\<rparr>"
    | (Inc) "tpc s k = T_Inc" "s' = s\<lparr>tpc := (tpc s)(k := T_Store), loc := (loc s)(k := to_signed 32 (loc s k + 1))\<rparr>"
    | (Store) "tpc s k = T_Store" "s' = s\<lparr>glob := loc s k, tpc := (tpc s)(k := T_Unlock)\<rparr>"
    | (Unlock) "tpc s k = T_Unlock" "s' = (release g s)\<lparr>tpc := (tpc s)(k := T_Test), tj := (tj s)(k := tj s k + 1)\<rparr>"
  using assms
  by (cases "tpc s k"; cases g) (auto simp: tnext_def Let_def release_def)

lemma tnext_pair_ok:
  assumes "tnext g loops k s = Some s'" "pair_ok g loops s k i" "k \<noteq> i"
  shows "pair_ok g loops s' k i"
  using assms(1)
proof (cases rule: tnext_cases)
  case (Test p)
  then show ?thesis using assms(2,3) by (cases g) (auto simp: pair_ok_def guard_ok_def glob_ok_def stored_def)
next
  case (Lock t)
  from Lock(2) show ?thesis
    by (cases rule: acquire_cases)
      (use Lock(1,3) assms(2,3) in \<open>auto simp: pair_ok_def guard_ok_def glob_ok_def stored_def split: if_splits\<close>)
next
  case Load
  then show ?thesis using assms(2,3)
    by (cases g) (auto simp: pair_ok_def guard_ok_def glob_ok_def stored_def split: if_splits)
next
  case Inc
  then show ?thesis using assms(2,3) loc_fits [OF assms(2) Inc(1)]
    by (cases g) (auto simp: pair_ok_def guard_ok_def glob_ok_def stored_def split: if_splits)
next
  case Store
  have "thread_ok g loops s' i k"
    using local_ok_other [of g loops "stored s i + stored s k" "glob s" "tpc s i" "tj s i" "loc s i" "stored s' i + stored s' k" "glob s'"]
      assms(2,3) Store by (auto simp: pair_ok_def guard_ok_def stored_def)
  then show ?thesis using assms(2,3) Store
    by (cases g) (auto simp: pair_ok_def guard_ok_def glob_ok_def stored_def split: if_splits)
next
  case Unlock
  then show ?thesis using assms(2,3)
    by (cases g) (auto simp: pair_ok_def guard_ok_def glob_ok_def stored_def release_def split: if_splits)
qed

lemma tnext_inv:
  assumes "tnext g loops k s = Some s'" "incr_inv g loops s" "k < 2" "\<not> incr_over s"
  shows "incr_inv g loops s'"
proof -
  have ok: "pair_ok g loops s' 0 1"
    using tnext_pair_ok [OF assms(1), of "1 - k"] assms(2) less_2_cases [OF assms(3)] pair_ok_swap
    by (auto simp: incr_inv_def)
  have moved: "main_pc s' = main_pc s" "tpc s k \<noteq> T_New" "tpc s k \<noteq> T_End" "tpc s' k \<noteq> T_New"
    "\<And>i. i \<noteq> k \<Longrightarrow> tpc s' i = tpc s i"
    using assms(1) by (cases rule: tnext_cases; cases g; auto simp: acquire_def release_def split: if_splits)+
  have "main_ok (main_pc s') (tpc s' 0) (tpc s' 1) (glob s')"
    using assms(2,4) moved less_2_cases [OF assms(3)]
    by (cases "main_pc s") (auto simp: incr_inv_def incr_over_def)
  with ok show ?thesis by (simp add: incr_inv_def)
qed

lemma pair_ok_main [simp]: "pair_ok g loops (s\<lparr>main_pc := m\<rparr>) k i = pair_ok g loops s k i"
  by (cases g) (simp_all add: pair_ok_def guard_ok_def glob_ok_def stored_def)

lemma pair_ok_start:
  assumes "pair_ok g loops s k i" "tpc s k = T_New" "k \<noteq> i"
  shows "pair_ok g loops (s\<lparr>tpc := (tpc s)(k := T_Test)\<rparr>) k i"
  using assms by (cases g) (auto simp: pair_ok_def guard_ok_def glob_ok_def stored_def split: if_splits)

lemma main_next_inv:
  assumes "main_next ok s = Some s'" "incr_inv g loops s"
  shows "incr_inv g loops s'"
proof -
  have start: "tpc s 0 = T_New \<Longrightarrow> pair_ok g loops (s\<lparr>tpc := (tpc s)(0 := T_Test)\<rparr>) 0 1"
    "tpc s 1 = T_New \<Longrightarrow> pair_ok g loops (s\<lparr>tpc := (tpc s)(1 := T_Test)\<rparr>) 0 1"
    using assms(2) pair_ok_start [of g loops s 0 1] pair_ok_start [of g loops s 1 0] pair_ok_swap
    by (simp_all add: incr_inv_def)
  have eq: "s\<lparr>tpc := f, main_pc := m\<rparr> = s\<lparr>tpc := f\<rparr>\<lparr>main_pc := m\<rparr>" for f m by simp
  show ?thesis
    using assms start
    by (cases "main_pc s"; cases ok) (auto simp: main_next_def incr_inv_def simp del: incr_state.update_convs split: if_splits)
qed

section \<open>Every run ends\<close>

fun steps_left :: "thread_pc \<Rightarrow> nat" where
  "steps_left T_New = 8" | "steps_left T_Test = 7" | "steps_left T_Lock = 6" | "steps_left T_Load = 5"
| "steps_left T_Inc = 4" | "steps_left T_Store = 3" | "steps_left T_Unlock = 2" | "steps_left T_End = 0"

fun calls_left :: "main_pc \<Rightarrow> nat" where
  "calls_left M_Create1 = 5" | "calls_left M_Create2 = 4" | "calls_left M_Join1 = 3" | "calls_left M_Join2 = 2"
| "calls_left M_Print = 1" | "calls_left (M_Exit _) = 0" | "calls_left M_Failed = 0"

definition incr_work :: "int \<Rightarrow> incr_state \<Rightarrow> nat" where
  "incr_work loops s =
     7 * nat (loops - tj s 0) + steps_left (tpc s 0) + 7 * nat (loops - tj s 1) + steps_left (tpc s 1) + calls_left (main_pc s)"

lemma tnext_work:
  assumes "tnext g loops k s = Some s'" "incr_inv g loops s" "k < 2"
  shows "incr_work loops s' < incr_work loops s"
proof -
  have l: "tpc s k = T_Unlock \<Longrightarrow> tj s k < loops"
    using assms(2) less_2_cases [OF assms(3)] by (auto simp: incr_inv_def pair_ok_def)
  show ?thesis
    using assms(1) less_2_cases [OF assms(3)] l
    by (cases rule: tnext_cases; cases g) (auto simp: incr_work_def acquire_def release_def split: if_splits)
qed

lemma main_next_work:
  assumes "main_next ok s = Some s'" "incr_inv g loops s"
  shows "incr_work loops s' < incr_work loops s"
  using assms by (cases "main_pc s"; cases ok) (auto simp: main_next_def incr_work_def incr_inv_def split: if_splits)

text \<open>While \<open>main\<close> waits, some thread can go on.\<close>

lemma inside_goes_on: "inside (tpc s k) \<Longrightarrow> \<exists>t. tnext g loops k s = Some t"
  by (cases "tpc s k") (simp_all add: tnext_def Let_def)

lemma threads_progress:
  assumes "pair_ok g loops s k i" "tpc s k \<noteq> T_New" "tpc s k \<noteq> T_End"
  shows "\<exists>t. tnext g loops k s = Some t \<or> tnext g loops i s = Some t"
proof (cases "inside (tpc s i)")
  case True
  then show ?thesis using inside_goes_on [of s i] by blast
next
  case False
  then show ?thesis using assms
    by (cases "tpc s k"; cases g) (auto simp: pair_ok_def guard_ok_def tnext_def Let_def acquire_def)
qed

lemma incr_progress:
  assumes "incr_inv g loops s" "\<not> incr_over s"
  shows "\<exists>t. incr_step g loops s t"
proof -
  have p: "pair_ok g loops s 0 1" "pair_ok g loops s 1 0" "main_ok (main_pc s) (tpc s 0) (tpc s 1) (glob s)"
    using assms(1) pair_ok_swap by (auto simp: incr_inv_def)
  have t: "\<exists>t. incr_step g loops s t" if "tnext g loops 0 s = Some u \<or> tnext g loops 1 s = Some u" for u
  proof -
    have "(0 :: nat) < 2" "(1 :: nat) < 2" by simp_all
    with that assms(2) show ?thesis unfolding incr_step_def by blast
  qed
  have m: "\<exists>t. incr_step g loops s t" if "main_next True s \<noteq> None"
    using that assms(2) by (auto simp: incr_step_def)
  show ?thesis
  proof (cases "main_next True s")
    case None
    then have "tpc s 0 \<noteq> T_New \<and> tpc s 0 \<noteq> T_End \<or> tpc s 1 \<noteq> T_New \<and> tpc s 1 \<noteq> T_End"
      using assms(2) p(3) by (cases "main_pc s") (auto simp: main_next_def incr_over_def split: if_splits)
    then show ?thesis using threads_progress [OF p(1)] threads_progress [OF p(2)] t by blast
  qed (simp add: m)
qed

interpretation incr_run: live_system "incr_step g loops" "incr_inv g loops" "incr_work loops" incr_over
  for g loops
proof
  fix s t assume a: "incr_inv g loops s" "incr_step g loops s t"
  show "incr_inv g loops t" "incr_work loops t < incr_work loops s"
    using a tnext_inv main_next_inv tnext_work main_next_work unfolding incr_step_def by blast+
qed (rule incr_progress)

lemma incr_exit_value:
  assumes "incr_inv g loops s" "main_pc s = M_Exit v"
  shows "0 \<le> v" "v \<le> 2 * loops" "g \<noteq> Unguarded \<Longrightarrow> v = 2 * loops"
  using assms by (auto simp: incr_inv_def pair_ok_def glob_ok_def stored_def)

section \<open>Without a guard updates are lost\<close>

text \<open>Both threads in lockstep: each round loads the same value twice. A list of threads is a schedule.\<close>

fun tnexts :: "guard \<Rightarrow> int \<Rightarrow> nat list \<Rightarrow> incr_state \<Rightarrow> incr_state option" where
  "tnexts g loops [] s = Some s"
| "tnexts g loops (k # ks) s =
     (if incr_over s \<or> \<not> k < 2 then None else Option.bind (tnext g loops k s) (tnexts g loops ks))"

lemma tnexts_steps: "tnexts g loops ks s = Some t \<Longrightarrow> (incr_step g loops)\<^sup>*\<^sup>* s t"
proof (induction ks arbitrary: s)
  case (Cons k ks)
  then obtain u where "incr_step g loops s u" "tnexts g loops ks u = Some t"
    by (auto simp: incr_step_def bind_eq_Some_conv split: if_splits)
  with Cons.IH show ?case by (blast intro: converse_rtranclp_into_rtranclp)
qed simp

definition lockstep :: "int \<Rightarrow> thread_pc \<Rightarrow> incr_state" where
  "lockstep j p = \<lparr>glob = j, mtx_owner = None, sem_val = 1, tpc = (\<lambda>k. if k < 2 then p else T_New),
     tj = (\<lambda>k. if k < 2 then j else 0), loc = (\<lambda>k. if k < 2 then j else 0), main_pc = M_Join1\<rparr>"

lemma lockstep_round:
  assumes "0 \<le> j" "j < loops" "loops \<le> INT_MAX"
  shows "(incr_step Unguarded loops)\<^sup>*\<^sup>* (lockstep j T_Test) (lockstep (j + 1) T_Test)"
proof (rule tnexts_steps)
  show "tnexts Unguarded loops [0,1,0,1,0,1,0,1,0,1] (lockstep j T_Test) = Some (lockstep (j + 1) T_Test)"
    using assms by (simp add: lockstep_def tnext_def Let_def release_def incr_over_def fun_eq_iff)
qed

lemma lockstep_rounds:
  assumes "int n \<le> loops" "loops \<le> INT_MAX"
  shows "(incr_step Unguarded loops)\<^sup>*\<^sup>* (lockstep 0 T_Test) (lockstep (int n) T_Test)"
  using assms(1)
proof (induction n)
  case (Suc n)
  then show ?case
    using lockstep_round [of "int n" loops] assms(2) by (auto simp: add.commute intro: rtranclp_trans)
qed simp

lemma lost_updates:
  assumes "0 < loops" "loops \<le> INT_MAX"
  shows "\<exists>s. (incr_step Unguarded loops)\<^sup>*\<^sup>* incr_init s \<and> main_pc s = M_Exit loops"
proof -
  let ?step = "incr_step Unguarded loops" and ?e = "lockstep loops T_End"
  have m: "?step s t" if "main_next True s = Some t" "\<not> incr_over s" for s t
    using that by (auto simp: incr_step_def)
  let ?c1 = "incr_init\<lparr>tpc := (tpc incr_init)(0 := T_Test), main_pc := M_Create2\<rparr>"
  have "?step incr_init ?c1"
    by (rule m) (simp_all add: main_next_def incr_init_def incr_over_def)
  moreover have "?step ?c1 (lockstep 0 T_Test)"
    by (rule m) (simp_all add: main_next_def incr_init_def incr_over_def lockstep_def fun_eq_iff)
  moreover have "?step\<^sup>*\<^sup>* (lockstep 0 T_Test) (lockstep loops T_Test)"
    using lockstep_rounds [of "nat loops"] assms by simp
  moreover have "?step\<^sup>*\<^sup>* (lockstep loops T_Test) ?e"
    by (rule tnexts_steps [where ks = "[0, 1]"])
      (simp add: lockstep_def tnext_def Let_def incr_over_def fun_eq_iff)
  moreover have "?step ?e (?e\<lparr>main_pc := M_Join2\<rparr>)"
    "?step (?e\<lparr>main_pc := M_Join2\<rparr>) (?e\<lparr>main_pc := M_Print\<rparr>)"
    "?step (?e\<lparr>main_pc := M_Print\<rparr>) (?e\<lparr>main_pc := M_Exit loops\<rparr>)"
    by (rule m; simp add: main_next_def incr_over_def lockstep_def)+
  ultimately have "?step\<^sup>*\<^sup>* incr_init (?e\<lparr>main_pc := M_Exit loops\<rparr>)"
    by (meson converse_rtranclp_into_rtranclp rtranclp.rtrancl_into_rtrancl rtranclp_trans)
  moreover have "main_pc (?e\<lparr>main_pc := M_Exit loops\<rparr>) = M_Exit loops" by simp
  ultimately show ?thesis by blast
qed

lemma incr_loops_range:
  assumes "incr_loops argv = Inr loops"
  shows "0 < loops" "loops \<le> INT_MAX"
  using assms getNum_range(4) [of "''getInt''" _ GN_GT_0]
  by (auto simp: incr_loops_def getInt_def split: if_splits sum.splits)

text \<open>
  C12: with a mutex or a semaphore the two threads lose no update. Whatever the schedule, the threads are
  never both between the lock and the unlock, a program that is not over can take a step, no run is longer
  than \<open>14 * loops + 21\<close> steps, and a run that has come to its end has failed to create a thread or has
  printed \<open>2 * loops\<close>. Without a guard it prints at most that, and for every \<open>loops\<close> some schedule
  prints only \<open>loops\<close>.
\<close>

theorem counters_correct:
  assumes "incr_loops argv = Inr loops" "2 * loops \<le> INT_MAX"
  shows "((incr_step g loops)\<^sup>*\<^sup>* incr_init s \<longrightarrow>
      (g \<noteq> Unguarded \<longrightarrow> \<not> (inside (tpc s 0) \<and> inside (tpc s 1))) \<and>
      (\<not> incr_over s \<longrightarrow> (\<exists>t. incr_step g loops s t)) \<and>
      (main_pc s = M_Exit v \<longrightarrow> 0 \<le> v \<and> v \<le> 2 * loops \<and> (g \<noteq> Unguarded \<longrightarrow> v = 2 * loops))) \<and>
    (run 0 = incr_init \<and> (\<forall>i<n. incr_step g loops (run i) (run (Suc i))) \<longrightarrow> int n \<le> 14 * loops + 21) \<and>
    (\<exists>s. (incr_step Unguarded loops)\<^sup>*\<^sup>* incr_init s \<and> main_pc s = M_Exit loops)"
proof -
  note range = incr_loops_range [OF assms(1)]
  have init: "incr_inv g loops incr_init" using incr_inv_init [OF range(1) assms(2)] .
  have 1: "(g \<noteq> Unguarded \<longrightarrow> \<not> (inside (tpc s 0) \<and> inside (tpc s 1))) \<and>
      (\<not> incr_over s \<longrightarrow> (\<exists>t. incr_step g loops s t)) \<and>
      (main_pc s = M_Exit v \<longrightarrow> 0 \<le> v \<and> v \<le> 2 * loops \<and> (g \<noteq> Unguarded \<longrightarrow> v = 2 * loops))"
    if "(incr_step g loops)\<^sup>*\<^sup>* incr_init s"
  proof -
    have inv: "incr_inv g loops s" using incr_run.reachable_inv [OF that init] .
    then have "g \<noteq> Unguarded \<longrightarrow> \<not> (inside (tpc s 0) \<and> inside (tpc s 1))"
      by (simp add: incr_inv_def pair_ok_def guard_ok_def)
    with incr_progress [OF inv] incr_exit_value [OF inv] show ?thesis by blast
  qed
  have 2: "int n \<le> 14 * loops + 21"
    if "run 0 = incr_init" "\<forall>i<n. incr_step g loops (run i) (run (Suc i))"
    using incr_run.run_bounded [OF _ that(2)] that(1) init range(1) by (simp add: incr_work_def incr_init_def)
  from 1 2 lost_updates [OF range] show ?thesis by blast
qed

theorem counters_correct_witness:
  "\<not> incr_over incr_init \<and> (\<exists>t. incr_step Mutex 10000000 incr_init t)"
proof -
  have "incr_loops [''thread_incr_mutex''] = Inr 10000000" by (simp add: incr_loops_def)
  with counters_correct [of "[''thread_incr_mutex'']" 10000000 Mutex incr_init] show ?thesis
    by (simp add: incr_over_def) (simp add: incr_init_def)
qed

end
