(* ===== verification/Races.thy ===== *)
theory Races
  imports Steps Files CString
begin

text \<open>
  Two programs that show what is atomic and what is not: appending to a file byte by byte
  (05-file-io-further-details/atomic\_append.c) and creating a file after a look whether it exists
  (fileio/bad\_exclusive\_open.c). Any number of processes run side by side on one file; a step is
  one system call or test of one process.
\<close>

section \<open>atomic\_append\<close>

datatype append_pc = A_Start | A_Test | A_Seek | A_Write | A_Close | A_Exit int

record append_run =
  data :: "string option"
  apc :: "nat \<Rightarrow> append_pc"
  aoff :: "nat \<Rightarrow> nat"
  ai :: "nat \<Rightarrow> int"

definition num_bytes :: "string list \<Rightarrow> int" where
  "num_bytes argv = fst (strtol (argv ! 2) 10)"

text \<open>With two arguments the file is opened with \<open>O_APPEND\<close>.\<close>

definition append_mode :: "string list \<Rightarrow> bool" where
  "append_mode argv \<longleftrightarrow> length argv = 3"

definition append_init :: "string option \<Rightarrow> append_run" where
  "append_init d = \<lparr>data = d, apc = (\<lambda>_. A_Start), aoff = (\<lambda>_. 0), ai = (\<lambda>_. 0)\<rparr>"

text \<open>
  \<open>main\<close> of process \<open>k\<close>. When \<open>faulty\<close> holds, \<open>open\<close> and \<open>write\<close> may fail; the program does not
  look at the result of \<open>write\<close>.
\<close>

inductive astep :: "bool \<Rightarrow> (nat \<Rightarrow> string list) \<Rightarrow> nat \<Rightarrow> append_run \<Rightarrow> append_run \<Rightarrow> bool" for faulty argv k where
  a_usage: "apc s k = A_Start \<Longrightarrow> length (argv k) < 3 \<or> 4 < length (argv k) \<Longrightarrow>
     astep faulty argv k s (s\<lparr>apc := (apc s)(k := A_Exit 1)\<rparr>)"
| a_open: "apc s k = A_Start \<Longrightarrow> 3 \<le> length (argv k) \<Longrightarrow> length (argv k) \<le> 4 \<Longrightarrow>
     astep faulty argv k s (s\<lparr>data := (case data s of None \<Rightarrow> Some [] | Some d \<Rightarrow> Some d),
       aoff := (aoff s)(k := 0), ai := (ai s)(k := 0), apc := (apc s)(k := A_Test)\<rparr>)"
| a_open_fails: "apc s k = A_Start \<Longrightarrow> faulty \<Longrightarrow> 3 \<le> length (argv k) \<Longrightarrow> length (argv k) \<le> 4 \<Longrightarrow>
     astep faulty argv k s (s\<lparr>apc := (apc s)(k := A_Exit 1)\<rparr>)"
| a_test: "apc s k = A_Test \<Longrightarrow>
     astep faulty argv k s (s\<lparr>apc := (apc s)(k := if ai s k < num_bytes (argv k)
       then (if append_mode (argv k) then A_Write else A_Seek) else A_Close)\<rparr>)"
| a_seek: "apc s k = A_Seek \<Longrightarrow> data s = Some d \<Longrightarrow>
     astep faulty argv k s (s\<lparr>aoff := (aoff s)(k := length d), apc := (apc s)(k := A_Write)\<rparr>)"
| a_write: "apc s k = A_Write \<Longrightarrow> data s = Some d \<Longrightarrow>
     p = (if append_mode (argv k) then length d else aoff s k) \<Longrightarrow>
     astep faulty argv k s (s\<lparr>data := Some (write_at p ''i'' d), aoff := (aoff s)(k := p + 1),
       ai := (ai s)(k := to_signed 32 (ai s k + 1)), apc := (apc s)(k := A_Test)\<rparr>)"
| a_write_fails: "apc s k = A_Write \<Longrightarrow> faulty \<Longrightarrow>
     astep faulty argv k s (s\<lparr>ai := (ai s)(k := to_signed 32 (ai s k + 1)), apc := (apc s)(k := A_Test)\<rparr>)"
| a_close: "apc s k = A_Close \<Longrightarrow> astep faulty argv k s (s\<lparr>apc := (apc s)(k := A_Exit 0)\<rparr>)"

definition append_step :: "bool \<Rightarrow> nat \<Rightarrow> (nat \<Rightarrow> string list) \<Rightarrow> append_run \<Rightarrow> append_run \<Rightarrow> bool" where
  "append_step faulty n argv s s' \<longleftrightarrow> (\<exists>k<n. astep faulty argv k s s')"

text \<open>
  The file is its first contents and some bytes behind it: at most one for every turn that a
  process has made, and exactly so many when all append and nothing fails.
\<close>

definition turns :: "nat \<Rightarrow> append_run \<Rightarrow> int" where
  "turns n s = (\<Sum>k<n. ai s k)"

definition before :: "string option \<Rightarrow> string" where
  "before d = (case d of None \<Rightarrow> [] | Some t \<Rightarrow> t)"

definition proc_ok :: "string option \<Rightarrow> (nat \<Rightarrow> string list) \<Rightarrow> append_run \<Rightarrow> nat \<Rightarrow> bool" where
  "proc_ok d0 argv s k \<longleftrightarrow>
     0 \<le> ai s k \<and> (apc s k \<noteq> A_Start \<and> (\<forall>c. apc s k \<noteq> A_Exit c) \<longrightarrow> data s \<noteq> None) \<and>
     (apc s k \<in> {A_Seek, A_Write} \<longrightarrow> ai s k < num_bytes (argv k)) \<and>
     (apc s k = A_Start \<longrightarrow> ai s k = 0) \<and> ai s k \<le> max 0 (num_bytes (argv k)) \<and>
     (apc s k = A_Close \<or> apc s k = A_Exit 0 \<longrightarrow> ai s k = max 0 (num_bytes (argv k))) \<and>
     (apc s k = A_Write \<and> \<not> append_mode (argv k) \<longrightarrow>
        length (before d0) \<le> aoff s k \<and> aoff s k \<le> length (before (data s)))"

definition file_ok :: "bool \<Rightarrow> nat \<Rightarrow> string option \<Rightarrow> (nat \<Rightarrow> string list) \<Rightarrow> append_run \<Rightarrow> bool" where
  "file_ok faulty n d0 argv s \<longleftrightarrow>
     (\<exists>m. before (data s) = before d0 @ replicate m CHR ''i'' \<and> int m \<le> turns n s \<and>
        (\<not> faulty \<and> (\<forall>k<n. append_mode (argv k)) \<longrightarrow> int m = turns n s))"

definition append_inv :: "bool \<Rightarrow> nat \<Rightarrow> string option \<Rightarrow> (nat \<Rightarrow> string list) \<Rightarrow> append_run \<Rightarrow> bool" where
  "append_inv faulty n d0 argv s \<longleftrightarrow>
     (\<forall>k<n. num_bytes (argv k) \<le> INT_MAX) \<and> (\<forall>k<n. proc_ok d0 argv s k) \<and> file_ok faulty n d0 argv s"

lemma put_i:
  assumes "length d0 \<le> p" "p \<le> length (d0 @ replicate m CHR ''i'')"
  shows "write_at p ''i'' (d0 @ replicate m CHR ''i'') =
    d0 @ replicate (if p = length d0 + m then Suc m else m) CHR ''i''"
proof (cases "p = length d0 + m")
  case True
  then show ?thesis using write_at_end [of "d0 @ replicate m CHR ''i''" "''i''"] by (simp add: replicate_append_same)
next
  case False
  have "write_at p ''i'' (d0 @ replicate m CHR ''i'') ! j = (d0 @ replicate m CHR ''i'') ! j"
    if "j < length d0 + m" for j
  proof -
    have "j < length (write_at p ''i'' (d0 @ replicate m CHR ''i''))" using that by (simp add: length_write_at)
    from nth_write_at [OF this] show ?thesis using assms False that by (auto simp: nth_append)
  qed
  then show ?thesis
    using assms False by (intro nth_equalityI) (auto simp: length_write_at)
qed

lemma astep_frame:
  assumes "astep faulty argv k s s'" "j \<noteq> k"
  shows "apc s' j = apc s j" "aoff s' j = aoff s j" "ai s' j = ai s j"
  using assms by (cases rule: astep.cases; simp)+

lemma astep_data:
  assumes "astep faulty argv k s s'" "proc_ok d0 argv s k" "file_ok faulty n d0 argv s"
    "k < n" "num_bytes (argv k) \<le> INT_MAX"
  shows "length (before (data s)) \<le> length (before (data s'))" "data s \<noteq> None \<longrightarrow> data s' \<noteq> None"
proof -
  have "length (before (data s)) \<le> length (before (data s')) \<and> (data s \<noteq> None \<longrightarrow> data s' \<noteq> None)"
    using assms(1)
  proof cases
    case (a_write d p)
    then show ?thesis by (simp add: before_def length_write_at)
  qed (auto simp: before_def split: option.splits)
  then show "length (before (data s)) \<le> length (before (data s'))" "data s \<noteq> None \<longrightarrow> data s' \<noteq> None" by simp_all
qed

lemma proc_ok_astep:
  assumes "astep faulty argv k s s'" "proc_ok d0 argv s k" "file_ok faulty n d0 argv s"
    "k < n" "num_bytes (argv k) \<le> INT_MAX"
  shows "proc_ok d0 argv s' k"
proof -
  obtain m where m: "before (data s) = before d0 @ replicate m CHR ''i''" using assms(3) by (auto simp: file_ok_def)
  from assms(1) show ?thesis
    using assms(2,5) m by (cases rule: astep.cases) (auto simp: proc_ok_def before_def split: option.splits)
qed

lemma turns_astep:
  assumes "astep faulty argv k s s'" "k < n"
  shows "turns n s' = turns n s - ai s k + ai s' k"
  unfolding turns_def by (rule sum_upd [OF assms(2)]) (use astep_frame [OF assms(1)] in auto)

lemma file_ok_astep:
  assumes "astep faulty argv k s s'" "proc_ok d0 argv s k" "file_ok faulty n d0 argv s"
    "k < n" "num_bytes (argv k) \<le> INT_MAX"
  shows "file_ok faulty n d0 argv s'"
proof -
  obtain m where m: "before (data s) = before d0 @ replicate m CHR ''i''" "int m \<le> turns n s"
      "\<not> faulty \<and> (\<forall>k<n. append_mode (argv k)) \<longrightarrow> int m = turns n s"
    using assms(3) by (auto simp: file_ok_def)
  note t = turns_astep [OF assms(1,4)]
  have keep: "file_ok faulty n d0 argv s'" if "before (data s') = before (data s)" "ai s' k = ai s k"
    using that m t unfolding file_ok_def by auto
  from assms(1) show ?thesis
  proof cases
    case (a_write d p)
    have ai: "ai s' k = ai s k + 1" using a_write assms(2,5) by (simp add: proc_ok_def)
    have p: "length (before d0) \<le> p" "p \<le> length (before d0 @ replicate m CHR ''i'')"
      using a_write m(1) assms(2) by (auto simp: proc_ok_def before_def split: if_splits)
    let ?m = "if p = length (before d0) + m then Suc m else m"
    have "before (data s') = before d0 @ replicate ?m CHR ''i''"
      using put_i [OF p] a_write m(1) by (simp add: before_def)
    moreover have "int ?m \<le> turns n s'" using m(2) t ai by simp
    moreover have "int ?m = turns n s'" if "\<not> faulty \<and> (\<forall>k<n. append_mode (argv k))"
    proof -
      have "p = length (before d0) + m" using that assms(4) a_write m(1) by (simp add: before_def)
      then show ?thesis using m(3) that t ai by simp
    qed
    ultimately show ?thesis unfolding file_ok_def by blast
  next
    case a_write_fails
    then have "ai s' k = ai s k + 1" using assms(2,5) by (simp add: proc_ok_def)
    then show ?thesis using a_write_fails m t unfolding file_ok_def by auto
  next
    case a_open
    then show ?thesis using keep assms(2) by (auto simp: before_def proc_ok_def split: option.splits)
  qed (rule keep; simp)+
qed

interpretation append_runs: invariant_system "append_step faulty n argv" "append_inv faulty n d0 argv" for faulty n argv d0
proof
  fix s t assume i: "append_inv faulty n d0 argv s" and "append_step faulty n argv s t"
  then obtain k where k: "k < n" "astep faulty argv k s t" by (auto simp: append_step_def)
  have p: "proc_ok d0 argv s j" "num_bytes (argv j) \<le> INT_MAX" if "j < n" for j
    using i that by (auto simp: append_inv_def)
  have f: "file_ok faulty n d0 argv s" using i by (simp add: append_inv_def)
  have "proc_ok d0 argv t j" if "j < n" for j
  proof (cases "j = k")
    case True
    then show ?thesis using proc_ok_astep [OF k(2) p(1) f k(1) p(2)] k(1) by simp
  next
    case False
    show ?thesis
      using p(1) [OF that] astep_frame [OF k(2) False] astep_data [OF k(2) p(1) f k(1) p(2)] k(1)
      by (auto simp: proc_ok_def)
  qed
  then show "append_inv faulty n d0 argv t"
    using i file_ok_astep [OF k(2) p(1) f k(1) p(2)] k(1) by (simp add: append_inv_def)
qed

lemma append_inv_init:
  "\<forall>k<n. num_bytes (argv k) \<le> INT_MAX \<Longrightarrow> append_inv faulty n d0 argv (append_init d0)"
  by (auto simp: append_inv_def append_init_def proc_ok_def file_ok_def turns_def intro: exI [of _ 0])

section \<open>bad\_exclusive\_open\<close>

datatype excl_outcome = X_Usage | X_Already | X_Created | X_Error errno
datatype excl_pc = X_Start | X_Missing | X_Slept | X_End excl_outcome

text \<open>\<open>creator\<close> is the process whose \<open>open\<close> made the file; the program does not know it.\<close>

record excl_run =
  present :: bool
  xpc :: "nat \<Rightarrow> excl_pc"
  creator :: "nat option"

definition excl_init :: "bool \<Rightarrow> excl_run" where
  "excl_init b = \<lparr>present = b, xpc = (\<lambda>_. X_Start), creator = None\<rparr>"

text \<open>\<open>err1 k\<close> and \<open>err2 k\<close>: the error, other than a missing file, of the two calls of \<open>open\<close>.\<close>

inductive xstep :: "(nat \<Rightarrow> string list) \<Rightarrow> (nat \<Rightarrow> errno option) \<Rightarrow> (nat \<Rightarrow> errno option) \<Rightarrow> nat \<Rightarrow>
    excl_run \<Rightarrow> excl_run \<Rightarrow> bool" for argv err1 err2 k where
  x_usage: "xpc s k = X_Start \<Longrightarrow> length (argv k) < 2 \<or> argv k ! 1 = ''--help'' \<Longrightarrow>
     xstep argv err1 err2 k s (s\<lparr>xpc := (xpc s)(k := X_End X_Usage)\<rparr>)"
| x_exists: "xpc s k = X_Start \<Longrightarrow> 2 \<le> length (argv k) \<Longrightarrow> argv k ! 1 \<noteq> ''--help'' \<Longrightarrow> err1 k = None \<Longrightarrow> present s \<Longrightarrow>
     xstep argv err1 err2 k s (s\<lparr>xpc := (xpc s)(k := X_End X_Already)\<rparr>)"
| x_error: "xpc s k = X_Start \<Longrightarrow> 2 \<le> length (argv k) \<Longrightarrow> argv k ! 1 \<noteq> ''--help'' \<Longrightarrow> err1 k = Some e \<Longrightarrow> e \<noteq> ENOENT \<Longrightarrow>
     xstep argv err1 err2 k s (s\<lparr>xpc := (xpc s)(k := X_End (X_Error e))\<rparr>)"
| x_missing: "xpc s k = X_Start \<Longrightarrow> 2 \<le> length (argv k) \<Longrightarrow> argv k ! 1 \<noteq> ''--help'' \<Longrightarrow> err1 k = None \<Longrightarrow> \<not> present s \<Longrightarrow>
     xstep argv err1 err2 k s (s\<lparr>xpc := (xpc s)(k := X_Missing)\<rparr>)"
| x_sleep: "xpc s k = X_Missing \<Longrightarrow> 2 < length (argv k) \<Longrightarrow>
     xstep argv err1 err2 k s (s\<lparr>xpc := (xpc s)(k := X_Slept)\<rparr>)"
| x_create: "xpc s k = (if 2 < length (argv k) then X_Slept else X_Missing) \<Longrightarrow> err2 k = None \<Longrightarrow>
     xstep argv err1 err2 k s (s\<lparr>present := True, creator := (if present s then creator s else Some k),
       xpc := (xpc s)(k := X_End X_Created)\<rparr>)"
| x_create_fails: "xpc s k = (if 2 < length (argv k) then X_Slept else X_Missing) \<Longrightarrow> err2 k = Some e \<Longrightarrow>
     xstep argv err1 err2 k s (s\<lparr>xpc := (xpc s)(k := X_End (X_Error e))\<rparr>)"

definition excl_step :: "nat \<Rightarrow> (nat \<Rightarrow> string list) \<Rightarrow> (nat \<Rightarrow> errno option) \<Rightarrow> (nat \<Rightarrow> errno option) \<Rightarrow>
    excl_run \<Rightarrow> excl_run \<Rightarrow> bool" where
  "excl_step n argv err1 err2 s s' \<longleftrightarrow> (\<exists>k<n. xstep argv err1 err2 k s s')"

definition excl_inv :: "bool \<Rightarrow> excl_run \<Rightarrow> bool" where
  "excl_inv b s \<longleftrightarrow>
     (present s \<longleftrightarrow> b \<or> creator s \<noteq> None) \<and> (b \<longrightarrow> creator s = None) \<and>
     (\<forall>k. creator s = Some k \<longrightarrow> xpc s k = X_End X_Created) \<and>
     (\<forall>k. xpc s k = X_End X_Already \<or> xpc s k = X_End X_Created \<longrightarrow> present s)"

lemma excl_inv_xstep: "xstep argv err1 err2 k s t \<Longrightarrow> excl_inv b s \<Longrightarrow> excl_inv b t"
  by (cases rule: xstep.cases, assumption) (auto simp: excl_inv_def split: if_splits)

interpretation excl_runs: invariant_system "excl_step n argv err1 err2" "excl_inv b" for n argv err1 err2 b
  by unfold_locales (auto simp: excl_step_def intro: excl_inv_xstep)

section \<open>Schedules\<close>

text \<open>The step that a process takes when nothing fails, and the run of a list of processes.\<close>

definition anext :: "(nat \<Rightarrow> string list) \<Rightarrow> nat \<Rightarrow> append_run \<Rightarrow> append_run option" where
  "anext argv k s =
     (case apc s k of
        A_Start \<Rightarrow> if 3 \<le> length (argv k) \<and> length (argv k) \<le> 4
          then Some (s\<lparr>data := (case data s of None \<Rightarrow> Some [] | Some d \<Rightarrow> Some d),
                 aoff := (aoff s)(k := 0), ai := (ai s)(k := 0), apc := (apc s)(k := A_Test)\<rparr>)
          else Some (s\<lparr>apc := (apc s)(k := A_Exit 1)\<rparr>)
      | A_Test \<Rightarrow> Some (s\<lparr>apc := (apc s)(k := if ai s k < num_bytes (argv k)
          then (if append_mode (argv k) then A_Write else A_Seek) else A_Close)\<rparr>)
      | A_Seek \<Rightarrow> map_option (\<lambda>d. s\<lparr>aoff := (aoff s)(k := length d), apc := (apc s)(k := A_Write)\<rparr>) (data s)
      | A_Write \<Rightarrow> map_option (\<lambda>d. let p = (if append_mode (argv k) then length d else aoff s k)
          in s\<lparr>data := Some (write_at p ''i'' d), aoff := (aoff s)(k := p + 1),
               ai := (ai s)(k := to_signed 32 (ai s k + 1)), apc := (apc s)(k := A_Test)\<rparr>) (data s)
      | A_Close \<Rightarrow> Some (s\<lparr>apc := (apc s)(k := A_Exit 0)\<rparr>)
      | A_Exit _ \<Rightarrow> None)"

definition xnext :: "(nat \<Rightarrow> string list) \<Rightarrow> nat \<Rightarrow> excl_run \<Rightarrow> excl_run option" where
  "xnext argv k s =
     (case xpc s k of
        X_Start \<Rightarrow>
          if length (argv k) < 2 \<or> argv k ! 1 = ''--help'' then Some (s\<lparr>xpc := (xpc s)(k := X_End X_Usage)\<rparr>)
          else Some (s\<lparr>xpc := (xpc s)(k := if present s then X_End X_Already else X_Missing)\<rparr>)
      | X_End _ \<Rightarrow> None
      | c \<Rightarrow>
          if c = X_Missing \<and> 2 < length (argv k) then Some (s\<lparr>xpc := (xpc s)(k := X_Slept)\<rparr>)
          else if c = (if 2 < length (argv k) then X_Slept else X_Missing)
            then Some (s\<lparr>present := True, creator := (if present s then creator s else Some k),
                   xpc := (xpc s)(k := X_End X_Created)\<rparr>)
          else None)"

fun sched_run :: "(nat \<Rightarrow> 's \<Rightarrow> 's option) \<Rightarrow> nat list \<Rightarrow> 's \<Rightarrow> 's option" where
  "sched_run f [] s = Some s"
| "sched_run f (k # ks) s = (case f k s of None \<Rightarrow> None | Some s' \<Rightarrow> sched_run f ks s')"

lemma sched_run_reaches:
  assumes "\<And>k s s'. k < n \<Longrightarrow> f k s = Some s' \<Longrightarrow> R s s'"
  shows "sched_run f ks s = Some s' \<Longrightarrow> \<forall>k\<in>set ks. k < n \<Longrightarrow> R\<^sup>*\<^sup>* s s'"
  by (induction ks arbitrary: s)
    (auto split: option.splits intro: converse_rtranclp_into_rtranclp assms)

lemma anext_step:
  assumes "k < n" "anext argv k s = Some s'"
  shows "append_step faulty n argv s s'"
proof -
  have "astep faulty argv k s s'"
  proof (cases "apc s k")
    case A_Write
    then obtain d where "data s = Some d" using assms(2) by (auto simp: anext_def)
    with a_write [OF A_Write this refl, where faulty = faulty and argv = argv] show ?thesis
      using assms(2) A_Write by (simp add: anext_def Let_def)
  next
    case A_Test
    with a_test [OF A_Test, where faulty = faulty and argv = argv] show ?thesis using assms(2) by (simp add: anext_def)
  qed (use assms(2) in \<open>auto simp: anext_def intro: a_usage a_open a_seek a_close split: if_splits\<close>)
  with assms(1) show ?thesis by (auto simp: append_step_def)
qed

lemma xnext_step:
  assumes "k < n" "xnext argv k s = Some s'"
  shows "excl_step n argv (\<lambda>_. None) (\<lambda>_. None) s s'"
proof -
  note create = x_create [of s k argv "\<lambda>_. None" "\<lambda>_. None"]
  have "xstep argv (\<lambda>_. None) (\<lambda>_. None) k s s'"
  proof (cases "xpc s k")
    case X_Missing
    with create show ?thesis using assms(2) by (auto simp: xnext_def intro: x_sleep split: if_splits)
  next
    case X_Slept
    with create show ?thesis using assms(2) by (auto simp: xnext_def split: if_splits)
  qed (use assms(2) in \<open>auto simp: xnext_def not_less intro: x_usage x_exists x_missing split: if_splits\<close>)
  with assms(1) show ?thesis by (auto simp: excl_step_def)
qed

definition lost_argv :: "nat \<Rightarrow> string list" where
  "lost_argv = (\<lambda>_. [''p'', ''f'', ''1'', ''x''])"

definition lost_sched :: "nat list" where
  "lost_sched = [0, 1, 0, 1, 0, 1, 0, 1, 0, 1, 0, 1]"

lemma lost_byte:
  "map_option (\<lambda>s. (data s, apc s 0, apc s 1)) (sched_run (anext lost_argv) lost_sched (append_init None)) =
   Some (Some ''i'', A_Exit 0, A_Exit 0)"
  by code_simp

lemma two_creators:
  "map_option (\<lambda>s. (creator s, xpc s 0, xpc s 1)) (sched_run (xnext (\<lambda>_. [''p'', ''f''])) [0, 1, 0, 1] (excl_init False)) =
   Some (Some 0, X_End X_Created, X_End X_Created)"
  by code_simp

text \<open>
  C39: when every process appends with \<open>O_APPEND\<close>, every interleaving of any number of processes
  leaves the file with its first contents and one byte for every byte requested, once all have
  exited; with \<open>lseek\<close> before each \<open>write\<close> the first contents are kept and there are never more bytes
  than requested, but some interleaving of two processes loses one. Likewise the look before the
  creation in \<open>bad_exclusive_open\<close>: at most one process makes the file, and one that does says so,
  but two may say so.
\<close>

theorem races:
  assumes "\<forall>k<n. num_bytes (argv k) \<le> INT_MAX"
  shows "((append_step faulty n argv)\<^sup>*\<^sup>* (append_init d0) s \<longrightarrow>
      (\<exists>m. before (data s) = before d0 @ replicate m CHR ''i'' \<and>
        int m \<le> (\<Sum>k<n. max 0 (num_bytes (argv k))) \<and>
        (\<not> faulty \<and> (\<forall>k<n. append_mode (argv k)) \<and> (\<forall>k<n. apc s k = A_Exit 0) \<longrightarrow>
          int m = (\<Sum>k<n. max 0 (num_bytes (argv k)))))) \<and>
    (\<exists>s. (append_step False 2 lost_argv)\<^sup>*\<^sup>* (append_init None) s \<and>
        apc s 0 = A_Exit 0 \<and> apc s 1 = A_Exit 0 \<and> data s = Some ''i'') \<and>
    ((excl_step n argv err1 err2)\<^sup>*\<^sup>* (excl_init b) x \<longrightarrow>
        (\<forall>k. creator x = Some k \<longrightarrow> xpc x k = X_End X_Created) \<and> (b \<longrightarrow> creator x = None)) \<and>
    (\<exists>x. (excl_step 2 (\<lambda>_. [''p'', ''f'']) (\<lambda>_. None) (\<lambda>_. None))\<^sup>*\<^sup>* (excl_init False) x \<and>
        xpc x 0 = X_End X_Created \<and> xpc x 1 = X_End X_Created \<and> creator x = Some 0)"
proof (intro conjI impI)
  assume r: "(append_step faulty n argv)\<^sup>*\<^sup>* (append_init d0) s"
  have i: "append_inv faulty n d0 argv s"
    by (rule append_runs.reachable_inv [OF r append_inv_init [OF assms]])
  have "turns n s \<le> (\<Sum>k<n. max 0 (num_bytes (argv k)))"
    unfolding turns_def by (rule sum_mono) (use i in \<open>auto simp: append_inv_def proc_ok_def\<close>)
  moreover have "turns n s = (\<Sum>k<n. max 0 (num_bytes (argv k)))" if "\<forall>k<n. apc s k = A_Exit 0"
    unfolding turns_def by (rule sum.cong) (use i that in \<open>auto simp: append_inv_def proc_ok_def\<close>)
  ultimately show "\<exists>m. before (data s) = before d0 @ replicate m CHR ''i'' \<and>
        int m \<le> (\<Sum>k<n. max 0 (num_bytes (argv k))) \<and>
        (\<not> faulty \<and> (\<forall>k<n. append_mode (argv k)) \<and> (\<forall>k<n. apc s k = A_Exit 0) \<longrightarrow>
          int m = (\<Sum>k<n. max 0 (num_bytes (argv k))))"
    using i unfolding append_inv_def file_ok_def by fastforce
next
  show "\<exists>s. (append_step False 2 lost_argv)\<^sup>*\<^sup>* (append_init None) s \<and>
        apc s 0 = A_Exit 0 \<and> apc s 1 = A_Exit 0 \<and> data s = Some ''i''"
    using lost_byte sched_run_reaches [of 2 "anext lost_argv" "append_step False 2 lost_argv" lost_sched, OF anext_step]
    by (fastforce simp: lost_sched_def)
next
  show "\<exists>x. (excl_step 2 (\<lambda>_. [''p'', ''f'']) (\<lambda>_. None) (\<lambda>_. None))\<^sup>*\<^sup>* (excl_init False) x \<and>
        xpc x 0 = X_End X_Created \<and> xpc x 1 = X_End X_Created \<and> creator x = Some 0"
    using two_creators sched_run_reaches [of 2 "xnext (\<lambda>_. [''p'', ''f''])"
        "excl_step 2 (\<lambda>_. [''p'', ''f'']) (\<lambda>_. None) (\<lambda>_. None)" "[0, 1, 0, 1]", OF xnext_step]
    by fastforce
next
  assume r: "(excl_step n argv err1 err2)\<^sup>*\<^sup>* (excl_init b) x"
  have "excl_inv b (excl_init b)" by (simp add: excl_inv_def excl_init_def)
  from excl_runs.reachable_inv [OF r this] have "excl_inv b x" .
  then show "\<forall>k. creator x = Some k \<longrightarrow> xpc x k = X_End X_Created" "b \<Longrightarrow> creator x = None"
    by (simp_all add: excl_inv_def)
qed

theorem races_witness:
  "\<exists>s. (append_step False 2 lost_argv)\<^sup>*\<^sup>* (append_init None) s \<and> apc s 0 = A_Exit 0 \<and> data s = Some ''i''"
proof -
  have "num_bytes (lost_argv k) = 1" for k
    unfolding lost_argv_def by code_simp
  then have "\<forall>k<2. num_bytes (lost_argv k) \<le> INT_MAX" by simp
  from races [OF this, THEN conjunct2, THEN conjunct1] show ?thesis by blast
qed

end
