(* ===== verification/Pty.thy ===== *)
theory Pty
  imports Sockets
begin

text \<open>
  Processes with other descriptors than their parents: the child on a pseudoterminal
  (\<open>lib/pty_master_open.c\<close> and \<open>lib/pty_fork.c\<close>) and the daemon (\<open>lib/become_daemon.c\<close>), over the
  descriptor table of Sockets. The answers of the kernel are given; of \<open>fork\<close> each outcome, that in the
  parent and that in the child, is a value.
\<close>

section \<open>Pseudoterminals\<close>

record pty_calls =
  k_openpt :: "int result"
  k_grantpt :: "errno option"
  k_unlockpt :: "errno option"
  k_ptsname :: "string result"
  k_close :: "errno option"
  k_fork :: "int result"
  k_setsid :: "errno option"
  k_open_slave :: "int result"
  k_sctty :: "errno option"
  k_tcsetattr :: "errno option"
  k_winsize :: "errno option"
  k_dup2 :: "int \<Rightarrow> errno option"

text \<open>The result, the name stored in \<open>slaveName\<close>, and the state.\<close>

definition ptyMasterOpen :: "pty_calls \<Rightarrow> nat \<Rightarrow> descs \<Rightarrow> int \<times> string option \<times> descs" where
  "ptyMasterOpen k snLen s =
     (case k_openpt k of
        Inl e \<Rightarrow> (- 1, None, failed e s)
      | Inr masterFd \<Rightarrow>
          (let s1 = open_fd masterFd ''master'' s
           in case k_grantpt k of
                Some e \<Rightarrow> (- 1, None, close_saving masterFd (k_close k) (failed e s1))
              | None \<Rightarrow>
                  (case k_unlockpt k of
                     Some e \<Rightarrow> (- 1, None, close_saving masterFd (k_close k) (failed e s1))
                   | None \<Rightarrow>
                       (case k_ptsname k of
                          Inl e \<Rightarrow> (- 1, None, close_saving masterFd (k_close k) (failed e s1))
                        | Inr p \<Rightarrow>
                            if length p < snLen then (masterFd, Some p, s1)
                            else (- 1, None, failed EOVERFLOW (close_fd masterFd (k_close k) s1))))))"

text \<open>\<open>err_exit\<close> ends the child; otherwise the function returns, with what it stores in \<open>masterFd\<close>.\<close>

datatype pty_end = Returned int "int option" | Exited string errno

abbreviation (input) MAX_SNAME :: nat where "MAX_SNAME \<equiv> 1000"

text \<open>\<open>dup2(slaveFd, n)\<close>, which returns \<open>n\<close> unless it fails.\<close>

definition dup_slave :: "pty_calls \<Rightarrow> int \<Rightarrow> int \<Rightarrow> descs \<Rightarrow> errno + descs" where
  "dup_slave k slaveFd n s =
     (case k_dup2 k n of
        Some e \<Rightarrow> Inl e | None \<Rightarrow> Inr (s\<lparr>fds := (fds s)(n := fds s slaveFd)\<rparr>))"

definition dup_std :: "pty_calls \<Rightarrow> int \<Rightarrow> descs \<Rightarrow> pty_end \<times> descs" where
  "dup_std k slaveFd s =
     (case dup_slave k slaveFd 0 s of
        Inl e \<Rightarrow> (Exited ''ptyFork:dup2-STDIN_FILENO'' e, s)
      | Inr s1 \<Rightarrow>
          (case dup_slave k slaveFd 1 s1 of
             Inl e \<Rightarrow> (Exited ''ptyFork:dup2-STDOUT_FILENO'' e, s1)
           | Inr s2 \<Rightarrow>
               (case dup_slave k slaveFd 2 s2 of
                  Inl e \<Rightarrow> (Exited ''ptyFork:dup2-STDERR_FILENO'' e, s2)
                | Inr s3 \<Rightarrow> (Returned 0 None, if 2 < slaveFd then close_fd slaveFd (k_close k) s3 else s3))))"

definition pty_child :: "pty_calls \<Rightarrow> int \<Rightarrow> string \<Rightarrow> bool \<Rightarrow> bool \<Rightarrow> descs \<Rightarrow> pty_end \<times> descs" where
  "pty_child k mfd slname slaveTermios slaveWS s =
     (case k_setsid k of
        Some e \<Rightarrow> (Exited ''ptyFork:setsid'' e, s)
      | None \<Rightarrow>
          (let s1 = close_fd mfd (k_close k) s
           in case k_open_slave k of
                Inl e \<Rightarrow> (Exited ''ptyFork:open-slave'' e, s1)
              | Inr slaveFd \<Rightarrow>
                  (let s2 = open_fd slaveFd slname s1
                   in case k_sctty k of
                        Some e \<Rightarrow> (Exited ''ptyFork:ioctl-TIOCSCTTY'' e, s2)
                      | None \<Rightarrow>
                          (case (if slaveTermios then k_tcsetattr k else None) of
                             Some e \<Rightarrow> (Exited ''ptyFork:tcsetattr'' e, s2)
                           | None \<Rightarrow>
                               (case (if slaveWS then k_winsize k else None) of
                                  Some e \<Rightarrow> (Exited ''ptyFork:ioctl-TIOCSWINSZ'' e, s2)
                                | None \<Rightarrow> dup_std k slaveFd s2)))))"

text \<open>\<open>slaveName\<close> is a null pointer when \<open>snLen\<close> is \<open>None\<close>.\<close>

definition ptyFork :: "pty_calls \<Rightarrow> nat option \<Rightarrow> bool \<Rightarrow> bool \<Rightarrow> descs \<Rightarrow> pty_end \<times> descs" where
  "ptyFork k snLen slaveTermios slaveWS s =
     (case ptyMasterOpen k MAX_SNAME s of
        (mfd, slname, s1) \<Rightarrow>
          if mfd = - 1 then (Returned (- 1) None, s1)
          else if (\<exists>n. snLen = Some n \<and> n \<le> length (the slname))
            then (Returned (- 1) None, failed EOVERFLOW (close_fd mfd (k_close k) s1))
          else
            (case k_fork k of
               Inl e \<Rightarrow> (Returned (- 1) None, close_saving mfd (k_close k) (failed e s1))
             | Inr childPid \<Rightarrow>
                 if childPid \<noteq> 0 then (Returned childPid (Some mfd), s1)
                 else pty_child k mfd (the slname) slaveTermios slaveWS s1))"

section \<open>Daemons\<close>

record process =
  descr :: descs
  umask_v :: int
  cwd :: string
  leader :: bool
  has_tty :: bool

record daemon_calls =
  d_fork1 :: "int result"
  d_setsid :: "errno option"
  d_fork2 :: "int result"
  d_open_max :: int
  d_devnull :: "int result"
  d_dup2 :: "int \<Rightarrow> errno option"

datatype daemon_end = D_Return int | D_Exit

fun close_upto :: "nat \<Rightarrow> descs \<Rightarrow> descs" where
  "close_upto 0 s = s"
| "close_upto (Suc n) s = close_fd (int n) None (close_upto n s)"

text \<open>The flags: 1 \<open>BD_NO_CHDIR\<close>, 2 \<open>BD_NO_CLOSE_FILES\<close>, 4 \<open>BD_NO_REOPEN_STD_FDS\<close>, 8 \<open>BD_NO_UMASK0\<close>.\<close>

definition reopen_std :: "daemon_calls \<Rightarrow> descs \<Rightarrow> int \<times> descs" where
  "reopen_std k s =
     (let s1 = close_fd 0 None s
      in case d_devnull k of
           Inl e \<Rightarrow> (- 1, failed e s1)
         | Inr fd \<Rightarrow>
             (let s2 = open_fd fd ''/dev/null'' s1
              in if fd \<noteq> 0 then (- 1, s2)
                 else if d_dup2 k 1 \<noteq> None then (- 1, failed (the (d_dup2 k 1)) s2)
                 else
                   (let s3 = s2\<lparr>fds := (fds s2)(1 := fds s2 0)\<rparr>
                    in if d_dup2 k 2 \<noteq> None then (- 1, failed (the (d_dup2 k 2)) s3)
                       else (0, s3\<lparr>fds := (fds s3)(2 := fds s3 0)\<rparr>))))"

definition becomeDaemon :: "daemon_calls \<Rightarrow> nat \<Rightarrow> process \<Rightarrow> daemon_end \<times> process" where
  "becomeDaemon k flags p =
     (case d_fork1 k of
        Inl e \<Rightarrow> (D_Return (- 1), p\<lparr>descr := failed e (descr p)\<rparr>)
      | Inr c1 \<Rightarrow>
          if c1 \<noteq> 0 then (D_Exit, p)
          else
            (case d_setsid k of
               Some e \<Rightarrow> (D_Return (- 1), p\<lparr>descr := failed e (descr p)\<rparr>)
             | None \<Rightarrow>
                 (let p1 = p\<lparr>leader := True, has_tty := False\<rparr>
                  in case d_fork2 k of
                       Inl e \<Rightarrow> (D_Return (- 1), p1\<lparr>descr := failed e (descr p1)\<rparr>)
                     | Inr c2 \<Rightarrow>
                         if c2 \<noteq> 0 then (D_Exit, p1)
                         else
                           (let p2 = p1\<lparr>leader := False\<rparr>;
                                p3 = (if \<not> bit flags 3 then p2\<lparr>umask_v := 0\<rparr> else p2);
                                p4 = (if \<not> bit flags 0 then p3\<lparr>cwd := ''/''\<rparr> else p3);
                                maxfd = (if d_open_max k = - 1 then 8192 else d_open_max k);
                                p5 = (if \<not> bit flags 1 then p4\<lparr>descr := close_upto (nat maxfd) (descr p4)\<rparr> else p4)
                            in if \<not> bit flags 2 then
                                 (case reopen_std k (descr p5) of (r, d) \<Rightarrow> (D_Return r, p5\<lparr>descr := d\<rparr>))
                               else (D_Return 0, p5)))))"

section \<open>Properties\<close>

lemma ptyMasterOpen_cases:
  assumes "ptyMasterOpen k snLen s = (r, name, s')" "\<And>fd. k_openpt k = Inr fd \<Longrightarrow> 0 \<le> fd \<and> fds s fd = None"
  shows "r = - 1 \<and> fds s' = fds s \<and> errno_v s' \<noteq> None \<or>
    0 \<le> r \<and> fds s r = None \<and> fds s' = (fds s)(r \<mapsto> ''master'') \<and> (\<exists>p. k_ptsname k = Inr p \<and> name = Some p \<and> length p < snLen)"
  using assms
  by (auto simp: ptyMasterOpen_def Let_def fun_upd_idem split: sum.splits option.splits if_splits)

lemma dup_std_returns:
  assumes "dup_std k slaveFd s = (Returned 0 x, s')" "fds s slaveFd = Some name" "0 \<le> slaveFd"
  shows "x = None \<and> fds s' 0 = Some name \<and> fds s' 1 = Some name \<and> fds s' 2 = Some name \<and>
    (\<forall>fd. fd \<notin> {0, 1, 2} \<longrightarrow> fds s' fd = (if fd = slaveFd then None else fds s fd))"
proof -
  have d: "t' = t\<lparr>fds := (fds t)(n := fds t slaveFd)\<rparr>" if "dup_slave k slaveFd n t = Inr t'" for n t t'
    using that by (auto simp: dup_slave_def split: option.splits)
  obtain s1 s2 s3 where s: "dup_slave k slaveFd 0 s = Inr s1" "dup_slave k slaveFd 1 s1 = Inr s2"
      "dup_slave k slaveFd 2 s2 = Inr s3" "x = None" "s' = (if 2 < slaveFd then close_fd slaveFd (k_close k) s3 else s3)"
    using assms(1) by (auto simp: dup_std_def split: sum.splits)
  show ?thesis
    using assms(2,3) s(4,5) d [OF s(1)] d [OF s(2)] d [OF s(3)] by auto
qed

lemma close_upto_fds: "fds (close_upto n s) fd = (if 0 \<le> fd \<and> fd < int n then None else fds s fd)"
  by (induction n) auto

lemma pty_child_returns:
  assumes "pty_child k mfd slname tio ws s = (Returned 0 x, s')" "fds s mfd = Some ''master''"
    "\<And>fd. k_open_slave k = Inr fd \<Longrightarrow> 0 \<le> fd \<and> (fds s fd = None \<or> fd = mfd)"
  shows "x = None \<and> fds s' 0 = Some slname \<and> fds s' 1 = Some slname \<and> fds s' 2 = Some slname \<and>
    (\<forall>fd. fd \<notin> {0, 1, 2} \<longrightarrow> fds s' fd = ((fds s)(mfd := None)) fd)"
proof -
  obtain slaveFd where o: "k_open_slave k = Inr slaveFd"
      "dup_std k slaveFd (open_fd slaveFd slname (close_fd mfd (k_close k) s)) = (Returned 0 x, s')"
    using assms(1) by (auto simp: pty_child_def Let_def split: option.splits sum.splits if_splits)
  from dup_std_returns [OF o(2), of slname] assms(3) [OF o(1)] show ?thesis by auto
qed

lemma pty_child_end: "pty_child k mfd slname tio ws s = (r, s') \<Longrightarrow> (\<exists>m e. r = Exited m e) \<or> r = Returned 0 None"
  by (auto simp: pty_child_def dup_std_def Let_def split: option.splits sum.splits if_splits)

lemma ptyFork_cases:
  assumes "ptyFork k n tio ws s = (Returned c x, s')" "\<And>fd. k_openpt k = Inr fd \<Longrightarrow> 0 \<le> fd \<and> fds s fd = None"
    "\<And>c. k_fork k = Inr c \<Longrightarrow> 0 \<le> c"
  shows "c = - 1 \<and> x = None \<and> fds s' = fds s \<and> errno_v s' \<noteq> None \<or>
    (\<exists>m slname s1. k_openpt k = Inr m \<and> k_ptsname k = Inr slname \<and> fds s m = None \<and> fds s1 = (fds s)(m \<mapsto> ''master'') \<and>
       (0 < c \<and> x = Some m \<and> s' = s1 \<or> c = 0 \<and> pty_child k m slname tio ws s1 = (Returned 0 x, s')))"
proof -
  obtain m slname s1 where o: "ptyMasterOpen k MAX_SNAME s = (m, slname, s1)" by (metis prod_cases3)
  note mc = ptyMasterOpen_cases [OF o assms(2)]
  show ?thesis
  proof (cases "m = - 1")
    case True
    then show ?thesis using mc assms(1) o by (auto simp: ptyFork_def)
  next
    case False
    then obtain p where p: "fds s m = None" "fds s1 = (fds s)(m \<mapsto> ''master'')" "k_ptsname k = Inr p" "slname = Some p"
      using mc by auto
    have ok: "k_openpt k = Inr m"
      using o False by (auto simp: ptyMasterOpen_def Let_def split: sum.splits option.splits if_splits)
    have "pty_child k m p tio ws s1 = (Returned 0 x, s') \<and> c = 0" if "pty_child k m p tio ws s1 = (Returned c x, s')"
      using pty_child_end [OF that] that by auto
    then show ?thesis
      using assms(1,3) o False p ok
      by (auto simp: ptyFork_def fun_upd_idem split: sum.splits if_splits)
  qed
qed

lemma becomeDaemon_zero:
  assumes "becomeDaemon d 0 p = (D_Return 0, p')" "\<And>fd. 0 \<le> fd \<and> fd < d_open_max d \<or> fds (descr p) fd = None"
  shows "\<not> leader p' \<and> \<not> has_tty p' \<and> umask_v p' = 0 \<and> cwd p' = ''/'' \<and>
    fds (descr p') = [0 \<mapsto> ''/dev/null'', 1 \<mapsto> ''/dev/null'', 2 \<mapsto> ''/dev/null'']"
proof -
  let ?n = "nat (if d_open_max d = - 1 then 8192 else d_open_max d)"
  have none: "fds (close_upto ?n (descr p)) = Map.empty"
    using assms(2) by (fastforce simp: close_upto_fds fun_eq_iff)
  obtain ds where r: "reopen_std d (close_upto ?n (descr p)) = (0, ds)" and
      p': "p' = p\<lparr>leader := False, has_tty := False, umask_v := 0, cwd := ''/'', descr := ds\<rparr>"
    using assms(1) by (auto simp: becomeDaemon_def Let_def split: sum.splits option.splits if_splits prod.splits)
  have "fds ds = [0 \<mapsto> ''/dev/null'', 1 \<mapsto> ''/dev/null'', 2 \<mapsto> ''/dev/null'']"
    using r none by (auto simp: reopen_std_def Let_def split: sum.splits if_splits)
  then show ?thesis by (simp add: p')
qed

lemma pty_daemon_descriptors:
  assumes "\<And>fd. k_openpt k = Inr fd \<Longrightarrow> 0 \<le> fd \<and> fds s fd = None"
    and "\<And>fd m. k_open_slave k = Inr fd \<Longrightarrow> k_openpt k = Inr m \<Longrightarrow> 0 \<le> fd \<and> (fds s fd = None \<or> fd = m)"
    and "\<And>c. k_fork k = Inr c \<Longrightarrow> 0 \<le> c"
    and "\<And>fd. 0 \<le> fd \<and> fd < d_open_max d \<or> fds (descr p) fd = None"
  shows "(ptyFork k n tio ws s = (Returned (- 1) x, s') \<longrightarrow> x = None \<and> fds s' = fds s \<and> errno_v s' \<noteq> None) \<and>
    (ptyFork k n tio ws s = (Returned c x, s') \<and> 0 < c \<longrightarrow>
       (\<exists>m. x = Some m \<and> k_openpt k = Inr m \<and> fds s' = (fds s)(m \<mapsto> ''master''))) \<and>
    (ptyFork k n tio ws s = (Returned 0 x, s') \<longrightarrow>
       (\<exists>slname. k_ptsname k = Inr slname \<and> fds s' 0 = Some slname \<and> fds s' 1 = Some slname \<and> fds s' 2 = Some slname \<and>
         (\<forall>fd. fd \<notin> {0, 1, 2} \<longrightarrow> fds s' fd = fds s fd))) \<and>
    (becomeDaemon d 0 p = (D_Return 0, p') \<longrightarrow>
       \<not> leader p' \<and> \<not> has_tty p' \<and> umask_v p' = 0 \<and> cwd p' = ''/'' \<and>
       fds (descr p') = [0 \<mapsto> ''/dev/null'', 1 \<mapsto> ''/dev/null'', 2 \<mapsto> ''/dev/null''])"
proof -
  note c = ptyFork_cases [OF _ assms(1,3)]
  have child: "\<exists>slname. k_ptsname k = Inr slname \<and> fds s' 0 = Some slname \<and> fds s' 1 = Some slname \<and> fds s' 2 = Some slname \<and>
         (\<forall>fd. fd \<notin> {0, 1, 2} \<longrightarrow> fds s' fd = fds s fd)" if z: "ptyFork k n tio ws s = (Returned 0 x, s')"
  proof -
    obtain m slname s1 where m: "k_openpt k = Inr m" "k_ptsname k = Inr slname" "fds s m = None"
        "fds s1 = (fds s)(m \<mapsto> ''master'')" "pty_child k m slname tio ws s1 = (Returned 0 x, s')"
      using c [OF z] by auto
    have "0 \<le> fd \<and> (fds s1 fd = None \<or> fd = m)" if "k_open_slave k = Inr fd" for fd
      using assms(2) [OF that m(1)] m(4) by auto
    from pty_child_returns [OF m(5) _ this] m(2-4) show ?thesis by auto
  qed
  have "x = None \<and> fds s' = fds s \<and> errno_v s' \<noteq> None" if "ptyFork k n tio ws s = (Returned (- 1) x, s')"
    using c [OF that] by auto
  moreover have "\<exists>m. x = Some m \<and> k_openpt k = Inr m \<and> fds s' = (fds s)(m \<mapsto> ''master'')"
    if "ptyFork k n tio ws s = (Returned c x, s') \<and> 0 < c"
    using c [OF conjunct1 [OF that]] that by auto
  ultimately show ?thesis
    using child becomeDaemon_zero [OF _ assms(4), of p'] by blast
qed



end
