(* ===== verification/Tail.thy ===== *)
theory Tail
  imports FileTools
begin

text \<open>
  \<open>13-file-io-buffering/tail.c\<close>, which prints the last lines of a file. Its static buffer holds 5120 bytes; the string
  functions read it up to a null byte, so that a buffer without one is read past its end, which is a result of
  its own here, as is the use of a pointer that is not set. Standard output takes everything.
\<close>

abbreviation (input) BUFFER_SIZE :: nat where "BUFFER_SIZE \<equiv> 5120"
abbreviation (input) DEFAULT_NUMBER_LINES :: int where "DEFAULT_NUMBER_LINES \<equiv> 10"

section \<open>The program\<close>

text \<open>\<open>parse_options\<close>: the number of lines and the name of the file, \<open>None\<close> when it returns 1.\<close>

fun number_lines :: "(char \<times> string) list \<Rightarrow> int \<Rightarrow> int option" where
  "number_lines [] n = Some n"
| "number_lines ((c, optarg) # es) n = (if c = CHR ''n'' then number_lines es (atoi optarg) else None)"

definition parse_options :: "string list \<Rightarrow> (int \<times> string) option" where
  "parse_options argv =
     (case getopt (\<lambda>c. if c = CHR ''n'' then Some True else None) (tl argv) of
        (es, operands) \<Rightarrow>
          (case number_lines es DEFAULT_NUMBER_LINES of
             None \<Rightarrow> None
           | Some n \<Rightarrow> if length operands \<noteq> 1 then None else Some (n, hd operands)))"

function str_occurrences :: "string \<Rightarrow> char \<Rightarrow> nat" where
  "str_occurrences buf c = (case strchr buf c of None \<Rightarrow> 0 | Some (_, rest) \<Rightarrow> Suc (str_occurrences rest c))"
  by pat_completeness auto
termination
  by (relation "measure (\<lambda>(buf, _). length buf)") (auto dest: strchr_Some)

text \<open>The pointer that \<open>str_occurrence_offset\<close> returns: not set, null, or into the buffer.\<close>

datatype pointer = Unset | Null | At nat

fun occurrence_loop :: "nat \<Rightarrow> string \<Rightarrow> char \<Rightarrow> nat \<Rightarrow> pointer" where
  "occurrence_loop 0 buf c pos = At pos"
| "occurrence_loop (Suc n) buf c pos =
     (case strchr buf c of None \<Rightarrow> Null | Some (before, rest) \<Rightarrow> occurrence_loop n rest c (pos + length before + 1))"

definition str_occurrence_offset :: "string \<Rightarrow> char \<Rightarrow> int \<Rightarrow> pointer" where
  "str_occurrence_offset buf c n = (if n \<le> 0 then Unset else occurrence_loop (nat n) buf c 0)"

datatype tail_end = Usage | Cannot_open | Outside_buffer | Bad_pointer | Printed "byte list"

partial_function (option) tail_file :: "int \<Rightarrow> byte list \<Rightarrow> kernel \<Rightarrow> tail_end option" where
  "tail_file fd printed k =
     (case sys_read fd k BUFFER_SIZE of
        (Inl _, _) \<Rightarrow> Some (Printed printed)
      | (Inr bs, k') \<Rightarrow> if bs = [] then Some (Printed printed) else tail_file fd (printed @ bs) k')"

text \<open>The loop over the file: the buffer, \<open>curline\<close>, \<open>offset\<close>; \<open>Inl ()\<close> when it leaves the buffer.\<close>

partial_function (option) tail_scan ::
    "int \<Rightarrow> int \<Rightarrow> byte list \<Rightarrow> int \<Rightarrow> int \<Rightarrow> kernel \<Rightarrow> (unit + (byte list \<times> int \<times> int \<times> kernel)) option" where
  "tail_scan fd n buf curline offs k =
     (case sys_read fd k BUFFER_SIZE of (r, k') \<Rightarrow>
        (let numbytes = (case r of Inl _ \<Rightarrow> - 1 | Inr bs \<Rightarrow> int (length bs));
             buf' = (case r of Inl _ \<Rightarrow> buf | Inr bs \<Rightarrow> bs @ drop (length bs) buf);
             offs' = to_signed 32 (offs - numbytes)
         in if NUL \<notin> set buf' then Some (Inl ())
            else
              (let curline' = to_signed 32 (curline + int (str_occurrences (takeWhile (\<lambda>c. c \<noteq> NUL) buf') LF))
               in if numbytes = int BUFFER_SIZE \<and> curline' \<le> n
                  then tail_scan fd n buf' curline' offs' k'
                  else Some (Inr (buf', curline', offs', k')))))"

definition tail_rest :: "int \<Rightarrow> int \<Rightarrow> byte list \<Rightarrow> int \<Rightarrow> int \<Rightarrow> kernel \<Rightarrow> tail_end option" where
  "tail_rest fd n buf curline offs k =
     (if curline \<ge> n then
        (case str_occurrence_offset (takeWhile (\<lambda>c. c \<noteq> NUL) buf) LF (curline - n) of
           At p \<Rightarrow> tail_file fd [] (snd (sys_lseek fd (to_signed 32 (offs + int p)) SEEK_END k))
         | _ \<Rightarrow> Some Bad_pointer)
      else tail_file fd [] (snd (sys_lseek fd 0 SEEK_SET k)))"

definition tail_main :: "string list \<Rightarrow> kernel \<Rightarrow> tail_end option" where
  "tail_main argv k =
     (case parse_options argv of
        None \<Rightarrow> Some Usage
      | Some (n, filename) \<Rightarrow>
          (case sys_open filename [O_RDONLY] k of
             (Inl _, _) \<Rightarrow> Some Cannot_open
           | (Inr fd, k') \<Rightarrow>
               (case tail_scan fd n (replicate BUFFER_SIZE NUL) 0 0 k' of
                  None \<Rightarrow> None
                | Some (Inl _) \<Rightarrow> Some Outside_buffer
                | Some (Inr (buf, curline, offs, k'')) \<Rightarrow> tail_rest fd n buf curline offs k'')))"

declare str_occurrences.simps [simp del]

section \<open>What it prints\<close>

text \<open>A text: lines with their newlines, and what follows the last newline.\<close>

definition text_of :: "string list \<Rightarrow> string \<Rightarrow> string" where
  "text_of ls r = concat (map (\<lambda>l. l @ [LF]) ls) @ r"

definition text_ok :: "string list \<Rightarrow> string \<Rightarrow> bool" where
  "text_ok ls r \<longleftrightarrow> (\<forall>l\<in>set (r # ls). LF \<notin> set l \<and> NUL \<notin> set l)"

lemma text_of_Cons: "text_of (l # ls) r = l @ LF # text_of ls r" "text_of [] r = r"
  by (simp_all add: text_of_def)

lemma text_ok_Cons: "text_ok (l # ls) r \<longleftrightarrow> LF \<notin> set l \<and> NUL \<notin> set l \<and> text_ok ls r"
  by (auto simp: text_ok_def)

lemma text_no_NUL: "text_ok ls r \<Longrightarrow> NUL \<notin> set (text_of ls r)"
  by (induction ls) (auto simp: text_of_Cons text_ok_def)

lemma str_occurrences_text: "text_ok ls r \<Longrightarrow> str_occurrences (text_of ls r) LF = length ls"
proof (induction ls)
  case Nil
  then show ?case by (simp add: str_occurrences.simps text_of_Cons text_ok_def strchr_miss)
next
  case (Cons l ls)
  then show ?case by (subst str_occurrences.simps) (simp add: text_of_Cons text_ok_Cons strchr_hit)
qed

lemma occurrence_loop_text:
  "m \<le> length ls \<Longrightarrow> text_ok ls r \<Longrightarrow>
   occurrence_loop m (text_of ls r) LF pos = At (pos + (length (text_of ls r) - length (text_of (drop m ls) r)))"
proof (induction m arbitrary: ls pos)
  case (Suc m)
  then obtain l ls' where ls: "ls = l # ls'" by (cases ls) auto
  have "length (text_of (drop m ls') r) \<le> length (text_of ls' r)"
    by (metis append_take_drop_id concat_append length_append le_add2 map_append text_of_def append.assoc)
  then show ?case using Suc by (simp add: ls text_of_Cons text_ok_Cons strchr_hit)
qed simp

lemma text_of_drop: "drop (length (text_of ls r) - length (text_of (drop m ls) r)) (text_of ls r) = text_of (drop m ls) r"
proof -
  have "text_of ls r = concat (map (\<lambda>l. l @ [LF]) (take m ls)) @ text_of (drop m ls) r"
    by (metis append_take_drop_id concat_append map_append text_of_def append.assoc)
  then show ?thesis by simp
qed

lemma tail_file_ok:
  assumes "of_get k fd = Some f" "of_rd f" "media k (of_ino f) = None"
  shows "tail_file fd printed k = Some (Printed (printed @ drop (of_pos f) (bytes k (of_ino f))))"
  using assms
proof (induction "length (bytes k (of_ino f)) - of_pos f" arbitrary: printed k f rule: less_induct)
  case less
  let ?bs = "take BUFFER_SIZE (drop (of_pos f) (bytes k (of_ino f)))"
  let ?f = "f\<lparr>of_pos := of_pos f + min BUFFER_SIZE (length (bytes k (of_ino f)) - of_pos f)\<rparr>"
  have step: "tail_file fd printed k =
      (if ?bs = [] then Some (Printed printed) else tail_file fd (printed @ ?bs) (of_put fd ?f k))"
    by (subst tail_file.simps) (simp add: sys_read_ok [OF less.prems])
  show ?case
  proof (cases "?bs = []")
    case True
    then show ?thesis using step by simp
  next
    case False
    then have "length (bytes k (of_ino f)) - of_pos ?f < length (bytes k (of_ino f)) - of_pos f" by auto
    then have "tail_file fd (printed @ ?bs) (of_put fd ?f k) =
        Some (Printed ((printed @ ?bs) @ drop (of_pos ?f) (bytes k (of_ino f))))"
      using less.hyps [of "of_put fd ?f k" ?f "printed @ ?bs"] less.prems by simp
    moreover have "?bs @ drop (of_pos ?f) (bytes k (of_ino f)) = drop (of_pos f) (bytes k (of_ino f))"
      using drop_take_min [of "of_pos f" "bytes k (of_ino f)" BUFFER_SIZE] by (simp add: min.commute)
    ultimately show ?thesis using step False by simp
  qed
qed

lemma takeWhile_pad:
  assumes "NUL \<notin> set bs"
  shows "takeWhile (\<lambda>c. c \<noteq> NUL) (bs @ replicate m NUL) = bs"
proof -
  have "takeWhile (\<lambda>c. c \<noteq> NUL) (replicate m NUL) = []" by (cases m) simp_all
  with assms show ?thesis by (induction bs) auto
qed

lemma tail_scan_short:
  assumes "of_get k fd = Some f" "of_rd f" "media k (of_ino f) = None" "of_pos f = 0"
    and "bytes k (of_ino f) = text_of ls r" "text_ok ls r" "length (text_of ls r) < BUFFER_SIZE"
  shows "tail_scan fd n (replicate BUFFER_SIZE NUL) 0 0 k =
    Some (Inr (text_of ls r @ replicate (BUFFER_SIZE - length (text_of ls r)) NUL, int (length ls),
      - int (length (text_of ls r)), of_put fd (f\<lparr>of_pos := length (text_of ls r)\<rparr>) k))"
proof -
  have "length ls \<le> length (text_of ls r)" by (induction ls) (auto simp: text_of_Cons)
  then have "to_signed 32 (int (length ls)) = int (length ls)"
    "to_signed 32 (- int (length (text_of ls r))) = - int (length (text_of ls r))"
    using assms(7) by (auto intro!: to_signed32_id)
  moreover have "min BUFFER_SIZE (length (text_of ls r)) = length (text_of ls r)" using assms(7) by simp
  moreover have "NUL \<in> set (replicate (BUFFER_SIZE - length (text_of ls r)) NUL)" using assms(7) by simp
  ultimately show ?thesis
    using assms takeWhile_pad [OF text_no_NUL [OF assms(6)]] str_occurrences_text [OF assms(6)]
    by (subst tail_scan.simps) (simp add: sys_read_ok Let_def)
qed

lemma tail_scan_outside:
  assumes "of_get k fd = Some f" "of_rd f" "media k (of_ino f) = None" "of_pos f = 0"
    and "BUFFER_SIZE \<le> length (bytes k (of_ino f))" "NUL \<notin> set (take BUFFER_SIZE (bytes k (of_ino f)))"
  shows "tail_scan fd n (replicate BUFFER_SIZE NUL) 0 0 k = Some (Inl ())"
  using assms by (subst tail_scan.simps) (simp add: sys_read_ok Let_def)

lemma tail_rest_short:
  assumes "of_get k fd = Some f" "of_rd f" "media k (of_ino f) = None"
    and "bytes k (of_ino f) = text_of ls r" "text_ok ls r" "length (text_of ls r) < BUFFER_SIZE" "0 \<le> n"
  shows "tail_rest fd n (text_of ls r @ replicate m NUL) (int (length ls)) (- int (length (text_of ls r))) k =
    Some (if int (length ls) < n then Printed (text_of ls r)
          else if n = int (length ls) then Bad_pointer
          else Printed (text_of (drop (length ls - nat n) ls) r))"
proof (cases "n < int (length ls)")
  case True
  define d where "d = length (text_of ls r) - length (text_of (drop (length ls - nat n) ls) r)"
  have d: "d \<le> length (text_of ls r)" by (simp add: d_def)
  have at: "str_occurrence_offset (text_of ls r) LF (int (length ls) - n) = At d"
    using occurrence_loop_text [of "length ls - nat n" ls r 0] assms(5,7) True
    by (simp add: str_occurrence_offset_def d_def nat_diff_distrib)
  have "to_signed 32 (- int (length (text_of ls r)) + int d) = - int (length (text_of ls r)) + int d"
    using d assms(6) by (intro to_signed32_id) auto
  moreover have "sys_lseek fd (- int (length (text_of ls r)) + int d) SEEK_END k = (Inr (int d), of_put fd (f\<lparr>of_pos := d\<rparr>) k)"
    using sys_lseek_ok [OF assms(1), of "int d" _ SEEK_END] assms(4) by simp
  moreover have "tail_file fd [] (of_put fd (f\<lparr>of_pos := d\<rparr>) k) = Some (Printed (drop d (text_of ls r)))"
    using tail_file_ok [of "of_put fd (f\<lparr>of_pos := d\<rparr>) k" fd "f\<lparr>of_pos := d\<rparr>"] assms(1-4) by simp
  ultimately show ?thesis
    using True at takeWhile_pad [OF text_no_NUL [OF assms(5)]] text_of_drop [of ls r "length ls - nat n"]
    by (simp add: tail_rest_def d_def)
next
  case False
  have "sys_lseek fd 0 SEEK_SET k = (Inr 0, of_put fd (f\<lparr>of_pos := 0\<rparr>) k)"
    using sys_lseek_ok [OF assms(1), of 0 0 SEEK_SET] by simp
  moreover have "tail_file fd [] (of_put fd (f\<lparr>of_pos := 0\<rparr>) k) = Some (Printed (text_of ls r))"
    using tail_file_ok [of "of_put fd (f\<lparr>of_pos := 0\<rparr>) k" fd "f\<lparr>of_pos := 0\<rparr>"] assms(1-4) by simp
  ultimately show ?thesis
    using False by (auto simp: tail_rest_def str_occurrence_offset_def)
qed

text \<open>
  C11: on a text file of fewer than 5120 bytes with \<open>L\<close> newlines, \<open>tail\<close> asked for \<open>n\<close> lines prints the whole file if
  \<open>L < n\<close>, and the last \<open>n\<close> lines with whatever follows the last newline if \<open>n < L\<close>; with \<open>n = L\<close> it uses a
  pointer that was never set. A file without null bytes that fills the buffer makes it read
  past the end of the buffer.
\<close>

theorem tail_prints_last_lines:
  assumes "parse_options argv = Some (n, path)" "0 \<le> n"
    and "dir k path = Some ino" "denied k path = None" "media k ino = None" "0 < free_fds k"
  shows "(bytes k ino = text_of ls r \<and> text_ok ls r \<and> length (text_of ls r) < BUFFER_SIZE \<longrightarrow>
      tail_main argv k =
        Some (if int (length ls) < n then Printed (text_of ls r)
              else if n = int (length ls) then Bad_pointer
              else Printed (text_of (drop (length ls - nat n) ls) r))) \<and>
    (BUFFER_SIZE \<le> length (bytes k ino) \<and> NUL \<notin> set (take BUFFER_SIZE (bytes k ino)) \<longrightarrow>
      tail_main argv k = Some Outside_buffer)"
proof -
  obtain fd k' where o: "sys_open path [O_RDONLY] k = (Inr fd, k')" "opened k path [O_RDONLY] fd k'"
    using sys_open_ok [of k path "[O_RDONLY]"] assms(3,4,6) by auto
  let ?f = "new_open_file ino [O_RDONLY]"
  have f: "of_get k' fd = Some ?f" "of_rd ?f" "of_pos ?f = 0" "of_ino ?f = ino"
    using opened_get [OF o(2)] assms(3) by (simp_all add: new_open_file_def open_ino_def)
  have b: "bytes k' ino = bytes k ino" "media k' ino = None"
    using o(2) assms(3,5) by (auto simp: opened_def open_ino_def)
  have m: "tail_main argv k = (case tail_scan fd n (replicate BUFFER_SIZE NUL) 0 0 k' of
      None \<Rightarrow> None | Some (Inl _) \<Rightarrow> Some Outside_buffer
    | Some (Inr (buf, curline, offs, k'')) \<Rightarrow> tail_rest fd n buf curline offs k'')"
    by (simp add: tail_main_def assms(1) o(1))
  show ?thesis
  proof (intro conjI impI)
    assume t: "bytes k ino = text_of ls r \<and> text_ok ls r \<and> length (text_of ls r) < BUFFER_SIZE"
    note scan = tail_scan_short [OF f(1,2) _ f(3), of ls r n]
    show "tail_main argv k =
        Some (if int (length ls) < n then Printed (text_of ls r)
              else if n = int (length ls) then Bad_pointer
              else Printed (text_of (drop (length ls - nat n) ls) r))"
      using t b f assms(2) tail_rest_short [of "of_put fd (?f\<lparr>of_pos := length (text_of ls r)\<rparr>) k'" fd
          "?f\<lparr>of_pos := length (text_of ls r)\<rparr>" ls r n "BUFFER_SIZE - length (text_of ls r)"]
      by (simp add: m scan)
  next
    assume "BUFFER_SIZE \<le> length (bytes k ino) \<and> NUL \<notin> set (take BUFFER_SIZE (bytes k ino))"
    then show "tail_main argv k = Some Outside_buffer"
      using tail_scan_outside [OF f(1,2) _ f(3), of n] b f(4) by (simp add: m)
  qed
qed

definition notes_kernel :: "byte list \<Rightarrow> kernel" where
  "notes_kernel bs = \<lparr>dir = [''notes'' \<mapsto> 0], bytes = (\<lambda>_. bs), inodes = 1, oft = [], fdt = [None], denied = Map.empty,
     media = Map.empty, fsize_max = 100\<rparr>"

theorem tail_prints_last_lines_witness:
  "tail_main [''tail'', ''-n'', ''1'', ''notes''] (notes_kernel (''ab'' @ [LF] @ ''c'' @ [LF])) = Some (Printed (''c'' @ [LF])) \<and>
   tail_main [''tail'', ''-n'', ''2'', ''notes''] (notes_kernel (''ab'' @ [LF] @ ''c'' @ [LF])) = Some Bad_pointer"
proof -
  let ?k = "notes_kernel (''ab'' @ [LF] @ ''c'' @ [LF])"
  have p: "parse_options [''tail'', ''-n'', ''1'', ''notes''] = Some (1, ''notes'')"
    "parse_options [''tail'', ''-n'', ''2'', ''notes''] = Some (2, ''notes'')" by code_simp+
  have "text_ok [''ab'', ''c''] []" by (simp add: text_ok_def)
  then show ?thesis
    using tail_prints_last_lines [OF p(1), of ?k 0 "[''ab'', ''c'']" "[]"]
      tail_prints_last_lines [OF p(2), of ?k 0 "[''ab'', ''c'']" "[]"]
    by (simp add: notes_kernel_def text_of_def free_fds_def)
qed

end
