(* ===== verification/UserDb.thy ===== *)
theory UserDb
  imports CString
begin

text \<open>
  The user and group databases: \<open>08-users-and-groups/getpwnam.c\<close>, a \<open>getpwnam\<close> on top of \<open>getpwent\<close>, and
  \<open>09-process-credentials/initgroups.c\<close>, an \<open>initgroups\<close> on top of \<open>getgrent\<close>. Both calls go through
  their database once: each hands out the next entry, and a null pointer at the end.
\<close>

section \<open>getpwnam\<close>

record passwd =
  pw_name :: string
  pw_uid :: int
  pw_gid :: int
  pw_dir :: string
  pw_shell :: string

text \<open>The entries that \<open>getpwent\<close> has not handed out yet.\<close>

fun po_getpwnam :: "string \<Rightarrow> passwd list \<Rightarrow> passwd option \<times> passwd list" where
  "po_getpwnam name [] = (None, [])"
| "po_getpwnam name (pwd # rest) = (if name = pw_name pwd then (Some pwd, rest) else po_getpwnam name rest)"

definition pprint_pwd :: "passwd option \<Rightarrow> string" where
  "pprint_pwd pwd =
     (case pwd of
        None \<Rightarrow> ''passwd is NULL, not found'' @ [LF]
      | Some p \<Rightarrow>
          ''struct passwd {'' @ [LF] @
          ''  pw_name='' @ [CHR 0x22] @ pw_name p @ [CHR 0x22] @ '','' @ [LF] @
          ''  pw_uid='' @ show_int (pw_uid p) @ '','' @ [LF] @
          ''  pw_gid='' @ show_int (pw_gid p) @ '','' @ [LF] @
          ''  pw_dir='' @ [CHR 0x22] @ pw_dir p @ [CHR 0x22] @ '','' @ [LF] @
          ''  pw_shell='' @ [CHR 0x22] @ pw_shell p @ [CHR 0x22] @ [LF] @
          ''}'' @ [LF])"

text \<open>\<open>main\<close>: the status and what is printed.\<close>

definition getpwnam_main :: "string list \<Rightarrow> passwd list \<Rightarrow> int \<times> string" where
  "getpwnam_main argv db =
     (if length argv \<noteq> 2 then (1, ''Usage: '' @ hd argv @ '' <name>'' @ [LF])
      else (0, pprint_pwd (fst (po_getpwnam (argv ! 1) db))))"

section \<open>initgroups\<close>

record group =
  gr_gid :: int
  gr_mem :: "string list"

text \<open>The supplementary groups of the process, and whether it may set them.\<close>

record creds =
  supp_groups :: "int list"
  cap_setgid :: bool

definition setgroups :: "int list \<Rightarrow> creds \<Rightarrow> unit result \<times> creds" where
  "setgroups gs c =
     (if \<not> cap_setgid c then (Inl EPERM, c)
      else if 65536 < length gs then (Inl EINVAL, c)
      else (Inr (), c\<lparr>supp_groups := gs\<rparr>))"

abbreviation (input) GROUPS_SIZE :: nat where "GROUPS_SIZE \<equiv> 1024"

text \<open>The loops over the members and the groups; \<open>None\<close> when they write past the end of the array.\<close>

fun add_members :: "string \<Rightarrow> int \<Rightarrow> string list \<Rightarrow> int list \<Rightarrow> int list option" where
  "add_members user gid [] groups = Some groups"
| "add_members user gid (username # mem) groups =
     (if username = user
      then (if length groups < GROUPS_SIZE then add_members user gid mem (groups @ [gid]) else None)
      else add_members user gid mem groups)"

fun add_groups :: "string \<Rightarrow> group list \<Rightarrow> int list \<Rightarrow> int list option" where
  "add_groups user [] groups = Some groups"
| "add_groups user (grp # rest) groups =
     (case add_members user (gr_gid grp) (gr_mem grp) groups of None \<Rightarrow> None | Some groups' \<Rightarrow> add_groups user rest groups')"

definition po_initgroups :: "string \<Rightarrow> int \<Rightarrow> group list \<Rightarrow> creds \<Rightarrow> (unit result \<times> creds) option" where
  "po_initgroups user grp db c =
     (case add_groups user db [grp] of None \<Rightarrow> None | Some groups \<Rightarrow> Some (setgroups groups c))"

text \<open>\<open>main\<close>: it does not check its argument, nor that the user exists.\<close>

datatype ig_end = Crashed | Overran | Ig_failed errno | Ig_done

definition initgroups_main :: "(string \<rightharpoonup> passwd) \<Rightarrow> group list \<Rightarrow> string list \<Rightarrow> creds \<Rightarrow> ig_end \<times> creds" where
  "initgroups_main getpwnam db argv c =
     (if length argv < 2 then (Crashed, c)
      else
        (case getpwnam (argv ! 1) of
           None \<Rightarrow> (Crashed, c)
         | Some pwd \<Rightarrow>
             (case po_initgroups (argv ! 1) (pw_gid pwd) db c of
                None \<Rightarrow> (Overran, c)
              | Some (Inl e, c') \<Rightarrow> (Ig_failed e, c')
              | Some (Inr _, c') \<Rightarrow> (Ig_done, c'))))"

section \<open>Properties\<close>

text \<open>The group IDs that the database gives the user, as often as it lists the user.\<close>

definition gids_of :: "string \<Rightarrow> group list \<Rightarrow> int list" where
  "gids_of user db = concat (map (\<lambda>g. map (\<lambda>_. gr_gid g) (filter (\<lambda>m. m = user) (gr_mem g))) db)"

lemma set_gids_of: "set (gids_of user db) = gr_gid ` {g \<in> set db. user \<in> set (gr_mem g)}"
  by (auto simp: gids_of_def)

lemma add_members_result:
  "length groups \<le> GROUPS_SIZE \<Longrightarrow> add_members user gid mem groups =
     (let gs = groups @ map (\<lambda>_. gid) (filter (\<lambda>m. m = user) mem) in if length gs \<le> GROUPS_SIZE then Some gs else None)"
  by (induction mem arbitrary: groups) (auto simp: Let_def)

lemma add_groups_result:
  "length groups \<le> GROUPS_SIZE \<Longrightarrow> add_groups user db groups =
     (let gs = groups @ gids_of user db in if length gs \<le> GROUPS_SIZE then Some gs else None)"
proof (induction db arbitrary: groups)
  case (Cons g db)
  show ?case
  proof (cases "length (groups @ map (\<lambda>_. gr_gid g) (filter (\<lambda>m. m = user) (gr_mem g))) \<le> GROUPS_SIZE")
    case True
    from Cons.IH [OF this] True Cons.prems show ?thesis
      by (simp add: add_members_result gids_of_def Let_def)
  next
    case False
    with Cons.prems show ?thesis by (simp add: add_members_result gids_of_def Let_def)
  qed
qed (simp add: gids_of_def)

lemma po_getpwnam_find:
  "fst (po_getpwnam name db) = find (\<lambda>p. pw_name p = name) db"
  "po_getpwnam name db = (Some p, rest) \<Longrightarrow> \<exists>before. db = before @ p # rest \<and> pw_name p = name"
  "fst (po_getpwnam name db) = None \<Longrightarrow> snd (po_getpwnam name db) = []"
proof -
  show "po_getpwnam name db = (Some p, rest) \<Longrightarrow> \<exists>before. db = before @ p # rest \<and> pw_name p = name"
    by (induction db) (auto split: if_splits intro: exI [of _ "[]"] dest: arg_cong [of _ _ "Cons _"] simp flip: append_Cons)
qed (induction db; auto)+

lemma po_getpwnam_again:
  assumes "distinct (map pw_name db)" "p \<in> set db"
  shows "fst (po_getpwnam (pw_name p) db) = Some p" "fst (po_getpwnam (pw_name p) (snd (po_getpwnam (pw_name p) db))) = None"
proof -
  obtain xs ys where db: "db = xs @ p # ys" using assms(2) by (meson split_list)
  have n: "pw_name p \<notin> pw_name ` set xs" "pw_name p \<notin> pw_name ` set ys" using assms(1) by (auto simp: db)
  from n(2) have "\<forall>q\<in>set ys. pw_name q \<noteq> pw_name p" by (metis imageI)
  then have "find (\<lambda>q. pw_name q = pw_name p) ys = None" by (simp add: find_None_iff)
  moreover have "po_getpwnam (pw_name p) (xs @ p # ys) = (Some p, ys)" using n(1) by (induction xs) auto
  ultimately show "fst (po_getpwnam (pw_name p) db) = Some p"
    "fst (po_getpwnam (pw_name p) (snd (po_getpwnam (pw_name p) db))) = None"
    by (simp_all add: db po_getpwnam_find(1) del: find_None_iff)
qed

text \<open>
  C25: the first call of \<open>po_getpwnam\<close> in a process returns the first entry with the name, or a null pointer
  if there is none; as it never rewinds the database, a second call for the same user finds nothing, and
  after a name that does not exist no call finds anything. \<open>po_initgroups\<close> gives the process the additional
  group and exactly the groups that list the user as a member, or reports \<open>EPERM\<close> and changes nothing;
  when the user is listed 1024 times or more it writes past its array.
\<close>

theorem user_databases:
  assumes "distinct (map pw_name db)" "p \<in> set db"
  shows "fst (po_getpwnam name db) = find (\<lambda>q. pw_name q = name) db \<and>
    fst (po_getpwnam (pw_name p) db) = Some p \<and>
    fst (po_getpwnam (pw_name p) (snd (po_getpwnam (pw_name p) db))) = None \<and>
    (name \<notin> pw_name ` set db \<longrightarrow> fst (po_getpwnam name' (snd (po_getpwnam name db))) = None) \<and>
    po_initgroups user grp gdb c =
      (if GROUPS_SIZE \<le> length (gids_of user gdb) then None
       else if cap_setgid c then Some (Inr (), c\<lparr>supp_groups := grp # gids_of user gdb\<rparr>)
       else Some (Inl EPERM, c)) \<and>
    set (gids_of user gdb) = gr_gid ` {g \<in> set gdb. user \<in> set (gr_mem g)}"
proof (intro conjI impI)
  show "fst (po_getpwnam name' (snd (po_getpwnam name db))) = None" if "name \<notin> pw_name ` set db"
  proof -
    have "fst (po_getpwnam name db) = None" using that by (auto simp: po_getpwnam_find(1) find_None_iff)
    then show ?thesis using po_getpwnam_find(3) by simp
  qed
  show "po_initgroups user grp gdb c =
      (if GROUPS_SIZE \<le> length (gids_of user gdb) then None
       else if cap_setgid c then Some (Inr (), c\<lparr>supp_groups := grp # gids_of user gdb\<rparr>)
       else Some (Inl EPERM, c))"
    using add_groups_result [of "[grp]" user gdb] by (simp add: po_initgroups_def setgroups_def Let_def)
qed (use assms po_getpwnam_find(1) po_getpwnam_again set_gids_of in auto)

theorem user_databases_witness:
  "(let root = \<lparr>pw_name = ''root'', pw_uid = 0, pw_gid = 0, pw_dir = ''/root'', pw_shell = ''/bin/sh''\<rparr>
    in fst (po_getpwnam ''root'' [root]) = Some root \<and> fst (po_getpwnam ''root'' (snd (po_getpwnam ''root'' [root]))) = None) \<and>
   po_initgroups ''ann'' 100 [\<lparr>gr_gid = 4, gr_mem = [''bob'', ''ann'']\<rparr>, \<lparr>gr_gid = 5, gr_mem = []\<rparr>]
       \<lparr>supp_groups = [], cap_setgid = True\<rparr> = Some (Inr (), \<lparr>supp_groups = [100, 4], cap_setgid = True\<rparr>)"
  using user_databases [of "[\<lparr>pw_name = ''root'', pw_uid = 0, pw_gid = 0, pw_dir = ''/root'', pw_shell = ''/bin/sh''\<rparr>]"
      "\<lparr>pw_name = ''root'', pw_uid = 0, pw_gid = 0, pw_dir = ''/root'', pw_shell = ''/bin/sh''\<rparr>" "''root''" "''root''"
      "''ann''" 100 "[\<lparr>gr_gid = 4, gr_mem = [''bob'', ''ann'']\<rparr>, \<lparr>gr_gid = 5, gr_mem = []\<rparr>]" "\<lparr>supp_groups = [], cap_setgid = True\<rparr>"]
  by (simp add: gids_of_def Let_def)

end
