(* ===== verification/Strerror.thy ===== *)
theory Strerror
  imports NumArgs
begin

text \<open>
  Three implementations of \<open>strerror\<close>: with a static buffer (\<open>threads/strerror.c\<close>), with thread-specific data
  (\<open>strerror_tsd.c\<close>) and with a thread-local variable (\<open>strerror_tls.c\<close>), and the program that compares them
  (\<open>strerror_test.c\<close>). Buffers are lists of bytes at addresses; the table of messages, \<open>_sys_errlist\<close>, is a
  parameter. The calls of the threads follow each other.
\<close>

abbreviation (input) MAX_ERROR_LEN :: nat where "MAX_ERROR_LEN \<equiv> 256"

section \<open>Filling a buffer\<close>

definition c_str :: "byte list \<Rightarrow> string" where
  "c_str bs = takeWhile (\<lambda>c. c \<noteq> NUL) bs"

text \<open>\<open>snprintf(buf, n, ...)\<close> and \<open>strncpy(buf, src, n)\<close> into an array.\<close>

definition buf_printf :: "nat \<Rightarrow> string \<Rightarrow> byte list \<Rightarrow> byte list" where
  "buf_printf n txt buf = (let t = take (n - 1) txt in t @ NUL # drop (length t + 1) buf)"

definition strncpy :: "nat \<Rightarrow> string \<Rightarrow> byte list \<Rightarrow> byte list" where
  "strncpy n src buf = (let t = take n (c_str src) in t @ replicate (n - length t) NUL @ drop n buf)"

definition known :: "(int \<rightharpoonup> string) \<Rightarrow> int \<Rightarrow> int \<Rightarrow> string option" where
  "known errlist nerr e = (if e < 0 \<or> nerr \<le> e then None else errlist e)"

definition error_into :: "(int \<rightharpoonup> string) \<Rightarrow> int \<Rightarrow> int \<Rightarrow> byte list \<Rightarrow> byte list" where
  "error_into errlist nerr e buf =
     (case known errlist nerr e of
        None \<Rightarrow> buf_printf MAX_ERROR_LEN (''Unknown error '' @ show_int e) buf
      | Some msg \<Rightarrow> (strncpy (MAX_ERROR_LEN - 1) msg buf)[MAX_ERROR_LEN - 1 := NUL])"

section \<open>The implementations\<close>

text \<open>
  \<open>bufs\<close> are the buffers by address, \<open>tsd\<close> the thread-specific values, \<open>next_addr\<close> where \<open>malloc\<close> goes on, and
  \<open>keys\<close> counts the keys that were created. \<open>pthread_once\<close> runs \<open>createKey\<close> if it has not run.
\<close>

record err_sys =
  bufs :: "nat \<Rightarrow> byte list"
  tsd :: "nat \<Rightarrow> nat option"
  next_addr :: nat
  keys :: nat

definition strerror :: "(int \<rightharpoonup> string) \<Rightarrow> int \<Rightarrow> nat \<Rightarrow> int \<Rightarrow> err_sys \<Rightarrow> nat \<times> err_sys" where
  "strerror errlist nerr thr e s = (0, s\<lparr>bufs := (bufs s)(0 := error_into errlist nerr e (bufs s 0))\<rparr>)"

text \<open>Each thread has its own copy of a thread-local variable; here at the address of its number.\<close>

definition strerror_tls :: "(int \<rightharpoonup> string) \<Rightarrow> int \<Rightarrow> nat \<Rightarrow> int \<Rightarrow> err_sys \<Rightarrow> nat \<times> err_sys" where
  "strerror_tls errlist nerr thr e s = (thr, s\<lparr>bufs := (bufs s)(thr := error_into errlist nerr e (bufs s thr))\<rparr>)"

definition createKey :: "errno option \<Rightarrow> err_sys \<Rightarrow> failure + err_sys" where
  "createKey kerr s =
     (case kerr of Some e \<Rightarrow> Inl (ErrExit ''pthread_key_create'' e) | None \<Rightarrow> Inr (s\<lparr>keys := keys s + 1\<rparr>))"

text \<open>What can fail in a call: \<open>pthread_key_create\<close>, \<open>malloc\<close> and \<open>pthread_setspecific\<close>. Fresh memory is arbitrary.\<close>

record tsd_calls =
  key_err :: "errno option"
  malloc_mem :: "byte list option"
  set_err :: "errno option"

definition strerror_tsd ::
    "(int \<rightharpoonup> string) \<Rightarrow> int \<Rightarrow> tsd_calls \<Rightarrow> nat \<Rightarrow> int \<Rightarrow> err_sys \<Rightarrow> failure + (nat \<times> err_sys)" where
  "strerror_tsd errlist nerr k thr e s =
     (case (if keys s = 0 then createKey (key_err k) s else Inr s) of
        Inl f \<Rightarrow> Inl f
      | Inr s1 \<Rightarrow>
          (case (case tsd s1 thr of
                   Some a \<Rightarrow> Inr (a, s1)
                 | None \<Rightarrow>
                     (case malloc_mem k of
                        None \<Rightarrow> Inl (ErrExit ''malloc'' ENOMEM)
                      | Some mem \<Rightarrow>
                          (let a = next_addr s1;
                               s2 = s1\<lparr>next_addr := a + 1, bufs := (bufs s1)(a := take MAX_ERROR_LEN (mem @ replicate MAX_ERROR_LEN NUL))\<rparr>
                           in case set_err k of
                                Some serr \<Rightarrow> Inl (ErrExit ''pthread_setspecific'' serr)
                              | None \<Rightarrow> Inr (a, s2\<lparr>tsd := (tsd s2)(thr \<mapsto> a)\<rparr>)))) of
             Inl f \<Rightarrow> Inl f
           | Inr (a, s3) \<Rightarrow> Inr (a, s3\<lparr>bufs := (bufs s3)(a := error_into errlist nerr e (bufs s3 a))\<rparr>)))"

text \<open>
  \<open>strerror_test.c\<close> with any of them: the main thread (0) calls it for \<open>EINVAL\<close>, the other (1) for \<open>EPERM\<close>, then
  both print what they find at their pointer, the other thread first.
\<close>

definition strerror_test :: "(nat \<Rightarrow> int \<Rightarrow> err_sys \<Rightarrow> failure + (nat \<times> err_sys)) \<Rightarrow> err_sys \<Rightarrow> failure + (string \<times> string)" where
  "strerror_test f s =
     (case f 0 22 s of
        Inl x \<Rightarrow> Inl x
      | Inr (str, s1) \<Rightarrow>
          (case f 1 1 s1 of
             Inl x \<Rightarrow> Inl x
           | Inr (str1, s2) \<Rightarrow> Inr (c_str (bufs s2 str1), c_str (bufs s2 str))))"

section \<open>Every call terminates its string\<close>

definition message :: "(int \<rightharpoonup> string) \<Rightarrow> int \<Rightarrow> int \<Rightarrow> string" where
  "message errlist nerr e = (case known errlist nerr e of None \<Rightarrow> ''Unknown error '' @ show_int e | Some msg \<Rightarrow> c_str msg)"

lemma message_no_NUL: "NUL \<notin> set (message errlist nerr e)"
proof -
  have "NUL \<notin> set (show_int e)" using show_int_chars [of NUL e] by (auto simp: digit_val_def)
  then show ?thesis by (auto simp: message_def c_str_def dest: set_takeWhileD split: option.split)
qed

lemma takeWhile_to_NUL: "NUL \<notin> set t \<Longrightarrow> takeWhile (\<lambda>c. c \<noteq> NUL) (t @ NUL # r) = t"
  by (induction t) auto

lemma error_into_string:
  assumes "length buf = MAX_ERROR_LEN"
  shows "length (error_into errlist nerr e buf) = MAX_ERROR_LEN"
    and "\<exists>rest. error_into errlist nerr e buf = take (MAX_ERROR_LEN - 1) (message errlist nerr e) @ NUL # rest"
proof -
  let ?t = "take (MAX_ERROR_LEN - 1) (message errlist nerr e)"
  have "\<exists>rest. error_into errlist nerr e buf = ?t @ NUL # rest \<and> length (?t @ NUL # rest) = MAX_ERROR_LEN"
  proof (cases "known errlist nerr e")
    case None
    then show ?thesis using assms(1) by (auto simp: error_into_def message_def buf_printf_def Let_def)
  next
    case (Some msg)
    obtain x where x: "drop 255 buf = [x]" using assms(1) by (cases "drop 255 buf") (auto simp: drop_eq_Nil length_0_conv dest: arg_cong [of _ _ length])
    have "strncpy 255 msg buf = (take 255 (c_str msg) @ replicate (255 - length (c_str msg)) NUL) @ [x]"
      by (simp add: strncpy_def Let_def x min_def)
    then have "error_into errlist nerr e buf = (take 255 (c_str msg) @ replicate (255 - length (c_str msg)) NUL) @ [NUL]"
      using Some by (simp add: error_into_def list_update_append min_def)
    then show ?thesis
      using Some by (cases "255 - length (c_str msg)") (auto simp: message_def replicate_append_same min_def)
  qed
  then show "length (error_into errlist nerr e buf) = MAX_ERROR_LEN"
    "\<exists>rest. error_into errlist nerr e buf = ?t @ NUL # rest" by auto
qed

lemma error_into_c_str:
  assumes "length buf = MAX_ERROR_LEN"
  shows "c_str (error_into errlist nerr e buf) = take (MAX_ERROR_LEN - 1) (message errlist nerr e)"
proof -
  have "NUL \<notin> set (take (MAX_ERROR_LEN - 1) (message errlist nerr e))"
    using message_no_NUL by (meson in_set_takeD)
  then show ?thesis
    using error_into_string(2) [OF assms, of errlist nerr e] takeWhile_to_NUL unfolding c_str_def by metis
qed

section \<open>Buffers of its own for each thread\<close>

fun run_calls :: "(nat \<Rightarrow> int \<Rightarrow> 's \<Rightarrow> 'e + (nat \<times> 's)) \<Rightarrow> (nat \<times> int) list \<Rightarrow> 's \<Rightarrow> 'e + 's" where
  "run_calls f [] s = Inr s"
| "run_calls f ((t, e) # cs) s = (case f t e s of Inl x \<Rightarrow> Inl x | Inr (_, s') \<Rightarrow> run_calls f cs s')"

definition last_call :: "(nat \<times> int) list \<Rightarrow> nat \<Rightarrow> int option" where
  "last_call cs t = fold (\<lambda>(t', e) r. if t' = t then Some e else r) cs None"

lemma run_calls_append:
  "run_calls f (cs @ ds) s = (case run_calls f cs s of Inl x \<Rightarrow> Inl x | Inr s' \<Rightarrow> run_calls f ds s')"
  by (induction f cs s rule: run_calls.induct) (auto split: sum.split)

lemma last_call_snoc: "last_call (cs @ [(t', e)]) t = (if t' = t then Some e else last_call cs t)"
  by (simp add: last_call_def)

text \<open>
  The contract of a reentrant implementation: a call leaves its message at an address of the calling thread and
  changes nothing at the addresses of others.
\<close>

locale private_buffers =
  fixes call :: "nat \<Rightarrow> int \<Rightarrow> 's \<Rightarrow> 'e + (nat \<times> 's)"
    and I :: "'s \<Rightarrow> bool"
    and owns :: "'s \<Rightarrow> nat \<Rightarrow> nat option"
    and text_at :: "'s \<Rightarrow> nat \<Rightarrow> string"
    and msg :: "int \<Rightarrow> string"
  assumes call_inv: "I s \<Longrightarrow> call t e s = Inr (a, s') \<Longrightarrow> I s'"
    and call_own: "I s \<Longrightarrow> call t e s = Inr (a, s') \<Longrightarrow> owns s' t = Some a \<and> text_at s' a = msg e"
    and call_other: "I s \<Longrightarrow> call t e s = Inr (a, s') \<Longrightarrow> t' \<noteq> t \<Longrightarrow> owns s t' = Some b \<Longrightarrow>
      owns s' t' = Some b \<and> text_at s' b = text_at s b"
begin

lemma run_inv: "I s \<Longrightarrow> run_calls call cs s = Inr s' \<Longrightarrow> I s'"
proof (induction cs arbitrary: s)
  case (Cons c cs)
  then obtain t e a s1 where "c = (t, e)" "call t e s = Inr (a, s1)" "run_calls call cs s1 = Inr s'"
    by (cases c) (auto split: sum.splits)
  then show ?case using Cons.IH call_inv Cons.prems(1) by blast
qed simp

lemma last_call_stays:
  "I s \<Longrightarrow> run_calls call cs s = Inr s' \<Longrightarrow> last_call cs t = Some e \<Longrightarrow>
   \<exists>a. owns s' t = Some a \<and> text_at s' a = msg e"
proof (induction cs arbitrary: s' rule: rev_induct)
  case (snoc c cs)
  obtain t' e' where c: "c = (t', e')" by fastforce
  then obtain s1 a where s1: "run_calls call cs s = Inr s1" "call t' e' s1 = Inr (a, s')"
    using snoc.prems(2) by (auto simp: run_calls_append split: sum.splits)
  have "I s1" using run_inv snoc.prems(1) s1(1) by blast
  show ?case
  proof (cases "t' = t")
    case True
    then show ?thesis using call_own [OF \<open>I s1\<close> s1(2)] snoc.prems(3) by (simp add: c last_call_snoc)
  next
    case False
    then have "last_call cs t = Some e" using snoc.prems(3) by (simp add: c last_call_snoc)
    then show ?thesis
      using snoc.IH [OF snoc.prems(1) s1(1)] call_other [OF \<open>I s1\<close> s1(2), of t] False by fastforce
  qed
qed (simp add: last_call_def)

end

definition buffers_ok :: "err_sys \<Rightarrow> bool" where
  "buffers_ok s \<longleftrightarrow> (\<forall>a. length (bufs s a) = MAX_ERROR_LEN)"

definition tsd_ok :: "err_sys \<Rightarrow> bool" where
  "tsd_ok s \<longleftrightarrow> buffers_ok s \<and> keys s \<le> 1 \<and> (\<forall>t a. tsd s t = Some a \<longrightarrow> a < next_addr s \<and> (\<forall>t'. tsd s t' = Some a \<longrightarrow> t' = t))"

abbreviation (input) shown :: "(int \<rightharpoonup> string) \<Rightarrow> int \<Rightarrow> int \<Rightarrow> string" where
  "shown errlist nerr e \<equiv> take (MAX_ERROR_LEN - 1) (message errlist nerr e)"

lemma strerror_tsd_cases:
  assumes "strerror_tsd errlist nerr k thr e s = Inr (a, s')"
  obtains (Known) "tsd s thr = Some a" "tsd s' = tsd s" "next_addr s' = next_addr s" "keys s' = max 1 (keys s)"
      "bufs s' = (bufs s)(a := error_into errlist nerr e (bufs s a))"
    | (New) mem where "tsd s thr = None" "a = next_addr s" "tsd s' = (tsd s)(thr \<mapsto> a)" "next_addr s' = a + 1"
      "keys s' = max 1 (keys s)" "length mem = MAX_ERROR_LEN" "bufs s' = (bufs s)(a := error_into errlist nerr e mem)"
proof -
  obtain s1 where s1: "(if keys s = 0 then createKey (key_err k) s else Inr s) = Inr s1"
    using assms by (auto simp: strerror_tsd_def split: sum.splits)
  then have same: "tsd s1 = tsd s" "next_addr s1 = next_addr s" "bufs s1 = bufs s" "keys s1 = max 1 (keys s)"
    by (auto simp: createKey_def split: if_splits option.splits)
  show ?thesis
  proof (cases "tsd s thr")
    case (Some b)
    then show ?thesis using assms Known same by (auto simp: strerror_tsd_def s1)
  next
    case None
    then obtain mem where "malloc_mem k = Some mem" "set_err k = None"
      using assms same by (auto simp: strerror_tsd_def s1 Let_def split: option.splits)
    then show ?thesis
      using assms None same New [of "take MAX_ERROR_LEN (mem @ replicate MAX_ERROR_LEN NUL)"]
      by (auto simp: strerror_tsd_def s1 Let_def)
  qed
qed

interpretation tls: private_buffers "\<lambda>t e s. Inr (strerror_tls errlist nerr t e s) :: failure + nat \<times> err_sys"
    buffers_ok "\<lambda>_ t. Some t" "\<lambda>s a. c_str (bufs s a)" "shown errlist nerr"
  for errlist nerr
  by unfold_locales
    (use error_into_string(1) error_into_c_str in \<open>auto simp: strerror_tls_def buffers_ok_def\<close>)

interpretation tsd: private_buffers "strerror_tsd errlist nerr k" tsd_ok tsd "\<lambda>s a. c_str (bufs s a)" "shown errlist nerr"
  for errlist nerr k
proof
  fix s t e a s' assume s: "tsd_ok s" "strerror_tsd errlist nerr k t e s = Inr (a, s')"
  show "tsd_ok s'"
    using s(2)
  proof (cases rule: strerror_tsd_cases)
    case Known
    then show ?thesis using s(1) error_into_string(1) by (auto simp: tsd_ok_def buffers_ok_def)
  next
    case (New mem)
    have "\<forall>u b. tsd s u = Some b \<longrightarrow> b < next_addr s" using s(1) by (simp add: tsd_ok_def)
    then have "\<forall>u. tsd s u \<noteq> Some (next_addr s)" by (metis less_irrefl)
    then show ?thesis
      using New s(1) error_into_string(1) by (auto simp: tsd_ok_def buffers_ok_def less_Suc_eq split: if_splits)
  qed
  show "tsd s' t = Some a \<and> c_str (bufs s' a) = shown errlist nerr e"
    using s(2) by (cases rule: strerror_tsd_cases) (use s(1) error_into_c_str in \<open>auto simp: tsd_ok_def buffers_ok_def\<close>)
  show "tsd s' t' = Some b \<and> c_str (bufs s' b) = c_str (bufs s b)" if "t' \<noteq> t" "tsd s t' = Some b" for t' b
  proof -
    have "b < next_addr s" "tsd s t \<noteq> Some b" using s(1) that unfolding tsd_ok_def by blast+
    with s(2) that show ?thesis by (elim strerror_tsd_cases) auto
  qed
qed

lemma strerror_tsd_returns:
  assumes "key_err k = None" "malloc_mem k \<noteq> None" "set_err k = None"
  shows "\<exists>a s'. strerror_tsd errlist nerr k t e s = Inr (a, s')"
  using assms by (auto simp: strerror_tsd_def createKey_def Let_def split: option.splits if_splits)

lemma run_calls_total:
  assumes "\<And>t e s. \<exists>a s'. f t e s = Inr (a, s')"
  shows "\<exists>s'. run_calls f cs s = Inr s'"
proof (induction cs arbitrary: s)
  case (Cons c cs)
  obtain t e where "c = (t, e)" by fastforce
  moreover obtain a s' where "f t e s = Inr (a, s')" using assms by blast
  ultimately show ?case using Cons.IH by simp
qed simp

section \<open>Properties\<close>

definition fresh_sys :: "err_sys \<Rightarrow> bool" where
  "fresh_sys s \<longleftrightarrow> buffers_ok s \<and> tsd s = Map.empty \<and> keys s = 0"

text \<open>
  C2: no implementation writes outside its buffer of 256 bytes, and each call leaves there, ended by a null byte,
  the first 255 characters of its message. With thread-specific or thread-local buffers, whatever calls the threads
  make in whatever order, the last string that a thread got stays as it is until its own next call, and
  the key is created once; with the static buffer the next call of any thread replaces it. So
  \<open>strerror_test\<close> prints the other thread's message twice with the static buffer, and two different ones otherwise.
\<close>

theorem strerror_buffers:
  assumes "fresh_sys s" "key_err k = None" "malloc_mem k \<noteq> None" "set_err k = None"
  shows "(\<exists>s'. run_calls (strerror_tsd errlist nerr k) cs s = Inr s' \<and> keys s' \<le> 1 \<and> buffers_ok s' \<and>
      (\<forall>t e. last_call cs t = Some e \<longrightarrow> (\<exists>a. tsd s' t = Some a \<and> c_str (bufs s' a) = shown errlist nerr e))) \<and>
    (\<exists>s'. run_calls (\<lambda>t e s. Inr (strerror_tls errlist nerr t e s) :: failure + nat \<times> err_sys) cs s = Inr s' \<and> buffers_ok s' \<and>
      (\<forall>t e. last_call cs t = Some e \<longrightarrow> c_str (bufs s' t) = shown errlist nerr e)) \<and>
    (let (a, s1) = strerror errlist nerr t e s; (b, s2) = strerror errlist nerr t' e' s1
     in buffers_ok s2 \<and> c_str (bufs s1 a) = shown errlist nerr e \<and> c_str (bufs s2 a) = shown errlist nerr e') \<and>
    strerror_test (\<lambda>t e s. Inr (strerror errlist nerr t e s)) s = Inr (shown errlist nerr 1, shown errlist nerr 1) \<and>
    strerror_test (\<lambda>t e s. Inr (strerror_tls errlist nerr t e s)) s = Inr (shown errlist nerr 1, shown errlist nerr 22) \<and>
    strerror_test (strerror_tsd errlist nerr k) s = Inr (shown errlist nerr 1, shown errlist nerr 22)"
proof -
  have ok: "buffers_ok s" "tsd_ok s" using assms(1) by (simp_all add: fresh_sys_def tsd_ok_def)
  have len: "length (bufs s a) = MAX_ERROR_LEN" for a using ok(1) by (simp add: buffers_ok_def)
  note into = error_into_string(1) error_into_c_str
  obtain s1 where s1: "run_calls (strerror_tsd errlist nerr k) cs s = Inr s1"
    using run_calls_total [of "strerror_tsd errlist nerr k" cs s, OF strerror_tsd_returns [OF assms(2-4)]] by blast
  then have 1: "\<exists>s'. run_calls (strerror_tsd errlist nerr k) cs s = Inr s' \<and> keys s' \<le> 1 \<and> buffers_ok s' \<and>
      (\<forall>t e. last_call cs t = Some e \<longrightarrow> (\<exists>a. tsd s' t = Some a \<and> c_str (bufs s' a) = shown errlist nerr e))"
    using tsd.run_inv [OF ok(2) s1] tsd.last_call_stays [OF ok(2) s1] unfolding tsd_ok_def by blast
  obtain s2 where s2: "run_calls (\<lambda>t e s. Inr (strerror_tls errlist nerr t e s) :: failure + nat \<times> err_sys) cs s = Inr s2"
    using run_calls_total [of "\<lambda>t e s. Inr (strerror_tls errlist nerr t e s) :: failure + nat \<times> err_sys"] by fastforce
  then have 2: "\<exists>s'. run_calls (\<lambda>t e s. Inr (strerror_tls errlist nerr t e s) :: failure + nat \<times> err_sys) cs s = Inr s' \<and>
      buffers_ok s' \<and> (\<forall>t e. last_call cs t = Some e \<longrightarrow> c_str (bufs s' t) = shown errlist nerr e)"
    using tls.run_inv [OF ok(1) s2] tls.last_call_stays [OF ok(1) s2] by auto
  have 3: "let (a, s1) = strerror errlist nerr t e s; (b, s2) = strerror errlist nerr t' e' s1
     in buffers_ok s2 \<and> c_str (bufs s1 a) = shown errlist nerr e \<and> c_str (bufs s2 a) = shown errlist nerr e'"
    using len into by (simp add: strerror_def buffers_ok_def)
  obtain a s3 where s3: "strerror_tsd errlist nerr k 0 22 s = Inr (a, s3)" using strerror_tsd_returns [OF assms(2-4)] by blast
  obtain b s4 where s4: "strerror_tsd errlist nerr k 1 1 s3 = Inr (b, s4)" using strerror_tsd_returns [OF assms(2-4)] by blast
  have i3: "tsd_ok s3" using tsd.call_inv [OF ok(2) s3] .
  have 4: "strerror_test (strerror_tsd errlist nerr k) s = Inr (shown errlist nerr 1, shown errlist nerr 22)"
    using tsd.call_own [OF ok(2) s3] tsd.call_own [OF i3 s4] tsd.call_other [OF i3 s4, of 0 a]
    by (simp add: strerror_test_def s3 s4 [unfolded One_nat_def])
  from 1 2 3 4 len into show ?thesis by (simp add: strerror_test_def strerror_def strerror_tls_def)
qed

theorem strerror_buffers_witness:
  "strerror_test (strerror_tsd [1 \<mapsto> ''Operation not permitted'', 22 \<mapsto> ''Invalid argument''] 134
      \<lparr>key_err = None, malloc_mem = Some [], set_err = None\<rparr>)
      \<lparr>bufs = (\<lambda>_. replicate MAX_ERROR_LEN NUL), tsd = Map.empty, next_addr = 0, keys = 0\<rparr> =
     Inr (''Operation not permitted'', ''Invalid argument'')"
proof -
  let ?s = "\<lparr>bufs = (\<lambda>_. replicate MAX_ERROR_LEN NUL), tsd = Map.empty, next_addr = 0, keys = 0\<rparr>"
  let ?k = "\<lparr>key_err = None, malloc_mem = Some [], set_err = None\<rparr>"
  have "fresh_sys ?s" by (simp add: fresh_sys_def buffers_ok_def)
  then show ?thesis
    using strerror_buffers [of ?s ?k "[1 \<mapsto> ''Operation not permitted'', 22 \<mapsto> ''Invalid argument'']" 134 "[]" 0 0 0 0]
    by (simp add: message_def known_def c_str_def)
qed

end
