(* ===== verification/SemInit.thy ===== *)
theory SemInit
  imports Steps Sems
begin

text \<open>
  Initialising a System V semaphore when several processes may be the first: \<open>svsem/svsem_good_init.c\<close> and
  \<open>svsem/svsem_bad_init.c\<close>. Any number of processes run the program side by side; each step is one system call
  of one process, which may fail. A new semaphore has an arbitrary value.
\<close>

section \<open>The programs\<close>

datatype init_pc =
    I_Create | I_SetVal | I_Dummy | I_Get | I_Try nat | I_Op | I_Done | I_Failed string

record init_sys =
  created :: bool
  semval :: int
  sem_otime :: bool
  ipc :: "nat \<Rightarrow> init_pc"

definition init_start :: init_sys where
  "init_start = \<lparr>created = False, semval = 0, sem_otime = False, ipc = (\<lambda>_. I_Create)\<rparr>"

definition goto :: "nat \<Rightarrow> init_pc \<Rightarrow> init_sys \<Rightarrow> init_sys" where
  "goto i p s = s\<lparr>ipc := (ipc s)(i := p)\<rparr>"

text \<open>
  \<open>semget\<close> with \<open>IPC_CREAT | IPC_EXCL\<close>: whoever creates the set goes on to initialise it; \<open>garbage\<close> is the value of a new
  semaphore.
\<close>

definition sem_create :: "int \<Rightarrow> nat \<Rightarrow> init_sys \<Rightarrow> init_sys" where
  "sem_create garbage i s =
     (if created s then goto i I_Get s
      else goto i I_SetVal (s\<lparr>created := True, semval := garbage, sem_otime := False\<rparr>))"

text \<open>The last operation, \<open>semop\<close> with \<open>n\<close>: \<open>None\<close> while it has to wait.\<close>

definition sem_do :: "int \<Rightarrow> nat \<Rightarrow> init_sys \<Rightarrow> init_sys option" where
  "sem_do n i s =
     (if n = 0 \<and> semval s \<noteq> 0 \<or> semval s + n < 0 then None
      else if semval s + n > SEMVMX then Some (goto i (I_Failed ''semop'') s)
      else Some (goto i I_Done (s\<lparr>semval := semval s + n, sem_otime := True\<rparr>)))"

abbreviation (input) MAX_TRIES :: nat where "MAX_TRIES \<equiv> 10"

text \<open>One call of process \<open>i\<close>, which succeeds or not; \<open>n\<close> is its \<open>sem-op\<close> argument.\<close>

definition good_init :: "int \<Rightarrow> int \<Rightarrow> bool \<Rightarrow> nat \<Rightarrow> init_sys \<Rightarrow> init_sys option" where
  "good_init garbage n ok i s =
     (case ipc s i of
        I_Create \<Rightarrow> Some (if ok then sem_create garbage i s else goto i (I_Failed ''semget 1'') s)
      | I_SetVal \<Rightarrow> Some (if ok then goto i I_Dummy (s\<lparr>semval := 0\<rparr>) else goto i (I_Failed ''semctl 1'') s)
      | I_Dummy \<Rightarrow>
          if \<not> ok then Some (goto i (I_Failed ''semop'') s)
          else if semval s = 0 then Some (goto i I_Op (s\<lparr>sem_otime := True\<rparr>)) else None
      | I_Get \<Rightarrow> Some (goto i (if ok then I_Try 0 else I_Failed ''semget 2'') s)
      | I_Try j \<Rightarrow>
          Some (goto i
            (if \<not> ok then I_Failed ''semctl 2''
             else if sem_otime s then I_Op
             else if j + 1 < MAX_TRIES then I_Try (j + 1)
             else I_Failed ''Existing semaphore not initialized'') s)
      | I_Op \<Rightarrow> if ok then sem_do n i s else Some (goto i (I_Failed ''semop'') s)
      | I_Done \<Rightarrow> None
      | I_Failed _ \<Rightarrow> None)"

text \<open>The wrong way: nobody waits for the creator. The operation is to add 1.\<close>

definition bad_init :: "int \<Rightarrow> bool \<Rightarrow> nat \<Rightarrow> init_sys \<Rightarrow> init_sys option" where
  "bad_init garbage ok i s =
     (case ipc s i of
        I_Create \<Rightarrow> Some (if ok then sem_create garbage i s else goto i (I_Failed ''semget 1'') s)
      | I_SetVal \<Rightarrow> Some (if ok then goto i I_Op (s\<lparr>semval := 0\<rparr>) else goto i (I_Failed ''semctl'') s)
      | I_Get \<Rightarrow> Some (goto i (if ok then I_Op else I_Failed ''semget 2'') s)
      | I_Op \<Rightarrow> if ok then sem_do 1 i s else Some (goto i (I_Failed ''semop'') s)
      | _ \<Rightarrow> None)"

definition good_step :: "int \<Rightarrow> int list \<Rightarrow> init_sys \<Rightarrow> init_sys \<Rightarrow> bool" where
  "good_step garbage ns s s' \<longleftrightarrow> (\<exists>i ok. i < length ns \<and> good_init garbage (ns ! i) ok i s = Some s')"

definition bad_step :: "int \<Rightarrow> nat \<Rightarrow> init_sys \<Rightarrow> init_sys \<Rightarrow> bool" where
  "bad_step garbage m s s' \<longleftrightarrow> (\<exists>i ok. i < m \<and> bad_init garbage ok i s = Some s')"

section \<open>The invariant\<close>

text \<open>What the operations that are done have added, and whether a process may still initialise.\<close>

definition done_sum :: "int list \<Rightarrow> init_sys \<Rightarrow> int" where
  "done_sum ns s = (\<Sum>i<length ns. if ipc s i = I_Done then ns ! i else 0)"

definition initialising :: "init_pc \<Rightarrow> bool" where
  "initialising p \<longleftrightarrow> p = I_SetVal \<or> p = I_Dummy"

definition init_inv :: "int list \<Rightarrow> init_sys \<Rightarrow> bool" where
  "init_inv ns s \<longleftrightarrow>
     (\<forall>i j. initialising (ipc s i) \<and> initialising (ipc s j) \<longrightarrow> i = j) \<and>
     (\<not> created s \<longrightarrow> (\<forall>i. \<not> initialising (ipc s i)) \<and> \<not> sem_otime s) \<and>
     (\<not> sem_otime s \<longrightarrow> (\<forall>i. ipc s i \<noteq> I_Op \<and> ipc s i \<noteq> I_Done)) \<and>
     (sem_otime s \<longrightarrow> (\<forall>i. \<not> initialising (ipc s i)) \<and> semval s = done_sum ns s) \<and>
     (\<forall>i. ipc s i = I_Dummy \<longrightarrow> semval s = 0)"

lemma init_inv_start: "init_inv ns init_start"
  by (simp add: init_inv_def init_start_def initialising_def)

lemma goto_simps [simp]:
  "created (goto i p s) = created s" "semval (goto i p s) = semval s" "sem_otime (goto i p s) = sem_otime s"
  "ipc (goto i p s) = (ipc s)(i := p)"
  by (simp_all add: goto_def)

lemma done_sum_goto:
  assumes "i < length ns" "ipc s i \<noteq> I_Done" "ipc s' = (ipc s)(i := p)"
  shows "done_sum ns s' = done_sum ns s + (if p = I_Done then ns ! i else 0)"
proof -
  have "done_sum ns s' = done_sum ns s - 0 + (if ipc s' i = I_Done then ns ! i else 0)"
    using sum_upd [of i "length ns" "\<lambda>k. if ipc s' k = I_Done then ns ! k else 0" "\<lambda>k. if ipc s k = I_Done then ns ! k else 0"]
      assms by (simp add: done_sum_def)
  then show ?thesis using assms(3) by simp
qed

text \<open>Most steps only move one process.\<close>

lemma init_inv_move:
  assumes "init_inv ns s" "i < length ns" "ipc s i \<noteq> I_Done"
    and "\<not> initialising p" "p \<noteq> I_Done" "p = I_Op \<longrightarrow> sem_otime s"
  shows "init_inv ns (goto i p s)"
proof -
  have "done_sum ns (goto i p s) = done_sum ns s" using done_sum_goto [OF assms(2,3)] assms(5) by simp
  moreover have "initialising (ipc (goto i p s) j) \<Longrightarrow> initialising (ipc s j)" for j using assms(4) by (auto split: if_splits)
  moreover have "ipc (goto i p s) j = I_Dummy \<Longrightarrow> ipc s j = I_Dummy" for j
    using assms(4) by (auto simp: initialising_def split: if_splits)
  moreover have "\<not> sem_otime s \<Longrightarrow> ipc (goto i p s) j \<noteq> I_Op \<and> ipc (goto i p s) j \<noteq> I_Done" for j
    using assms(1,5,6) by (auto simp: init_inv_def)
  ultimately show ?thesis using assms(1) unfolding init_inv_def goto_simps(1-3) by metis
qed

lemma init_inv_create:
  assumes "init_inv ns s" "i < length ns" "ipc s i = I_Create"
  shows "init_inv ns (sem_create garbage i s)"
proof (cases "created s")
  case True
  then show ?thesis using assms by (auto simp: sem_create_def initialising_def intro!: init_inv_move)
next
  case False
  then have "\<forall>j. \<not> initialising (ipc s j)" "\<forall>j. ipc s j \<noteq> I_Op \<and> ipc s j \<noteq> I_Done"
    using assms(1) by (auto simp: init_inv_def)
  then show ?thesis using False by (simp add: sem_create_def init_inv_def initialising_def)
qed

lemma init_inv_setval:
  assumes "init_inv ns s" "ipc s i = I_SetVal"
  shows "init_inv ns (goto i I_Dummy (s\<lparr>semval := 0\<rparr>))"
proof -
  have i: "initialising (ipc s i)" by (simp add: assms(2) initialising_def)
  then have "created s" "\<not> sem_otime s" "\<forall>j. initialising (ipc s j) \<longrightarrow> j = i" "\<forall>j. ipc s j \<noteq> I_Op \<and> ipc s j \<noteq> I_Done"
    using assms(1) unfolding init_inv_def by blast+
  then show ?thesis by (auto simp: init_inv_def)
qed

lemma init_inv_dummy:
  assumes "init_inv ns s" "i < length ns" "ipc s i = I_Dummy"
  shows "init_inv ns (goto i I_Op (s\<lparr>sem_otime := True\<rparr>))"
proof -
  have i: "initialising (ipc s i)" by (simp add: assms(3) initialising_def)
  then have *: "created s" "\<not> sem_otime s" "\<forall>j. initialising (ipc s j) \<longrightarrow> j = i" "\<forall>j. ipc s j \<noteq> I_Op \<and> ipc s j \<noteq> I_Done"
    "semval s = 0"
    using assms(1,3) unfolding init_inv_def by blast+
  then have "done_sum ns s = 0" by (simp add: done_sum_def)
  then have "done_sum ns (goto i I_Op (s\<lparr>sem_otime := True\<rparr>)) = 0"
    using done_sum_goto [OF assms(2), of s "goto i I_Op (s\<lparr>sem_otime := True\<rparr>)" I_Op] assms(3) by simp
  then show ?thesis using * by (auto simp: init_inv_def initialising_def)
qed

lemma init_inv_do:
  assumes "init_inv ns s" "i < length ns" "ipc s i = I_Op" "sem_do (ns ! i) i s = Some s'"
  shows "init_inv ns s'"
proof -
  have t: "sem_otime s" "\<forall>j. \<not> initialising (ipc s j)" "semval s = done_sum ns s" "created s"
    using assms(1,3) unfolding init_inv_def by metis+
  consider "s' = goto i (I_Failed ''semop'') s"
    | "s' = goto i I_Done (s\<lparr>semval := semval s + ns ! i, sem_otime := True\<rparr>)"
    using assms(4) by (auto simp: sem_do_def split: if_splits)
  then show ?thesis
  proof cases
    case 1
    then show ?thesis using assms by (auto simp: initialising_def intro!: init_inv_move)
  next
    case 2
    have "done_sum ns s' = done_sum ns s + ns ! i"
      using done_sum_goto [OF assms(2), of s s' I_Done] assms(3) 2 by simp
    then show ?thesis using t 2 by (auto simp: init_inv_def initialising_def)
  qed
qed

lemma good_init_inv:
  assumes "good_init garbage (ns ! i) ok i s = Some s'" "i < length ns" "init_inv ns s"
  shows "init_inv ns s'"
proof -
  note move = init_inv_move [OF assms(3,2)]
  show ?thesis
  proof (cases "ipc s i")
    case I_Create
    then show ?thesis
      using assms(1) init_inv_create [OF assms(3,2) I_Create] by (cases ok) (auto simp: good_init_def initialising_def intro!: move)
  next
    case I_SetVal
    then show ?thesis
      using assms(1) init_inv_setval [OF assms(3) I_SetVal] by (cases ok) (auto simp: good_init_def initialising_def intro!: move)
  next
    case I_Dummy
    then show ?thesis
      using assms(1) init_inv_dummy [OF assms(3,2) I_Dummy]
      by (cases ok) (auto simp: good_init_def initialising_def intro!: move split: if_splits)
  next
    case I_Get
    then show ?thesis using assms(1) by (cases ok) (auto simp: good_init_def initialising_def intro!: move)
  next
    case (I_Try j)
    then show ?thesis using assms(1) by (auto simp: good_init_def initialising_def intro!: move split: if_splits)
  next
    case I_Op
    then show ?thesis
      using assms(1) init_inv_do [OF assms(3,2) I_Op] by (cases ok) (auto simp: good_init_def initialising_def intro!: move)
  qed (use assms(1) in \<open>simp_all add: good_init_def\<close>)
qed

section \<open>Runs\<close>

fun calls_to_go :: "init_pc \<Rightarrow> nat" where
  "calls_to_go I_Create = 14" | "calls_to_go I_SetVal = 3" | "calls_to_go I_Dummy = 2" | "calls_to_go I_Get = 13"
| "calls_to_go (I_Try j) = 2 + (MAX_TRIES - j)" | "calls_to_go I_Op = 1" | "calls_to_go I_Done = 0"
| "calls_to_go (I_Failed _) = 0"

definition init_work :: "int list \<Rightarrow> init_sys \<Rightarrow> nat" where
  "init_work ns s = (\<Sum>i<length ns. calls_to_go (ipc s i))"

lemma good_init_moves:
  assumes "good_init garbage n ok i s = Some s'"
  shows "calls_to_go (ipc s' i) < calls_to_go (ipc s i)" "j \<noteq> i \<Longrightarrow> ipc s' j = ipc s j"
  using assms
  by (cases "ipc s i"; auto simp: good_init_def sem_create_def sem_do_def split: if_splits)+

interpretation good_run: ending_system "good_step garbage ns" "init_inv ns" "init_work ns"
  for garbage ns
proof
  fix s t assume a: "init_inv ns s" "good_step garbage ns s t"
  then obtain i ok where i: "i < length ns" "good_init garbage (ns ! i) ok i s = Some t" by (auto simp: good_step_def)
  show "init_inv ns t" using good_init_inv [OF i(2,1) a(1)] .
  show "init_work ns t < init_work ns s"
    unfolding init_work_def
  proof (rule sum_strict_mono_ex1)
    show "\<forall>x\<in>{..<length ns}. calls_to_go (ipc t x) \<le> calls_to_go (ipc s x)"
      using good_init_moves [OF i(2)] by (metis less_imp_le order_refl)
  qed (use i(1) good_init_moves(1) [OF i(2)] in auto)
qed

lemma bad_race:
  assumes "0 \<le> garbage" "garbage < SEMVMX"
  shows "\<exists>s. (bad_step garbage 2)\<^sup>*\<^sup>* init_start s \<and> ipc s 0 = I_Done \<and> ipc s 1 = I_Done \<and> semval s = 1"
proof -
  have step: "bad_step garbage 2 s t" if "bad_init garbage True i s = Some t" "i < 2" for i s t
    using that by (auto simp: bad_step_def)
  let ?s = "\<lambda>v p q. \<lparr>created = True, semval = v, sem_otime = False, ipc = (\<lambda>_. I_Create)(0 := p, 1 := q)\<rparr>"
  let ?t = "\<lambda>v p q. (?s v p q)\<lparr>sem_otime := True\<rparr>"
  note defs = bad_init_def sem_create_def sem_do_def goto_def init_start_def fun_eq_iff
  have "bad_step garbage 2 init_start (?s garbage I_SetVal I_Create)" by (rule step [of 0]) (simp_all add: defs)
  moreover have "bad_step garbage 2 (?s garbage I_SetVal I_Create) (?s garbage I_SetVal I_Get)"
    by (rule step [of 1]) (simp_all add: defs)
  moreover have "bad_step garbage 2 (?s garbage I_SetVal I_Get) (?s garbage I_SetVal I_Op)"
    by (rule step [of 1]) (simp_all add: defs)
  moreover have "bad_step garbage 2 (?s garbage I_SetVal I_Op) (?t (garbage + 1) I_SetVal I_Done)"
    using assms by (intro step [of 1]) (simp_all add: defs)
  moreover have "bad_step garbage 2 (?t (garbage + 1) I_SetVal I_Done) (?t 0 I_Op I_Done)"
    by (rule step [of 0]) (simp_all add: defs)
  moreover have "bad_step garbage 2 (?t 0 I_Op I_Done) (?t 1 I_Done I_Done)"
    by (rule step [of 0]) (simp_all add: defs)
  ultimately have "(bad_step garbage 2)\<^sup>*\<^sup>* init_start (?t 1 I_Done I_Done)"
    by (meson converse_rtranclp_into_rtranclp rtranclp.rtrancl_refl)
  then show ?thesis by (intro exI [of _ "?t 1 I_Done I_Done"]) simp
qed

text \<open>
  C4: with \<open>svsem_good_init\<close> run by any number of processes, whatever their schedule and whatever calls fail, at most
  one process initialises the semaphore, none operates on it before that is over, and from then on its value is the
  sum of the operations that were done, so that none is lost; no process makes more than 14 calls. With
  \<open>svsem_bad_init\<close> two processes may both add 1 and leave the value 1.
\<close>

theorem semaphore_initialised_once:
  "((good_step garbage ns)\<^sup>*\<^sup>* init_start s \<longrightarrow>
      (\<forall>i j. initialising (ipc s i) \<and> initialising (ipc s j) \<longrightarrow> i = j) \<and>
      (\<forall>i. ipc s i = I_Op \<or> ipc s i = I_Done \<longrightarrow>
         created s \<and> (\<forall>j. \<not> initialising (ipc s j)) \<and> semval s = done_sum ns s)) \<and>
   (run 0 = init_start \<and> (\<forall>i<m. good_step garbage ns (run i) (run (Suc i))) \<longrightarrow> m \<le> 14 * length ns) \<and>
   (0 \<le> garbage \<and> garbage < SEMVMX \<longrightarrow>
      (\<exists>s. (bad_step garbage 2)\<^sup>*\<^sup>* init_start s \<and> ipc s 0 = I_Done \<and> ipc s 1 = I_Done \<and> semval s = 1))"
proof (intro conjI impI)
  assume "(good_step garbage ns)\<^sup>*\<^sup>* init_start s"
  then have "init_inv ns s" using good_run.reachable_inv init_inv_start by blast
  then show "\<forall>i j. initialising (ipc s i) \<and> initialising (ipc s j) \<longrightarrow> i = j"
    "\<forall>i. ipc s i = I_Op \<or> ipc s i = I_Done \<longrightarrow>
       created s \<and> (\<forall>j. \<not> initialising (ipc s j)) \<and> semval s = done_sum ns s"
    unfolding init_inv_def by blast+
next
  assume "run 0 = init_start \<and> (\<forall>i<m. good_step garbage ns (run i) (run (Suc i)))"
  then show "m \<le> 14 * length ns"
    using good_run.run_bounded [of ns run m garbage] init_inv_start [of ns] by (simp add: init_work_def init_start_def)
next
  assume "0 \<le> garbage \<and> garbage < SEMVMX"
  then show "\<exists>s. (bad_step garbage 2)\<^sup>*\<^sup>* init_start s \<and> ipc s 0 = I_Done \<and> ipc s 1 = I_Done \<and> semval s = 1"
    using bad_race by blast
qed

theorem semaphore_initialised_once_witness:
  "\<exists>s. (bad_step 0 2)\<^sup>*\<^sup>* init_start s \<and> ipc s 0 = I_Done \<and> ipc s 1 = I_Done \<and> semval s = 1"
  using semaphore_initialised_once [of 0 "[]" init_start "\<lambda>_. init_start" 0] by simp

end
