(* ===== verification/Reaper.thy ===== *)
theory Reaper
  imports Steps
begin

text \<open>
  \<open>procexec/multi_SIGCHLD.c\<close>: a parent that starts children and waits, in a handler for \<open>SIGCHLD\<close>, until all of them have
  been reaped. The signal is not queued: while it is blocked, any number of deaths leave it pending once. It is blocked
  everywhere but in \<open>sigsuspend\<close>. A step is a call of the parent or the end of a child; \<open>waitpid\<close> picks any dead child.
\<close>

section \<open>The program\<close>

datatype child_state = C_New | C_Running | C_Zombie | C_Reaped

datatype parent_pc = R_Fork nat | R_Test | R_Suspend | R_Wait | R_Return | R_Exit | R_Failed

record reap_sys =
  kids :: "nat \<Rightarrow> child_state"
  sigchld :: bool
  numLiveChildren :: int
  sigCnt :: int
  rpc :: parent_pc

definition reap_start :: "nat \<Rightarrow> reap_sys" where
  "reap_start n = \<lparr>kids = (\<lambda>_. C_New), sigchld = False, numLiveChildren = int n, sigCnt = 0, rpc = R_Fork 0\<rparr>"

text \<open>The loop of \<open>sigchldHandler\<close>: one call of \<open>waitpid(-1, &status, WNOHANG)\<close>, which finds the child \<open>z\<close> if it finds one.\<close>

definition sigchldHandler :: "nat \<Rightarrow> nat \<Rightarrow> reap_sys \<Rightarrow> reap_sys option" where
  "sigchldHandler n z s =
     (if \<forall>k<n. kids s k \<noteq> C_Zombie then Some (s\<lparr>rpc := R_Return\<rparr>)
      else if z < n \<and> kids s z = C_Zombie
      then Some (s\<lparr>kids := (kids s)(z := C_Reaped), numLiveChildren := numLiveChildren s - 1\<rparr>)
      else None)"

text \<open>\<open>main\<close>; \<open>ok\<close> says whether \<open>fork\<close> succeeds. \<open>sigsuspend\<close> waits for the signal and runs the handler.\<close>

definition parent_next :: "nat \<Rightarrow> bool \<Rightarrow> nat \<Rightarrow> reap_sys \<Rightarrow> reap_sys option" where
  "parent_next n ok z s =
     (case rpc s of
        R_Fork j \<Rightarrow>
          Some (if \<not> j < n then s\<lparr>rpc := R_Test\<rparr>
                else if ok then s\<lparr>kids := (kids s)(j := C_Running), rpc := R_Fork (j + 1)\<rparr>
                else s\<lparr>rpc := R_Failed\<rparr>)
      | R_Test \<Rightarrow> Some (s\<lparr>rpc := (if 0 < numLiveChildren s then R_Suspend else R_Exit)\<rparr>)
      | R_Suspend \<Rightarrow> if sigchld s then Some (s\<lparr>sigchld := False, rpc := R_Wait\<rparr>) else None
      | R_Wait \<Rightarrow> sigchldHandler n z s
      | R_Return \<Rightarrow> Some (s\<lparr>sigCnt := sigCnt s + 1, rpc := R_Test\<rparr>)
      | R_Exit \<Rightarrow> None
      | R_Failed \<Rightarrow> None)"

definition child_exit :: "nat \<Rightarrow> reap_sys \<Rightarrow> reap_sys option" where
  "child_exit k s =
     (if kids s k = C_Running then Some (s\<lparr>kids := (kids s)(k := C_Zombie), sigchld := True\<rparr>) else None)"

definition reap_over :: "reap_sys \<Rightarrow> bool" where
  "reap_over s \<longleftrightarrow> rpc s = R_Exit \<or> rpc s = R_Failed"

definition reap_step :: "nat \<Rightarrow> reap_sys \<Rightarrow> reap_sys \<Rightarrow> bool" where
  "reap_step n s t \<longleftrightarrow>
     \<not> reap_over s \<and> ((\<exists>ok z. parent_next n ok z s = Some t) \<or> (\<exists>k<n. child_exit k s = Some t))"

section \<open>The invariant\<close>

definition how_many :: "nat \<Rightarrow> (child_state \<Rightarrow> int) \<Rightarrow> (nat \<Rightarrow> child_state) \<Rightarrow> int" where
  "how_many n f g = (\<Sum>k<n. f (g k))"

fun dead :: "child_state \<Rightarrow> int" where
  "dead C_New = 0" | "dead C_Running = 0" | "dead C_Zombie = 1" | "dead C_Reaped = 1"

fun alive :: "child_state \<Rightarrow> int" where
  "alive C_New = 1" | "alive C_Running = 1" | "alive C_Zombie = 1" | "alive C_Reaped = 0"

fun forked :: "parent_pc \<Rightarrow> nat \<Rightarrow> nat \<Rightarrow> bool" where
  "forked (R_Fork j) n k = (k < j)"
| "forked _ n k = (k < n)"

fun handling :: "parent_pc \<Rightarrow> int" where
  "handling R_Wait = 1" | "handling R_Return = 1" | "handling _ = 0"

definition reap_inv :: "nat \<Rightarrow> reap_sys \<Rightarrow> bool" where
  "reap_inv n s \<longleftrightarrow>
     (rpc s = R_Failed \<or>
      (\<forall>k<n. kids s k = C_New \<longleftrightarrow> \<not> forked (rpc s) n k) \<and>
      (\<forall>j. rpc s = R_Fork j \<longrightarrow> j \<le> n) \<and>
      numLiveChildren s = how_many n alive (kids s) \<and>
      (rpc s \<noteq> R_Wait \<longrightarrow> (\<exists>k<n. kids s k = C_Zombie) \<longrightarrow> sigchld s) \<and>
      (rpc s = R_Exit \<longrightarrow> numLiveChildren s = 0) \<and> (rpc s = R_Suspend \<longrightarrow> 0 < numLiveChildren s) \<and>
      0 \<le> sigCnt s \<and>
      sigCnt s + handling (rpc s) + (if sigchld s then 1 else 0) \<le> how_many n dead (kids s))"

lemma how_many_upd:
  assumes "k < n"
  shows "how_many n f (g(k := c)) = how_many n f g - f (g k) + f c"
  unfolding how_many_def using sum_upd [OF assms, of "\<lambda>j. f ((g(k := c)) j)" "\<lambda>j. f (g j)"] by simp

lemma how_many_zero: "(\<And>c. 0 \<le> f c) \<Longrightarrow> how_many n f g = 0 \<longleftrightarrow> (\<forall>k<n. f (g k) = 0)"
  by (auto simp: how_many_def sum_nonneg_eq_0_iff)

lemma how_many_le: "(\<And>c. f c \<le> 1) \<Longrightarrow> how_many n f g \<le> int n"
  unfolding how_many_def using sum_bounded_above [of "{..<n}" "\<lambda>k. f (g k)" 1] by simp

lemma alive_dead_bounds: "0 \<le> alive c" "0 \<le> dead c" "dead c \<le> 1"
  by (cases c; simp)+

lemma reap_inv_start: "reap_inv n (reap_start n)"
  by (simp add: reap_inv_def reap_start_def how_many_def)

lemma child_exit_inv:
  assumes "child_exit k s = Some t" "k < n" "reap_inv n s" "\<not> reap_over s"
  shows "reap_inv n t"
proof -
  have r: "kids s k = C_Running" "t = s\<lparr>kids := (kids s)(k := C_Zombie), sigchld := True\<rparr>"
    using assms(1) by (auto simp: child_exit_def split: if_splits)
  have "how_many n alive (kids t) = how_many n alive (kids s)" "how_many n dead (kids t) = how_many n dead (kids s) + 1"
    unfolding r(2) using how_many_upd [OF assms(2), of _ "kids s" C_Zombie] r(1) by simp_all
  then show ?thesis
    using assms(3,4) r by (auto simp: reap_inv_def reap_over_def split: if_splits)
qed

lemma reap_one_inv:
  assumes "reap_inv n s" "rpc s = R_Wait" "z < n" "kids s z = C_Zombie"
  shows "reap_inv n (s\<lparr>kids := (kids s)(z := C_Reaped), numLiveChildren := numLiveChildren s - 1\<rparr>)"
  using assms how_many_upd [OF assms(3), of _ "kids s" C_Reaped] by (auto simp: reap_inv_def)

lemma parent_next_inv:
  assumes "parent_next n ok z s = Some t" "reap_inv n s"
  shows "reap_inv n t"
proof (cases "rpc s")
  case (R_Fork j)
  show ?thesis
  proof (cases "j < n \<and> ok")
    case True
    then have "kids s j = C_New" using assms(2) R_Fork by (auto simp: reap_inv_def)
    then show ?thesis
      using True assms R_Fork how_many_upd [of j n _ "kids s" C_Running] by (auto simp: parent_next_def reap_inv_def less_Suc_eq split: if_splits)
  next
    case False
    then show ?thesis using assms R_Fork by (auto simp: parent_next_def reap_inv_def split: if_splits)
  qed
next
  case R_Wait
  then show ?thesis
    using assms reap_one_inv [OF assms(2) R_Wait, of z]
    by (auto simp: parent_next_def sigchldHandler_def reap_inv_def split: if_splits)
next
  case R_Test
  then show ?thesis
    using assms how_many_zero [of alive n "kids s"] alive_dead_bounds sum_nonneg [of "{..<n}" "\<lambda>k. alive (kids s k)"]
    by (auto simp: parent_next_def reap_inv_def how_many_def)
qed (use assms in \<open>auto simp: parent_next_def reap_inv_def split: if_splits\<close>)

section \<open>Every run ends\<close>

fun kid_work :: "child_state \<Rightarrow> int" where
  "kid_work C_New = 8" | "kid_work C_Running = 7" | "kid_work C_Zombie = 1" | "kid_work C_Reaped = 0"

fun pc_work :: "parent_pc \<Rightarrow> int" where
  "pc_work (R_Fork _) = 6" | "pc_work R_Wait = 7" | "pc_work R_Return = 6" | "pc_work R_Test = 5"
| "pc_work R_Suspend = 3" | "pc_work R_Exit = 0" | "pc_work R_Failed = 0"

definition reap_work :: "nat \<Rightarrow> reap_sys \<Rightarrow> int" where
  "reap_work n s = how_many n kid_work (kids s) + (if sigchld s then 5 else 0) + pc_work (rpc s)"

lemma reap_work_nonneg: "0 \<le> reap_work n s"
proof -
  have "0 \<le> kid_work c" for c by (cases c) simp_all
  then have "0 \<le> how_many n kid_work (kids s)" by (simp add: how_many_def sum_nonneg)
  moreover have "0 \<le> pc_work (rpc s)" by (cases "rpc s") simp_all
  ultimately show ?thesis by (simp add: reap_work_def)
qed

lemma reap_step_work:
  assumes "reap_step n s t" "reap_inv n s"
  shows "reap_work n t < reap_work n s"
proof -
  have upd: "how_many n kid_work ((kids s)(k := c)) = how_many n kid_work (kids s) - kid_work (kids s k) + kid_work c"
    if "k < n" for k c using how_many_upd that .
  have "reap_work n t < reap_work n s" if "child_exit k s = Some t" "k < n" for k
    using that upd [of k C_Zombie] by (auto simp: child_exit_def reap_work_def split: if_splits)
  moreover have "reap_work n t < reap_work n s" if p: "parent_next n ok z s = Some t" for ok z
  proof (cases "rpc s")
    case (R_Fork j)
    have "j < n \<Longrightarrow> kids s j = C_New" using assms(2) R_Fork by (auto simp: reap_inv_def)
    then show ?thesis
      using p R_Fork upd [of j C_Running] by (auto simp: parent_next_def reap_work_def split: if_splits)
  next
    case R_Wait
    then show ?thesis
      using p upd [of z C_Reaped] by (auto simp: parent_next_def sigchldHandler_def reap_work_def split: if_splits)
  qed (use p in \<open>auto simp: parent_next_def reap_work_def split: if_splits\<close>)
  ultimately show ?thesis using assms(1) unfolding reap_step_def by blast
qed

lemma reap_progress:
  assumes "reap_inv n s" "\<not> reap_over s"
  shows "\<exists>t. reap_step n s t"
proof (cases "rpc s = R_Suspend \<and> \<not> sigchld s")
  case True
  then have k: "\<forall>k<n. kids s k \<noteq> C_New \<and> kids s k \<noteq> C_Zombie" "0 < how_many n alive (kids s)"
    using assms(1) by (auto simp: reap_inv_def)
  then obtain k where "k < n" "alive (kids s k) \<noteq> 0" using how_many_zero [of alive n "kids s", OF alive_dead_bounds(1)] by auto
  then have "kids s k = C_Running" using k(1) by (cases "kids s k") auto
  then show ?thesis using assms(2) \<open>k < n\<close> by (auto simp: reap_step_def child_exit_def)
next
  case False
  then have "\<exists>ok z. parent_next n ok z s \<noteq> None"
    using assms(2) by (cases "rpc s") (auto simp: parent_next_def sigchldHandler_def reap_over_def)
  then show ?thesis using assms(2) unfolding reap_step_def by blast
qed

interpretation reap_run: live_system "reap_step n" "reap_inv n" "\<lambda>s. nat (reap_work n s)" reap_over
  for n
proof
  fix s t assume a: "reap_inv n s" "reap_step n s t"
  show "reap_inv n t" using a child_exit_inv parent_next_inv unfolding reap_step_def by blast
  show "nat (reap_work n t) < nat (reap_work n s)"
    using reap_step_work [OF a(2,1)] reap_work_nonneg [of n t] by simp
qed (rule reap_progress)

text \<open>
  C19: for any number of children, whatever the order in which they end and however many deaths share one signal, the
  parent loses none: while a dead child has not been waited for, the signal is pending or the handler is
  looking for it. A parent that is not over can go on or waits for a child that runs, every run ends within \<open>8 * n + 6\<close>
  steps, and a parent that exits has reaped every child, in at most \<open>n\<close> calls of the handler.
\<close>

theorem all_children_reaped:
  "((reap_step n)\<^sup>*\<^sup>* (reap_start n) s \<and> rpc s \<noteq> R_Failed \<longrightarrow>
      ((\<exists>k<n. kids s k = C_Zombie) \<longrightarrow> sigchld s \<or> rpc s = R_Wait) \<and>
      (\<not> reap_over s \<longrightarrow> (\<exists>t. reap_step n s t)) \<and>
      (rpc s = R_Exit \<longrightarrow> (\<forall>k<n. kids s k = C_Reaped)) \<and> 0 \<le> sigCnt s \<and> sigCnt s \<le> int n) \<and>
   (run 0 = reap_start n \<and> (\<forall>i<m. reap_step n (run i) (run (Suc i))) \<longrightarrow> int m \<le> 8 * int n + 6) \<and>
   (\<exists>t. (reap_step n)\<^sup>*\<^sup>* (reap_start n) t \<and> reap_over t)"
proof (intro conjI impI)
  assume r: "(reap_step n)\<^sup>*\<^sup>* (reap_start n) s \<and> rpc s \<noteq> R_Failed"
  then have inv: "reap_inv n s" using reap_run.reachable_inv reap_inv_start by blast
  then have i: "rpc s \<noteq> R_Wait \<longrightarrow> (\<exists>k<n. kids s k = C_Zombie) \<longrightarrow> sigchld s"
    "rpc s = R_Exit \<longrightarrow> how_many n alive (kids s) = 0" "0 \<le> sigCnt s"
    "sigCnt s + handling (rpc s) + (if sigchld s then 1 else 0) \<le> how_many n dead (kids s)"
    using r unfolding reap_inv_def by auto
  show "sigchld s \<or> rpc s = R_Wait" if "\<exists>k<n. kids s k = C_Zombie" using that i(1) by blast
  show "\<exists>t. reap_step n s t" if "\<not> reap_over s" using reap_progress [OF inv that] .
  have "alive c = 0 \<longleftrightarrow> c = C_Reaped" for c by (cases c) simp_all
  then show "\<forall>k<n. kids s k = C_Reaped" if "rpc s = R_Exit"
    using that i(2) how_many_zero [of alive n "kids s", OF alive_dead_bounds(1)] by simp
  show "0 \<le> sigCnt s" by (rule i(3))
  have "0 \<le> handling (rpc s)" by (cases "rpc s") simp_all
  then show "sigCnt s \<le> int n"
    using i(4) how_many_le [of dead n "kids s", OF alive_dead_bounds(3)] by (auto split: if_splits)
next
  assume "run 0 = reap_start n \<and> (\<forall>i<m. reap_step n (run i) (run (Suc i)))"
  then have "nat (reap_work n (run m)) + m \<le> nat (reap_work n (reap_start n))"
    using reap_run.run_bounded [of n run m] reap_inv_start [of n] by simp
  then show "int m \<le> 8 * int n + 6" by (simp add: reap_work_def reap_start_def how_many_def)
next
  show "\<exists>t. (reap_step n)\<^sup>*\<^sup>* (reap_start n) t \<and> reap_over t" using reap_run.reaches_final reap_inv_start by blast
qed

theorem all_children_reaped_witness:
  "\<not> reap_over (reap_start 3) \<and> (\<exists>t. reap_step 3 (reap_start 3) t)"
  using all_children_reaped [of 3 "reap_start 3" "\<lambda>_. reap_start 3" 0] by (simp add: reap_over_def reap_start_def)

end
