(* ===== verification/SeekIO.thy ===== *)
theory SeekIO
  imports FileTools
begin

text \<open>
  \<open>fileio/seek_io.c\<close>: reads, writes and seeks on one file as the command line asks, over the file
  system calls of Files. The abstract file is the cursor of Files, a content and an offset.
\<close>

section \<open>Displaying bytes\<close>

fun hex_digits :: "nat \<Rightarrow> string" where
  "hex_digits n =
     (if n < 16 then [''0123456789abcdef'' ! n] else hex_digits (n div 16) @ [''0123456789abcdef'' ! (n mod 16)])"

declare hex_digits.simps [simp del]

text \<open>\<open>printf("%02x ", n)\<close>\<close>

definition show_02x :: "nat \<Rightarrow> string" where
  "show_02x n = (let ds = hex_digits n in replicate (2 - length ds) CHR ''0'' @ ds @ '' '')"

text \<open>
  The plain type \<open>char\<close> is signed on this platform: the cast of line 81 to \<open>unsigned int\<close> extends the
  sign.
\<close>

definition char_as_uint :: "byte \<Rightarrow> nat" where
  "char_as_uint c = nat (to_unsigned 32 (to_signed 8 (int (of_char c))))"

definition show_text :: "byte list \<Rightarrow> string" where
  "show_text bs = map (\<lambda>c. if isprint c then c else CHR ''?'') bs"

definition show_hex :: "byte list \<Rightarrow> string" where
  "show_hex bs = concat (map (\<lambda>c. show_02x (char_as_uint c)) bs)"

definition show_bytes :: "string \<Rightarrow> byte list \<Rightarrow> string" where
  "show_bytes arg bs =
     (if bs = [] then arg @ '': end-of-file'' @ [LF]
      else arg @ '': '' @ (if hd arg = CHR ''r'' then show_text bs else show_hex bs) @ [LF])"

section \<open>The program\<close>

text \<open>
  One argument: the text it prints, or the failure that ends the program. \<open>malloc\<close> tells whether a
  block of a given size can be had.
\<close>

definition seek_io_arg ::
    "(int \<Rightarrow> bool) \<Rightarrow> int \<Rightarrow> string \<Rightarrow> kernel \<Rightarrow> (failure + string) \<times> kernel" where
  "seek_io_arg malloc fd arg k =
     (case arg of
        [] \<Rightarrow> (Inl (CmdLineErr ''Argument must start with [rRws]: %s''), k)
      | c # rest \<Rightarrow>
          if c = CHR ''r'' \<or> c = CHR ''R'' then
            (case getLong (Some rest) GN_ANY_BASE (Some arg) of
               Inl (GnFail t) \<Rightarrow> (Inl (GnFailure t), k)
             | Inr l \<Rightarrow>
                 (let n = to_unsigned 64 l
                  in if \<not> malloc n then (Inl (ErrExit ''malloc'' ENOMEM), k)
                     else (case sys_read fd k (nat n) of
                             (Inl e, k1) \<Rightarrow> (Inl (ErrExit ''read'' e), k1)
                           | (Inr bs, k1) \<Rightarrow> (Inr (show_bytes arg bs), k1))))
          else if c = CHR ''w'' then
            (case sys_write fd k rest of
               (Inl e, k1) \<Rightarrow> (Inl (ErrExit ''write'' e), k1)
             | (Inr m, k1) \<Rightarrow> (Inr (arg @ '': wrote '' @ show_nat m @ '' bytes'' @ [LF]), k1))
          else if c = CHR ''s'' then
            (case getLong (Some rest) GN_ANY_BASE (Some arg) of
               Inl (GnFail t) \<Rightarrow> (Inl (GnFailure t), k)
             | Inr off \<Rightarrow>
                 (case sys_lseek fd off SEEK_SET k of
                    (Inl e, k1) \<Rightarrow> (Inl (ErrExit ''lseek'' e), k1)
                  | (Inr _, k1) \<Rightarrow> (Inr (arg @ '': seek succeeded'' @ [LF]), k1)))
          else (Inl (CmdLineErr ''Argument must start with [rRws]: %s''), k))"

text \<open>The loop over the arguments, with all the text printed until it ends.\<close>

fun seek_io_args ::
    "(int \<Rightarrow> bool) \<Rightarrow> int \<Rightarrow> string list \<Rightarrow> string \<Rightarrow> kernel \<Rightarrow> failure option \<times> string \<times> kernel" where
  "seek_io_args malloc fd [] printed k = (None, printed, k)"
| "seek_io_args malloc fd (a # as) printed k =
     (case seek_io_arg malloc fd a k of
        (Inl f, k1) \<Rightarrow> (Some f, printed, k1)
      | (Inr t, k1) \<Rightarrow> seek_io_args malloc fd as (printed @ t) k1)"

definition seek_io_main :: "(int \<Rightarrow> bool) \<Rightarrow> string list \<Rightarrow> kernel \<Rightarrow> failure option \<times> string \<times> kernel" where
  "seek_io_main malloc argv k =
     (if length argv < 3 \<or> argv ! 1 = ''--help''
      then (Some (UsageErr ''%s file {r<length>|R<length>|w<string>|s<offset>}...''), [], k)
      else
        (case sys_open (argv ! 1) [O_RDWR, O_CREAT] k of
           (Inl e, k1) \<Rightarrow> (Some (ErrExit ''open'' e), [], k1)
         | (Inr fd, k1) \<Rightarrow> seek_io_args malloc fd (drop 2 argv) [] k1))"

section \<open>The abstract session\<close>

datatype seek_cmd = Rd nat | Rd_hex nat | Wr string | Seek nat

fun cmd_of :: "string \<Rightarrow> seek_cmd option" where
  "cmd_of [] = None"
| "cmd_of (c # rest) =
     (if c = CHR ''w'' then Some (Wr rest)
      else (case getLong (Some rest) GN_ANY_BASE (Some (c # rest)) of
              Inl _ \<Rightarrow> None
            | Inr z \<Rightarrow>
                if z < 0 then None
                else if c = CHR ''r'' then Some (Rd (nat z))
                else if c = CHR ''R'' then Some (Rd_hex (nat z))
                else if c = CHR ''s'' then Some (Seek (nat z))
                else None))"

fun seek_spec :: "seek_cmd \<Rightarrow> cursor \<Rightarrow> string \<times> cursor" where
  "seek_spec (Rd n) f =
     (case file_read f n of
        (Inr bs, f') \<Rightarrow> (if bs = [] then ''end-of-file'' else show_text bs, f') | (Inl _, f') \<Rightarrow> ([], f'))"
| "seek_spec (Rd_hex n) f =
     (case file_read f n of
        (Inr bs, f') \<Rightarrow> (if bs = [] then ''end-of-file'' else show_hex bs, f') | (Inl _, f') \<Rightarrow> ([], f'))"
| "seek_spec (Wr s) f = (''wrote '' @ show_nat (length s) @ '' bytes'', snd (file_write f s))"
| "seek_spec (Seek p) f = (''seek succeeded'', f\<lparr>offset := p\<rparr>)"

text \<open>A session on the arguments: what it prints and the file it leaves.\<close>

fun session :: "string list \<Rightarrow> cursor \<Rightarrow> string \<times> cursor" where
  "session [] f = ([], f)"
| "session (a # as) f =
     (case cmd_of a of
        None \<Rightarrow> ([], f)
      | Some c \<Rightarrow>
          (let (t, f1) = seek_spec c f; (u, f2) = session as f1
           in (a @ '': '' @ t @ [LF] @ u, f2)))"

text \<open>The commands can be read, there is memory for them, and no write exceeds the size limit of files.\<close>

fun cmd_ok :: "(int \<Rightarrow> bool) \<Rightarrow> nat \<Rightarrow> seek_cmd \<Rightarrow> cursor \<Rightarrow> bool" where
  "cmd_ok malloc lim (Rd n) f = malloc (int n)"
| "cmd_ok malloc lim (Rd_hex n) f = malloc (int n)"
| "cmd_ok malloc lim (Wr s) f = (offset f + length s \<le> lim)"
| "cmd_ok malloc lim (Seek p) f = True"

fun session_ok :: "(int \<Rightarrow> bool) \<Rightarrow> nat \<Rightarrow> string list \<Rightarrow> cursor \<Rightarrow> bool" where
  "session_ok malloc lim [] f = True"
| "session_ok malloc lim (a # as) f =
     (case cmd_of a of
        None \<Rightarrow> False
      | Some c \<Rightarrow> cmd_ok malloc lim c f \<and> session_ok malloc lim as (snd (seek_spec c f)))"

section \<open>The program implements the session\<close>

definition cursor_of :: "kernel \<Rightarrow> open_file \<Rightarrow> cursor" where
  "cursor_of k f = \<lparr>content = bytes k (of_ino f), offset = of_pos f\<rparr>"

text \<open>
  Descriptor \<open>fd\<close> has the file of inode \<open>i\<close> open for reading and writing at the cursor \<open>c\<close>.
\<close>

definition at_cursor :: "int \<Rightarrow> nat \<Rightarrow> cursor \<Rightarrow> kernel \<Rightarrow> bool" where
  "at_cursor fd i c k \<longleftrightarrow> (\<exists>f. of_get k fd = Some f \<and> of_rd f \<and> of_wr f \<and> \<not> of_append f \<and>
     of_ino f = i \<and> media k i = None \<and> cursor_of k f = c)"

lemma at_cursor_calls:
  assumes "at_cursor fd i c k"
  shows "\<exists>k'. sys_read fd k n = (fst (file_read c n), k') \<and> at_cursor fd i (snd (file_read c n)) k' \<and>
      env_eq k k' \<and> bytes k' = (bytes k)(i := content c)"
    and "offset c + length s \<le> fsize_max k \<Longrightarrow>
      \<exists>k'. sys_write fd k s = (Inr (length s), k') \<and> at_cursor fd i (snd (file_write c s)) k' \<and>
      env_eq k k' \<and> bytes k' = (bytes k)(i := content (snd (file_write c s)))"
    and "\<exists>k'. sys_lseek fd (int p) SEEK_SET k = (Inr (int p), k') \<and> at_cursor fd i (c\<lparr>offset := p\<rparr>) k' \<and>
      env_eq k k' \<and> bytes k' = (bytes k)(i := content c)"
proof -
  obtain f where f: "of_get k fd = Some f" "of_rd f" "of_wr f" "\<not> of_append f" "of_ino f = i"
      "media k i = None" "c = cursor_of k f"
    using assms by (auto simp: at_cursor_def)
  show "\<exists>k'. sys_read fd k n = (fst (file_read c n), k') \<and> at_cursor fd i (snd (file_read c n)) k' \<and>
      env_eq k k' \<and> bytes k' = (bytes k)(i := content c)"
    using f sys_read_ok [OF f(1,2), of n]
    by (auto simp: file_read_def Let_def cursor_of_def at_cursor_def min.commute)
  show "\<exists>k'. sys_write fd k s = (Inr (length s), k') \<and> at_cursor fd i (snd (file_write c s)) k' \<and>
      env_eq k k' \<and> bytes k' = (bytes k)(i := content (snd (file_write c s)))"
    if "offset c + length s \<le> fsize_max k"
    using f sys_write_ok [OF f(1,3,4), of s] that
    by (auto simp: file_write_def cursor_of_def at_cursor_def)
  show "\<exists>k'. sys_lseek fd (int p) SEEK_SET k = (Inr (int p), k') \<and> at_cursor fd i (c\<lparr>offset := p\<rparr>) k' \<and>
      env_eq k k' \<and> bytes k' = (bytes k)(i := content c)"
    using f sys_lseek_ok [OF f(1), of "int p" "int p" SEEK_SET]
    by (auto simp: cursor_of_def at_cursor_def)
qed

lemma getLong_size: "getLong a fl nm = Inr z \<Longrightarrow> 0 \<le> z \<Longrightarrow> to_unsigned 64 z = z"
  using getNum_range(2) [of "''getLong''" a fl nm z] by (simp add: getLong_def to_unsigned_id)

lemma seek_io_arg_sim:
  assumes c: "at_cursor fd i c k" and a: "cmd_of a = Some cmd" and ok: "cmd_ok malloc (fsize_max k) cmd c"
  shows "\<exists>k'. seek_io_arg malloc fd a k = (Inr (a @ '': '' @ fst (seek_spec cmd c) @ [LF]), k') \<and>
    at_cursor fd i (snd (seek_spec cmd c)) k' \<and> env_eq k k' \<and>
    bytes k' = (bytes k)(i := content (snd (seek_spec cmd c)))"
proof -
  obtain x rest where x: "a = x # rest" using a by (cases a) auto
  have rd: "\<exists>bs f'. file_read c n = (Inr bs, f') \<and> content f' = content c" for n
    by (simp add: file_read_def Let_def)
  show ?thesis
  proof (cases cmd)
    case (Wr s)
    then have "x = CHR ''w''" "s = rest"
      using a x by (auto split: if_splits sum.splits)
    with x Wr ok at_cursor_calls(2) [OF c, of s] show ?thesis by (auto simp: seek_io_arg_def)
  next
    case (Seek p)
    then obtain z where "x = CHR ''s''" "getLong (Some rest) GN_ANY_BASE (Some a) = Inr z" "p = nat z" "0 \<le> z"
      using a x by (auto split: if_splits sum.splits)
    with x Seek at_cursor_calls(3) [OF c, of p] show ?thesis by (auto simp: seek_io_arg_def)
  next
    case (Rd n)
    then obtain z where "x = CHR ''r''" "getLong (Some rest) GN_ANY_BASE (Some a) = Inr z" "n = nat z" "0 \<le> z"
      using a x by (auto split: if_splits sum.splits)
    with x Rd ok rd [of n] at_cursor_calls(1) [OF c, of n] show ?thesis
      by (auto simp: seek_io_arg_def Let_def getLong_size show_bytes_def)
  next
    case (Rd_hex n)
    then obtain z where "x = CHR ''R''" "getLong (Some rest) GN_ANY_BASE (Some a) = Inr z" "n = nat z" "0 \<le> z"
      using a x by (auto split: if_splits sum.splits)
    with x Rd_hex ok rd [of n] at_cursor_calls(1) [OF c, of n] show ?thesis
      by (auto simp: seek_io_arg_def Let_def getLong_size show_bytes_def)
  qed
qed

lemma seek_io_args_sim:
  assumes "at_cursor fd i c k" "session_ok malloc (fsize_max k) as c"
  shows "\<exists>k'. seek_io_args malloc fd as printed k = (None, printed @ fst (session as c), k') \<and>
    at_cursor fd i (snd (session as c)) k' \<and> env_eq k k' \<and>
    bytes k' = (bytes k)(i := content (snd (session as c)))"
  using assms
proof (induction as arbitrary: c k printed)
  case Nil
  then show ?case by (auto simp: at_cursor_def cursor_of_def)
next
  case (Cons a as)
  then obtain cmd where cmd: "cmd_of a = Some cmd" "cmd_ok malloc (fsize_max k) cmd c"
      "session_ok malloc (fsize_max k) as (snd (seek_spec cmd c))"
    by (auto split: option.splits)
  obtain k1 where k1: "seek_io_arg malloc fd a k = (Inr (a @ '': '' @ fst (seek_spec cmd c) @ [LF]), k1)"
      "at_cursor fd i (snd (seek_spec cmd c)) k1" "env_eq k k1"
      "bytes k1 = (bytes k)(i := content (snd (seek_spec cmd c)))"
    using seek_io_arg_sim [OF Cons.prems(1) cmd(1,2)] by auto
  then have "fsize_max k1 = fsize_max k" by (simp add: env_eq_def)
  then obtain k2 where k2: "seek_io_args malloc fd as (printed @ a @ '': '' @ fst (seek_spec cmd c) @ [LF]) k1 =
        (None, (printed @ a @ '': '' @ fst (seek_spec cmd c) @ [LF]) @ fst (session as (snd (seek_spec cmd c))), k2)"
      "at_cursor fd i (snd (session as (snd (seek_spec cmd c)))) k2" "env_eq k1 k2"
      "bytes k2 = (bytes k1)(i := content (snd (session as (snd (seek_spec cmd c)))))"
    using Cons.IH [OF k1(2)] cmd(3) by metis
  then show ?case
    using k1 env_eq_trans [OF k1(3) k2(3)] by (simp add: cmd(1) split_beta fun_eq_iff)
qed

lemma seek_io_opened:
  assumes "opened k path [O_RDWR, O_CREAT] fd k1" "media k (open_ino k path) = None"
  shows "at_cursor fd (open_ino k path)
    \<lparr>content = (case dir k path of None \<Rightarrow> [] | Some i \<Rightarrow> bytes k i), offset = 0\<rparr> k1"
  using opened_get [OF assms(1)] opened_bytes(1) [OF assms(1)] assms
  by (simp add: at_cursor_def cursor_of_def new_open_file_def opened_def)

section \<open>Properties\<close>

lemma hex_digits_length: "n < 16 \<Longrightarrow> length (hex_digits n) = 1"
  "16 ^ d \<le> n \<Longrightarrow> n < 16 ^ Suc d \<Longrightarrow> length (hex_digits n) = Suc d"
proof -
  show "n < 16 \<Longrightarrow> length (hex_digits n) = 1" by (simp add: hex_digits.simps)
  show "16 ^ d \<le> n \<Longrightarrow> n < 16 ^ Suc d \<Longrightarrow> length (hex_digits n) = Suc d"
  proof (induction d arbitrary: n)
    case 0
    then show ?case by (simp add: hex_digits.simps)
  next
    case (Suc d)
    have "16 ^ d \<le> n div 16" "n div 16 < 16 ^ Suc d" using Suc.prems by (simp_all add: div_less_iff_less_mult less_eq_div_iff_mult_less_eq)
    moreover have "16 \<le> n"
      using mult_le_mono2 [of 1 "16 ^ d" 16] Suc.prems(1) by (simp only: power_Suc mult_1_right) (rule le_trans, simp_all)
    ultimately show ?case using Suc.IH [of "n div 16"] by (simp add: hex_digits.simps [of n])
  qed
qed

lemma show_02x_byte:
  "length (show_02x (char_as_uint c)) = (if of_char c < (128::nat) then 3 else 9)"
proof -
  have 256: "of_char c < (256::nat)" by (metis of_char_mod_256 mod_less_divisor zero_less_numeral)
  show ?thesis
  proof (cases "of_char c < (128::nat)")
    case True
    then have "char_as_uint c = of_char c"
      by (simp add: char_as_uint_def to_unsigned_def to_signed_def)
    with True show ?thesis
      using hex_digits_length(1) [of "of_char c"] hex_digits_length(2) [of 1 "of_char c"]
      by (cases "of_char c < (16::nat)") (simp_all add: show_02x_def Let_def)
  next
    case False
    define x where "x = int (of_char c)"
    have x: "128 \<le> x" "x < 256" using False 256 by (simp_all add: x_def)
    have "(x + 128) mod 256 = x - 128"
      using x mod_add_self2 [of "x - 128" 256] mod_pos_pos_trivial [of "x - 128" 256]
      by (simp add: add.commute)
    moreover have "(x - 256) mod 2 ^ 32 = x - 256 + 2 ^ 32"
      using x mod_add_self2 [of "x - 256" "2 ^ 32"] mod_pos_pos_trivial [of "x - 256 + 2 ^ 32" "2 ^ 32"]
      by (simp only: mod_add_self2) simp
    ultimately have u: "char_as_uint c = nat (x - 256 + 2 ^ 32)"
      by (simp add: char_as_uint_def to_unsigned_def to_signed_def flip: x_def)
    have "length (hex_digits (char_as_uint c)) = Suc 7"
      unfolding u by (rule hex_digits_length(2)) (use x in \<open>simp_all add: le_nat_iff nat_less_iff\<close>)
    with False show ?thesis by (simp add: show_02x_def Let_def)
  qed
qed

lemma write_seek_read:
  "s \<noteq> [] \<Longrightarrow> fst (seek_spec (Rd (length s)) (snd (seek_spec (Seek p) (snd (seek_spec (Wr s) (c\<lparr>offset := p\<rparr>)))))) =
     show_text s"
  by (auto simp: file_read_def file_write_def write_at_def Let_def)

text \<open>
  C33: for arguments that it can read, memory for its buffers and no write past the size limit of
  files, \<open>seek_io\<close> succeeds: it prints what the session on an abstract file (a content and an
  offset) prints, line by line, and leaves the file with the content of that session, creating it
  when it did not exist and changing no other file. In a session a string that is written is
  displayed by the next read from the same offset. In hex a byte below 128 takes two digits, but any
  other byte eight, since its sign is extended.
\<close>

theorem seek_io_refines_session:
  assumes "0 < free_fds k" "denied k path = None" "path \<noteq> ''--help''" "as \<noteq> []"
    and "media k (open_ino k path) = None"
    and "c = \<lparr>content = (case dir k path of None \<Rightarrow> [] | Some i \<Rightarrow> bytes k i), offset = 0\<rparr>"
    and "session_ok malloc (fsize_max k) as c"
  shows "(\<exists>k'. seek_io_main malloc (prog # path # as) k = (None, fst (session as c), k') \<and>
      dir k' = (dir k)(path \<mapsto> open_ino k path) \<and>
      bytes k' = (bytes k)(open_ino k path := content (snd (session as c)))) \<and>
    (s \<noteq> [] \<longrightarrow> fst (seek_spec (Rd (length s)) (snd (seek_spec (Seek p) (snd (seek_spec (Wr s) (d\<lparr>offset := p\<rparr>)))))) =
       show_text s) \<and>
    length (show_02x (char_as_uint b)) = (if of_char b < (128::nat) then 2 else 8) + 1"
proof (intro conjI impI)
  obtain fd k1 where o: "sys_open path [O_RDWR, O_CREAT] k = (Inr fd, k1)" "opened k path [O_RDWR, O_CREAT] fd k1"
    using sys_open_ok [of k path "[O_RDWR, O_CREAT]"] assms(1,2) by auto
  have f: "fsize_max k1 = fsize_max k" "dir k1 = (dir k)(path \<mapsto> open_ino k path)"
    using o(2) by (simp_all add: opened_def)
  have b: "(bytes k1)(open_ino k path := x) = (bytes k)(open_ino k path := x)" for x
    using opened_bytes(2) [OF o(2)] by simp
  show "\<exists>k'. seek_io_main malloc (prog # path # as) k = (None, fst (session as c), k') \<and>
      dir k' = (dir k)(path \<mapsto> open_ino k path) \<and>
      bytes k' = (bytes k)(open_ino k path := content (snd (session as c)))"
    using seek_io_args_sim [OF seek_io_opened [OF o(2) assms(5)], of malloc as "[]"] assms(3,4,6,7) o(1) f b
    by (cases as) (auto simp: seek_io_main_def env_eq_def)
qed (rule write_seek_read, assumption, simp add: show_02x_byte)

theorem seek_io_refines_session_witness:
  "\<exists>k'. seek_io_main (\<lambda>n. n < 4096) [''seek_io'', ''f'', ''s2'', ''wxyz'', ''s0x1'', ''r3'', ''R9'', ''r1'']
       (disk [''f'' \<mapsto> 0] [''abc'']) =
     (None, ''s2: seek succeeded'' @ [LF] @ ''wxyz: wrote 3 bytes'' @ [LF] @ ''s0x1: seek succeeded'' @ [LF] @
        ''r3: bxy'' @ [LF] @ ''R9: 7a '' @ [LF] @ ''r1: end-of-file'' @ [LF], k') \<and>
     bytes k' 0 = ''abxyz''"
proof -
  let ?as = "[''s2'', ''wxyz'', ''s0x1'', ''r3'', ''R9'', ''r1'']" and ?c = "\<lparr>content = ''abc'', offset = 0\<rparr>"
  have cmds: "cmd_of ''s2'' = Some (Seek 2)" "cmd_of ''wxyz'' = Some (Wr ''xyz'')" "cmd_of ''s0x1'' = Some (Seek 1)"
    "cmd_of ''r3'' = Some (Rd 3)" "cmd_of ''R9'' = Some (Rd_hex 9)" "cmd_of ''r1'' = Some (Rd 1)"
    by (simp_all del: cmd_of.simps) code_simp+
  have "session_ok (\<lambda>n. n < 4096) (2 ^ 40) ?as ?c"
    by (simp add: cmds file_read_def file_write_def write_at_def Let_def del: cmd_of.simps)
  moreover have "session ?as ?c = (''s2: seek succeeded'' @ [LF] @ ''wxyz: wrote 3 bytes'' @ [LF] @
      ''s0x1: seek succeeded'' @ [LF] @ ''r3: bxy'' @ [LF] @ ''R9: 7a '' @ [LF] @ ''r1: end-of-file'' @ [LF],
      \<lparr>content = ''abxyz'', offset = 5\<rparr>)"
    by code_simp
  ultimately show ?thesis
    using seek_io_refines_session [of "disk [''f'' \<mapsto> 0] [''abc'']" "''f''" ?as ?c "\<lambda>n. n < 4096" "''seek_io''",
        THEN conjunct1]
    by (auto simp: open_ino_def simp del: session.simps session_ok.simps)
qed

end
