(* ===== verification/KernelTypes.thy ===== *)
theory KernelTypes
  imports FilePrograms VectorIO SeekIO MsgFile
begin

text \<open>
  What the programs on files keep of the state of the kernel, whatever their arguments and
  whatever fails: an interface that lists the system calls as the only ways to change that state,
  the programs as its clients, and two interpretations, the type of kernel states and the parts of it
  that no call changes.
\<close>

section \<open>What every call keeps, every program keeps\<close>

lemma snd_result: "snd (case p of (Inl e, k) \<Rightarrow> (f e, k) | (Inr x, k) \<Rightarrow> (g x, k)) = snd p"
  by (simp split: prod.split sum.split)

locale kernel_invariant =
  fixes Inv :: "kernel \<Rightarrow> bool"
  assumes open_keeps: "Inv k \<Longrightarrow> Inv (snd (sys_open path fl k))"
    and close_keeps: "Inv k \<Longrightarrow> Inv (snd (sys_close fd k))"
    and read_keeps: "Inv k \<Longrightarrow> Inv (snd (sys_read fd k n))"
    and write_keeps: "Inv k \<Longrightarrow> Inv (snd (sys_write fd k bs))"
    and lseek_keeps: "Inv k \<Longrightarrow> Inv (snd (sys_lseek fd off wh k))"
    and dupfd_keeps: "Inv k \<Longrightarrow> Inv (snd (fcntl_dupfd fd arg k))"
begin

text \<open>The same laws for a call whose result is at hand.\<close>

lemma call_keeps:
  "sys_open path fl k = (ro, k') \<Longrightarrow> Inv k \<Longrightarrow> Inv k'"
  "sys_close fd k = (rc, k') \<Longrightarrow> Inv k \<Longrightarrow> Inv k'"
  "sys_read fd k n = (rr, k') \<Longrightarrow> Inv k \<Longrightarrow> Inv k'"
  "sys_write fd k bs = (rw, k') \<Longrightarrow> Inv k \<Longrightarrow> Inv k'"
  "sys_lseek fd off wh k = (rl, k') \<Longrightarrow> Inv k \<Longrightarrow> Inv k'"
  using open_keeps [of k path fl] close_keeps [of k fd] read_keeps [of k fd n] write_keeps [of k fd bs]
    lseek_keeps [of k fd off wh] by simp_all

lemma dup_keeps: "Inv k \<Longrightarrow> Inv (snd (dup oldfd k))"
  by (simp add: dup_def dupfd_keeps split: sum.split)

lemma dup2_keeps: "Inv k \<Longrightarrow> Inv (snd (dup2 oldfd newfd k))"
  by (auto simp: dup2_def dupfd_keeps split: sum.split prod.split dest: call_keeps)

lemma copy_loop_keeps: "copy_loop i j k = Some y \<Longrightarrow> Inv k \<Longrightarrow> Inv (snd y)"
proof (induction i j k y rule: copy_loop.raw_induct [rotated, consumes 1, case_names step])
  case (step loop i j k y)
  then show ?case
    by (cases y) (fastforce split: prod.splits sum.splits if_splits dest!: call_keeps)
qed

lemma copy_main_keeps: "copy_main argv k = Some y \<Longrightarrow> Inv k \<Longrightarrow> Inv (snd y)"
  by (auto simp: copy_main_def close_two_def split: if_splits prod.splits sum.splits option.splits
      dest!: call_keeps copy_loop_keeps)

lemma cpholes_bytes_keeps: "Inv k \<Longrightarrow> Inv (snd (cpholes_bytes fd bs h k))"
  by (induction fd bs h k rule: cpholes_bytes.induct) (auto simp: Let_def lseek_keeps write_keeps)

lemma cpholes_loop_keeps: "cpholes_loop i j h k = Some k' \<Longrightarrow> Inv k \<Longrightarrow> Inv k'"
proof (induction i j h k k' rule: cpholes_loop.raw_induct [rotated, consumes 1, case_names step])
  case (step loop i j h k k')
  then show ?case
    by (fastforce split: prod.splits sum.splits if_splits dest!: call_keeps intro: cpholes_bytes_keeps)
qed

lemma cpholes_main_keeps: "cpholes_main strerror argv k = Some y \<Longrightarrow> Inv k \<Longrightarrow> Inv (snd (snd y))"
  by (auto simp: cpholes_main_def Let_def close_keeps write_keeps lseek_keeps split: if_splits prod.splits sum.splits option.splits
      dest!: call_keeps cpholes_loop_keeps)

lemma holy_pattern_keeps: "Inv k \<Longrightarrow> Inv (holy_pattern fd ixs k)"
  by (induction fd ixs k rule: holy_pattern.induct) (auto simp: write_keeps)

lemma holy_chunks_keeps: "Inv k \<Longrightarrow> Inv (snd (snd (holy_chunks strerror fd g n k)))"
proof (induction strerror fd g n k rule: holy_chunks.induct)
  case (2 strerror fd g n k)
  obtain r k1 where l: "sys_lseek fd g SEEK_CUR (holy_pattern fd [0..<80] k) = (r, k1)" by fastforce
  with 2 call_keeps(5) [OF l] holy_pattern_keeps show ?case by simp
qed (simp add: close_keeps)

lemma holy_file_main_keeps: "Inv k \<Longrightarrow> Inv (snd (snd (holy_file_main strerror argv k)))"
  by (auto simp: holy_file_main_def holy_chunks_keeps split: prod.splits sum.splits dest!: call_keeps(1))

lemma write_bytes_loop_keeps: "write_bytes_loop fd n b buf t k = Some y \<Longrightarrow> Inv k \<Longrightarrow> Inv (snd (snd y))"
proof (induction fd n b buf t k y rule: write_bytes_loop.raw_induct [rotated, consumes 1, case_names step])
  case (step loop fd n b buf t k y)
  then show ?case
    by (cases y) (fastforce simp: Let_def split: prod.splits sum.splits if_splits dest!: call_keeps)
qed

lemma write_bytes_main_keeps: "write_bytes_main malloc argv k = Some y \<Longrightarrow> Inv k \<Longrightarrow> Inv (snd (snd y))"
  by (auto simp: write_bytes_main_def Let_def split: if_splits prod.splits sum.splits option.splits
      dest!: call_keeps write_bytes_loop_keeps)

lemma writev_keeps: "Inv k \<Longrightarrow> Inv (snd (snd (writev (sys_write fd) iov n k)))"
proof -
  have "Inv k \<Longrightarrow> Inv (snd (snd (writev_loop (sys_write fd) vs tot k)))" for vs tot k
    by (induction vs arbitrary: tot k) (auto simp: Let_def split: prod.splits sum.splits dest!: call_keeps(4))
  then show "Inv k \<Longrightarrow> ?thesis" by (simp add: writev_def)
qed

lemma readv_keeps: "Inv k \<Longrightarrow> Inv (snd (snd (snd (readv (sys_read fd) iov n k))))"
proof -
  have "Inv k \<Longrightarrow> Inv (snd (snd (snd (readv_loop (sys_read fd) vs tot k))))" for vs tot k
  proof (induction vs arbitrary: tot k)
    case (Cons v vs)
    obtain r k1 where r: "sys_read fd k (iov_len v) = (r, k1)" by fastforce
    then show ?case using Cons.IH Cons.prems call_keeps(3) [OF r]
      by (auto simp: Let_def split_beta split: sum.splits)
  qed simp
  then show "Inv k \<Longrightarrow> ?thesis" by (simp add: readv_def split_beta)
qed

lemma vector_main_keeps: "Inv k \<Longrightarrow> Inv (snd (vector_main argv k))"
  by (simp add: vector_main_def Let_def split_beta open_keeps close_keeps writev_keeps readv_keeps)

lemma seek_io_arg_keeps: "Inv k \<Longrightarrow> Inv (snd (seek_io_arg malloc fd a k))"
  by (simp add: seek_io_arg_def Let_def snd_result read_keeps write_keeps lseek_keeps
      split: list.split sum.split gn_exit.split)

lemma seek_io_args_keeps: "Inv k \<Longrightarrow> Inv (snd (snd (seek_io_args malloc fd as printed k)))"
proof (induction as arbitrary: printed k)
  case (Cons a as)
  obtain r k1 where "seek_io_arg malloc fd a k = (r, k1)" by fastforce
  with Cons seek_io_arg_keeps [OF Cons.prems, of malloc fd a] show ?case by (simp split: sum.split)
qed simp

lemma seek_io_main_keeps: "Inv k \<Longrightarrow> Inv (snd (snd (seek_io_main malloc argv k)))"
  by (auto simp: seek_io_main_def seek_io_args_keeps split: prod.splits sum.splits dest!: call_keeps(1))

lemma send_loop_keeps: "send_loop qid fd k q = Some y \<Longrightarrow> Inv k \<Longrightarrow> Inv (fst y)"
proof (induction qid fd k q y rule: send_loop.raw_induct [rotated, consumes 1, case_names step])
  case (step loop qid fd k q y)
  then show ?case
    by (cases y) (fastforce split: prod.splits sum.splits if_splits dest!: call_keeps)
qed

text \<open>All programs together.\<close>

lemma programs_keep:
  assumes "Inv k"
  shows "Inv (snd (dup oldfd k)) \<and> Inv (snd (dup2 oldfd newfd k)) \<and>
    pred_option (\<lambda>y. Inv (snd y)) (copy_main argv k) \<and>
    pred_option (\<lambda>y. Inv (snd (snd y))) (cpholes_main strerror argv k) \<and>
    Inv (snd (snd (holy_file_main strerror argv k))) \<and>
    pred_option (\<lambda>y. Inv (snd (snd y))) (write_bytes_main alloc argv k) \<and>
    Inv (snd (vector_main argv k)) \<and>
    Inv (snd (snd (seek_io_main malloc argv k)))"
  using dup_keeps [OF assms] dup2_keeps [OF assms] holy_file_main_keeps [OF assms] vector_main_keeps [OF assms]
    seek_io_main_keeps [OF assms] copy_main_keeps [OF _ assms] cpholes_main_keeps [OF _ assms]
    write_bytes_main_keeps [OF _ assms]
  by (simp add: pred_option_def)

end

section \<open>The type of kernel states\<close>

text \<open>
  Every descriptor refers to an open file description, every description and every name to a file
  that exists, and no file is larger than the limit.
\<close>

definition typed_kernel :: "kernel \<Rightarrow> bool" where
  "typed_kernel k \<longleftrightarrow> wf_kernel k \<and> (\<forall>f\<in>set (oft k). of_ino f < inodes k) \<and>
     (\<forall>i<inodes k. length (bytes k i) \<le> fsize_max k)"

text \<open>
  The limits and faults of \<open>k0\<close> are those of \<open>k\<close>, and all that had a name in \<open>k0\<close> still has it.
\<close>

definition kernel_extends :: "kernel \<Rightarrow> kernel \<Rightarrow> bool" where
  "kernel_extends k0 k \<longleftrightarrow> length (fdt k) = length (fdt k0) \<and> denied k = denied k0 \<and> media k = media k0 \<and>
     fsize_max k = fsize_max k0 \<and> inodes k0 \<le> inodes k \<and> dir k0 \<subseteq>\<^sub>m dir k"

lemma typed_kernelD:
  assumes "typed_kernel k"
  shows "Some d \<in> set (fdt k) \<Longrightarrow> fd_of d < length (oft k)" "ino \<in> ran (dir k) \<Longrightarrow> ino < inodes k"
    "f \<in> set (oft k) \<Longrightarrow> of_ino f < inodes k" "i < inodes k \<Longrightarrow> length (bytes k i) \<le> fsize_max k"
  using assms by (auto simp: typed_kernel_def wf_kernel_def)

lemma typed_of_get: "typed_kernel k \<Longrightarrow> of_get k fd = Some f \<Longrightarrow> of_ino f < inodes k"
  by (auto simp: of_get_def intro: typed_kernelD(3) split: option.splits if_splits)

lemma typed_of_put:
  assumes "typed_kernel k" "of_ino f < inodes k"
  shows "typed_kernel (of_put fd f k)"
  using assms by (auto simp: typed_kernel_def wf_kernel_def of_put_def dest!: set_update_subset_insert [THEN subsetD]
      split: option.splits)

lemma typed_bytes:
  "typed_kernel k \<Longrightarrow> length d \<le> fsize_max k \<Longrightarrow> typed_kernel (k\<lparr>bytes := (bytes k)(i := d)\<rparr>)"
  by (simp add: typed_kernel_def wf_kernel_def)

lemma typed_fdt:
  "typed_kernel k \<Longrightarrow> pred_option (\<lambda>d. fd_of d < length (oft k)) x \<Longrightarrow> typed_kernel (k\<lparr>fdt := (fdt k)[n := x]\<rparr>)"
  by (auto simp: typed_kernel_def wf_kernel_def dest!: set_update_subset_insert [THEN subsetD])

lemma fd_get_in: "fd_get k fd = Some d \<Longrightarrow> Some d \<in> set (fdt k)"
  by (auto simp: fd_get_def split: if_splits) (metis nth_mem)

lemma typed_install:
  assumes "typed_kernel k" "ino < inodes k"
  shows "typed_kernel (install i ino fl k)"
proof -
  have "fd_of d < Suc (length (oft k))"
    if "Some d \<in> set ((fdt k)[i := Some \<lparr>fd_of = length (oft k), fd_cloexec = False\<rparr>])" for d
    using that typed_kernelD(1) [OF assms(1), of d]
    by (auto dest!: set_update_subset_insert [THEN subsetD] simp: less_SucI)
  then show ?thesis
    using assms by (auto simp: typed_kernel_def wf_kernel_def install_def new_open_file_def)
qed

lemma typed_new_file:
  "typed_kernel k \<Longrightarrow>
   typed_kernel (k\<lparr>dir := (dir k)(path \<mapsto> inodes k), bytes := (bytes k)(inodes k := []), inodes := Suc (inodes k)\<rparr>)"
  by (auto simp: typed_kernel_def wf_kernel_def ran_def less_Suc_eq split: if_splits)

lemma write_at_fits:
  "length d \<le> lim \<Longrightarrow> length (write_at p (take (min n (lim - p)) bs) d) \<le> lim"
  by (auto simp: write_at_def min_def)

interpretation typed: kernel_invariant typed_kernel
proof
  fix k path fl assume k: "typed_kernel k"
  have new: "dir k path = None \<or> (\<exists>i. dir k path = Some i \<and> i < inodes k)"
    using typed_kernelD(2) [OF k] by (cases "dir k path") (auto simp: ran_def)
  show "typed_kernel (snd (sys_open path fl k))"
    using k new typed_bytes [OF k, of "[]"]
    by (auto simp: sys_open_def intro!: typed_install typed_new_file split: option.split)
next
  fix k fd assume "typed_kernel k"
  then show "typed_kernel (snd (sys_close fd k))"
    by (auto simp: sys_close_def intro!: typed_fdt split: option.split)
next
  fix k fd n assume k: "typed_kernel k"
  then show "typed_kernel (snd (sys_read fd k n))"
    by (auto simp: sys_read_def Let_def intro!: typed_of_put dest: typed_of_get [OF k] split: option.split)
next
  fix k fd bs assume k: "typed_kernel k"
  have "write_at p [] d = d" for p d by (simp add: write_at_def)
  with k show "typed_kernel (snd (sys_write fd k bs))"
    by (auto simp: sys_write_def Let_def intro!: typed_of_put typed_bytes write_at_fits
        typed_kernelD(4) [OF k] dest: typed_of_get [OF k] split: option.split)
next
  fix k fd off wh assume k: "typed_kernel k"
  then show "typed_kernel (snd (sys_lseek fd off wh k))"
    by (auto simp: sys_lseek_def Let_def intro!: typed_of_put dest: typed_of_get [OF k] split: option.split)
next
  fix k fd arg assume k: "typed_kernel k"
  then show "typed_kernel (snd (fcntl_dupfd fd arg k))"
    by (auto simp: fcntl_dupfd_def intro!: typed_fdt typed_kernelD(1) [OF k] fd_get_in split: option.split)
qed

interpretation extends: kernel_invariant "kernel_extends k0" for k0
proof
  have dom: "dir k0 \<subseteq>\<^sub>m dir k \<Longrightarrow> dir k path = None \<Longrightarrow> dir k0 \<subseteq>\<^sub>m (dir k)(path \<mapsto> i)" for k :: kernel and path i
    by (cases "dir k0 path") (auto simp: map_le_def dom_def)
  then show "kernel_extends k0 k \<Longrightarrow> kernel_extends k0 (snd (sys_open path fl k))" for k path fl
    by (auto simp: kernel_extends_def sys_open_def install_def split: option.split)
qed (auto simp: kernel_extends_def sys_close_def sys_read_def sys_write_def sys_lseek_def
    fcntl_dupfd_def Let_def split: option.split)

section \<open>Properties\<close>



end
