(* ===== verification/Xattr.thy ===== *)
theory Xattr
  imports ErrorFuns
begin

text \<open>
  \<open>16-extended-attributes/setfattr.c\<close>: options, their validation, and setting or removing an extended
  attribute of each file that is named.
\<close>

section \<open>Extended attributes\<close>

text \<open>
  \<open>target\<close> is the file that a path leads to, symbolic links followed; \<open>refuses\<close> the error with which
  a change of an attribute fails (no permission, no support, no space). \<open>setxattr\<close> with flags 0 creates
  or replaces the attribute; removing one that does not exist is an error.
\<close>

record xfs =
  target :: "string \<rightharpoonup> nat"
  refuses :: "nat \<Rightarrow> string \<Rightarrow> errno option"
  attrs :: "nat \<Rightarrow> string \<rightharpoonup> string"

definition setxattr :: "string \<Rightarrow> string \<Rightarrow> string \<Rightarrow> xfs \<Rightarrow> unit result \<times> xfs" where
  "setxattr path nm v fs =
     (case target fs path of
        None \<Rightarrow> (Inl ENOENT, fs)
      | Some i \<Rightarrow>
          (case refuses fs i nm of
             Some e \<Rightarrow> (Inl e, fs)
           | None \<Rightarrow> (Inr (), fs\<lparr>attrs := (attrs fs)(i := (attrs fs i)(nm \<mapsto> v))\<rparr>)))"

definition removexattr :: "string \<Rightarrow> string \<Rightarrow> xfs \<Rightarrow> unit result \<times> xfs" where
  "removexattr path nm fs =
     (case target fs path of
        None \<Rightarrow> (Inl ENOENT, fs)
      | Some i \<Rightarrow>
          (case refuses fs i nm of
             Some e \<Rightarrow> (Inl e, fs)
           | None \<Rightarrow>
               if attrs fs i nm = None then (Inl ENODATA, fs)
               else (Inr (), fs\<lparr>attrs := (attrs fs)(i := (attrs fs i)(nm := None))\<rparr>)))"

section \<open>The program\<close>

record fattr_args =
  no_deref_flag :: bool
  attr_name :: "string option"
  attr_value :: "string option"
  remove_name :: "string option"

definition setfattr_options :: "long_option list" where
  "setfattr_options =
     [(''no-dereference'', False, CHR ''h''), (''version'', False, CHR ''V''), (''help'', False, CHR ''H''),
      (''name'', True, CHR ''n''), (''value'', True, CHR ''v''), (''remove'', True, CHR ''x'')]"

definition setfattr_spec :: "char \<Rightarrow> bool option" where
  "setfattr_spec c = (if c \<in> set ''hVH'' then Some False else if c \<in> set ''nvx'' then Some True else None)"

definition setfattr_usage :: string where
  "setfattr_usage = ''Usage: See man setfattr(1)'' @ [LF]"

definition setfattr_version :: string where
  "setfattr_version = ''setfattr (tlpi exercise) v0.1'' @ [LF]"

text \<open>
  The loop over the options: the text printed so far, and the end of the process or the values of the
  variables. (What \<open>getopt_long\<close> itself writes to standard error is left out.)
\<close>

fun parse_arguments ::
    "(char \<times> string) list \<Rightarrow> fattr_args \<Rightarrow> string \<Rightarrow> string \<times> (ending + fattr_args)" where
  "parse_arguments [] a printed = (printed, Inr a)"
| "parse_arguments ((c, optarg) # es) a printed =
     (if c = CHR ''h'' then parse_arguments es (a\<lparr>no_deref_flag := True\<rparr>) printed
      else if c = CHR ''V'' then (printed @ setfattr_version, Inl (Exited EXIT_SUCCESS))
      else if c = CHR ''H'' then (printed @ setfattr_usage, Inl (Exited EXIT_SUCCESS))
      else if c = CHR ''n'' then parse_arguments es (a\<lparr>attr_name := Some optarg\<rparr>) printed
      else if c = CHR ''v'' then parse_arguments es (a\<lparr>attr_value := Some optarg\<rparr>) printed
      else if c = CHR ''x'' then
        parse_arguments es (a\<lparr>remove_name := Some optarg\<rparr>) (printed @ ''Option -x: '' @ optarg @ [LF])
      else if c = CHR ''?'' then parse_arguments es a printed
      else (printed, Inl Aborted))"

text \<open>The message for arguments that are refused; \<open>print_usage\<close> then ends the process.\<close>

definition validate_arguments :: "fattr_args \<Rightarrow> string option" where
  "validate_arguments a =
     (if attr_name a = None \<and> remove_name a = None
      then Some (''Either '-n' or '-x' must be specified'' @ [LF])
      else if attr_name a \<noteq> None \<and> remove_name a \<noteq> None
      then Some (''Must specify only one of '-n' or '-x'' @ [CHR 0x27, LF])
      else if attr_name a \<noteq> None \<and> attr_value a = None
      then Some (''Name specified without a value '-v'' @ [CHR 0x27, LF])
      else None)"

definition attr_failure :: "string \<Rightarrow> string \<Rightarrow> string \<Rightarrow> string" where
  "attr_failure what nm file =
     ''Unable to '' @ what @ '' attr '' @ [CHR 0x27] @ nm @ [CHR 0x27] @ '' on '' @ [CHR 0x27] @ file @ [CHR 0x27, LF]"

fun do_set_attr :: "string \<Rightarrow> string \<Rightarrow> string list \<Rightarrow> xfs \<Rightarrow> string \<times> xfs" where
  "do_set_attr nm v [] fs = ([], fs)"
| "do_set_attr nm v (file # files) fs =
     (let (r, fs1) = setxattr file nm v fs;
          (msgs, fs2) = do_set_attr nm v files fs1
      in ((case r of Inl _ \<Rightarrow> attr_failure ''set'' nm file | Inr _ \<Rightarrow> []) @ msgs, fs2))"

fun do_remove_attr :: "string \<Rightarrow> string list \<Rightarrow> xfs \<Rightarrow> string \<times> xfs" where
  "do_remove_attr nm [] fs = ([], fs)"
| "do_remove_attr nm (file # files) fs =
     (let (r, fs1) = removexattr file nm fs;
          (msgs, fs2) = do_remove_attr nm files fs1
      in ((case r of Inl _ \<Rightarrow> attr_failure ''remove'' nm file | Inr _ \<Rightarrow> []) @ msgs, fs2))"

definition no_args :: fattr_args where
  "no_args = \<lparr>no_deref_flag = False, attr_name = None, attr_value = None, remove_name = None\<rparr>"

text \<open>How the process ends, and what it has written to standard output and standard error.\<close>

definition setfattr_main :: "string list \<Rightarrow> xfs \<Rightarrow> (ending \<times> string \<times> string) \<times> xfs" where
  "setfattr_main argv fs =
     (let (es, files) = getopt_long setfattr_spec setfattr_options (tl argv)
      in case parse_arguments es no_args [] of
           (printed, Inl how) \<Rightarrow> ((how, printed, []), fs)
         | (printed, Inr a) \<Rightarrow>
             (case validate_arguments a of
                Some msg \<Rightarrow> ((Exited EXIT_SUCCESS, printed @ setfattr_usage, msg), fs)
              | None \<Rightarrow>
                  (case attr_name a of
                     Some nm \<Rightarrow>
                       (let (msgs, fs1) = do_set_attr nm (the (attr_value a)) files fs
                        in ((Exited 0, printed, msgs), fs1))
                   | None \<Rightarrow>
                       (let (msgs, fs1) = do_remove_attr (the (remove_name a)) files fs
                        in ((Exited 0, printed, msgs), fs1)))))"

section \<open>Setting and removing\<close>

text \<open>The files that a list of paths names and whose attribute can be changed.\<close>

definition reached :: "string \<Rightarrow> string list \<Rightarrow> xfs \<Rightarrow> nat set" where
  "reached nm files fs = {i. \<exists>f\<in>set files. target fs f = Some i \<and> refuses fs i nm = None}"

lemma xattr_calls_frame [simp]:
  "target (snd (setxattr f nm v fs)) = target fs" "refuses (snd (setxattr f nm v fs)) = refuses fs"
  "target (snd (removexattr f nm fs)) = target fs" "refuses (snd (removexattr f nm fs)) = refuses fs"
  by (simp_all add: setxattr_def removexattr_def split: option.split)

lemma reached_frame [simp]:
  "reached nm files (snd (setxattr f n v fs)) = reached nm files fs"
  "reached nm files (snd (removexattr f n fs)) = reached nm files fs"
  by (simp_all add: reached_def)

lemma reached_upd [simp]: "reached nm files (fs\<lparr>attrs := A\<rparr>) = reached nm files fs"
  by (simp add: reached_def)

lemma reached_Cons: "reached nm (f # files) fs = reached nm [f] fs \<union> reached nm files fs"
  by (auto simp: reached_def)

text \<open>What a call does to the attributes, as a function on them.\<close>

definition on_reached :: "((string \<rightharpoonup> string) \<Rightarrow> (string \<rightharpoonup> string)) \<Rightarrow> nat set \<Rightarrow> xfs \<Rightarrow> xfs" where
  "on_reached u S fs = fs\<lparr>attrs := (\<lambda>i. if i \<in> S then u (attrs fs i) else attrs fs i)\<rparr>"

lemma on_reached_simps [simp]: "reached nm files (on_reached u S fs) = reached nm files fs" "on_reached u {} fs = fs"
  by (simp_all add: on_reached_def)

lemma on_reached_Un: "(\<And>m. u (u m) = u m) \<Longrightarrow> on_reached u T (on_reached u S fs) = on_reached u (S \<union> T) fs"
  by (rule xfs.equality) (auto simp: on_reached_def fun_eq_iff)

lemma xattr_call_effect:
  "snd (setxattr f nm v fs) = on_reached (\<lambda>m. m(nm \<mapsto> v)) (reached nm [f] fs) fs"
  "snd (removexattr f nm fs) = on_reached (\<lambda>m. m(nm := None)) (reached nm [f] fs) fs"
  by (rule xfs.equality;
      auto simp: on_reached_def reached_def setxattr_def removexattr_def fun_eq_iff split: option.split)+

lemma do_set_attr_effect:
  "snd (do_set_attr nm v files fs) = on_reached (\<lambda>m. m(nm \<mapsto> v)) (reached nm files fs) fs"
proof (induction files arbitrary: fs)
  case (Cons f files)
  have "snd (do_set_attr nm v (f # files) fs) = snd (do_set_attr nm v files (snd (setxattr f nm v fs)))"
    by (simp add: split_beta Let_def)
  also have "\<dots> = on_reached (\<lambda>m. m(nm \<mapsto> v)) (reached nm [f] fs \<union> reached nm files fs) fs"
    unfolding Cons xattr_call_effect on_reached_simps by (rule on_reached_Un) (rule fun_upd_upd)
  finally show ?case by (simp only: reached_Cons [of nm f files])
qed (simp add: reached_def)

lemma do_remove_attr_effect:
  "snd (do_remove_attr nm files fs) = on_reached (\<lambda>m. m(nm := None)) (reached nm files fs) fs"
proof (induction files arbitrary: fs)
  case (Cons f files)
  have "snd (do_remove_attr nm (f # files) fs) = snd (do_remove_attr nm files (snd (removexattr f nm fs)))"
    by (simp add: split_beta Let_def)
  also have "\<dots> = on_reached (\<lambda>m. m(nm := None)) (reached nm [f] fs \<union> reached nm files fs) fs"
    unfolding Cons xattr_call_effect on_reached_simps by (rule on_reached_Un) (rule fun_upd_upd)
  finally show ?case by (simp only: reached_Cons [of nm f files])
qed (simp add: reached_def)

lemma do_set_attr_messages:
  "fst (do_set_attr nm v files fs) =
     concat (map (attr_failure ''set'' nm)
       (filter (\<lambda>f. \<not> (\<exists>i. target fs f = Some i \<and> refuses fs i nm = None)) files))"
proof (induction files arbitrary: fs)
  case (Cons f files)
  then show ?case using Cons.IH [of "snd (setxattr f nm v fs)"]
    by (auto simp: split_beta Let_def setxattr_def split: option.split)
qed simp

text \<open>The last argument given to an option.\<close>

definition last_arg :: "char \<Rightarrow> (char \<times> string) list \<Rightarrow> string option" where
  "last_arg c es = map_of (rev es) c"

lemma last_arg_simps [simp]:
  "last_arg c [] = None"
  "last_arg c ((d, x) # es) = (case last_arg c es of None \<Rightarrow> if c = d then Some x else None | Some y \<Rightarrow> Some y)"
  by (auto simp: last_arg_def map_add_def split: option.split)

lemma parse_arguments_last:
  assumes "\<forall>(c, x)\<in>set es. c \<in> set ''hnvx?''"
  shows "\<exists>printed' a'. parse_arguments es a printed = (printed', Inr a') \<and>
    attr_name a' = (case last_arg CHR ''n'' es of None \<Rightarrow> attr_name a | Some x \<Rightarrow> Some x) \<and>
    attr_value a' = (case last_arg CHR ''v'' es of None \<Rightarrow> attr_value a | Some x \<Rightarrow> Some x) \<and>
    remove_name a' = (case last_arg CHR ''x'' es of None \<Rightarrow> remove_name a | Some x \<Rightarrow> Some x)"
  using assms
proof (induction es arbitrary: a printed)
  case (Cons e es)
  obtain c x where e: "e = (c, x)" by fastforce
  then have c: "c = CHR ''h'' \<or> c = CHR ''n'' \<or> c = CHR ''v'' \<or> c = CHR ''x'' \<or> c = CHR ''?''" and
    es: "\<forall>(c, x)\<in>set es. c \<in> set ''hnvx?''" using Cons.prems by auto
  from c show ?case
    using Cons.IH [OF es, of "a\<lparr>no_deref_flag := True\<rparr>" printed] Cons.IH [OF es, of "a\<lparr>attr_name := Some x\<rparr>" printed]
      Cons.IH [OF es, of "a\<lparr>attr_value := Some x\<rparr>" printed] Cons.IH [OF es, of a printed]
      Cons.IH [OF es, of "a\<lparr>remove_name := Some x\<rparr>" "printed @ ''Option -x: '' @ x @ [LF]"] e
    by (elim disjE) (auto split: option.splits)
qed simp

lemma setfattr_run:
  assumes "getopt_long setfattr_spec setfattr_options args = (es, files)" "\<forall>(c, x)\<in>set es. c \<in> set ''hnvx?''"
    and "a = \<lparr>no_deref_flag = d, attr_name = last_arg CHR ''n'' es, attr_value = last_arg CHR ''v'' es,
           remove_name = last_arg CHR ''x'' es\<rparr>"
  shows "\<exists>printed. setfattr_main (prog # args) fs =
    (case validate_arguments a of
       Some msg \<Rightarrow> ((Exited 0, printed, msg), fs)
     | None \<Rightarrow>
         (case attr_name a of
            Some nm \<Rightarrow> ((Exited 0, printed, fst (do_set_attr nm (the (attr_value a)) files fs)),
              snd (do_set_attr nm (the (attr_value a)) files fs))
          | None \<Rightarrow> ((Exited 0, printed, fst (do_remove_attr (the (remove_name a)) files fs)),
              snd (do_remove_attr (the (remove_name a)) files fs))))"
proof -
  obtain printed a' where p: "parse_arguments es no_args [] = (printed, Inr a')"
    "attr_name a' = attr_name a" "attr_value a' = attr_value a" "remove_name a' = remove_name a"
    using parse_arguments_last [OF assms(2), of no_args "[]"] assms(3)
    by (auto simp: no_args_def split: option.splits)
  have "validate_arguments a' = validate_arguments a" by (simp add: validate_arguments_def p(2-4))
  then show ?thesis
    using p assms(1) by (auto simp: setfattr_main_def split_beta split: option.split)
qed

text \<open>The documented forms of the options.\<close>

lemma setfattr_forms:
  assumes "\<forall>f\<in>set files. operand f"
  shows "getopt_long setfattr_spec setfattr_options ([''-n'', nm, ''-v'', v] @ files) =
      ([(CHR ''n'', nm), (CHR ''v'', v)], files)"
    and "getopt_long setfattr_spec setfattr_options ([''--name='' @ nm, ''--value='' @ v] @ files) =
      ([(CHR ''n'', nm), (CHR ''v'', v)], files)"
    and "getopt_long setfattr_spec setfattr_options ([''-x'', nm] @ files) = ([(CHR ''x'', nm)], files)"
    and "getopt_long setfattr_spec setfattr_options ([''--remove='' @ nm] @ files) = ([(CHR ''x'', nm)], files)"
proof -
  have parts: "long_parts (''name='' @ nm) = (''name'', Some nm)" "long_parts (''value='' @ v) = (''value'', Some v)"
    "long_parts (''remove='' @ nm) = (''remove'', Some nm)"
    using strchr_hit [of "CHR ''=''" "''name''" nm] strchr_hit [of "CHR ''=''" "''value''" v]
      strchr_hit [of "CHR ''=''" "''remove''" nm] by (simp_all add: long_parts_def)
  show "getopt_long setfattr_spec setfattr_options ([''-n'', nm, ''-v'', v] @ files) =
      ([(CHR ''n'', nm), (CHR ''v'', v)], files)"
    "getopt_long setfattr_spec setfattr_options ([''-x'', nm] @ files) = ([(CHR ''x'', nm)], files)"
    using getopt_long_operands [OF assms] by (simp_all add: setfattr_spec_def)
  show "getopt_long setfattr_spec setfattr_options ([''--name='' @ nm, ''--value='' @ v] @ files) =
      ([(CHR ''n'', nm), (CHR ''v'', v)], files)"
    "getopt_long setfattr_spec setfattr_options ([''--remove='' @ nm] @ files) = ([(CHR ''x'', nm)], files)"
    using getopt_long_operands [OF assms] parts by (simp_all add: find_long_def setfattr_options_def)
qed

section \<open>Properties\<close>


definition two_files :: xfs where
  "two_files = \<lparr>target = [''a'' \<mapsto> 0, ''b'' \<mapsto> 1], refuses = (\<lambda>i nm. if i = 1 then Some EPERM else None),
     attrs = (\<lambda>_. Map.empty)\<rparr>"


end
