(* ===== verification/Tty.thy ===== *)
theory Tty
  imports Steps CString ErrorFuns
begin

text \<open>
  Terminal settings: \<open>ttySetCbreak\<close> and \<open>ttySetRaw\<close> of \<open>lib/tty_functions.c\<close>, the program
  \<open>tty/no_echo.c\<close>, and \<open>tty/test_tty_functions.c\<close>, which changes the mode of the terminal and gives it back when
  it ends, is stopped or receives a signal.
\<close>

unbundle bit_operations_syntax

section \<open>The terminal\<close>

record termios =
  c_iflag :: "32 word"
  c_oflag :: "32 word"
  c_cflag :: "32 word"
  c_lflag :: "32 word"
  c_vmin :: nat
  c_vtime :: nat

text \<open>After a disconnection all calls fail with the error in \<open>hung\<close>.\<close>

record tty =
  settings :: termios
  hung :: "errno option"

definition tcgetattr :: "tty \<Rightarrow> termios result" where
  "tcgetattr t = (case hung t of None \<Rightarrow> Inr (settings t) | Some e \<Rightarrow> Inl e)"

definition tcsetattr :: "termios \<Rightarrow> tty \<Rightarrow> unit result \<times> tty" where
  "tcsetattr x t = (case hung t of None \<Rightarrow> (Inr (), t\<lparr>settings := x\<rparr>) | Some e \<Rightarrow> (Inl e, t))"

text \<open>The flags of Linux.\<close>

definition flag :: "nat \<Rightarrow> 32 word" where
  "flag n = push_bit n 1"

abbreviation (input) ISIG :: "32 word" where "ISIG \<equiv> flag 0"
abbreviation (input) ICANON :: "32 word" where "ICANON \<equiv> flag 1"
abbreviation (input) ECHO :: "32 word" where "ECHO \<equiv> flag 3"
abbreviation (input) IEXTEN :: "32 word" where "IEXTEN \<equiv> flag 15"
abbreviation (input) IGNBRK :: "32 word" where "IGNBRK \<equiv> flag 0"
abbreviation (input) BRKINT :: "32 word" where "BRKINT \<equiv> flag 1"
abbreviation (input) PARMRK :: "32 word" where "PARMRK \<equiv> flag 3"
abbreviation (input) INPCK :: "32 word" where "INPCK \<equiv> flag 4"
abbreviation (input) ISTRIP :: "32 word" where "ISTRIP \<equiv> flag 5"
abbreviation (input) INLCR :: "32 word" where "INLCR \<equiv> flag 6"
abbreviation (input) IGNCR :: "32 word" where "IGNCR \<equiv> flag 7"
abbreviation (input) ICRNL :: "32 word" where "ICRNL \<equiv> flag 8"
abbreviation (input) IXON :: "32 word" where "IXON \<equiv> flag 10"
abbreviation (input) OPOST :: "32 word" where "OPOST \<equiv> flag 0"

definition cbreak :: "termios \<Rightarrow> termios" where
  "cbreak t = t\<lparr>c_lflag := (c_lflag t AND NOT (ICANON OR ECHO)) OR ISIG, c_iflag := c_iflag t AND NOT ICRNL,
     c_vmin := 1, c_vtime := 0\<rparr>"

definition raw :: "termios \<Rightarrow> termios" where
  "raw t = t\<lparr>c_lflag := c_lflag t AND NOT (ICANON OR ISIG OR IEXTEN OR ECHO),
     c_iflag := c_iflag t AND NOT (BRKINT OR ICRNL OR IGNBRK OR IGNCR OR INLCR OR INPCK OR ISTRIP OR IXON OR PARMRK),
     c_oflag := c_oflag t AND NOT OPOST, c_vmin := 1, c_vtime := 0\<rparr>"

text \<open>The value of \<open>prevTermios\<close> afterwards (if it was stored), the result, the terminal.\<close>

definition ttySetCbreak :: "bool \<Rightarrow> tty \<Rightarrow> termios option \<times> unit result \<times> tty" where
  "ttySetCbreak prevTermios t =
     (case tcgetattr t of
        Inl e \<Rightarrow> (None, Inl e, t)
      | Inr x \<Rightarrow> (if prevTermios then Some x else None, tcsetattr (cbreak x) t))"

definition ttySetRaw :: "bool \<Rightarrow> tty \<Rightarrow> termios option \<times> unit result \<times> tty" where
  "ttySetRaw prevTermios t =
     (case tcgetattr t of
        Inl e \<Rightarrow> (None, Inl e, t)
      | Inr x \<Rightarrow> (if prevTermios then Some x else None, tcsetattr (raw x) t))"

text \<open>\<open>no_echo\<close>: the text printed, the settings while a line is read, how it ends.\<close>

definition no_echo_main :: "string \<Rightarrow> tty \<Rightarrow> (string \<times> termios \<times> failure option) \<times> tty" where
  "no_echo_main input t =
     (case tcgetattr t of
        Inl e \<Rightarrow> (([], settings t, Some (ErrExit ''tcgetattr'' e)), t)
      | Inr tp \<Rightarrow>
          (case tcsetattr (tp\<lparr>c_lflag := c_lflag tp AND NOT ECHO\<rparr>) t of
             (Inl e, t1) \<Rightarrow> (([], settings t1, Some (ErrExit ''tcsetattr'' e)), t1)
           | (Inr _, t1) \<Rightarrow>
               (let printed = ''Enter text: '' @
                      (case fgets 100 input of
                         None \<Rightarrow> ''Got end-of-file/error on fgets()'' @ [LF]
                       | Some (buf, _) \<Rightarrow> [LF] @ ''Read: '' @ buf)
                in case tcsetattr tp t1 of
                     (Inl e, t2) \<Rightarrow> ((printed, settings t1, Some (ErrExit ''tcsetattr'' e)), t2)
                   | (Inr _, t2) \<Rightarrow> ((printed, settings t1, None), t2))))"

section \<open>test\_tty\_functions\<close>

datatype tsig = S_QUIT | S_INT | S_TSTP | S_TERM

datatype disposition = Dfl | Ign | Handler | TstpHandler

datatype tend = Exit_ok | Failed string errno | Killed tsig

text \<open>
  Where the process is. When it is stopped in \<open>tstpHandler\<close> the settings \<open>ourTermios\<close> that the handler
  has saved are kept; \<open>None\<close> stands for a stop without a handler.
\<close>

datatype tpc = T_Mode | T_Install tsig | T_Read | T_Restore | T_Stopped "termios option" tpc | T_Over tend

text \<open>
  \<open>wanted\<close> is no variable of the program: it records the settings that the user has chosen last,
  before the program was started or while it was stopped.
\<close>

record tsys =
  dev :: tty
  userTermios :: termios
  disp :: "tsig \<Rightarrow> disposition"
  echoed :: string
  tpc :: tpc
  wanted :: termios

definition isalpha :: "char \<Rightarrow> bool" where
  "isalpha c \<longleftrightarrow> (let n = of_char c :: nat in (65 \<le> n \<and> n \<le> 90) \<or> (97 \<le> n \<and> n \<le> 122))"

definition tolower :: "char \<Rightarrow> char" where
  "tolower c = (let n = of_char c :: nat in if 65 \<le> n \<and> n \<le> 90 then char_of (n + 32) else c)"

definition iscntrl :: "char \<Rightarrow> bool" where
  "iscntrl c \<longleftrightarrow> (let n = of_char c :: nat in n < 32 \<or> n = 127)"

definition echo_char :: "char \<Rightarrow> string" where
  "echo_char ch =
     (if isalpha ch then [tolower ch]
      else if ch = LF \<or> ch = CHR 0x0D then [ch]
      else if iscntrl ch then [CHR ''^'', char_of (of_char ch XOR (64::nat))]
      else ''*'')"

text \<open>The handlers.\<close>

definition handler :: "tsys \<Rightarrow> tsys" where
  "handler s =
     (case tcsetattr (userTermios s) (dev s) of
        (Inl e, d) \<Rightarrow> s\<lparr>dev := d, tpc := T_Over (Failed ''tcsetattr'' e)\<rparr>
      | (Inr _, d) \<Rightarrow> s\<lparr>dev := d, tpc := T_Over Exit_ok\<rparr>)"

text \<open>\<open>tstpHandler\<close> up to the stop, and from there; \<open>u\<close> are the settings that the user leaves meanwhile.\<close>

definition tstpHandler_stop :: "tsys \<Rightarrow> tsys" where
  "tstpHandler_stop s =
     (case tcgetattr (dev s) of
        Inl e \<Rightarrow> s\<lparr>tpc := T_Over (Failed ''tcgetattr'' e)\<rparr>
      | Inr our \<Rightarrow>
          (case tcsetattr (userTermios s) (dev s) of
             (Inl e, d) \<Rightarrow> s\<lparr>dev := d, tpc := T_Over (Failed ''tcsetattr'' e)\<rparr>
           | (Inr _, d) \<Rightarrow>
               s\<lparr>dev := d, disp := (disp s)(S_TSTP := Dfl), tpc := T_Stopped (Some our) (tpc s)\<rparr>))"

definition tstpHandler_cont :: "termios \<Rightarrow> tpc \<Rightarrow> tsys \<Rightarrow> tsys" where
  "tstpHandler_cont our p s =
     (let s1 = s\<lparr>disp := (disp s)(S_TSTP := TstpHandler)\<rparr>
      in case tcgetattr (dev s1) of
           Inl e \<Rightarrow> s1\<lparr>tpc := T_Over (Failed ''tcgetattr'' e)\<rparr>
         | Inr x \<Rightarrow>
             (case tcsetattr our (dev s1) of
                (Inl e, d) \<Rightarrow> s1\<lparr>userTermios := x, dev := d, tpc := T_Over (Failed ''tcsetattr'' e)\<rparr>
              | (Inr _, d) \<Rightarrow> s1\<lparr>userTermios := x, dev := d, tpc := p\<rparr>))"

text \<open>The statements of \<open>main\<close>; \<open>cb\<close> says whether there is an argument (\<open>argc > 1\<close>).\<close>

fun next_signal :: "tsig \<Rightarrow> tpc" where
  "next_signal S_QUIT = T_Install S_INT"
| "next_signal S_INT = T_Install S_TSTP"
| "next_signal S_TSTP = T_Install S_TERM"
| "next_signal S_TERM = T_Read"

definition install_handler :: "tsig \<Rightarrow> tsys \<Rightarrow> tsys" where
  "install_handler sig s =
     s\<lparr>disp := (if sig \<noteq> S_TERM \<and> disp s sig = Ign then disp s
                else (disp s)(sig := if sig = S_TSTP then TstpHandler else Handler)),
       tpc := next_signal sig\<rparr>"

definition tty_main :: "bool \<Rightarrow> tsys \<Rightarrow> tsys option" where
  "tty_main cb s =
     (case tpc s of
        T_Mode \<Rightarrow>
          Some (case (if cb then ttySetCbreak True (dev s) else ttySetRaw True (dev s)) of
             (prev, Inl e, d) \<Rightarrow>
               s\<lparr>dev := d, tpc := T_Over (Failed (if cb then ''ttySetCbreak'' else ''ttySetRaw'') e)\<rparr>
           | (prev, Inr _, d) \<Rightarrow>
               s\<lparr>dev := d, userTermios := (case prev of None \<Rightarrow> userTermios s | Some x \<Rightarrow> x),
                 tpc := T_Install (if cb then S_QUIT else S_TERM)\<rparr>)
      | T_Install sig \<Rightarrow> Some (install_handler sig s)
      | T_Restore \<Rightarrow> Some (handler s)
      | _ \<Rightarrow> None)"

datatype tevent = Run | Input char | Eof | Read_error errno | Signal tsig | Continue termios | Hangup errno

definition running :: "tpc \<Rightarrow> bool" where
  "running p \<longleftrightarrow> (case p of T_Stopped _ _ \<Rightarrow> False | T_Over _ \<Rightarrow> False | _ \<Rightarrow> True)"

text \<open>Whatever can happen next.\<close>

definition tty_next :: "bool \<Rightarrow> tevent \<Rightarrow> tsys \<Rightarrow> tsys option" where
  "tty_next cb ev s =
     (case ev of
        Run \<Rightarrow> tty_main cb s
      | Input ch \<Rightarrow>
          if tpc s = T_Read
          then Some (s\<lparr>echoed := echoed s @ echo_char ch, tpc := (if ch = CHR ''q'' then T_Restore else T_Read)\<rparr>)
          else None
      | Eof \<Rightarrow> if tpc s = T_Read then Some (s\<lparr>tpc := T_Restore\<rparr>) else None
      | Read_error _ \<Rightarrow> if tpc s = T_Read then Some (s\<lparr>tpc := T_Restore\<rparr>) else None
      | Signal sig \<Rightarrow>
          if \<not> running (tpc s) then None
          else Some (case disp s sig of
              Ign \<Rightarrow> s
            | Dfl \<Rightarrow> s\<lparr>tpc := (if sig = S_TSTP then T_Stopped None (tpc s) else T_Over (Killed sig))\<rparr>
            | Handler \<Rightarrow> handler s
            | TstpHandler \<Rightarrow> tstpHandler_stop s)
      | Continue u \<Rightarrow>
          (case tpc s of
             T_Stopped our p \<Rightarrow>
               (let s1 = s\<lparr>dev := (dev s)\<lparr>settings := u\<rparr>, wanted := u\<rparr>
                in Some (case our of None \<Rightarrow> s1\<lparr>tpc := p\<rparr> | Some x \<Rightarrow> tstpHandler_cont x p s1))
           | _ \<Rightarrow> None)
      | Hangup e \<Rightarrow> Some (s\<lparr>dev := (dev s)\<lparr>hung := Some e\<rparr>\<rparr>))"

section \<open>What the settings are\<close>

lemma bit_flag [simp]: "bit (flag k) n \<longleftrightarrow> n = k \<and> n < 32"
  by (auto simp: flag_def bit_exp_iff push_bit_eq_mult)

lemma bit_cbreak:
  "bit (c_lflag (cbreak t)) n \<longleftrightarrow> n = 0 \<or> (bit (c_lflag t) n \<and> n \<notin> {1, 3})"
  "bit (c_iflag (cbreak t)) n \<longleftrightarrow> bit (c_iflag t) n \<and> n \<noteq> 8"
  by (auto simp: cbreak_def bit_and_iff bit_or_iff bit_not_iff dest: bit_imp_le_length)

lemma bit_raw:
  "bit (c_lflag (raw t)) n \<longleftrightarrow> bit (c_lflag t) n \<and> n \<notin> {0, 1, 3, 15}"
  "bit (c_iflag (raw t)) n \<longleftrightarrow> bit (c_iflag t) n \<and> n \<notin> {0, 1, 3, 4, 5, 6, 7, 8, 10}"
  "bit (c_oflag (raw t)) n \<longleftrightarrow> bit (c_oflag t) n \<and> n \<noteq> 0"
  by (auto simp: raw_def bit_and_iff bit_or_iff bit_not_iff dest: bit_imp_le_length)

section \<open>The settings of the user come back\<close>

text \<open>
  Events for which the program is prepared: the terminal stays connected, and no signal with its default
  action arrives once the mode has been changed.
\<close>

definition prepared :: "tevent \<Rightarrow> tsys \<Rightarrow> bool" where
  "prepared ev s \<longleftrightarrow>
     (case ev of Signal sig \<Rightarrow> disp s sig \<noteq> Dfl \<or> tpc s = T_Mode | Hangup _ \<Rightarrow> False | _ \<Rightarrow> True)"

definition tty_step :: "bool \<Rightarrow> tsys \<Rightarrow> tsys \<Rightarrow> bool" where
  "tty_step cb s t \<longleftrightarrow> (\<exists>ev. prepared ev s \<and> tty_next cb ev s = Some t)"

definition no_handlers :: "tsys \<Rightarrow> bool" where
  "no_handlers s \<longleftrightarrow> (\<forall>sig. disp s sig = Dfl \<or> disp s sig = Ign)"

fun settings_ok :: "tpc \<Rightarrow> tsys \<Rightarrow> bool" where
  "settings_ok T_Mode s = (settings (dev s) = wanted s \<and> no_handlers s)"
| "settings_ok (T_Stopped None p) s = (p = T_Mode \<and> settings (dev s) = wanted s \<and> no_handlers s)"
| "settings_ok (T_Stopped (Some our) p) s =
     (settings (dev s) = wanted s \<and> userTermios s = wanted s \<and> running p \<and> p \<noteq> T_Mode)"
| "settings_ok (T_Over x) s = (settings (dev s) = wanted s \<and> (x = Exit_ok \<or> (\<exists>sig. x = Killed sig)))"
| "settings_ok _ s = (userTermios s = wanted s)"

definition tty_inv :: "tsys \<Rightarrow> bool" where
  "tty_inv s \<longleftrightarrow> hung (dev s) = None \<and> settings_ok (tpc s) s"

lemma tc_calls [simp]:
  "hung t = None \<Longrightarrow> tcgetattr t = Inr (settings t)"
  "hung t = None \<Longrightarrow> tcsetattr x t = (Inr (), t\<lparr>settings := x\<rparr>)"
  by (simp_all add: tcgetattr_def tcsetattr_def)

text \<open>Past the change of mode the program always knows what the user wants.\<close>

lemma settings_ok_running:
  "running p \<Longrightarrow> p \<noteq> T_Mode \<Longrightarrow> settings_ok p s \<longleftrightarrow> userTermios s = wanted s"
  by (cases p) (simp_all add: running_def)

lemma handler_inv: "hung (dev s) = None \<Longrightarrow> userTermios s = wanted s \<Longrightarrow> tty_inv (handler s)"
  by (simp add: handler_def tty_inv_def)

lemma tty_main_inv:
  assumes "tty_inv s" "tty_main cb s = Some t"
  shows "tty_inv t"
proof (cases "tpc s")
  case T_Mode
  with assms show ?thesis by (auto simp: tty_main_def tty_inv_def ttySetCbreak_def ttySetRaw_def split: if_splits)
next
  case (T_Install sig)
  then have "tty_inv (install_handler sig s)"
    using assms(1) by (cases sig) (simp_all add: tty_inv_def install_handler_def)
  with T_Install assms(2) show ?thesis by (simp add: tty_main_def)
next
  case T_Restore
  with assms show ?thesis using handler_inv [of s] by (simp add: tty_main_def tty_inv_def)
qed (use assms(2) in \<open>simp_all add: tty_main_def\<close>)

lemma signal_inv:
  assumes "tty_inv s" "prepared (Signal sig) s" "tty_next cb (Signal sig) s = Some t"
  shows "tty_inv t"
proof -
  have r: "running (tpc s)" using assms(3) by (simp add: tty_next_def split: if_splits)
  show ?thesis
  proof (cases "tpc s = T_Mode")
    case True
    then have d: "disp s sig = Dfl \<or> disp s sig = Ign" and i: "settings (dev s) = wanted s" "no_handlers s" "hung (dev s) = None"
      using assms(1) by (auto simp: tty_inv_def no_handlers_def)
    from d show ?thesis
    proof
      assume "disp s sig = Dfl"
      with True i assms(3) r show ?thesis
        by (cases "sig = S_TSTP") (auto simp: tty_next_def tty_inv_def no_handlers_def)
    qed (use assms(1,3) r in \<open>simp add: tty_next_def\<close>)
  next
    case False
    then have u: "userTermios s = wanted s" "hung (dev s) = None"
      using assms(1) settings_ok_running [OF r] by (simp_all add: tty_inv_def)
    have d: "disp s sig \<noteq> Dfl" using assms(2) False by (simp add: prepared_def)
    show ?thesis
    proof (cases "disp s sig")
      case Ign
      with assms(1,3) r show ?thesis by (simp add: tty_next_def)
    next
      case Handler
      with assms(3) r u handler_inv show ?thesis by (auto simp: tty_next_def)
    next
      case TstpHandler
      with assms(3) r u False show ?thesis by (auto simp: tty_next_def tstpHandler_stop_def tty_inv_def)
    qed (use d in simp)
  qed
qed

lemma continue_inv:
  assumes "tty_inv s" "tty_next cb (Continue u) s = Some t"
  shows "tty_inv t"
proof -
  obtain our p where p: "tpc s = T_Stopped our p"
    using assms(2) by (auto simp: tty_next_def split: tpc.splits)
  show ?thesis
  proof (cases our)
    case None
    with p assms show ?thesis by (auto simp: tty_next_def tty_inv_def no_handlers_def)
  next
    case (Some x)
    with p assms(1) have "running p" "p \<noteq> T_Mode" "hung (dev s) = None" by (simp_all add: tty_inv_def)
    with p Some assms(2) settings_ok_running [of p] show ?thesis
      by (auto simp: tty_next_def tstpHandler_cont_def tty_inv_def Let_def)
  qed
qed

interpretation tty_run: invariant_system "tty_step cb" tty_inv for cb
proof
  fix s t assume i: "tty_inv s" and "tty_step cb s t"
  then obtain ev where ev: "prepared ev s" "tty_next cb ev s = Some t" by (auto simp: tty_step_def)
  show "tty_inv t"
  proof (cases ev)
    case Run
    with ev(2) tty_main_inv [OF i] show ?thesis by (simp add: tty_next_def)
  next
    case (Signal sig)
    with ev signal_inv [OF i] show ?thesis by simp
  next
    case (Continue u)
    with ev continue_inv [OF i] show ?thesis by simp
  qed (use ev i in \<open>auto simp: tty_next_def tty_inv_def prepared_def split: if_splits\<close>)
qed

section \<open>Properties\<close>

definition tty_start :: "termios \<Rightarrow> (tsig \<Rightarrow> disposition) \<Rightarrow> tsys" where
  "tty_start x d = \<lparr>dev = \<lparr>settings = x, hung = None\<rparr>, userTermios = x, disp = d, echoed = [], tpc = T_Mode, wanted = x\<rparr>"

lemma raw_mode_interrupted:
  assumes "d S_INT = Dfl"
  shows "\<exists>s evs. fold (\<lambda>ev s. Option.bind s (tty_next False ev)) evs (Some (tty_start x d)) = Some s \<and>
    tpc s = T_Over (Killed S_INT) \<and> settings (dev s) = raw x \<and> wanted s = x"
  using assms
  by (intro exI [of _ "(tty_start x d)\<lparr>dev := \<lparr>settings = raw x, hung = None\<rparr>, tpc := T_Over (Killed S_INT),
      disp := d(S_TERM := Handler)\<rparr>"] exI [of _ "[Run, Run, Signal S_INT]"])
    (simp add: tty_start_def tty_next_def tty_main_def ttySetRaw_def install_handler_def running_def)



end
