(* ===== verification/Password.thy ===== *)
theory Password
  imports ErrorFuns
begin

text \<open>
  \<open>users_groups/check_password.c\<close> and \<open>cap/check_password_caps.c\<close>: both read a user name and a password and compare
  it with the password file and the shadow file; the second one holds the right to read the shadow file as a
  capability, which it raises for the lookup only.
\<close>

section \<open>The surroundings\<close>

text \<open>
  What the programs find: the limit on names (\<open>- 1\<close> when there is none), whether \<open>malloc\<close> has memory,
  standard input, the databases, whether the permissions of the shadow file let the process read it, what
  is typed as password (\<open>None\<close> when \<open>getpass\<close> cannot use the terminal), \<open>crypt\<close>, and which calls of libcap fail.
\<close>

record surroundings =
  login_name_max :: int
  malloc_ok :: "int \<Rightarrow> bool"
  stdin :: string
  pw_db :: "string \<rightharpoonup> (string \<times> int)"
  sp_db :: "string \<rightharpoonup> string"
  shadow_readable :: bool
  typed :: "string option"
  crypt :: "string \<Rightarrow> string \<Rightarrow> string option"
  cap_get_ok :: bool
  cap_flag_ok :: bool
  cap_init_ok :: bool
  cap_free_ok :: bool

text \<open>The capability sets of the process and the buffer of \<open>getpass\<close>.\<close>

record proc =
  permitted :: "nat set"
  effective :: "nat set"
  inheritable :: "nat set"
  pass_buf :: string

abbreviation (input) CAP_DAC_READ_SEARCH :: nat where "CAP_DAC_READ_SEARCH \<equiv> 2"

text \<open>\<open>cap_set_proc\<close>: a process can only give up permitted capabilities, and use only permitted ones.\<close>

definition cap_set_proc :: "nat set \<Rightarrow> nat set \<Rightarrow> nat set \<Rightarrow> proc \<Rightarrow> unit result \<times> proc" where
  "cap_set_proc perm eff inh p =
     (if perm \<subseteq> permitted p \<and> eff \<subseteq> perm \<and> inh \<subseteq> inheritable p \<union> permitted p
      then (Inr (), p\<lparr>permitted := perm, effective := eff, inheritable := inh\<rparr>)
      else (Inl EPERM, p))"

definition getspnam :: "surroundings \<Rightarrow> proc \<Rightarrow> string \<Rightarrow> string result" where
  "getspnam w p u =
     (if \<not> shadow_readable w \<and> CAP_DAC_READ_SEARCH \<notin> effective p then Inl EACCES
      else (case sp_db w u of None \<Rightarrow> Inl ENOENT | Some x \<Rightarrow> Inr x))"

section \<open>The programs\<close>

text \<open>\<open>Outside\<close>: the byte before the name is read, when the name starts with a null byte.\<close>

datatype pw_end = Ends failure | Exits int string | Outside | Null_pointer

definition modifyCap :: "surroundings \<Rightarrow> nat \<Rightarrow> bool \<Rightarrow> proc \<Rightarrow> int \<times> proc" where
  "modifyCap w cap setting p =
     (if \<not> cap_get_ok w then (- 1, p)
      else if \<not> cap_flag_ok w then (- 1, p)
      else (case cap_set_proc (permitted p) (if setting then insert cap (effective p) else effective p - {cap})
                   (inheritable p) p of
              (Inl e, p1) \<Rightarrow> (- 1, p1)
            | (Inr _, p1) \<Rightarrow> (if cap_free_ok w then 0 else - 1, p1)))"

definition raiseCap :: "surroundings \<Rightarrow> nat \<Rightarrow> proc \<Rightarrow> int \<times> proc" where
  "raiseCap w cap p = modifyCap w cap True p"

definition dropAllCaps :: "surroundings \<Rightarrow> proc \<Rightarrow> int \<times> proc" where
  "dropAllCaps w p =
     (if \<not> cap_init_ok w then (- 1, p)
      else (case cap_set_proc {} {} {} p of
              (r, p1) \<Rightarrow> (if \<not> cap_free_ok w then - 1 else (case r of Inl _ \<Rightarrow> - 1 | Inr _ \<Rightarrow> 0), p1)))"

text \<open>Reading the name: the end of the process, or the name without its newline.\<close>

definition read_username :: "surroundings \<Rightarrow> pw_end + string" where
  "read_username w =
     (let lnmax = (if login_name_max w = - 1 then 256 else login_name_max w)
      in if \<not> malloc_ok w lnmax then Inl (Ends (ErrExit ''malloc'' ENOMEM))
         else (case fgets (nat lnmax) (stdin w) of
                 None \<Rightarrow> Inl (Exits EXIT_FAILURE ''Username: '')
               | Some (line, _) \<Rightarrow>
                   (let username = takeWhile (\<lambda>c. c \<noteq> NUL) line
                    in if username = [] then Inl Outside
                       else Inr (if last username = LF then butlast username else username))))"

text \<open>From the password prompt on; \<open>stored\<close> is the encrypted password.\<close>

definition authenticate :: "surroundings \<Rightarrow> string \<Rightarrow> int \<Rightarrow> proc \<Rightarrow> pw_end \<times> proc" where
  "authenticate w stored uid p =
     (case typed w of
        None \<Rightarrow> (Null_pointer, p)
      | Some password \<Rightarrow>
          (let encrypted = crypt w password stored;
               p1 = p\<lparr>pass_buf := replicate (length password) NUL\<rparr>
           in case encrypted of
                None \<Rightarrow> (Ends (ErrExit ''crypt'' EINVAL), p1)
              | Some x \<Rightarrow>
                  if x \<noteq> stored then (Exits EXIT_FAILURE (''Username: Incorrect password'' @ [LF]), p1)
                  else (Exits EXIT_SUCCESS
                          (''Username: Successfully authenticated: UID='' @ show_int uid @ [LF]), p1)))"

definition check_password_main :: "surroundings \<Rightarrow> proc \<Rightarrow> pw_end \<times> proc" where
  "check_password_main w p =
     (case read_username w of
        Inl x \<Rightarrow> (x, p)
      | Inr u \<Rightarrow>
          (case pw_db w u of
             None \<Rightarrow> (Ends (Fatal ''couldn't get password record''), p)
           | Some (pw_passwd, uid) \<Rightarrow>
               (case getspnam w p u of
                  Inl e \<Rightarrow>
                    if e = EACCES then (Ends (Fatal ''no permission to read shadow password file''), p)
                    else authenticate w pw_passwd uid p
                | Inr sp \<Rightarrow> authenticate w sp uid p)))"

definition check_password_caps_main :: "surroundings \<Rightarrow> proc \<Rightarrow> pw_end \<times> proc" where
  "check_password_caps_main w p =
     (case read_username w of
        Inl x \<Rightarrow> (x, p)
      | Inr u \<Rightarrow>
          (case pw_db w u of
             None \<Rightarrow> (Ends (Fatal ''couldn't get password record''), p)
           | Some (pw_passwd, uid) \<Rightarrow>
               (case raiseCap w CAP_DAC_READ_SEARCH p of
                  (r, p1) \<Rightarrow>
                    if r = - 1 then (Ends (Fatal ''raiseCap() failed''), p1)
                    else (let sp = getspnam w p1 u
                          in if sp = Inl EACCES
                             then (Ends (Fatal ''no permission to read shadow password file''), p1)
                             else (case dropAllCaps w p1 of
                                     (r2, p2) \<Rightarrow>
                                       if r2 = - 1 then (Ends (Fatal ''dropAllCaps() failed''), p2)
                                       else authenticate w (case sp of Inl _ \<Rightarrow> pw_passwd | Inr x \<Rightarrow> x) uid p2)))))"

section \<open>Capabilities\<close>

definition libcap_ok :: "surroundings \<Rightarrow> bool" where
  "libcap_ok w \<longleftrightarrow> cap_get_ok w \<and> cap_flag_ok w \<and> cap_init_ok w \<and> cap_free_ok w"

definition no_caps :: "proc \<Rightarrow> bool" where
  "no_caps p \<longleftrightarrow> permitted p = {} \<and> effective p = {} \<and> inheritable p = {}"

lemma raiseCap_ok:
  assumes "libcap_ok w" "cap \<in> permitted p" "effective p \<subseteq> permitted p"
  shows "raiseCap w cap p = (0, p\<lparr>effective := insert cap (effective p)\<rparr>)"
  using assms by (auto simp: raiseCap_def modifyCap_def cap_set_proc_def libcap_ok_def)

lemma dropAllCaps_result:
  "fst (dropAllCaps w p) \<noteq> - 1 \<Longrightarrow> no_caps (snd (dropAllCaps w p))"
  "libcap_ok w \<Longrightarrow> fst (dropAllCaps w p) = 0"
  by (simp_all add: dropAllCaps_def cap_set_proc_def no_caps_def libcap_ok_def split: if_splits)

text \<open>A process never gains a permitted capability.\<close>

lemma caps_shrink:
  "permitted (snd (modifyCap w cap b p)) \<subseteq> permitted p" "permitted (snd (dropAllCaps w p)) \<subseteq> permitted p"
  by (auto simp: modifyCap_def dropAllCaps_def cap_set_proc_def)

lemma authenticate_result:
  "no_caps p \<Longrightarrow> no_caps (snd (authenticate w stored uid p))"
  "fst (authenticate w stored uid p) = Exits 0 txt \<longleftrightarrow>
     txt = ''Username: Successfully authenticated: UID='' @ show_int uid @ [LF] \<and>
     (\<exists>pass. typed w = Some pass \<and> crypt w pass stored = Some stored)"
  "fst (authenticate w stored uid p) = fst (authenticate w stored uid p')"
  "typed w \<noteq> None \<Longrightarrow> set (pass_buf (snd (authenticate w stored uid p))) \<subseteq> {NUL}"
  by (auto simp: authenticate_def no_caps_def Let_def split: option.splits)

lemma getspnam_readable:
  "CAP_DAC_READ_SEARCH \<in> effective p \<or> shadow_readable w \<Longrightarrow>
     getspnam w p u = (case sp_db w u of None \<Rightarrow> Inl ENOENT | Some x \<Rightarrow> Inr x)"
  by (auto simp: getspnam_def)

text \<open>With the capability at hand the program comes to the password prompt, without any capability left.\<close>

lemma check_password_caps_run:
  assumes "libcap_ok w" "CAP_DAC_READ_SEARCH \<in> permitted p" "effective p \<subseteq> permitted p"
    and "read_username w = Inr u" "pw_db w u = Some (pw, uid)"
  shows "\<exists>p'. no_caps p' \<and> check_password_caps_main w p =
    authenticate w (case sp_db w u of None \<Rightarrow> pw | Some x \<Rightarrow> x) uid p'"
proof -
  let ?p = "p\<lparr>effective := insert CAP_DAC_READ_SEARCH (effective p)\<rparr>"
  have sp: "getspnam w ?p u = (case sp_db w u of None \<Rightarrow> Inl ENOENT | Some x \<Rightarrow> Inr x)"
    by (rule getspnam_readable) simp
  obtain p2 where d: "dropAllCaps w ?p = (0, p2)" "no_caps p2"
    using dropAllCaps_result [of w ?p] assms(1) by (cases "dropAllCaps w ?p") auto
  have "check_password_caps_main w p = authenticate w (case sp_db w u of None \<Rightarrow> pw | Some x \<Rightarrow> x) uid p2"
    using assms(4,5) raiseCap_ok [OF assms(1-3)] sp d(1)
    by (simp add: check_password_caps_main_def Let_def split: option.split)
  with d(2) show ?thesis by blast
qed

lemma check_password_run:
  assumes "shadow_readable w" "read_username w = Inr u" "pw_db w u = Some (pw, uid)"
  shows "check_password_main w p = authenticate w (case sp_db w u of None \<Rightarrow> pw | Some x \<Rightarrow> x) uid p"
  using assms getspnam_readable [of p w u] by (auto simp: check_password_main_def split: option.split)

section \<open>Properties\<close>

definition accepted :: "surroundings \<Rightarrow> string \<Rightarrow> bool" where
  "accepted w txt \<longleftrightarrow> (\<exists>u pw uid stored pass. read_username w = Inr u \<and> pw_db w u = Some (pw, uid) \<and>
     stored = (case sp_db w u of None \<Rightarrow> pw | Some x \<Rightarrow> x) \<and> typed w = Some pass \<and> crypt w pass stored = Some stored \<and>
     txt = ''Username: Successfully authenticated: UID='' @ show_int uid @ [LF])"

lemma caps_of_exit:
  assumes "check_password_caps_main w p = (Exits c txt, p')" "txt \<noteq> ''Username: ''"
  shows "no_caps p'" "set (pass_buf p') \<subseteq> {NUL}"
proof -
  obtain u pw uid where r: "read_username w = Inr u" "pw_db w u = Some (pw, uid)"
    using assms by (auto simp: check_password_caps_main_def read_username_def Let_def split: sum.splits option.splits if_splits)
  obtain a p1 where a: "raiseCap w CAP_DAC_READ_SEARCH p = (a, p1)" by fastforce
  obtain b p2 where b: "dropAllCaps w p1 = (b, p2)" by fastforce
  have ne: "a \<noteq> - 1" "getspnam w p1 u \<noteq> Inl EACCES" "b \<noteq> - 1"
    and eq: "authenticate w (case getspnam w p1 u of Inl _ \<Rightarrow> pw | Inr x \<Rightarrow> x) uid p2 = (Exits c txt, p')"
    using assms(1) r a b by (auto simp: check_password_caps_main_def Let_def split: if_splits)
  have "typed w \<noteq> None" using eq by (cases "typed w") (auto simp: authenticate_def)
  then show "no_caps p'" "set (pass_buf p') \<subseteq> {NUL}"
    using authenticate_result(1) [OF dropAllCaps_result(1), of w p1] authenticate_result(4) [of w _ uid p2] eq b ne
    by (metis fst_conv snd_conv)+
qed

text \<open>
  C8: with the capability permitted and no failure of libcap, \<open>check_password_caps\<close> ends exactly as
  \<open>check_password\<close> does for a process that may read the shadow file: it authenticates the user if and only if there is a
  password record and the typed password encrypts to the stored one, that of the shadow file if it has one. Whatever
  fails, when the program has compared a password it holds no capability in any set, and the password that was
  typed has been erased.
\<close>

theorem password_checked:
  assumes "libcap_ok w" "CAP_DAC_READ_SEARCH \<in> permitted p" "effective p \<subseteq> permitted p"
  shows "fst (check_password_caps_main w p) = fst (check_password_main (w\<lparr>shadow_readable := True\<rparr>) q) \<and>
    (fst (check_password_caps_main w p) = Exits 0 txt \<longleftrightarrow> accepted w txt) \<and>
    (check_password_caps_main w' r = (Exits c t, r') \<and> t \<noteq> ''Username: '' \<longrightarrow>
       no_caps r' \<and> set (pass_buf r') \<subseteq> {NUL})"
proof (intro conjI impI)
  let ?w = "w\<lparr>shadow_readable := True\<rparr>"
  have rw: "read_username ?w = read_username w" by (simp add: read_username_def Let_def)
  have ad: "authenticate ?w = authenticate w" by (intro ext) (simp add: authenticate_def Let_def split: option.split)
  show "fst (check_password_caps_main w p) = fst (check_password_main ?w q)"
  proof (cases "read_username w")
    case (Inr u)
    show ?thesis
    proof (cases "pw_db w u")
      case (Some x)
      obtain pw uid where x: "x = (pw, uid)" by fastforce
      show ?thesis
        using check_password_caps_run [OF assms Inr Some [unfolded x]] check_password_run [of ?w u pw uid q] Inr Some x rw ad
          authenticate_result(3) [of w _ uid] by fastforce
    qed (simp add: check_password_caps_main_def check_password_main_def rw Inr)
  qed (simp add: check_password_caps_main_def check_password_main_def rw)
  show "fst (check_password_caps_main w p) = Exits 0 txt \<longleftrightarrow> accepted w txt"
  proof (cases "read_username w")
    case (Inr u)
    show ?thesis
    proof (cases "pw_db w u")
      case (Some x)
      obtain pw uid where x: "x = (pw, uid)" by fastforce
      show ?thesis
        using check_password_caps_run [OF assms Inr Some [unfolded x]] Inr Some x
        by (auto simp: accepted_def authenticate_result(2))
    qed (simp add: check_password_caps_main_def accepted_def Inr)
  next
    case (Inl e)
    then have "e \<noteq> Exits 0 txt" by (auto simp: read_username_def Let_def split: option.splits if_splits)
    with Inl show ?thesis by (simp add: check_password_caps_main_def accepted_def)
  qed
next
  assume "check_password_caps_main w' r = (Exits c t, r') \<and> t \<noteq> ''Username: ''"
  then show "no_caps r'" "set (pass_buf r') \<subseteq> {NUL}" using caps_of_exit [of w' r c t r'] by auto
qed

definition example_login :: surroundings where
  "example_login = \<lparr>login_name_max = - 1, malloc_ok = (\<lambda>_. True), stdin = ''joe'' @ [LF], pw_db = [''joe'' \<mapsto> (''x'', 1000)],
     sp_db = [''joe'' \<mapsto> ''cba''], shadow_readable = False, typed = Some ''abc'', crypt = (\<lambda>pass salt. Some (rev pass)),
     cap_get_ok = True, cap_flag_ok = True, cap_init_ok = True, cap_free_ok = True\<rparr>"

theorem password_checked_witness:
  "fst (check_password_caps_main example_login \<lparr>permitted = {2}, effective = {}, inheritable = {}, pass_buf = []\<rparr>) =
     Exits 0 (''Username: Successfully authenticated: UID=1000'' @ [LF])"
proof -
  have "read_username example_login = Inr ''joe''" by code_simp
  then have "accepted example_login (''Username: Successfully authenticated: UID='' @ show_int 1000 @ [LF])"
    by (simp add: accepted_def example_login_def)
  moreover have "show_int 1000 = ''1000''" by code_simp
  ultimately show ?thesis
    using password_checked [of example_login "\<lparr>permitted = {2}, effective = {}, inheritable = {}, pass_buf = []\<rparr>"]
    by (simp add: libcap_ok_def example_login_def)
qed

end
