(* ===== verification/Hup.thy ===== *)
theory Hup
  imports Steps CString
begin

text \<open>
  \<open>daemons/daemon_SIGHUP.c\<close>: a daemon that writes a message every 15 seconds of sleep and, when it has received
  \<open>SIGHUP\<close>, opens its log file anew and reads its configuration again. The process is modelled from the point
  where it has become a daemon, statement by statement, with the signal arriving at any point.
\<close>

section \<open>State\<close>

datatype hpc = H_Open | H_Config | H_Sleep | H_Test | H_Clear | H_Close | H_Count | H_Exit | H_Outside

text \<open>
  \<open>logs\<close> are the log files that were opened, the current one last, as lists of lines. Not variables of the program are
  \<open>started\<close> (it is past the first reading of the configuration), \<open>slept\<close> (the seconds it has slept) and \<open>unserved\<close> (a
  signal has arrived and the configuration was not read since).
\<close>

record hsys =
  hpc :: hpc
  logs :: "string list list"
  hupReceived :: bool
  unslept :: int
  count :: int
  started :: bool
  slept :: int
  unserved :: bool

abbreviation (input) SLEEP_TIME :: int where "SLEEP_TIME \<equiv> 15"
abbreviation (input) SBUF_SIZE :: nat where "SBUF_SIZE \<equiv> 100"

section \<open>The functions\<close>

text \<open>\<open>ts\<close> is the text of the time, \<open>None\<close> when \<open>localtime\<close> or \<open>strftime\<close> fails.\<close>

definition logMessage :: "string option \<Rightarrow> string \<Rightarrow> hsys \<Rightarrow> hsys" where
  "logMessage ts msg s =
     s\<lparr>logs := butlast (logs s) @
        [last (logs s) @ [(case ts of None \<Rightarrow> ''???Unknown time????: '' | Some t \<Rightarrow> t @ '': '') @ msg]]\<rparr>"

text \<open>
  \<open>logOpen\<close>: the file can be opened or not, and is the last one (opened for appending) or, when that was moved away, a new one.
\<close>

definition logOpen :: "bool \<Rightarrow> bool \<Rightarrow> string option \<Rightarrow> hsys \<Rightarrow> hsys" where
  "logOpen ok moved ts s =
     (if \<not> ok then s\<lparr>hpc := H_Exit\<rparr>
      else (let s1 = (if moved \<or> logs s = [] then s\<lparr>logs := logs s @ [[]]\<rparr> else s)
            in (logMessage ts ''Opened log file'' s1)\<lparr>hpc := H_Config\<rparr>))"

definition logClose :: "string option \<Rightarrow> hsys \<Rightarrow> hsys" where
  "logClose ts s = (logMessage ts ''Closing log file'' s)\<lparr>hpc := H_Open\<rparr>"

text \<open>The first line of a configuration file, without its last character; \<open>None\<close> when it starts with a null byte.\<close>

definition config_line :: "string \<Rightarrow> string option" where
  "config_line text =
     (case fgets SBUF_SIZE text of
        None \<Rightarrow> Some []
      | Some (l, _) \<Rightarrow>
          (let str = takeWhile (\<lambda>c. c \<noteq> NUL) l in if str = [] then None else Some (butlast str)))"

definition readConfigFile :: "string option \<Rightarrow> string option \<Rightarrow> hsys \<Rightarrow> hsys" where
  "readConfigFile file ts s =
     (let s1 = s\<lparr>hpc := (if started s then H_Count else H_Sleep), unslept := (if started s then unslept s else SLEEP_TIME),
                 started := True, unserved := False\<rparr>
      in case file of
           None \<Rightarrow> s1
         | Some text \<Rightarrow>
             (case config_line text of
                None \<Rightarrow> s\<lparr>hpc := H_Outside\<rparr>
              | Some str \<Rightarrow> logMessage ts (''Read config file: '' @ str) s1))"

definition sighupHandler :: "hsys \<Rightarrow> hsys" where
  "sighupHandler s = s\<lparr>hupReceived := True, unserved := True\<rparr>"

text \<open>
  One statement of \<open>main\<close>. What it meets: the value that \<open>sleep\<close> returns, whether the log file can be opened and was moved,
  the configuration file, the time.
\<close>

record hworld =
  sleep_left :: int
  open_ok :: bool
  moved :: bool
  config :: "string option"
  now :: "string option"

definition hup_main :: "hworld \<Rightarrow> hsys \<Rightarrow> hsys option" where
  "hup_main w s =
     (case hpc s of
        H_Open \<Rightarrow> Some (logOpen (open_ok w) (moved w) (now w) s)
      | H_Config \<Rightarrow> Some (readConfigFile (config w) (now w) s)
      | H_Sleep \<Rightarrow>
          if 0 \<le> sleep_left w \<and> sleep_left w \<le> unslept s
          then Some (s\<lparr>slept := slept s + (unslept s - sleep_left w), unslept := sleep_left w, hpc := H_Test\<rparr>)
          else None
      | H_Test \<Rightarrow> Some (s\<lparr>hpc := (if hupReceived s then H_Clear else H_Count)\<rparr>)
      | H_Clear \<Rightarrow> Some (s\<lparr>hupReceived := False, hpc := H_Close\<rparr>)
      | H_Close \<Rightarrow> Some (logClose (now w) s)
      | H_Count \<Rightarrow>
          Some (if unslept s = 0
                then (logMessage (now w) (''Main: '' @ show_int (count s + 1)) s)
                       \<lparr>count := count s + 1, unslept := SLEEP_TIME, hpc := H_Sleep\<rparr>
                else s\<lparr>hpc := H_Sleep\<rparr>)
      | H_Exit \<Rightarrow> None
      | H_Outside \<Rightarrow> None)"

definition hup_start :: hsys where
  "hup_start = \<lparr>hpc = H_Open, logs = [], hupReceived = False, unslept = SLEEP_TIME, count = 0, started = False,
     slept = 0, unserved = False\<rparr>"

definition hup_over :: "hsys \<Rightarrow> bool" where
  "hup_over s \<longleftrightarrow> hpc s = H_Exit \<or> hpc s = H_Outside"

definition hup_step :: "hsys \<Rightarrow> hsys \<Rightarrow> bool" where
  "hup_step s t \<longleftrightarrow> (\<exists>w. hup_main w s = Some t) \<or> (\<not> hup_over s \<and> t = sighupHandler s)"

section \<open>The invariant\<close>

definition hup_inv :: "hsys \<Rightarrow> bool" where
  "hup_inv s \<longleftrightarrow>
     (unserved s \<longrightarrow> hupReceived s \<or> hpc s \<in> {H_Close, H_Open, H_Config} \<or> hup_over s) \<and>
     (hpc s \<noteq> H_Open \<or> started s \<longrightarrow> logs s \<noteq> [] \<or> hup_over s) \<and>
     (hpc s \<in> {H_Sleep, H_Test, H_Clear, H_Close, H_Count} \<longrightarrow> started s) \<and>
     (hupReceived s \<or> hpc s \<noteq> H_Clear) \<and>
     (started s \<longrightarrow> slept s = 15 * count s + (15 - unslept s) \<and> 0 \<le> unslept s \<and> unslept s \<le> 15 \<and>
        (hpc s = H_Sleep \<longrightarrow> 0 < unslept s)) \<and>
     (\<not> started s \<longrightarrow> slept s = 0 \<and> count s = 0) \<and> 0 \<le> count s"

lemma logMessage_simps [simp]:
  "hpc (logMessage ts m s) = hpc s" "hupReceived (logMessage ts m s) = hupReceived s"
  "unslept (logMessage ts m s) = unslept s" "count (logMessage ts m s) = count s"
  "started (logMessage ts m s) = started s" "slept (logMessage ts m s) = slept s"
  "unserved (logMessage ts m s) = unserved s" "logs (logMessage ts m s) \<noteq> []"
  by (simp_all add: logMessage_def)

lemma hup_inv_start: "hup_inv hup_start"
  by (simp add: hup_inv_def hup_start_def)

lemma hup_main_inv:
  assumes "hup_inv s" "hup_main w s = Some t"
  shows "hup_inv t"
proof (cases "hpc s")
  case H_Open
  with assms(2) have "t = logOpen (open_ok w) (moved w) (now w) s" by (simp add: hup_main_def)
  with H_Open assms(1) show ?thesis
    by (cases "open_ok w") (simp_all add: hup_inv_def logOpen_def hup_over_def Let_def)
next
  case H_Config
  with assms show ?thesis
    by (auto simp: hup_main_def hup_inv_def readConfigFile_def hup_over_def Let_def split: option.splits if_splits)
next
  case H_Close
  with assms show ?thesis by (auto simp: hup_main_def hup_inv_def logClose_def hup_over_def)
next
  case H_Count
  with assms show ?thesis by (cases "unslept s = 0") (auto simp: hup_main_def hup_inv_def hup_over_def)
qed (use assms in \<open>auto simp: hup_main_def hup_inv_def hup_over_def split: if_splits\<close>)

interpretation hup_run: invariant_system hup_step hup_inv
proof
  fix s t assume i: "hup_inv s" and "hup_step s t"
  then consider w where "hup_main w s = Some t" | "\<not> hup_over s" "t = sighupHandler s" by (auto simp: hup_step_def)
  then show "hup_inv t"
  proof cases
    case 1
    with hup_main_inv [OF i] show ?thesis by blast
  next
    case 2
    with i show ?thesis by (auto simp: hup_inv_def sighupHandler_def hup_over_def)
  qed
qed

text \<open>How many statements there are at most before the configuration is read again.\<close>

fun hdist :: "hpc \<Rightarrow> nat" where
  "hdist H_Config = 1"
| "hdist H_Open = 2"
| "hdist H_Close = 3"
| "hdist H_Clear = 4"
| "hdist H_Test = 5"
| "hdist H_Sleep = 6"
| "hdist H_Count = 7"
| "hdist _ = 0"

lemma hdist_decreases:
  assumes "hup_inv s" "unserved s" "hup_main w s = Some t" "unserved t" "\<not> hup_over t"
  shows "hdist (hpc t) < hdist (hpc s)"
  using assms
  by (cases "hpc s") (auto simp: hup_main_def hup_inv_def hup_over_def logOpen_def logClose_def readConfigFile_def Let_def
      split: if_splits option.splits)

lemma served_in_time:
  assumes "hup_inv (run 0)"
    and "\<forall>i<n. if prog i then \<exists>w. hup_main w (run i) = Some (run (Suc i)) else run (Suc i) = sighupHandler (run i)"
    and "\<forall>i\<le>n. unserved (run i) \<and> \<not> hup_over (run i)"
  shows "hup_inv (run n) \<and> hdist (hpc (run n)) + card {i. i < n \<and> prog i} \<le> hdist (hpc (run 0))"
  using assms(2,3)
proof (induction n)
  case (Suc n)
  then have IH: "hup_inv (run n)" "hdist (hpc (run n)) + card {i. i < n \<and> prog i} \<le> hdist (hpc (run 0))" by auto
  have st: "if prog n then \<exists>w. hup_main w (run n) = Some (run (Suc n)) else run (Suc n) = sighupHandler (run n)"
    and u: "unserved (run n)" "unserved (run (Suc n))" "\<not> hup_over (run n)" "\<not> hup_over (run (Suc n))"
    using Suc.prems by auto
  have inv: "hup_inv (run (Suc n))"
    using hup_run.preserved [OF IH(1)] st u(3) by (auto simp: hup_step_def split: if_splits)
  show ?case
  proof (cases "prog n")
    case True
    then have "{i. i < Suc n \<and> prog i} = insert n {i. i < n \<and> prog i}" by (auto simp: less_Suc_eq)
    moreover have "hdist (hpc (run (Suc n))) < hdist (hpc (run n))"
      using hdist_decreases [OF IH(1) u(1)] st True u by auto
    ultimately show ?thesis using IH(2) inv by simp
  next
    case False
    then have "{i. i < Suc n \<and> prog i} = {i. i < n \<and> prog i}" by (auto simp: less_Suc_eq)
    moreover have "hpc (run (Suc n)) = hpc (run n)" using st False by (simp add: sighupHandler_def)
    ultimately show ?thesis using IH(2) inv by simp
  qed
qed (use assms(1) in simp)

lemma config_line_cases:
  assumes "LF \<notin> set l" "NUL \<notin> set l" "length l + 1 < SBUF_SIZE"
  shows "config_line (l @ LF # rest) = Some l" and "l \<noteq> [] \<Longrightarrow> config_line l = Some (butlast l)"
proof -
  have tk: "takeWhile (\<lambda>c. c \<noteq> NUL) l = l" "takeWhile (\<lambda>c. c \<noteq> LF) l = l"
    "takeWhile (\<lambda>c. c \<noteq> NUL) (l @ [LF]) = l @ [LF]"
    using assms(1,2) by (auto simp: takeWhile_eq_all_conv)
  have "fgets SBUF_SIZE (l @ LF # rest) = Some (l @ [LF], rest)" using fgets_line [OF assms(1,3)] .
  then show "config_line (l @ LF # rest) = Some l" by (simp add: config_line_def tk(3))
  assume "l \<noteq> []"
  moreover have "fgets SBUF_SIZE l = Some (l, [])"
    using \<open>l \<noteq> []\<close> assms(3) unfolding fgets_def tk(2) by (simp add: Let_def)
  ultimately show "config_line l = Some (butlast l)" by (simp add: config_line_def tk(1))
qed

section \<open>Properties\<close>

text \<open>
  C35: no \<open>SIGHUP\<close> is lost, wherever it arrives: until the configuration has been read again, the flag is set or the
  daemon is on its way to reading it, and it reads it before it has executed seven more statements (a sleep
  counting as one), however many further signals arrive. The message \<open>Main: n\<close> is written exactly when \<open>15 * n\<close> seconds of
  sleep are complete, whatever interrupts them. A configuration line is logged whole if it ends in a newline; a
  last line without one loses its last character.
\<close>

theorem sighup_served:
  "(hup_step\<^sup>*\<^sup>* hup_start s \<longrightarrow>
      (unserved s \<longrightarrow> hupReceived s \<or> hpc s \<in> {H_Close, H_Open, H_Config} \<or> hup_over s) \<and>
      (run 0 = s \<and> (\<forall>i\<le>n. unserved (run i) \<and> \<not> hup_over (run i)) \<and>
         (\<forall>i<n. if prog i then \<exists>w. hup_main w (run i) = Some (run (Suc i)) else run (Suc i) = sighupHandler (run i)) \<longrightarrow>
         card {i. i < n \<and> prog i} < 7) \<and>
      (hup_main w s = Some t \<and> count t \<noteq> count s \<longrightarrow>
         count t = count s + 1 \<and> slept t = 15 * count t \<and>
         last (last (logs t)) = (case now w of None \<Rightarrow> ''???Unknown time????: '' | Some x \<Rightarrow> x @ '': '') @
           ''Main: '' @ show_int (count t))) \<and>
   (LF \<notin> set l \<and> NUL \<notin> set l \<and> length l + 1 < SBUF_SIZE \<longrightarrow>
      config_line (l @ LF # rest) = Some l \<and> (l \<noteq> [] \<longrightarrow> config_line l = Some (butlast l)))"
proof (intro conjI impI)
  assume r: "hup_step\<^sup>*\<^sup>* hup_start s"
  have i: "hup_inv s" using hup_run.reachable_inv [OF r hup_inv_start] .
  show "hupReceived s \<or> hpc s \<in> {H_Close, H_Open, H_Config} \<or> hup_over s" if "unserved s"
    using that i by (simp add: hup_inv_def)
  show "card {i. i < n \<and> prog i} < 7"
    if "run 0 = s \<and> (\<forall>i\<le>n. unserved (run i) \<and> \<not> hup_over (run i)) \<and>
      (\<forall>i<n. if prog i then \<exists>w. hup_main w (run i) = Some (run (Suc i)) else run (Suc i) = sighupHandler (run i))"
  proof -
    have "hdist (hpc (run n)) + card {i. i < n \<and> prog i} \<le> hdist (hpc s)"
      using served_in_time [of run n prog] that i by auto
    moreover have "0 < hdist (hpc (run n))" using that by (cases "hpc (run n)") (auto simp: hup_over_def)
    moreover have "hdist (hpc s) \<le> 7" by (cases "hpc s") simp_all
    ultimately show ?thesis by linarith
  qed
  assume st: "hup_main w s = Some t \<and> count t \<noteq> count s"
  then have c: "hpc s = H_Count" "unslept s = 0"
    "t = (logMessage (now w) (''Main: '' @ show_int (count s + 1)) s)\<lparr>count := count s + 1, unslept := 15, hpc := H_Sleep\<rparr>"
    by (cases "hpc s"; auto simp: hup_main_def logOpen_def logClose_def readConfigFile_def Let_def
        split: if_splits option.splits)+
  then show "count t = count s + 1" "slept t = 15 * count t"
    "last (last (logs t)) = (case now w of None \<Rightarrow> ''???Unknown time????: '' | Some x \<Rightarrow> x @ '': '') @
       ''Main: '' @ show_int (count t)"
    using i by (simp_all add: hup_inv_def logMessage_def)
next
  assume "LF \<notin> set l \<and> NUL \<notin> set l \<and> length l + 1 < SBUF_SIZE"
  then show "config_line (l @ LF # rest) = Some l" "l \<noteq> [] \<Longrightarrow> config_line l = Some (butlast l)"
    using config_line_cases by auto
qed

theorem sighup_served_witness:
  "config_line (''debug=1'' @ [LF]) = Some ''debug=1'' \<and> config_line ''debug=1'' = Some ''debug=''"
  using sighup_served [of hup_start "\<lambda>_. hup_start" 0 "\<lambda>_. True" undefined hup_start "''debug=1''" "[]"] by simp

end
