(* ===== verification/Relay.thy ===== *)
theory Relay
  imports StreamIO Sockets ErrorFuns
begin

text \<open>
  Programs that pass a byte stream on: the client and the server of \<open>sockets/us_xfr_*.c\<close> and \<open>us_xfr_v2_*.c\<close>, and
  those of the echo service, \<open>sockets/is_echo_*.c\<close>. They share one loop; what they rely on is the interface of a
  readable descriptor of StreamIO and that of a blocking descriptor that takes whole writes.
\<close>

section \<open>The loop\<close>

datatype xfr_end = X_Eof | X_Read errno | X_Write

text \<open>
  \<open>while ((numRead = read(...)) > 0) if (write(...) != numRead) ...\<close>; a partial write ends it as a failed one does.
\<close>

partial_function (option) xfr_loop ::
    "'k reader \<Rightarrow> 'w writer \<Rightarrow> nat \<Rightarrow> 'k \<Rightarrow> 'w \<Rightarrow> (xfr_end \<times> 'k \<times> 'w) option" where
  "xfr_loop rd wr n k w =
     (case rd k n of
        (Inl e, k1) \<Rightarrow> Some (X_Read e, k1, w)
      | (Inr buf, k1) \<Rightarrow>
          if buf = [] then Some (X_Eof, k1, w)
          else (case wr w buf of
                  (Inl _, w1) \<Rightarrow> Some (X_Write, k1, w1)
                | (Inr m, w1) \<Rightarrow> if m \<noteq> length buf then Some (X_Write, k1, w1) else xfr_loop rd wr n k1 w1))"

text \<open>A blocking descriptor without a reader that goes away: it takes all that is written.\<close>

locale whole_out =
  fixes sys_write :: "'w writer"
    and received :: "'w \<Rightarrow> byte list"
  assumes whole: "bs \<noteq> [] \<Longrightarrow> \<exists>w'. sys_write w bs = (Inr (length bs), w') \<and> received w' = received w @ bs"

text \<open>The loop from a descriptor that no signal handler interrupts to such a one.\<close>

locale relay = input_fd sys_read pending fault interrupts + whole_out sys_write received
  for sys_read :: "'k reader" and pending :: "'k \<Rightarrow> byte list" and fault :: "'k \<Rightarrow> errno option"
    and interrupts :: "'k \<Rightarrow> nat" and sys_write :: "'w writer" and received :: "'w \<Rightarrow> byte list"
begin

lemma xfr_total:
  assumes "interrupts k = 0" "0 < n"
  shows "\<exists>k' w'. xfr_loop sys_read sys_write n k w =
      Some (case fault k of None \<Rightarrow> X_Eof | Some e \<Rightarrow> X_Read e, k', w') \<and> received w' = received w @ pending k"
  using assms(1)
proof (induction "length (pending k)" arbitrary: k w rule: less_induct)
  case less
  obtain r k1 where r: "sys_read k n = (r, k1)" by fastforce
  show ?case
  proof (cases r)
    case (Inl e)
    have "e \<noteq> EINTR" using read_intr [of k n k1] r Inl less.prems assms(2) by auto
    with read_fail [of k n e k1] r Inl assms(2) show ?thesis
      by (subst xfr_loop.simps) simp
  next
    case (Inr bs)
    show ?thesis
    proof (cases "bs = []")
      case True
      with read_eof [of k n k1] r Inr assms(2) show ?thesis by (subst xfr_loop.simps) simp
    next
      case False
      have b: "pending k = bs @ pending k1" "fault k1 = fault k" "interrupts k1 = 0"
        using read_bytes [of k n bs k1] r Inr assms(2) less.prems by auto
      obtain w1 where w: "sys_write w bs = (Inr (length bs), w1)" "received w1 = received w @ bs"
        using whole [OF False] by blast
      have "length (pending k1) < length (pending k)" using b(1) False by simp
      from less.hyps [OF this b(3), of w1] obtain k2 w2 where
        "xfr_loop sys_read sys_write n k1 w1 = Some (case fault k1 of None \<Rightarrow> X_Eof | Some e \<Rightarrow> X_Read e, k2, w2)"
        "received w2 = received w1 @ pending k1" by blast
      then show ?thesis using r Inr False w b(1,2) by (subst xfr_loop.simps) simp
    qed
  qed
qed

end

text \<open>The interface is met by a stream that keeps what is written, fed by the scripted descriptor.\<close>

definition stream_write :: "byte list writer" where
  "stream_write w bs = (Inr (length bs), w @ bs)"

interpretation kept: whole_out stream_write "\<lambda>w. w"
  by unfold_locales (simp add: stream_write_def)

interpretation script_relay: relay src_read "\<lambda>s. ev_bytes (evs s)" src_ok_fault "\<lambda>s. ev_intrs (evs s)"
    stream_write "\<lambda>w. w"
  by unfold_locales

section \<open>us\_xfr\<close>

abbreviation (input) XFR_BUF_SIZE :: nat where "XFR_BUF_SIZE \<equiv> 100"

definition xfr_report :: "xfr_end \<Rightarrow> failure option" where
  "xfr_report r = (case r of X_Eof \<Rightarrow> None | X_Read e \<Rightarrow> Some (ErrExit ''read'' e)
     | X_Write \<Rightarrow> Some (Fatal ''partial/failed write''))"

definition us_xfr_cl_main ::
    "'k reader \<Rightarrow> 'w writer \<Rightarrow> errno option \<Rightarrow> errno option \<Rightarrow> 'k \<Rightarrow> 'w \<Rightarrow> (failure option \<times> 'w) option" where
  "us_xfr_cl_main rd wr sock conn k w =
     (case sock of
        Some e \<Rightarrow> Some (Some (ErrExit ''socket'' e), w)
      | None \<Rightarrow>
          (case conn of
             Some e \<Rightarrow> Some (Some (ErrExit ''connect'' e), w)
           | None \<Rightarrow> map_option (\<lambda>(r, _, w'). (xfr_report r, w')) (xfr_loop rd wr XFR_BUF_SIZE k w)))"

text \<open>
  The accept loop, given what each turn meets: the error of \<open>accept\<close>, or a connection with the result of \<open>close\<close>.
  When the turns are used up the server waits (\<open>None\<close> as its end). Besides: the messages written to standard error.
\<close>

fun us_xfr_serve ::
    "'k reader \<Rightarrow> 'w writer \<Rightarrow> (errno + 'k \<times> errno option) list \<Rightarrow> string list \<Rightarrow> 'w \<Rightarrow>
       (failure option \<times> string list \<times> 'w) option" where
  "us_xfr_serve rd wr [] msgs w = Some (None, msgs, w)"
| "us_xfr_serve rd wr (Inl e # ts) msgs w = Some (Some (ErrExit ''accept'' e), msgs, w)"
| "us_xfr_serve rd wr (Inr (k, cl) # ts) msgs w =
     (case xfr_loop rd wr XFR_BUF_SIZE k w of
        None \<Rightarrow> None
      | Some (r, _, w1) \<Rightarrow>
          (case xfr_report r of
             Some f \<Rightarrow> Some (Some f, msgs, w1)
           | None \<Rightarrow> us_xfr_serve rd wr ts (msgs @ (if cl = None then [] else [''close''])) w1))"

text \<open>\<open>rm\<close>: the error of removing the old socket, if any.\<close>

definition us_xfr_sv_main ::
    "'k reader \<Rightarrow> 'w writer \<Rightarrow> errno option \<Rightarrow> errno option \<Rightarrow> errno option \<Rightarrow> errno option \<Rightarrow>
       (errno + 'k \<times> errno option) list \<Rightarrow> 'w \<Rightarrow> (failure option \<times> string list \<times> 'w) option" where
  "us_xfr_sv_main rd wr sock rm bnd lst ts w =
     (case sock of
        Some e \<Rightarrow> Some (Some (ErrExit ''socket'' e), [], w)
      | None \<Rightarrow>
          if rm \<noteq> None \<and> rm \<noteq> Some ENOENT then Some (Some (ErrExit ''remove-/tmp/us_xfr'' (the rm)), [], w)
          else (case bnd of
                  Some e \<Rightarrow> Some (Some (ErrExit ''bind'' e), [], w)
                | None \<Rightarrow>
                    (case lst of
                       Some e \<Rightarrow> Some (Some (ErrExit ''listen'' e), [], w)
                     | None \<Rightarrow> us_xfr_serve rd wr ts [] w)))"

text \<open>The second version, over the functions of Sockets; \<open>errno\<close> is the one they leave.\<close>

definition us_xfr_v2_cl_main ::
    "'k reader \<Rightarrow> 'w writer \<Rightarrow> int result \<Rightarrow> errno option \<Rightarrow> errno option \<Rightarrow> descs \<Rightarrow> 'k \<Rightarrow> 'w \<Rightarrow>
       (failure option \<times> 'w) option" where
  "us_xfr_v2_cl_main rd wr sock conn ce s k w =
     (case unixConnect (Some ''us_xfr_v2'') sock conn ce s of
        (sfd, s1) \<Rightarrow>
          if sfd = - 1 then Some (Some (ErrExit ''unixConnect'' (the (errno_v s1))), w)
          else map_option (\<lambda>(r, _, w'). (xfr_report r, w')) (xfr_loop rd wr XFR_BUF_SIZE k w))"

definition us_xfr_v2_sv_main ::
    "'k reader \<Rightarrow> 'w writer \<Rightarrow> int result \<Rightarrow> errno option \<Rightarrow> errno option \<Rightarrow> errno option \<Rightarrow> descs \<Rightarrow>
       (errno + 'k \<times> errno option) list \<Rightarrow> 'w \<Rightarrow> (failure option \<times> string list \<times> 'w) option" where
  "us_xfr_v2_sv_main rd wr sock bnd lst ce s ts w =
     (case unixListen (Some ''us_xfr_v2'') sock bnd lst ce s of
        (sfd, s1) \<Rightarrow>
          if sfd = - 1 then Some (Some (ErrExit ''unixListen'' (the (errno_v s1))), [], w)
          else us_xfr_serve rd wr ts [] w)"

section \<open>The echo service\<close>

text \<open>
  \<open>grimReaper\<close>: the children that have ended are waited for one at a time. When none is left \<open>waitpid\<close> returns 0,
  or -1 with \<open>ECHILD\<close> if there is no other child either; the handler restores \<open>errno\<close>.
\<close>

fun grim_loop :: "bool \<Rightarrow> nat list \<Rightarrow> errno option \<Rightarrow> nat list \<times> errno option" where
  "grim_loop running [] e = ([], if running then e else Some ECHILD)"
| "grim_loop running (z # zombies) e = grim_loop running zombies e"

definition grimReaper :: "bool \<Rightarrow> nat list \<Rightarrow> errno option \<Rightarrow> nat list \<times> errno option" where
  "grimReaper running zombies savedErrno = (fst (grim_loop running zombies savedErrno), savedErrno)"

text \<open>A child: the status it exits with, its entry in the log if it makes one, the stream back to the client.\<close>

definition handleRequest ::
    "'k reader \<Rightarrow> 'w writer \<Rightarrow> 'k \<Rightarrow> 'w \<Rightarrow> (int \<times> string list \<times> 'w) option" where
  "handleRequest rd wr k w =
     (case xfr_loop rd wr 4096 k w of
        None \<Rightarrow> None
      | Some (r, _, w1) \<Rightarrow>
          Some (case r of X_Eof \<Rightarrow> (0, [], w1) | X_Write \<Rightarrow> (1, [''write() failed: %s''], w1)
                | X_Read _ \<Rightarrow> (1, [''Error from read(): %s''], w1)))"

datatype 'k echo_turn = Accept_fails errno | Conn int 'k "errno option"

text \<open>
  \<open>held\<close> are the connected sockets that the parent has open; \<open>replies\<close> what has been sent back on each
  connection for which there was a child, in turn. The first component is the exit status of the server, if it ends.
\<close>

record 'w echo_sv =
  held :: "int set"
  replies :: "(int \<times> 'w) list"
  logged :: "string list"

fun echo_serve ::
    "'k reader \<Rightarrow> 'w writer \<Rightarrow> 'w \<Rightarrow> 'k echo_turn list \<Rightarrow> 'w echo_sv \<Rightarrow> (int option \<times> 'w echo_sv) option" where
  "echo_serve rd wr w0 [] s = Some (None, s)"
| "echo_serve rd wr w0 (Accept_fails e # ts) s =
     Some (Some 1, s\<lparr>logged := logged s @ [''Failure in accept(): %s'']\<rparr>)"
| "echo_serve rd wr w0 (Conn cfd k fork # ts) s =
     (let s1 = s\<lparr>held := insert cfd (held s)\<rparr>
      in case fork of
           Some e \<Rightarrow>
             echo_serve rd wr w0 ts
               (s1\<lparr>logged := logged s @ [''Can't create child (%s)''], held := held s1 - {cfd}\<rparr>)
         | None \<Rightarrow>
             (case handleRequest rd wr k w0 of
                None \<Rightarrow> None
              | Some (st, msgs, w1) \<Rightarrow>
                  echo_serve rd wr w0 ts
                    (s1\<lparr>logged := logged s @ msgs, replies := replies s @ [(st, w1)], held := held s1 - {cfd}\<rparr>)))"

definition is_echo_sv_main ::
    "'k reader \<Rightarrow> 'w writer \<Rightarrow> 'w \<Rightarrow> errno option \<Rightarrow> errno option \<Rightarrow> addrinfo list option \<Rightarrow> errno option \<Rightarrow> descs \<Rightarrow>
       'k echo_turn list \<Rightarrow> (failure + int option \<times> 'w echo_sv) option" where
  "is_echo_sv_main rd wr w0 daemon sact gai lst d ts =
     (case daemon of
        Some e \<Rightarrow> Some (Inl (ErrExit ''becomeDaemon'' e))
      | None \<Rightarrow>
          (case sact of
             Some e \<Rightarrow> Some (Inr (Some 1, \<lparr>held = {}, replies = [], logged = [''Error from sigaction(): %s'']\<rparr>))
           | None \<Rightarrow>
               (case inetListen gai False lst d of
                  (lfd, _, _) \<Rightarrow>
                    if lfd = - 1
                    then Some (Inr (Some 1, \<lparr>held = {}, replies = [], logged = [''Could not create server socket (%s)'']\<rparr>))
                    else map_option Inr (echo_serve rd wr w0 ts \<lparr>held = {}, replies = [], logged = []\<rparr>))))"

text \<open>The client: the child prints each block with \<open>%.*s\<close>, which stops at a null byte.\<close>

partial_function (option) echo_child :: "'k reader \<Rightarrow> 'k \<Rightarrow> string \<Rightarrow> string option" where
  "echo_child rd k printed =
     (case rd k 100 of
        (Inl e, k1) \<Rightarrow> Some printed
      | (Inr buf, k1) \<Rightarrow>
          if buf = [] then Some printed
          else echo_child rd k1 (printed @ takeWhile (\<lambda>c. c \<noteq> NUL) buf))"

definition echo_parent ::
    "'k reader \<Rightarrow> 'w writer \<Rightarrow> errno option \<Rightarrow> 'k \<Rightarrow> 'w \<Rightarrow> (failure option \<times> 'w) option" where
  "echo_parent rd wr shut k w =
     (case xfr_loop rd wr 100 k w of
        None \<Rightarrow> None
      | Some (X_Write, _, w1) \<Rightarrow> Some (Some (Fatal ''write() failed''), w1)
      | Some (_, _, w1) \<Rightarrow>
          (case shut of Some e \<Rightarrow> Some (Some (ErrExit ''shutdown'' e), w1) | None \<Rightarrow> Some (None, w1)))"

text \<open>The parent's end and what it has sent, and what the child prints of the server's stream \<open>bk\<close>.\<close>

definition is_echo_cl_main ::
    "'k reader \<Rightarrow> 'w writer \<Rightarrow> 'b reader \<Rightarrow> string list \<Rightarrow> addrinfo list option \<Rightarrow> descs \<Rightarrow> errno option \<Rightarrow> errno option \<Rightarrow>
       'k \<Rightarrow> 'w \<Rightarrow> 'b \<Rightarrow> (failure option \<times> 'w \<times> string) option" where
  "is_echo_cl_main rd wr rd_back argv gai d fork shut k w bk =
     (if length argv \<noteq> 2 \<or> argv ! 1 = ''--help'' then Some (Some (UsageErr ''%s host''), w, [])
      else (case inetConnect gai d of
              (sfd, d1) \<Rightarrow>
                if sfd = - 1 then Some (Some (ErrExit ''inetConnect'' (the (errno_v d1))), w, [])
                else (case fork of
                        Some e \<Rightarrow> Some (Some (ErrExit ''fork'' e), w, [])
                      | None \<Rightarrow>
                          (case echo_parent rd wr shut k w of
                             None \<Rightarrow> None
                           | Some (f, w1) \<Rightarrow> map_option (\<lambda>t. (f, w1, t)) (echo_child rd_back bk [])))))"

section \<open>The data arrives\<close>

context relay
begin

lemma us_xfr_cl_sends:
  assumes "interrupts k = 0" "fault k = None"
  shows "\<exists>w'. us_xfr_cl_main sys_read sys_write None None k w = Some (None, w') \<and> received w' = received w @ pending k"
  using xfr_total [OF assms(1), of XFR_BUF_SIZE w] assms(2) by (auto simp: us_xfr_cl_main_def xfr_report_def)

lemma us_xfr_serve_all:
  assumes "\<forall>c\<in>set cs. interrupts (fst c) = 0 \<and> fault (fst c) = None"
  shows "\<exists>w'. us_xfr_serve sys_read sys_write (map Inr cs) msgs w =
      Some (None, msgs @ map (\<lambda>_. ''close'') (filter (\<lambda>c. snd c \<noteq> None) cs), w') \<and>
    received w' = received w @ concat (map (\<lambda>c. pending (fst c)) cs)"
  using assms
proof (induction cs arbitrary: msgs w)
  case (Cons c cs)
  obtain k cl where c: "c = (k, cl)" by fastforce
  from Cons.prems c have k: "interrupts k = 0" "fault k = None" by auto
  from xfr_total [OF k(1), of XFR_BUF_SIZE w] k(2) obtain k1 w1 where
    x: "xfr_loop sys_read sys_write XFR_BUF_SIZE k w = Some (X_Eof, k1, w1)" "received w1 = received w @ pending k"
    by auto
  from Cons.IH [of "msgs @ (if cl = None then [] else [''close''])" w1] Cons.prems x c show ?case
    by (auto simp: xfr_report_def)
qed simp

lemma handleRequest_echoes:
  assumes "interrupts k = 0"
  shows "\<exists>w'. handleRequest sys_read sys_write k w =
      Some (if fault k = None then (0, [], w') else (1, [''Error from read(): %s''], w')) \<and>
    received w' = received w @ pending k"
  using xfr_total [OF assms, of 4096 w] by (cases "fault k") (auto simp: handleRequest_def)

lemma echo_serve_all:
  assumes "\<forall>(fd, k, fork)\<in>set cs. interrupts k = 0"
  shows "\<exists>s'. echo_serve sys_read sys_write w0 (map (\<lambda>(fd, k, fork). Conn fd k fork) cs) s = Some (None, s') \<and>
    held s' = held s - fst ` set cs \<and>
    map (map_prod id received) (replies s') = map (map_prod id received) (replies s) @
      map (\<lambda>(fd, k, fork). (if fault k = None then 0 else 1, received w0 @ pending k))
        (filter (\<lambda>(fd, k, fork). fork = None) cs)"
  using assms
proof (induction cs arbitrary: s)
  case (Cons c cs)
  obtain fd k fork where c: "c = (fd, k, fork)" by (cases c) auto
  have k: "interrupts k = 0" and cs: "\<forall>(fd, k, fork)\<in>set cs. interrupts k = 0" using Cons.prems c by auto
  show ?case
  proof (cases fork)
    case None
    obtain w1 where w1: "handleRequest sys_read sys_write k w0 =
        Some (if fault k = None then (0, [], w1) else (1, [''Error from read(): %s''], w1))"
      "received w1 = received w0 @ pending k"
      using handleRequest_echoes [OF k, of w0] by blast
    show ?thesis
    proof (cases "fault k = None")
      case True
      from Cons.IH [OF cs, of "s\<lparr>replies := replies s @ [(0, w1)], held := held s - {fd}\<rparr>"] w1 c None True
      show ?thesis by (auto simp: insert_Diff_if)
    next
      case False
      from Cons.IH [OF cs, of "s\<lparr>logged := logged s @ [''Error from read(): %s''],
          replies := replies s @ [(1, w1)], held := held s - {fd}\<rparr>"] w1 c None False
      show ?thesis by (auto simp: insert_Diff_if)
    qed
  next
    case (Some e)
    from Cons.IH [OF cs, of "s\<lparr>logged := logged s @ [''Can't create child (%s)''], held := held s - {fd}\<rparr>"] c Some
    show ?thesis by (auto simp: insert_Diff_if)
  qed
qed simp

lemma echo_parent_sends:
  assumes "interrupts k = 0"
  shows "\<exists>w'. echo_parent sys_read sys_write None k w = Some (None, w') \<and> received w' = received w @ pending k"
  using xfr_total [OF assms, of 100 w] by (cases "fault k") (auto simp: echo_parent_def)

end

context input_fd
begin

lemma echo_child_prints:
  assumes "interrupts k = 0" "NUL \<notin> set (pending k)"
  shows "echo_child sys_read k printed = Some (printed @ pending k)"
  using assms
proof (induction "length (pending k)" arbitrary: k printed rule: less_induct)
  case less
  obtain r k1 where r: "sys_read k 100 = (r, k1)" by fastforce
  show ?case
  proof (cases r)
    case (Inl e)
    have "e \<noteq> EINTR" using read_intr [of k 100 k1] r Inl less.prems by auto
    with read_fail [of k 100 e k1] r Inl show ?thesis by (subst echo_child.simps) simp
  next
    case (Inr bs)
    show ?thesis
    proof (cases "bs = []")
      case True
      with read_eof [of k 100 k1] r Inr show ?thesis by (subst echo_child.simps) simp
    next
      case False
      have b: "pending k = bs @ pending k1" "interrupts k1 = 0"
        using read_bytes [of k 100 bs k1] r Inr less.prems by auto
      have "length (pending k1) < length (pending k)" using b(1) False by simp
      note ih = less.hyps [OF this b(2)]
      have "takeWhile (\<lambda>c. c \<noteq> NUL) bs = bs" using less.prems(2) b(1) by (auto simp: takeWhile_eq_all_conv)
      then show ?thesis
        using r Inr False ih less.prems(2) b(1) by (subst echo_child.simps) simp
    qed
  qed
qed

end

text \<open>The two versions of us\_xfr do the same once their socket is set up, and what a failed \<open>bind\<close> of the second gives.\<close>

lemma us_xfr_v2_same:
  assumes "sd \<noteq> - 1"
  shows "us_xfr_v2_cl_main rd wr (Inr sd) None ce s k w = us_xfr_cl_main rd wr None None k w"
    and "rm \<in> {None, Some ENOENT} \<Longrightarrow>
      us_xfr_v2_sv_main rd wr (Inr sd) None None ce s ts w = us_xfr_sv_main rd wr None rm None None ts w"
    and "us_xfr_v2_sv_main rd wr (Inr sd) (Some e) lst ce s ts w = Some (Some (ErrExit ''unixListen'' e), [], w)"
  using assms
  by (auto simp: us_xfr_v2_cl_main_def us_xfr_cl_main_def us_xfr_v2_sv_main_def us_xfr_sv_main_def unixConnect_def
      unixListen_def unixPassiveSocket_def unixBuildAddress_def)

lemma grim_loop_empties: "fst (grim_loop running zombies e) = []"
  by (induction zombies) simp_all

lemma is_echo_round_trip:
  assumes "relay rd pend flt intr wr rcv" "input_fd rdb pendb fltb intrb"
    and "intr k = 0" "NUL \<notin> set (pend k)" "rcv w0 = []" "fst (inetConnect gai d) \<noteq> - 1" "host \<noteq> ''--help''"
  shows "\<exists>w1. echo_parent rd wr None k w0 = Some (None, w1) \<and>
      (\<forall>q. pend q = rcv w1 \<and> intr q = 0 \<and> flt q = None \<longrightarrow>
        (\<exists>w2. handleRequest rd wr q w0 = Some (0, [], w2) \<and>
          (\<forall>bk. pendb bk = rcv w2 \<and> intrb bk = 0 \<longrightarrow>
            is_echo_cl_main rd wr rdb [prog, host] gai d None None k w0 bk = Some (None, w1, pend k))))"
proof -
  obtain w1 where w1: "echo_parent rd wr None k w0 = Some (None, w1)" "rcv w1 = pend k"
    using relay.echo_parent_sends [OF assms(1,3), of w0] assms(5) by auto
  have "\<exists>w2. handleRequest rd wr q w0 = Some (0, [], w2) \<and>
      (\<forall>bk. pendb bk = rcv w2 \<and> intrb bk = 0 \<longrightarrow>
        is_echo_cl_main rd wr rdb [prog, host] gai d None None k w0 bk = Some (None, w1, pend k))"
    if q: "pend q = rcv w1" "intr q = 0" "flt q = None" for q
  proof -
    obtain w2 where w2: "handleRequest rd wr q w0 = Some (0, [], w2)" "rcv w2 = pend k"
      using relay.handleRequest_echoes [OF assms(1) q(2), of w0] q(1,3) w1(2) assms(5) by auto
    have "is_echo_cl_main rd wr rdb [prog, host] gai d None None k w0 bk = Some (None, w1, pend k)"
      if "pendb bk = rcv w2" "intrb bk = 0" for bk
      using input_fd.echo_child_prints [OF assms(2) that(2), of "[]"] that(1) w2(2) w1(1) assms(4,6,7)
      by (auto simp: is_echo_cl_main_def split: prod.split)
    with w2 show ?thesis by blast
  qed
  with w1 show ?thesis by blast
qed

text \<open>
  C26: The client of us_xfr sends exactly its input, however it arrives, and succeeds; the server writes the data of
  all connections in turn, nothing lost or added, and a failed \<open>close\<close> is only reported. The second version does the
  same once its sockets are set up; but it ends when \<open>bind\<close> fails, and unlike the first removes no old socket. The echo
  server sends back on every connection that gets a child what arrived there, also when other children fail
  or cannot be created, keeps no connected socket open and goes on; its handler leaves no dead child and \<open>errno\<close> as it
  was. Input without null bytes goes through the echo client, the server and back, and is printed unchanged; a block
  with a null byte is printed only up to there.
\<close>

theorem stream_relays_correct:
  assumes "relay rd pend flt intr wr rcv" "input_fd rdb pendb fltb intrb"
    and "intr k = 0" "flt k = None" "rcv w0 = []" "sd \<noteq> - 1" "rm \<in> {None, Some ENOENT}"
    and "\<forall>c\<in>set cs. intr (fst c) = 0 \<and> flt (fst c) = None" "\<forall>(fd, q, fork)\<in>set es. intr q = 0"
    and "fst (inetConnect gai d) \<noteq> - 1" "fst (inetListen gai' False lst d') \<noteq> - 1" "host \<noteq> ''--help''"
  shows "((\<exists>w'. us_xfr_cl_main rd wr None None k w = Some (None, w') \<and> rcv w' = rcv w @ pend k) \<and>
      (\<exists>w'. us_xfr_sv_main rd wr None rm None None (map Inr cs) w =
          Some (None, map (\<lambda>_. ''close'') (filter (\<lambda>c. snd c \<noteq> None) cs), w') \<and>
        rcv w' = rcv w @ concat (map (\<lambda>c. pend (fst c)) cs)) \<and>
      us_xfr_v2_cl_main rd wr (Inr sd) None ce s k w = us_xfr_cl_main rd wr None None k w \<and>
      us_xfr_v2_sv_main rd wr (Inr sd) None None ce s ts w = us_xfr_sv_main rd wr None rm None None ts w \<and>
      us_xfr_v2_sv_main rd wr (Inr sd) (Some e) ler ce s ts w = Some (Some (ErrExit ''unixListen'' e), [], w)) \<and>
    ((\<exists>s'. is_echo_sv_main rd wr w0 None None gai' lst d' (map (\<lambda>(fd, q, fork). Conn fd q fork) es) =
          Some (Inr (None, s')) \<and> held s' = {} \<and>
        map (map_prod id rcv) (replies s') =
          map (\<lambda>(fd, q, fork). (if flt q = None then 0 else 1, pend q)) (filter (\<lambda>(fd, q, fork). fork = None) es)) \<and>
      grimReaper running zombies errn = ([], errn)) \<and>
    (NUL \<notin> set (pend k) \<longrightarrow>
      (\<exists>w1. echo_parent rd wr None k w0 = Some (None, w1) \<and>
        (\<forall>q. pend q = rcv w1 \<and> intr q = 0 \<and> flt q = None \<longrightarrow>
          (\<exists>w2. handleRequest rd wr q w0 = Some (0, [], w2) \<and>
            (\<forall>bk. pendb bk = rcv w2 \<and> intrb bk = 0 \<longrightarrow>
              is_echo_cl_main rd wr rdb [prog, host] gai d None None k w0 bk = Some (None, w1, pend k)))))) \<and>
    (rdb b 100 = (Inr bs, b1) \<and> bs \<noteq> [] \<and> rdb b1 100 = (Inr [], b2) \<longrightarrow>
      echo_child rdb b [] = Some (takeWhile (\<lambda>c. c \<noteq> NUL) bs))"
proof (intro conjI impI)
  show "\<exists>w'. us_xfr_cl_main rd wr None None k w = Some (None, w') \<and> rcv w' = rcv w @ pend k"
    by (rule relay.us_xfr_cl_sends [OF assms(1,3,4)])
  show "\<exists>w'. us_xfr_sv_main rd wr None rm None None (map Inr cs) w =
          Some (None, map (\<lambda>_. ''close'') (filter (\<lambda>c. snd c \<noteq> None) cs), w') \<and>
        rcv w' = rcv w @ concat (map (\<lambda>c. pend (fst c)) cs)"
    using relay.us_xfr_serve_all [OF assms(1,8), of "[]" w] assms(7) by (auto simp: us_xfr_sv_main_def)
  show "us_xfr_v2_cl_main rd wr (Inr sd) None ce s k w = us_xfr_cl_main rd wr None None k w"
    "us_xfr_v2_sv_main rd wr (Inr sd) None None ce s ts w = us_xfr_sv_main rd wr None rm None None ts w"
    "us_xfr_v2_sv_main rd wr (Inr sd) (Some e) ler ce s ts w = Some (Some (ErrExit ''unixListen'' e), [], w)"
    by (rule us_xfr_v2_same [OF assms(6)] us_xfr_v2_same(2) [OF assms(6,7)])+
  show "\<exists>s'. is_echo_sv_main rd wr w0 None None gai' lst d' (map (\<lambda>(fd, q, fork). Conn fd q fork) es) =
          Some (Inr (None, s')) \<and> held s' = {} \<and>
        map (map_prod id rcv) (replies s') =
          map (\<lambda>(fd, q, fork). (if flt q = None then 0 else 1, pend q)) (filter (\<lambda>(fd, q, fork). fork = None) es)"
    using relay.echo_serve_all [OF assms(1,9), of w0 "\<lparr>held = {}, replies = [], logged = []\<rparr>"] assms(5,11)
    by (auto simp: is_echo_sv_main_def split: prod.split)
  show "grimReaper running zombies errn = ([], errn)" by (simp add: grimReaper_def grim_loop_empties)
qed (use is_echo_round_trip [OF assms(1-3) _ assms(5,10,12)] in
      \<open>auto simp: echo_child.simps [of rdb b] echo_child.simps [of rdb b1]\<close>)

theorem stream_relays_correct_witness:
  "(\<exists>w'. us_xfr_cl_main src_read stream_write None None \<lparr>evs = [Chunk ''ab'', Chunk ''c''], src_fault = None\<rparr> [] = Some (None, w') \<and>
     w' = ''abc'') \<and>
   (\<exists>s'. is_echo_sv_main src_read stream_write [] None None
      (Some [\<lparr>ai_socket = Inr 3, ai_connect = None, ai_setsockopt = None, ai_bind = None, ai_close = None, ai_addrlen = 16\<rparr>])
      None \<lparr>fds = Map.empty, errno_v = None\<rparr>
      [Conn 4 \<lparr>evs = [Chunk ''x''], src_fault = Some EIO\<rparr> None, Conn 4 \<lparr>evs = [], src_fault = None\<rparr> (Some EAGAIN),
       Conn 4 \<lparr>evs = [Chunk ''y'', Chunk ''z''], src_fault = None\<rparr> None] = Some (Inr (None, s')) \<and>
     held s' = {} \<and> replies s' = [(1, ''x''), (0, ''yz'')])"
proof -
  let ?g = "Some [\<lparr>ai_socket = Inr 3, ai_connect = None, ai_setsockopt = None, ai_bind = None, ai_close = None, ai_addrlen = 16\<rparr>]"
  let ?d = "\<lparr>fds = Map.empty, errno_v = None\<rparr>"
  let ?k = "\<lparr>evs = [Chunk ''ab'', Chunk ''c''], src_fault = None\<rparr>"
  let ?es = "[(4, \<lparr>evs = [Chunk ''x''], src_fault = Some EIO\<rparr>, None), (4, \<lparr>evs = [], src_fault = None\<rparr>, Some EAGAIN),
       (4, \<lparr>evs = [Chunk ''y'', Chunk ''z''], src_fault = None\<rparr>, None)]"
  have conn: "fst (inetConnect ?g ?d) \<noteq> - 1" "fst (inetListen ?g False None ?d) \<noteq> - 1"
    by (simp_all add: inetConnect_def inetListen_def inetPassiveSocket_def)
  have ok: "ev_intrs (evs ?k) = 0" "src_ok_fault ?k = None" "\<forall>(fd, q, fork)\<in>set ?es. ev_intrs (evs q) = 0"
    by (simp_all add: src_ok_fault_def)
  note all = stream_relays_correct [where rd = src_read and pend = "\<lambda>s. ev_bytes (evs s)" and flt = src_ok_fault
      and intr = "\<lambda>s. ev_intrs (evs s)" and wr = stream_write and rcv = "\<lambda>w. w" and rdb = src_read
      and pendb = "\<lambda>s. ev_bytes (evs s)" and fltb = src_ok_fault and intrb = "\<lambda>s. ev_intrs (evs s)" and k = ?k
      and w = "[]" and w0 = "[]" and sd = 3 and rm = None and cs = "[]" and es = ?es and gai = ?g and d = ?d
      and gai' = ?g and lst = None and d' = ?d and host = "''host''",
      OF script_relay.relay_axioms script_in.input_fd_axioms ok(1,2) _ _ _ _ ok(3) conn]
  note a = all [THEN conjunct1, THEN conjunct1] and b = all [THEN conjunct2, THEN conjunct1, THEN conjunct1]
  have "map_prod id (\<lambda>w. w) = (\<lambda>p :: int \<times> byte list. p)" by auto
  then show ?thesis using a b by (simp add: src_ok_fault_def)
qed

end
