(* ===== verification/IpcTools.thy ===== *)
theory IpcTools
  imports NumArgs ErrorFuns
begin

unbundle bit_operations_syntax

text \<open>
  The command-line tools for System V objects: \<open>svmsg_create\<close>, \<open>svsem_create\<close>, \<open>svshm_create\<close>, the programs \<open>sv*_rm\<close>,
  \<open>svsem_setall\<close>, \<open>svmsg_send\<close> and \<open>svmsg_receive\<close>. The kernel's objects of one kind are a table from identifiers to keys and
  objects; what they share is the interface \<open>ipc_kind\<close>. The caller owns the objects, so permissions never refuse a call.
\<close>

section \<open>Objects and keys\<close>

type_synonym 'o ipcs = "(int \<times> int \<times> 'o) list"

abbreviation (input) IPC_PRIVATE :: int where "IPC_PRIVATE \<equiv> 0"
abbreviation (input) IPC_CREAT :: "32 word" where "IPC_CREAT \<equiv> 512"
abbreviation (input) IPC_EXCL :: "32 word" where "IPC_EXCL \<equiv> 1024"
abbreviation (input) IPC_NOWAIT :: "32 word" where "IPC_NOWAIT \<equiv> 2048"
abbreviation (input) MSG_NOERROR :: "32 word" where "MSG_NOERROR \<equiv> 4096"
abbreviation (input) MSG_EXCEPT :: "32 word" where "MSG_EXCEPT \<equiv> 8192"

text \<open>
  \<open>msgget\<close>, \<open>semget\<close> and \<open>shmget\<close>: \<open>mk n\<close> is a new object for the size argument \<open>n\<close> (\<open>None\<close> when it is refused), \<open>fits n x\<close> says
  whether an existing one will do, and \<open>nid\<close> is the identifier that the kernel chooses for a new one.
\<close>

definition ipc_get ::
    "(int \<Rightarrow> 'o option) \<Rightarrow> (int \<Rightarrow> 'o \<Rightarrow> bool) \<Rightarrow> int \<Rightarrow> int \<Rightarrow> int \<Rightarrow> 32 word \<Rightarrow> 'o ipcs \<Rightarrow> int result \<times> 'o ipcs" where
  "ipc_get mk fits nid key n flg t =
     (let new = (case mk n of None \<Rightarrow> (Inl EINVAL, t) | Some x \<Rightarrow> (Inr nid, t @ [(nid, key, x)]))
      in if key = IPC_PRIVATE then new
         else case find (\<lambda>(i, k, x). k = key) t of
                None \<Rightarrow> if flg AND IPC_CREAT = 0 then (Inl ENOENT, t) else new
              | Some (i, k, x) \<Rightarrow>
                  if flg AND IPC_CREAT \<noteq> 0 \<and> flg AND IPC_EXCL \<noteq> 0 then (Inl EEXIST, t)
                  else if fits n x then (Inr i, t) else (Inl EINVAL, t))"

definition ipc_rm :: "int \<Rightarrow> 'o ipcs \<Rightarrow> unit result \<times> 'o ipcs" where
  "ipc_rm i t = (if map_of t i = None then (Inl EINVAL, t) else (Inr (), filter (\<lambda>(j, _). j \<noteq> i) t))"

definition ipc_set :: "int \<Rightarrow> 'o \<Rightarrow> 'o ipcs \<Rightarrow> 'o ipcs" where
  "ipc_set i x t = map (\<lambda>(j, k, y). (j, k, if j = i then x else y)) t"

text \<open>No identifier and no key but the private one is used twice.\<close>

definition ipc_wf :: "'o ipcs \<Rightarrow> bool" where
  "ipc_wf t \<longleftrightarrow> distinct (map fst t) \<and> distinct (filter (\<lambda>k. k \<noteq> IPC_PRIVATE) (map (fst \<circ> snd) t))"

text \<open>What the kinds promise: an object is no smaller than it was asked to be.\<close>

locale ipc_kind =
  fixes mk :: "int \<Rightarrow> 'o option" and fits :: "int \<Rightarrow> 'o \<Rightarrow> bool"
  assumes made_fits: "mk n = Some x \<Longrightarrow> fits n x"
begin

lemma get_keeps_wf:
  assumes "ipc_get mk fits nid key n flg t = (r, t')" "ipc_wf t" "nid \<notin> fst ` set t"
  shows "ipc_wf t' \<and> (\<forall>i. r = Inr i \<longrightarrow> (\<exists>x. map_of t' i = Some (key, x) \<and> fits n x)) \<and>
    (\<forall>i. map_of t i \<noteq> None \<longrightarrow> map_of t' i = map_of t i)"
proof (cases "t' = t")
  case True
  have "\<exists>x. map_of t i = Some (key, x) \<and> fits n x" if r: "r = Inr i" for i
  proof -
    obtain k x where "find (\<lambda>(i, k, x). k = key) t = Some (i, k, x)" "fits n x"
      using assms(1) r True by (auto simp: ipc_get_def Let_def split: option.splits if_splits)
    moreover from this have "(i, key, x) \<in> set t" by (auto simp: find_Some_iff in_set_conv_nth)
    ultimately show ?thesis using assms(2) by (auto simp: ipc_wf_def)
  qed
  with True assms(2) show ?thesis by blast
next
  case False
  then obtain x where x: "mk n = Some x" "r = Inr nid" "t' = t @ [(nid, key, x)]"
      and k: "key = IPC_PRIVATE \<or> find (\<lambda>(i, k, x). k = key) t = None"
    using assms(1) by (auto simp: ipc_get_def Let_def split: option.splits if_splits)
  moreover have "map_of t nid = None" using assms(3) by (simp add: map_of_eq_None_iff)
  ultimately have "map_of t nid = None" "key \<noteq> IPC_PRIVATE \<Longrightarrow> key \<notin> (fst \<circ> snd) ` set t" by (auto simp: find_None_iff)
  then show ?thesis
    using x assms(2,3) made_fits [OF x(1)] by (auto simp: ipc_wf_def map_add_def split: option.splits)
qed

lemma get_again:
  assumes "ipc_get mk fits nid key n flg t = (Inr i, t')" "key \<noteq> IPC_PRIVATE"
    and "flg' AND IPC_CREAT = 0 \<or> flg' AND IPC_EXCL = 0"
  shows "ipc_get mk fits nid' key n flg' t' = (Inr i, t')"
proof (cases "find (\<lambda>(i, k, x). k = key) t")
  case None
  moreover have "find P (xs @ [y]) = Some y" if "find P xs = None" "P y" for P :: "int \<times> int \<times> 'o \<Rightarrow> bool" and xs y
    using that by (induction xs) (auto split: if_splits)
  ultimately show ?thesis
    using assms made_fits by (auto simp: ipc_get_def Let_def split: option.splits if_splits)
next
  case (Some y)
  then show ?thesis
    using assms by (cases y) (auto simp: ipc_get_def Let_def split: if_splits)
qed

end

text \<open>Message queues, semaphore sets and segments.\<close>

record msgq =
  messages :: "(int \<times> byte list) list"
  qbytes :: nat

definition make_queue :: "int \<Rightarrow> msgq option" where
  "make_queue n = Some \<lparr>messages = [], qbytes = 16384\<rparr>"

definition make_set :: "int \<Rightarrow> int list option" where
  "make_set n = (if 0 < n \<and> n \<le> 32000 then Some (replicate (nat n) 0) else None)"

definition set_fits :: "int \<Rightarrow> int list \<Rightarrow> bool" where
  "set_fits n x \<longleftrightarrow> 0 \<le> n \<and> n \<le> int (length x)"

definition make_segment :: "int \<Rightarrow> int option" where
  "make_segment n = (if 0 < n then Some n else None)"

definition segment_fits :: "int \<Rightarrow> int \<Rightarrow> bool" where
  "segment_fits n x \<longleftrightarrow> 0 \<le> n \<and> n \<le> x"

interpretation mq: ipc_kind make_queue "\<lambda>_ _. True"
  by unfold_locales simp

interpretation sset: ipc_kind make_set set_fits
  by unfold_locales (auto simp: make_set_def set_fits_def split: if_splits)

interpretation seg: ipc_kind make_segment segment_fits
  by unfold_locales (auto simp: make_segment_def segment_fits_def split: if_splits)

section \<open>Creating and removing\<close>

text \<open>\<open>sscanf(s, "%li", ...)\<close>: \<open>None\<close> when no number is read.\<close>

definition scan_long :: "string \<Rightarrow> int option" where
  "scan_long s = (case strtol s 0 of (v, rest, _) \<Rightarrow> if rest = s then None else Some v)"

record key_opts =
  kflags :: "32 word"
  keyv :: int
  numKeyFlags :: nat

definition key_spec :: "char \<Rightarrow> bool option" where
  "key_spec c =
     (if c \<in> set ''cpx'' then Some False else if c \<in> set ''fk'' then Some True else None)"

text \<open>
  The loop over the options, the same in the three programs but for the message \<open>bad\<close>; \<open>ftok\<close> gives the key for a path, and
  \<open>key\<close> is not read before an option has set it.
\<close>

fun key_options ::
    "(string \<Rightarrow> int result) \<Rightarrow> string \<Rightarrow> (char \<times> string) list \<Rightarrow> key_opts \<Rightarrow> failure + key_opts" where
  "key_options ftok bad [] ko = Inr ko"
| "key_options ftok bad ((c, optarg) # es) ko =
     (if c = CHR ''c'' then key_options ftok bad es (ko\<lparr>kflags := kflags ko OR IPC_CREAT\<rparr>)
      else if c = CHR ''f'' then
        (case ftok optarg of
           Inl e \<Rightarrow> Inl (ErrExit ''ftok'' e)
         | Inr key \<Rightarrow> key_options ftok bad es (ko\<lparr>keyv := key, numKeyFlags := numKeyFlags ko + 1\<rparr>))
      else if c = CHR ''k'' then
        (case scan_long optarg of
           None \<Rightarrow> Inl (CmdLineErr ''-k option requires a numeric argument'')
         | Some lkey \<Rightarrow>
             key_options ftok bad es (ko\<lparr>keyv := to_signed 32 lkey, numKeyFlags := numKeyFlags ko + 1\<rparr>))
      else if c = CHR ''p'' then
        key_options ftok bad es (ko\<lparr>keyv := IPC_PRIVATE, numKeyFlags := numKeyFlags ko + 1\<rparr>)
      else if c = CHR ''x'' then key_options ftok bad es (ko\<lparr>kflags := kflags ko OR IPC_EXCL\<rparr>)
      else Inl (UsageErr bad))"

abbreviation (input) no_key :: key_opts where "no_key \<equiv> \<lparr>kflags = 0, keyv = 0, numKeyFlags = 0\<rparr>"

definition octal_perms :: "string list \<Rightarrow> gn_exit + int" where
  "octal_perms ops = (case ops of [] \<Rightarrow> Inr 384 | p # _ \<Rightarrow> getInt (Some p) GN_BASE_8 (Some ''octal-perms''))"

text \<open>What the programs print is the identifier.\<close>

definition print_id :: "string \<Rightarrow> int result \<times> 'o ipcs \<Rightarrow> (failure + string) \<times> 'o ipcs" where
  "print_id call r =
     (case r of (Inl e, t) \<Rightarrow> (Inl (ErrExit call e), t) | (Inr i, t) \<Rightarrow> (Inr (show_int i @ [LF]), t))"

definition svmsg_create_main ::
    "(string \<Rightarrow> int result) \<Rightarrow> int \<Rightarrow> string list \<Rightarrow> msgq ipcs \<Rightarrow> (failure + string) \<times> msgq ipcs" where
  "svmsg_create_main ftok nid argv t =
     (case getopt key_spec (tl argv) of (es, ops) \<Rightarrow>
        case key_options ftok ''Bad option'' es no_key of
          Inl f \<Rightarrow> (Inl f, t)
        | Inr ko \<Rightarrow>
            if numKeyFlags ko \<noteq> 1
            then (Inl (UsageErr ''Exactly one of the options -f, -k, or -p must be supplied''), t)
            else (case octal_perms ops of
                    Inl (GnFail m) \<Rightarrow> (Inl (GnFailure m), t)
                  | Inr perms \<Rightarrow>
                      print_id ''msgget''
                        (ipc_get make_queue (\<lambda>_ _. True) nid (keyv ko) 0 (kflags ko OR word_of_int perms) t)))"

definition svsem_create_main ::
    "(string \<Rightarrow> int result) \<Rightarrow> int \<Rightarrow> string list \<Rightarrow> int list ipcs \<Rightarrow> (failure + string) \<times> int list ipcs" where
  "svsem_create_main ftok nid argv t =
     (case getopt key_spec (tl argv) of (es, ops) \<Rightarrow>
        case key_options ftok [] es no_key of
          Inl f \<Rightarrow> (Inl f, t)
        | Inr ko \<Rightarrow>
            if numKeyFlags ko \<noteq> 1
            then (Inl (UsageErr ''Exactly one of the options -f, -k, or -p must be supplied''), t)
            else (case ops of
                    [] \<Rightarrow> (Inl (UsageErr ''Must specify number of semaphores''), t)
                  | n # ps \<Rightarrow>
                      (case getInt (Some n) 0 (Some ''num-sems'') of
                         Inl (GnFail m) \<Rightarrow> (Inl (GnFailure m), t)
                       | Inr numSems \<Rightarrow>
                           (case octal_perms ps of
                              Inl (GnFail m) \<Rightarrow> (Inl (GnFailure m), t)
                            | Inr perms \<Rightarrow>
                                print_id ''semget''
                                  (ipc_get make_set set_fits nid (keyv ko) numSems (kflags ko OR word_of_int perms) t)))))"

text \<open>\<open>segSize\<close> is an \<open>int\<close>: the number that \<open>getLong\<close> returns is converted.\<close>

definition svshm_create_main ::
    "(string \<Rightarrow> int result) \<Rightarrow> int \<Rightarrow> string list \<Rightarrow> int ipcs \<Rightarrow> (failure + string) \<times> int ipcs" where
  "svshm_create_main ftok nid argv t =
     (case getopt key_spec (tl argv) of (es, ops) \<Rightarrow>
        case key_options ftok [] es no_key of
          Inl f \<Rightarrow> (Inl f, t)
        | Inr ko \<Rightarrow>
            if numKeyFlags ko \<noteq> 1
            then (Inl (UsageErr ''Exactly one of the options -f, -k, or -p must be supplied''), t)
            else (case ops of
                    [] \<Rightarrow> (Inl (UsageErr ''Size of segment must be specified''), t)
                  | n # ps \<Rightarrow>
                      (case getLong (Some n) GN_ANY_BASE (Some ''seg-size'') of
                         Inl (GnFail m) \<Rightarrow> (Inl (GnFailure m), t)
                       | Inr l \<Rightarrow>
                           (let segSize = to_signed 32 l
                            in case octal_perms ps of
                                 Inl (GnFail m) \<Rightarrow> (Inl (GnFailure m), t)
                               | Inr perms \<Rightarrow>
                                   print_id ''shmget''
                                     (ipc_get make_segment segment_fits nid (keyv ko) segSize
                                        (kflags ko OR word_of_int perms) t)))))"

text \<open>The loop of \<open>svmsg_rm\<close>, \<open>svsem_rm\<close> and \<open>svshm_rm\<close>.\<close>

fun rm_all :: "string \<Rightarrow> string \<Rightarrow> string list \<Rightarrow> 'o ipcs \<Rightarrow> failure option \<times> 'o ipcs" where
  "rm_all nm call [] t = (None, t)"
| "rm_all nm call (a # as) t =
     (case getInt (Some a) 0 (Some nm) of
        Inl (GnFail m) \<Rightarrow> (Some (GnFailure m), t)
      | Inr i \<Rightarrow>
          (case ipc_rm i t of
             (Inl e, t1) \<Rightarrow> (Some (ErrExit (call @ '' '' @ a) e), t1)
           | (Inr _, t1) \<Rightarrow> rm_all nm call as t1))"

definition svmsg_rm_main :: "string list \<Rightarrow> msgq ipcs \<Rightarrow> failure option \<times> msgq ipcs" where
  "svmsg_rm_main argv t =
     (if 1 < length argv \<and> argv ! 1 = ''--help'' then (Some (UsageErr ''%s [msqid...]''), t)
      else rm_all ''msqid'' ''msgctl'' (tl argv) t)"

definition svsem_rm_main :: "string list \<Rightarrow> int list ipcs \<Rightarrow> failure option \<times> int list ipcs" where
  "svsem_rm_main argv t =
     (if 1 < length argv \<and> argv ! 1 = ''--help'' then (Some (UsageErr ''%s [semid...]''), t)
      else rm_all ''semid'' ''semctl'' (tl argv) t)"

definition svshm_rm_main :: "string list \<Rightarrow> int ipcs \<Rightarrow> failure option \<times> int ipcs" where
  "svshm_rm_main argv t =
     (if 1 < length argv \<and> argv ! 1 = ''--help'' then (Some (UsageErr ''%s [shmid...]''), t)
      else rm_all ''shmid'' ''shmctl'' (tl argv) t)"

section \<open>svsem\_setall\<close>

text \<open>The values go through an array of \<open>unsigned short\<close>; \<open>SETALL\<close> refuses a value above 32767.\<close>

fun setall_values :: "string list \<Rightarrow> gn_exit + int list" where
  "setall_values [] = Inr []"
| "setall_values (a # as) =
     (case getInt (Some a) 0 (Some ''val'') of
        Inl g \<Rightarrow> Inl g
      | Inr v \<Rightarrow> (case setall_values as of Inl g \<Rightarrow> Inl g | Inr vs \<Rightarrow> Inr (to_unsigned 16 v # vs)))"

definition svsem_setall_main ::
    "bool \<Rightarrow> string \<Rightarrow> string list \<Rightarrow> int list ipcs \<Rightarrow> (failure + string) \<times> int list ipcs" where
  "svsem_setall_main calloc_ok pid argv t =
     (if length argv < 3 \<or> argv ! 1 = ''--help'' then (Inl (UsageErr ''%s semid val...''), t)
      else case getInt (Some (argv ! 1)) 0 (Some ''semid'') of
        Inl (GnFail m) \<Rightarrow> (Inl (GnFailure m), t)
      | Inr semid \<Rightarrow>
          (case map_of t semid of
             None \<Rightarrow> (Inl (ErrExit ''semctl'' EINVAL), t)
           | Some (key, x) \<Rightarrow>
               if length x \<noteq> length argv - 2
               then (Inl (CmdLineErr (''Set contains '' @ show_int (int (length x)) @ '' semaphores, but '' @
                       show_int (int (length argv - 2)) @ '' values were supplied'')), t)
               else if \<not> calloc_ok then (Inl (ErrExit ''calloc'' ENOMEM), t)
               else (case setall_values (drop 2 argv) of
                       Inl (GnFail m) \<Rightarrow> (Inl (GnFailure m), t)
                     | Inr vs \<Rightarrow>
                         if \<exists>v\<in>set vs. 32767 < v then (Inl (ErrExit ''semctl-SETALL'' ERANGE), t)
                         else (Inr (''Semaphore values changed (PID='' @ pid @ '')'' @ [LF]), ipc_set semid vs t))))"

section \<open>svmsg\_send and svmsg\_receive\<close>

datatype 'a outcome = Sleeps | OutOfBounds | Ends 'a

abbreviation (input) MAX_MTEXT :: nat where "MAX_MTEXT \<equiv> 1024"

definition sys_msgsnd :: "int \<Rightarrow> int \<Rightarrow> byte list \<Rightarrow> 32 word \<Rightarrow> msgq ipcs \<Rightarrow> (unit result \<times> msgq ipcs) outcome" where
  "sys_msgsnd i mtype body flg t =
     (case map_of t i of
        None \<Rightarrow> Ends (Inl EINVAL, t)
      | Some (key, q) \<Rightarrow>
          if mtype < 1 \<or> 8192 < length body then Ends (Inl EINVAL, t)
          else if length body + (\<Sum>m\<leftarrow>messages q. length (snd m)) \<le> qbytes q \<and> length (messages q) + 1 \<le> qbytes q
          then Ends (Inr (), ipc_set i (q\<lparr>messages := messages q @ [(mtype, body)]\<rparr>) t)
          else if flg AND IPC_NOWAIT \<noteq> 0 then Ends (Inl EAGAIN, t) else Sleeps)"

text \<open>Which message \<open>msgrcv\<close> takes: the first one with \<open>wanted\<close>.\<close>

definition wanted :: "int \<Rightarrow> bool \<Rightarrow> (int \<times> byte list) list \<Rightarrow> int \<times> byte list \<Rightarrow> bool" where
  "wanted typ except ms m \<longleftrightarrow>
     (if typ = 0 then True
      else if typ < 0 then fst m \<le> - typ \<and> (\<forall>m'\<in>set ms. fst m' \<le> - typ \<longrightarrow> fst m \<le> fst m')
      else if except then fst m \<noteq> typ else fst m = typ)"

definition sys_msgrcv ::
    "int \<Rightarrow> int \<Rightarrow> int \<Rightarrow> 32 word \<Rightarrow> msgq ipcs \<Rightarrow> ((int \<times> byte list) result \<times> msgq ipcs) outcome" where
  "sys_msgrcv i maxb typ flg t =
     (if i < 0 \<or> maxb < 0 then Ends (Inl EINVAL, t)
      else case map_of t i of
        None \<Rightarrow> Ends (Inl EINVAL, t)
      | Some (key, q) \<Rightarrow>
          (case List.extract (wanted typ (flg AND MSG_EXCEPT \<noteq> 0) (messages q)) (messages q) of
             None \<Rightarrow> if flg AND IPC_NOWAIT \<noteq> 0 then Ends (Inl ENOMSG, t) else Sleeps
           | Some (ys, (ty, body), zs) \<Rightarrow>
               if maxb < int (length body) \<and> flg AND MSG_NOERROR = 0 then Ends (Inl E2BIG, t)
               else Ends (Inr (ty, take (nat maxb) body), ipc_set i (q\<lparr>messages := ys @ zs\<rparr>) t)))"

definition svmsg_send_main :: "string list \<Rightarrow> msgq ipcs \<Rightarrow> (failure option \<times> msgq ipcs) outcome" where
  "svmsg_send_main argv t =
     (case getopt (\<lambda>c. if c = CHR ''n'' then Some False else None) (tl argv) of (es, ops) \<Rightarrow>
        if \<exists>e\<in>set es. fst e \<noteq> CHR ''n'' then Ends (Some (UsageErr []), t)
        else if length ops < 2 \<or> 3 < length ops then Ends (Some (UsageErr ''Wrong number of arguments''), t)
        else (case getInt (Some (ops ! 0)) 0 (Some ''msqid'') of
                Inl (GnFail m) \<Rightarrow> Ends (Some (GnFailure m), t)
              | Inr msqid \<Rightarrow>
                  (case getInt (Some (ops ! 1)) 0 (Some ''msg-type'') of
                     Inl (GnFail m) \<Rightarrow> Ends (Some (GnFailure m), t)
                   | Inr mtype \<Rightarrow>
                       (let body = (if 2 < length ops then ops ! 2 @ [NUL] else [])
                        in if MAX_MTEXT < length body
                           then Ends (Some (CmdLineErr ''msg-text too long (max: 1024 characters)''), t)
                           else (case sys_msgsnd msqid mtype body (if es = [] then 0 else IPC_NOWAIT) t of
                                   Sleeps \<Rightarrow> Sleeps | OutOfBounds \<Rightarrow> OutOfBounds
                                 | Ends (Inl e, t1) \<Rightarrow> Ends (Some (ErrExit ''msgsnd'' e), t1)
                                 | Ends (Inr _, t1) \<Rightarrow> Ends (None, t1))))))"

fun rcv_options :: "(char \<times> string) list \<Rightarrow> 32 word \<Rightarrow> int \<Rightarrow> (32 word \<times> int) option" where
  "rcv_options [] flg typ = Some (flg, typ)"
| "rcv_options ((c, optarg) # es) flg typ =
     (if c = CHR ''e'' then rcv_options es (flg OR MSG_NOERROR) typ
      else if c = CHR ''n'' then rcv_options es (flg OR IPC_NOWAIT) typ
      else if c = CHR ''t'' then rcv_options es flg (atoi optarg)
      else if c = CHR ''x'' then rcv_options es (flg OR MSG_EXCEPT) typ
      else None)"

definition rcv_spec :: "char \<Rightarrow> bool option" where
  "rcv_spec c = (if c \<in> set ''enx'' then Some False else if c = CHR ''t'' then Some True else None)"

text \<open>
  \<open>junk\<close> is what the buffer holds before the call. The kernel may write past it when the program passes a larger size than
  it has, and \<open>%s\<close> may read past it when it has no null byte.
\<close>

definition svmsg_receive_main ::
    "byte list \<Rightarrow> string list \<Rightarrow> msgq ipcs \<Rightarrow> ((failure + string) \<times> msgq ipcs) outcome" where
  "svmsg_receive_main junk argv t =
     (case getopt rcv_spec (tl argv) of (es, ops) \<Rightarrow>
        case rcv_options es 0 0 of
          None \<Rightarrow> Ends (Inl (UsageErr []), t)
        | Some (flg, typ) \<Rightarrow>
            if length ops < 1 \<or> 2 < length ops then Ends (Inl (UsageErr ''Wrong number of arguments''), t)
            else (case getInt (Some (ops ! 0)) 0 (Some ''msqid'') of
                    Inl (GnFail m) \<Rightarrow> Ends (Inl (GnFailure m), t)
                  | Inr msqid \<Rightarrow>
                      (case (if 1 < length ops then getInt (Some (ops ! 1)) 0 (Some ''max-bytes'') else Inr (int MAX_MTEXT)) of
                         Inl (GnFail m) \<Rightarrow> Ends (Inl (GnFailure m), t)
                       | Inr maxBytes \<Rightarrow>
                           (case sys_msgrcv msqid maxBytes typ flg t of
                              Sleeps \<Rightarrow> Sleeps | OutOfBounds \<Rightarrow> OutOfBounds
                            | Ends (Inl e, t1) \<Rightarrow> Ends (Inl (ErrExit ''msgrcv'' e), t1)
                            | Ends (Inr (ty, bs), t1) \<Rightarrow>
                                (let mtext = bs @ drop (length bs) junk;
                                     line = ''Received: type='' @ show_int ty @ ''; length='' @ show_int (int (length bs))
                                 in if MAX_MTEXT < length bs then OutOfBounds
                                    else if bs = [] then Ends (Inr (line @ [LF]), t1)
                                    else if NUL \<notin> set mtext then OutOfBounds
                                    else Ends (Inr (line @ ''; body='' @ takeWhile (\<lambda>c. c \<noteq> NUL) mtext @ [LF]), t1))))))"

section \<open>What the tools do\<close>

lemma print_id_wf:
  assumes "ipc_kind mk fits" "print_id call (ipc_get mk fits nid key n flg t) = (r, t')" "ipc_wf t" "nid \<notin> fst ` set t"
  shows "ipc_wf t' \<and> (\<forall>i. map_of t i \<noteq> None \<longrightarrow> map_of t' i = map_of t i) \<and>
    (case r of Inl f \<Rightarrow> t' = t | Inr s \<Rightarrow> \<exists>i x. s = show_int i @ [LF] \<and> map_of t' i = Some (key, x) \<and> fits n x)"
proof -
  obtain r' where g: "ipc_get mk fits nid key n flg t = (r', t')"
    and r: "r = (case r' of Inl e \<Rightarrow> Inl (ErrExit call e) | Inr i \<Rightarrow> Inr (show_int i @ [LF]))"
    using assms(2) by (auto simp: print_id_def split: prod.splits sum.splits)
  have "r' = Inl e \<Longrightarrow> t' = t" for e
    using g by (auto simp: ipc_get_def Let_def split: option.splits if_splits)
  then show ?thesis
    using ipc_kind.get_keeps_wf [OF assms(1) g assms(3,4)] r by (auto split: sum.splits)
qed

definition create_ok :: "'o ipcs \<Rightarrow> (failure + string) \<times> 'o ipcs \<Rightarrow> bool" where
  "create_ok t rt \<longleftrightarrow>
     (case rt of (r, t') \<Rightarrow>
        ipc_wf t' \<and> (\<forall>i. map_of t i \<noteq> None \<longrightarrow> map_of t' i = map_of t i) \<and>
        (case r of Inl f \<Rightarrow> t' = t | Inr s \<Rightarrow> \<exists>i. s = show_int i @ [LF] \<and> map_of t' i \<noteq> None))"

lemma create_ok_fail: "ipc_wf t \<Longrightarrow> create_ok t (Inl f, t)"
  by (simp add: create_ok_def)

lemma create_ok_get:
  assumes "ipc_kind mk fits" "ipc_wf t" "nid \<notin> fst ` set t"
  shows "create_ok t (print_id call (ipc_get mk fits nid key n flg t))"
  using print_id_wf [OF assms(1) _ assms(2,3), of call key n flg]
  by (cases "print_id call (ipc_get mk fits nid key n flg t)") (fastforce simp: create_ok_def split: sum.splits)

lemmas create_ok_intros = create_ok_fail create_ok_get

lemma creates_keep_wf:
  fixes t :: "msgq ipcs" and u :: "int list ipcs" and v :: "int ipcs"
  shows "\<lbrakk>ipc_wf t; nid \<notin> fst ` set t\<rbrakk> \<Longrightarrow> create_ok t (svmsg_create_main ftok nid argv t)"
    "\<lbrakk>ipc_wf u; nid \<notin> fst ` set u\<rbrakk> \<Longrightarrow> create_ok u (svsem_create_main ftok nid argv u)"
    "\<lbrakk>ipc_wf v; nid \<notin> fst ` set v\<rbrakk> \<Longrightarrow> create_ok v (svshm_create_main ftok nid argv v)"
  using create_ok_get [OF mq.ipc_kind_axioms, of t nid] create_ok_get [OF sset.ipc_kind_axioms, of u nid]
    create_ok_get [OF seg.ipc_kind_axioms, of v nid]
  by (auto simp: svmsg_create_main_def svsem_create_main_def svshm_create_main_def Let_def create_ok_fail
      split: prod.split sum.split gn_exit.split list.split)

lemma rm_all_removes:
  assumes "list_all2 (\<lambda>a i. getInt (Some a) 0 (Some nm) = Inr i) as is" "distinct is" "\<forall>i\<in>set is. map_of t i \<noteq> None"
  shows "rm_all nm call as t = (None, filter (\<lambda>(j, _). j \<notin> set is) t)"
  using assms
proof (induction arbitrary: t rule: list_all2_induct)
  case (Cons a as i js)
  have m: "map_of (filter (\<lambda>(j, _). j \<noteq> i) t) j = (if j = i then None else map_of t j)" for j
    by (induction t) auto
  have "rm_all nm call as (filter (\<lambda>(j, _). j \<noteq> i) t) = (None, filter (\<lambda>(j, _). j \<notin> set js) (filter (\<lambda>(j, _). j \<noteq> i) t))"
    using Cons.prems by (intro Cons.IH) (auto simp: m)
  moreover have "map_of t i \<noteq> None" using Cons.prems by simp
  ultimately show ?case
    using Cons.hyps by (auto simp: ipc_rm_def filter_filter intro!: filter_cong)
qed (simp add: case_prod_unfold)

text \<open>Creating by key finds the same object again, and refuses it when a new one is required.\<close>

lemmas tool_simps = getopt_operand getopt_flag getopt_arg getopt_Nil key_spec_def octal_perms_def

lemma svmsg_create_again:
  assumes "scan_long kt = Some l" "to_signed 32 l \<noteq> IPC_PRIVATE"
    and "svmsg_create_main ftok nid [p, ''-c'', ''-k'', kt] t = (Inr s, t')"
  shows "svmsg_create_main ftok nid' [p, ''-k'', kt] t' = (Inr s, t') \<and>
    svmsg_create_main ftok nid' [p, ''-c'', ''-x'', ''-k'', kt] t' = (Inl (ErrExit ''msgget'' EEXIST), t')"
proof -
  have "print_id ''msgget'' (ipc_get make_queue (\<lambda>_ _. True) nid (to_signed 32 l) 0 (512 OR 384) t) = (Inr s, t')"
    using assms(1,3) by (simp add: svmsg_create_main_def tool_simps del: getopt.simps(2))
  then obtain i where g: "ipc_get make_queue (\<lambda>_ _. True) nid (to_signed 32 l) 0 (512 OR 384) t = (Inr i, t')"
    and s: "s = show_int i @ [LF]"
    by (auto simp: print_id_def split: prod.splits sum.splits)
  have a: "ipc_get make_queue (\<lambda>_ _. True) nid' (to_signed 32 l) 0 384 t' = (Inr i, t')"
    by (rule mq.get_again [OF g assms(2)]) simp
  then have "find (\<lambda>(i, k, x). k = to_signed 32 l) t' \<noteq> None"
    using assms(2) by (cases "find (\<lambda>(i, k, x). k = to_signed 32 l) t'") (simp_all add: ipc_get_def Let_def)
  then have "ipc_get make_queue (\<lambda>_ _. True) nid' (to_signed 32 l) 0 (512 OR 1024 OR 384) t' = (Inl EEXIST, t')"
    using assms(2) by (auto simp: ipc_get_def Let_def)
  with a s assms(1) show ?thesis
    by (simp add: svmsg_create_main_def tool_simps print_id_def del: getopt.simps(2))
qed

lemma svshm_create_converts:
  assumes "operand st" "getLong (Some st) GN_ANY_BASE (Some ''seg-size'') = Inr l" "0 < to_signed 32 l"
  shows "svshm_create_main ftok nid [p, ''-p'', st] v = (Inr (show_int nid @ [LF]), v @ [(nid, IPC_PRIVATE, to_signed 32 l)])"
  using assms by (simp add: svshm_create_main_def tool_simps print_id_def ipc_get_def make_segment_def del: getopt.simps(2))

lemma setall_values_exact:
  assumes "list_all2 (\<lambda>a v. getInt (Some a) 0 (Some ''val'') = Inr v) as vs"
  shows "setall_values as = Inr (map (\<lambda>v. v mod 65536) vs)"
  using assms by (induction rule: list_all2_induct) (simp_all add: to_unsigned_def)

lemma svsem_setall_exact:
  assumes "operand it" "getInt (Some it) 0 (Some ''semid'') = Inr i" "map_of u i = Some (key, x)" "vs \<noteq> []" "it \<noteq> ''--help''"
    and "list_all2 (\<lambda>a v. getInt (Some a) 0 (Some ''val'') = Inr v) as vs" "length x = length vs"
  shows "svsem_setall_main True pid (p # it # as) u =
    (if \<forall>v\<in>set vs. v mod 65536 \<le> 32767
     then (Inr (''Semaphore values changed (PID='' @ pid @ '')'' @ [LF]), ipc_set i (map (\<lambda>v. v mod 65536) vs) u)
     else (Inl (ErrExit ''semctl-SETALL'' ERANGE), u))"
proof -
  have "length as = length vs" using assms(6) by (rule list_all2_lengthD)
  moreover from this have "as \<noteq> []" using assms(4) by auto
  ultimately show ?thesis
    using assms(2,3,5,7) setall_values_exact [OF assms(6)]
    by (auto simp: svsem_setall_main_def not_le Suc_le_eq)
qed

text \<open>Messages.\<close>

lemma map_of_ipc_set: "map_of (ipc_set i x t) j = (if j = i then map_option (\<lambda>(k, _). (k, x)) (map_of t j) else map_of t j)"
  by (induction t) (auto simp: ipc_set_def)

lemma ipc_set_set [simp]: "ipc_set i x (ipc_set i y t) = ipc_set i x t"
  by (simp add: ipc_set_def case_prod_unfold)

lemma ipc_set_same:
  assumes "map_of t i = Some (k, x)" "distinct (map fst t)"
  shows "ipc_set i x t = t"
proof -
  have "y = x" if "(i, j, y) \<in> set t" for j y
    using map_of_is_SomeI [OF assms(2) that] assms(1) by simp
  then show ?thesis unfolding ipc_set_def by (intro map_idI) auto
qed

lemma ipc_set_wf: "ipc_wf t \<Longrightarrow> ipc_wf (ipc_set i x t)"
  by (simp add: ipc_wf_def ipc_set_def case_prod_unfold comp_def)

definition room_for :: "nat \<Rightarrow> msgq \<Rightarrow> bool" where
  "room_for n q \<longleftrightarrow> n + (\<Sum>m\<leftarrow>messages q. length (snd m)) \<le> qbytes q \<and> length (messages q) + 1 \<le> qbytes q"

lemma svmsg_send_appends:
  assumes "operand it" "operand tt" "operand msg"
    and "getInt (Some it) 0 (Some ''msqid'') = Inr i" "getInt (Some tt) 0 (Some ''msg-type'') = Inr ty" "0 < ty"
    and "map_of t i = Some (key, q)" "length msg < MAX_MTEXT"
  shows "room_for (length msg + 1) q \<Longrightarrow> svmsg_send_main [p, it, tt, msg] t =
      Ends (None, ipc_set i (q\<lparr>messages := messages q @ [(ty, msg @ [NUL])]\<rparr>) t)"
    and "\<not> room_for (length msg + 1) q \<Longrightarrow> svmsg_send_main [p, it, tt, msg] t = Sleeps \<and>
      svmsg_send_main [p, ''-n'', it, tt, msg] t = Ends (Some (ErrExit ''msgsnd'' EAGAIN), t)"
  using assms by (auto simp: svmsg_send_main_def tool_simps sys_msgsnd_def room_for_def simp del: getopt.simps(2))

text \<open>\<open>msgrcv\<close> on a queue whose first wanted message is known.\<close>

lemma extract_at: "\<lbrakk>P x; \<forall>y\<in>set ys. \<not> P y\<rbrakk> \<Longrightarrow> List.extract P (ys @ x # zs) = Some (ys, x, zs)"
  by (simp add: extract_Some_iff)

lemma sys_msgrcv_first:
  assumes "0 \<le> i" "0 \<le> maxb" "map_of t i = Some (key, q)" "messages q = ys @ (ty, body) # zs"
    and "wanted typ (flg AND MSG_EXCEPT \<noteq> 0) (messages q) (ty, body)"
    and "\<forall>y\<in>set ys. \<not> wanted typ (flg AND MSG_EXCEPT \<noteq> 0) (messages q) y"
  shows "sys_msgrcv i maxb typ flg t =
    (if maxb < int (length body) \<and> flg AND MSG_NOERROR = 0 then Ends (Inl E2BIG, t)
     else Ends (Inr (ty, take (nat maxb) body), ipc_set i (q\<lparr>messages := ys @ zs\<rparr>) t))"
  using assms extract_at [of "wanted typ (flg AND MSG_EXCEPT \<noteq> 0) (messages q)" "(ty, body)" ys zs]
  by (simp add: sys_msgrcv_def)

lemma sys_msgrcv_none:
  assumes "0 \<le> i" "0 \<le> maxb" "map_of t i = Some (key, q)"
    and "\<forall>y\<in>set (messages q). \<not> wanted typ (flg AND MSG_EXCEPT \<noteq> 0) (messages q) y"
  shows "sys_msgrcv i maxb typ flg t = (if flg AND IPC_NOWAIT \<noteq> 0 then Ends (Inl ENOMSG, t) else Sleeps)"
  using assms extract_None_iff [of "wanted typ (flg AND MSG_EXCEPT \<noteq> 0) (messages q)" "messages q"]
  by (simp add: sys_msgrcv_def)

definition received_line :: "int \<Rightarrow> nat \<Rightarrow> string \<Rightarrow> string" where
  "received_line ty n body =
     ''Received: type='' @ show_int ty @ ''; length='' @ show_int (int n) @ ''; body='' @ body @ [LF]"

lemma takeWhile_text: "NUL \<notin> set msg \<Longrightarrow> takeWhile (\<lambda>c. c \<noteq> NUL) (msg @ NUL # r) = msg"
  by (subst takeWhile_append2) auto

lemma svmsg_receive_typed:
  assumes "operand it" "getInt (Some it) 0 (Some ''msqid'') = Inr i" "0 \<le> i" "map_of t i = Some (key, q)"
    and "messages q = ys @ (ty, msg @ [NUL]) # zs" "NUL \<notin> set msg" "length msg < MAX_MTEXT" "length junk = MAX_MTEXT"
    and "wanted (atoi tt) False (messages q) (ty, msg @ [NUL])" "\<forall>y\<in>set ys. \<not> wanted (atoi tt) False (messages q) y"
  shows "svmsg_receive_main junk [p, ''-t'', tt, it] t =
    Ends (Inr (received_line ty (length msg + 1) msg), ipc_set i (q\<lparr>messages := ys @ zs\<rparr>) t)"
  using assms(1,2,6-8) sys_msgrcv_first [of i 1024 t key q ys ty "msg @ [NUL]" zs "atoi tt" 0] assms(3-5,9,10)
  by (auto simp: svmsg_receive_main_def tool_simps rcv_spec_def received_line_def takeWhile_text Let_def
      simp del: getopt.simps(2))

text \<open>A message cut short by \<open>-e\<close> has no null byte: what was in the buffer behind it is printed as well.\<close>

lemma svmsg_receive_truncated:
  assumes "operand it" "getInt (Some it) 0 (Some ''msqid'') = Inr i" "0 \<le> i" "map_of t i = Some (key, q)"
    and "operand nt" "getInt (Some nt) 0 (Some ''max-bytes'') = Inr (int n)" "0 < n" "n \<le> length msg"
    and "messages q = (ty, msg @ [NUL]) # zs" "NUL \<notin> set msg" "length msg < MAX_MTEXT" "length junk = MAX_MTEXT"
    and "NUL \<in> set (drop n junk)"
  shows "svmsg_receive_main junk [p, ''-e'', it, nt] t =
    Ends (Inr (received_line ty n (take n msg @ takeWhile (\<lambda>c. c \<noteq> NUL) (drop n junk))), ipc_set i (q\<lparr>messages := zs\<rparr>) t)"
proof -
  have "sys_msgrcv i (int n) 0 4096 t = Ends (Inr (ty, take n msg), ipc_set i (q\<lparr>messages := zs\<rparr>) t)"
    using sys_msgrcv_first [of i "int n" t key q "[]" ty "msg @ [NUL]" zs 0 4096] assms(3,4,8,9) by (simp add: wanted_def)
  moreover have "takeWhile (\<lambda>c. c \<noteq> NUL) (take n msg @ drop n junk) = take n msg @ takeWhile (\<lambda>c. c \<noteq> NUL) (drop n junk)"
    using assms(10) by (intro takeWhile_append2) (auto dest: in_set_takeD)
  moreover have "min (length msg) n = n" "take n msg \<noteq> []" "\<not> MAX_MTEXT < n" using assms(7,8,11) by auto
  ultimately show ?thesis
    using assms(1,2,5,6,13)
    by (simp add: svmsg_receive_main_def tool_simps rcv_spec_def received_line_def Let_def del: getopt.simps(2))
qed

lemma svmsg_round_trip:
  assumes "ipc_wf t" "operand it" "getInt (Some it) 0 (Some ''msqid'') = Inr i" "0 \<le> i" "map_of t i = Some (key, q)"
    and "operand tt" "getInt (Some tt) 0 (Some ''msg-type'') = Inr ty" "atoi tt = ty" "0 < ty"
    and "operand msg" "NUL \<notin> set msg" "length msg < MAX_MTEXT" "room_for (length msg + 1) q" "length junk = MAX_MTEXT"
    and "\<forall>m\<in>set (messages q). fst m \<noteq> ty"
  shows "\<exists>t1. svmsg_send_main [p, it, tt, msg] t = Ends (None, t1) \<and> ipc_wf t1 \<and>
    svmsg_receive_main junk [p, ''-t'', tt, it] t1 = Ends (Inr (received_line ty (length msg + 1) msg), t)"
proof -
  let ?q = "q\<lparr>messages := messages q @ [(ty, msg @ [NUL])]\<rparr>"
  have "svmsg_send_main [p, it, tt, msg] t = Ends (None, ipc_set i ?q t)"
    by (rule svmsg_send_appends(1) [OF assms(2,6,10,3,7,9,5,12,13)])
  moreover have "svmsg_receive_main junk [p, ''-t'', tt, it] (ipc_set i ?q t) =
      Ends (Inr (received_line ty (length msg + 1) msg), ipc_set i (?q\<lparr>messages := messages q @ []\<rparr>) (ipc_set i ?q t))"
    using assms(5,8,9,15)
    by (intro svmsg_receive_typed [OF assms(2-4) _ _ assms(11,12,14)]) (auto simp: map_of_ipc_set wanted_def)
  moreover have "ipc_set i q t = t"
    using ipc_set_same [OF assms(5)] assms(1) by (simp add: ipc_wf_def)
  ultimately show ?thesis using ipc_set_wf [OF assms(1)] by auto
qed



end
