(* ===== verification/PosixIpc.thy ===== *)
theory PosixIpc
  imports IpcTools "HOL-Library.Multiset"
begin

text \<open>
  The command-line tools for POSIX message queues, semaphores and shared memory: the programs \<open>pmsg_*\<close>, \<open>psem_*\<close> (but
  psem_timedwait, whose content is a time) and \<open>pshm_*\<close>. The objects of one kind are a map from names; the interface
  \<open>named_kind\<close> says what a new object is like. \<open>bad nm\<close> is the error for a name that the system refuses.
\<close>

section \<open>Objects and names\<close>

type_synonym 'o named = "string \<rightharpoonup> 'o"
type_synonym names = "string \<Rightarrow> errno option"

text \<open>\<open>mq_open\<close>, \<open>sem_open\<close> and \<open>shm_open\<close>; \<open>new\<close> is the object that they create.\<close>

definition posix_open :: "names \<Rightarrow> bool \<Rightarrow> bool \<Rightarrow> 'o result \<Rightarrow> string \<Rightarrow> 'o named \<Rightarrow> 'o result \<times> 'o named" where
  "posix_open bad creat excl new nm t =
     (case bad nm of
        Some e \<Rightarrow> (Inl e, t)
      | None \<Rightarrow>
          (case t nm of
             Some x \<Rightarrow> if creat \<and> excl then (Inl EEXIST, t) else (Inr x, t)
           | None \<Rightarrow>
               if \<not> creat then (Inl ENOENT, t)
               else (case new of Inl e \<Rightarrow> (Inl e, t) | Inr x \<Rightarrow> (Inr x, t(nm \<mapsto> x)))))"

definition posix_unlink :: "names \<Rightarrow> string \<Rightarrow> 'o named \<Rightarrow> unit result \<times> 'o named" where
  "posix_unlink bad nm t =
     (case bad nm of
        Some e \<Rightarrow> (Inl e, t)
      | None \<Rightarrow> if t nm = None then (Inl ENOENT, t) else (Inr (), t(nm := None)))"

definition all_objects :: "('o \<Rightarrow> bool) \<Rightarrow> 'o named \<Rightarrow> bool" where
  "all_objects ok t \<longleftrightarrow> (\<forall>nm x. t nm = Some x \<longrightarrow> ok x)"

lemma all_objects_upd: "\<lbrakk>all_objects ok t; ok x\<rbrakk> \<Longrightarrow> all_objects ok (t(nm \<mapsto> x))"
  by (simp add: all_objects_def)

lemma all_objects_unlink: "all_objects ok t \<Longrightarrow> all_objects ok (snd (posix_unlink bad nm t))"
  by (simp add: posix_unlink_def all_objects_def split: option.split)

text \<open>The kinds: what a new object is, from what is asked for, and what every object keeps.\<close>

locale named_kind =
  fixes mk :: "'a \<Rightarrow> 'o result" and valid :: "'o \<Rightarrow> bool"
  assumes mk_valid: "mk a = Inr x \<Longrightarrow> valid x"
begin

lemma open_valid:
  assumes "posix_open bad creat excl (mk a) nm t = (r, t')" "all_objects valid t"
  shows "all_objects valid t' \<and> (\<forall>n. n \<noteq> nm \<or> t n \<noteq> None \<longrightarrow> t' n = t n) \<and> (\<forall>x. r = Inr x \<longrightarrow> t' nm = Some x \<and> valid x) \<and>
    (\<forall>e. r = Inl e \<longrightarrow> t' = t)"
  using assms mk_valid [of a]
  by (auto simp: posix_open_def all_objects_def split: option.splits if_splits sum.splits)

end

section \<open>Message queues\<close>

record pmq =
  maxmsg :: int
  msgsize :: int
  queued :: "(int \<times> byte list) list"

abbreviation (input) MQ_PRIO_MAX :: int where "MQ_PRIO_MAX \<equiv> 32768"

text \<open>\<open>lim\<close>: the limits of the system for the two attributes.\<close>

definition mk_queue :: "int \<times> int \<Rightarrow> (int \<times> int) option \<Rightarrow> pmq result" where
  "mk_queue lim attr =
     (case attr of
        None \<Rightarrow> Inr \<lparr>maxmsg = 10, msgsize = 8192, queued = []\<rparr>
      | Some (m, s) \<Rightarrow>
          if m \<le> 0 \<or> s \<le> 0 \<or> fst lim < m \<or> snd lim < s then Inl EINVAL
          else Inr \<lparr>maxmsg = m, msgsize = s, queued = []\<rparr>)"

definition queue_valid :: "pmq \<Rightarrow> bool" where
  "queue_valid q \<longleftrightarrow>
     0 < maxmsg q \<and> 0 < msgsize q \<and> int (length (queued q)) \<le> maxmsg q \<and> sorted (map (\<lambda>m. - fst m) (queued q)) \<and>
     (\<forall>m\<in>set (queued q). 0 \<le> fst m \<and> fst m < MQ_PRIO_MAX \<and> int (length (snd m)) \<le> msgsize q)"

interpretation pqueue: named_kind "mk_queue lim" queue_valid
  by unfold_locales (auto simp: mk_queue_def queue_valid_def split: option.splits if_splits)

definition mq_send :: "bool \<Rightarrow> int \<Rightarrow> byte list \<Rightarrow> pmq \<Rightarrow> (unit result \<times> pmq) outcome" where
  "mq_send nonblock prio body q =
     (if MQ_PRIO_MAX \<le> prio then Ends (Inl EINVAL, q)
      else if msgsize q < int (length body) then Ends (Inl EMSGSIZE, q)
      else if maxmsg q \<le> int (length (queued q)) then (if nonblock then Ends (Inl EAGAIN, q) else Sleeps)
      else Ends (Inr (), q\<lparr>queued := takeWhile (\<lambda>m. prio \<le> fst m) (queued q) @ (prio, body) #
                                      dropWhile (\<lambda>m. prio \<le> fst m) (queued q)\<rparr>))"

definition mq_receive :: "bool \<Rightarrow> pmq \<Rightarrow> ((int \<times> byte list) result \<times> pmq) outcome" where
  "mq_receive nonblock q =
     (case queued q of
        [] \<Rightarrow> if nonblock then Ends (Inl EAGAIN, q) else Sleeps
      | m # ms \<Rightarrow> Ends (Inr m, q\<lparr>queued := ms\<rparr>))"

record mq_opts =
  o_creat :: bool
  o_excl :: bool
  attr_set :: bool
  mq_maxmsg :: int
  mq_msgsize :: int

fun mq_options :: "(char \<times> string) list \<Rightarrow> mq_opts \<Rightarrow> mq_opts option" where
  "mq_options [] mo = Some mo"
| "mq_options ((c, optarg) # es) mo =
     (if c = CHR ''c'' then mq_options es (mo\<lparr>o_creat := True\<rparr>)
      else if c = CHR ''m'' then mq_options es (mo\<lparr>mq_maxmsg := atoi optarg, attr_set := True\<rparr>)
      else if c = CHR ''s'' then mq_options es (mo\<lparr>mq_msgsize := atoi optarg, attr_set := True\<rparr>)
      else if c = CHR ''x'' then mq_options es (mo\<lparr>o_excl := True\<rparr>)
      else None)"

definition mq_spec :: "char \<Rightarrow> bool option" where
  "mq_spec c = (if c \<in> set ''cx'' then Some False else if c \<in> set ''ms'' then Some True else None)"

definition pmsg_create_main :: "names \<Rightarrow> int \<times> int \<Rightarrow> string list \<Rightarrow> pmq named \<Rightarrow> failure option \<times> pmq named" where
  "pmsg_create_main bad lim argv t =
     (case getopt mq_spec (tl argv) of (es, ops) \<Rightarrow>
        case mq_options es \<lparr>o_creat = False, o_excl = False, attr_set = False, mq_maxmsg = 50, mq_msgsize = 2048\<rparr> of
          None \<Rightarrow> (Some (UsageErr []), t)
        | Some mo \<Rightarrow>
            (case ops of
               [] \<Rightarrow> (Some (UsageErr []), t)
             | nm # ps \<Rightarrow>
                 (case octal_perms ps of
                    Inl (GnFail m) \<Rightarrow> (Some (GnFailure m), t)
                  | Inr perms \<Rightarrow>
                      (case posix_open bad (o_creat mo) (o_excl mo)
                              (mk_queue lim (if attr_set mo then Some (mq_maxmsg mo, mq_msgsize mo) else None)) nm t of
                         (Inl e, t1) \<Rightarrow> (Some (ErrExit ''mq_open'' e), t1)
                       | (Inr _, t1) \<Rightarrow> (None, t1)))))"

abbreviation (input) n_spec :: "char \<Rightarrow> bool option" where "n_spec c \<equiv> if c = CHR ''n'' then Some False else None"

text \<open>Without \<open>O_CREAT\<close> nothing is created: the object that \<open>mq_open\<close> would create does not matter.\<close>

definition open_existing :: "names \<Rightarrow> string \<Rightarrow> 'o named \<Rightarrow> 'o result" where
  "open_existing bad nm t = fst (posix_open bad False False (Inl ENOENT) nm t)"

definition pmsg_send_main :: "names \<Rightarrow> string list \<Rightarrow> pmq named \<Rightarrow> (failure option \<times> pmq named) outcome" where
  "pmsg_send_main bad argv t =
     (case getopt (\<lambda>c. n_spec c) (tl argv) of (es, ops) \<Rightarrow>
        if \<exists>e\<in>set es. fst e \<noteq> CHR ''n'' then Ends (Some (UsageErr []), t)
        else if length ops < 2 then Ends (Some (UsageErr []), t)
        else (case open_existing bad (ops ! 0) t of
                Inl e \<Rightarrow> Ends (Some (ErrExit ''mq_open'' e), t)
              | Inr q \<Rightarrow>
                  (let prio = (if 2 < length ops then to_unsigned 32 (atoi (ops ! 2)) else 0)
                   in case mq_send (es \<noteq> []) prio (ops ! 1) q of
                        Sleeps \<Rightarrow> Sleeps | OutOfBounds \<Rightarrow> OutOfBounds
                      | Ends (Inl e, q1) \<Rightarrow> Ends (Some (ErrExit ''mq_send'' e), t(ops ! 0 \<mapsto> q1))
                      | Ends (Inr _, q1) \<Rightarrow> Ends (None, t(ops ! 0 \<mapsto> q1)))))"

text \<open>
  What appears on standard output: the line of \<open>printf\<close> is in a buffer that is written at once on a terminal (\<open>tty\<close>), else
  when the program ends; the message is written directly.
\<close>

definition pmsg_receive_main ::
    "names \<Rightarrow> bool \<Rightarrow> bool \<Rightarrow> errno option \<Rightarrow> string list \<Rightarrow> pmq named \<Rightarrow> (failure option \<times> string \<times> pmq named) outcome" where
  "pmsg_receive_main bad malloc_ok tty werr argv t =
     (case getopt (\<lambda>c. n_spec c) (tl argv) of (es, ops) \<Rightarrow>
        if \<exists>e\<in>set es. fst e \<noteq> CHR ''n'' then Ends (Some (UsageErr []), [], t)
        else if ops = [] then Ends (Some (UsageErr []), [], t)
        else (case open_existing bad (ops ! 0) t of
                Inl e \<Rightarrow> Ends (Some (ErrExit ''mq_open'' e), [], t)
              | Inr q \<Rightarrow>
                  if \<not> malloc_ok then Ends (Some (ErrExit ''malloc'' ENOMEM), [], t)
                  else (case mq_receive (es \<noteq> []) q of
                          Sleeps \<Rightarrow> Sleeps | OutOfBounds \<Rightarrow> OutOfBounds
                        | Ends (Inl e, q1) \<Rightarrow> Ends (Some (ErrExit ''mq_receive'' e), [], t(ops ! 0 \<mapsto> q1))
                        | Ends (Inr (prio, body), q1) \<Rightarrow>
                            (let line = ''Read '' @ show_int (int (length body)) @ '' bytes; priority = '' @ show_int prio @ [LF]
                             in case werr of
                                  Some e \<Rightarrow> Ends (Some (ErrExit ''write'' e), line, t(ops ! 0 \<mapsto> q1))
                                | None \<Rightarrow> Ends (None, if tty then line @ body @ [LF] else body @ [LF] @ line, t(ops ! 0 \<mapsto> q1))))))"

definition pmsg_getattr_main :: "names \<Rightarrow> string list \<Rightarrow> pmq named \<Rightarrow> failure + string" where
  "pmsg_getattr_main bad argv t =
     (if length argv \<noteq> 2 \<or> argv ! 1 = ''--help'' then Inl (UsageErr ''%s mq-name'')
      else case open_existing bad (argv ! 1) t of
             Inl e \<Rightarrow> Inl (ErrExit ''mq_open'' e)
           | Inr q \<Rightarrow>
               Inr (''Maximum # of messages on queue:   '' @ show_int (maxmsg q) @ [LF] @
                    ''Maximum message size:             '' @ show_int (msgsize q) @ [LF] @
                    ''# of messages currently on queue: '' @ show_int (int (length (queued q))) @ [LF]))"

definition unlink_prog :: "names \<Rightarrow> string \<Rightarrow> string \<Rightarrow> string list \<Rightarrow> 'o named \<Rightarrow> failure option \<times> 'o named" where
  "unlink_prog bad usage call argv t =
     (if length argv \<noteq> 2 \<or> argv ! 1 = ''--help'' then (Some (UsageErr usage), t)
      else case posix_unlink bad (argv ! 1) t of
             (Inl e, t1) \<Rightarrow> (Some (ErrExit call e), t1) | (Inr _, t1) \<Rightarrow> (None, t1))"

definition pmsg_unlink_main :: "names \<Rightarrow> string list \<Rightarrow> pmq named \<Rightarrow> failure option \<times> pmq named" where
  "pmsg_unlink_main bad argv t = unlink_prog bad ''%s mq-name'' ''mq_unlink'' argv t"

section \<open>Semaphores\<close>

definition mk_sem :: "int \<Rightarrow> int result" where
  "mk_sem v = (if to_unsigned 32 v \<le> INT_MAX then Inr (to_unsigned 32 v) else Inl EINVAL)"

definition sem_ok :: "int \<Rightarrow> bool" where
  "sem_ok v \<longleftrightarrow> 0 \<le> v \<and> v \<le> INT_MAX"

interpretation psem: named_kind mk_sem sem_ok
  by unfold_locales (auto simp: mk_sem_def sem_ok_def to_unsigned_def split: if_splits)

definition cx_spec :: "char \<Rightarrow> bool option" where
  "cx_spec c = (if c \<in> set ''cx'' then Some False else None)"

definition psem_create_main :: "names \<Rightarrow> string list \<Rightarrow> int named \<Rightarrow> failure option \<times> int named" where
  "psem_create_main bad argv t =
     (case getopt cx_spec (tl argv) of (es, ops) \<Rightarrow>
        if \<exists>e\<in>set es. fst e \<notin> set ''cx'' then (Some (UsageErr []), t)
        else (case ops of
                [] \<Rightarrow> (Some (UsageErr []), t)
              | nm # ps \<Rightarrow>
                  (case octal_perms ps of
                     Inl (GnFail m) \<Rightarrow> (Some (GnFailure m), t)
                   | Inr perms \<Rightarrow>
                       (case (if length ops \<le> 2 then Inr 0 else getInt (Some (ops ! 2)) 0 (Some ''value'')) of
                          Inl (GnFail m) \<Rightarrow> (Some (GnFailure m), t)
                        | Inr v \<Rightarrow>
                            (case posix_open bad (CHR ''c'' \<in> fst ` set es) (CHR ''x'' \<in> fst ` set es) (mk_sem v) nm t of
                               (Inl e, t1) \<Rightarrow> (Some (ErrExit ''sem_open'' e), t1)
                             | (Inr _, t1) \<Rightarrow> (None, t1))))))"

definition psem_post_main :: "names \<Rightarrow> string list \<Rightarrow> int named \<Rightarrow> failure option \<times> int named" where
  "psem_post_main bad argv t =
     (if length argv \<noteq> 2 then (Some (UsageErr ''%s sem-name''), t)
      else case open_existing bad (argv ! 1) t of
             Inl e \<Rightarrow> (Some (ErrExit ''sem_open'' e), t)
           | Inr v \<Rightarrow> if v = INT_MAX then (Some (ErrExit ''sem_post'' EOVERFLOW), t) else (None, t(argv ! 1 \<mapsto> v + 1)))"

definition psem_wait_main :: "names \<Rightarrow> string \<Rightarrow> string list \<Rightarrow> int named \<Rightarrow> ((failure + string) \<times> int named) outcome" where
  "psem_wait_main bad pid argv t =
     (if length argv < 2 \<or> argv ! 1 = ''--help'' then Ends (Inl (UsageErr ''%s sem-name''), t)
      else case open_existing bad (argv ! 1) t of
             Inl e \<Rightarrow> Ends (Inl (ErrExit ''sem_open'' e), t)
           | Inr v \<Rightarrow> if 0 < v then Ends (Inr (pid @ '' sem_wait() succeeded'' @ [LF]), t(argv ! 1 \<mapsto> v - 1)) else Sleeps)"

definition psem_trywait_main :: "names \<Rightarrow> string list \<Rightarrow> int named \<Rightarrow> failure option \<times> int named" where
  "psem_trywait_main bad argv t =
     (if length argv < 2 \<or> argv ! 1 = ''--help'' then (Some (UsageErr ''%s sem-name''), t)
      else case open_existing bad (argv ! 1) t of
             Inl e \<Rightarrow> (Some (ErrExit ''sem_open'' e), t)
           | Inr v \<Rightarrow> if 0 < v then (None, t(argv ! 1 \<mapsto> v - 1)) else (Some (ErrExit ''sem_trywait'' EAGAIN), t))"

definition psem_getvalue_main :: "names \<Rightarrow> string list \<Rightarrow> int named \<Rightarrow> failure + string" where
  "psem_getvalue_main bad argv t =
     (if length argv \<noteq> 2 then Inl (UsageErr ''%s sem-name'')
      else case open_existing bad (argv ! 1) t of
             Inl e \<Rightarrow> Inl (ErrExit ''sem_open'' e) | Inr v \<Rightarrow> Inr (show_int v @ [LF]))"

definition psem_unlink_main :: "names \<Rightarrow> string list \<Rightarrow> int named \<Rightarrow> failure option \<times> int named" where
  "psem_unlink_main bad argv t = unlink_prog bad ''%s sem-name'' ''sem_unlink'' argv t"

section \<open>Shared memory\<close>

text \<open>\<open>ftruncate\<close>: a size beyond what the system has (\<open>big\<close>) is refused; new bytes are zero.\<close>

definition resize :: "int \<Rightarrow> int \<Rightarrow> byte list \<Rightarrow> byte list result" where
  "resize big n x =
     (if n < 0 then Inl EINVAL else if big < n then Inl EFBIG
      else Inr (take (nat n) x @ replicate (nat n - length x) NUL))"

interpretation pshm: named_kind "\<lambda>_ :: unit. Inr [] :: byte list result" "\<lambda>_. True"
  by unfold_locales simp

text \<open>\<open>mmap\<close> of length 0 fails; \<open>mm\<close> is another failure of it, if any.\<close>

definition mmap_error :: "errno option \<Rightarrow> int \<Rightarrow> errno option" where
  "mmap_error mm n = (if n = 0 then Some EINVAL else mm)"

definition pshm_create_main ::
    "names \<Rightarrow> int \<Rightarrow> errno option \<Rightarrow> string list \<Rightarrow> byte list named \<Rightarrow> failure option \<times> byte list named" where
  "pshm_create_main bad big mm argv t =
     (case getopt cx_spec (tl argv) of (es, ops) \<Rightarrow>
        if \<exists>e\<in>set es. fst e \<notin> set ''cx'' then (Some (UsageErr []), t)
        else if length ops < 2 then (Some (UsageErr []), t)
        else (case getLong (Some (ops ! 1)) GN_ANY_BASE (Some ''size'') of
                Inl (GnFail m) \<Rightarrow> (Some (GnFailure m), t)
              | Inr n \<Rightarrow>
                  (case (if length ops \<le> 2 then Inr 384 else getLong (Some (ops ! 2)) GN_BASE_8 (Some ''octal-perms'')) of
                     Inl (GnFail m) \<Rightarrow> (Some (GnFailure m), t)
                   | Inr perms \<Rightarrow>
                       (case posix_open bad (CHR ''c'' \<in> fst ` set es) (CHR ''x'' \<in> fst ` set es) (Inr []) (ops ! 0) t of
                          (Inl e, t1) \<Rightarrow> (Some (ErrExit ''shm_open'' e), t1)
                        | (Inr x, t1) \<Rightarrow>
                            (case resize big n x of
                               Inl e \<Rightarrow> (Some (ErrExit ''ftruncate'' e), t1)
                             | Inr y \<Rightarrow>
                                 (case mmap_error mm n of
                                    Some e \<Rightarrow> (Some (ErrExit ''mmap'' e), t1(ops ! 0 \<mapsto> y))
                                  | None \<Rightarrow> (None, t1(ops ! 0 \<mapsto> y))))))))"

definition pshm_write_main ::
    "names \<Rightarrow> int \<Rightarrow> errno option \<Rightarrow> errno option \<Rightarrow> string list \<Rightarrow> byte list named \<Rightarrow>
       failure option \<times> string \<times> byte list named" where
  "pshm_write_main bad big mm cl argv t =
     (if length argv \<noteq> 3 \<or> argv ! 1 = ''--help'' then (Some (UsageErr ''%s shm-name string''), [], t)
      else case open_existing bad (argv ! 1) t of
             Inl e \<Rightarrow> (Some (ErrExit ''shm_open'' e), [], t)
           | Inr x \<Rightarrow>
               (let n = int (length (argv ! 2)); l1 = ''Resized to '' @ show_int n @ '' bytes'' @ [LF];
                    l2 = ''copying '' @ show_int n @ '' bytes'' @ [LF]
                in case resize big n x of
                     Inl e \<Rightarrow> (Some (ErrExit ''ftruncate'' e), [], t)
                   | Inr y \<Rightarrow>
                       (let t1 = t(argv ! 1 \<mapsto> y)
                        in case mmap_error mm n of
                             Some e \<Rightarrow> (Some (ErrExit ''mmap'' e), l1, t1)
                           | None \<Rightarrow>
                               (case cl of
                                  Some e \<Rightarrow> (Some (ErrExit ''close'' e), l1, t1)
                                | None \<Rightarrow> (None, l1 @ l2, t1(argv ! 1 \<mapsto> argv ! 2 @ drop (length (argv ! 2)) y))))))"

definition pshm_read_main ::
    "names \<Rightarrow> errno option \<Rightarrow> errno option \<Rightarrow> string list \<Rightarrow> byte list named \<Rightarrow> failure + byte list" where
  "pshm_read_main bad mm cl argv t =
     (if length argv \<noteq> 2 \<or> argv ! 1 = ''--help'' then Inl (UsageErr ''%s shm-name'')
      else case open_existing bad (argv ! 1) t of
             Inl e \<Rightarrow> Inl (ErrExit ''shm_open'' e)
           | Inr x \<Rightarrow>
               (case mmap_error mm (int (length x)) of
                  Some e \<Rightarrow> Inl (ErrExit ''mmap'' e)
                | None \<Rightarrow> (case cl of Some e \<Rightarrow> Inl (ErrExit ''close'' e) | None \<Rightarrow> Inr (x @ [LF]))))"

definition pshm_unlink_main :: "names \<Rightarrow> string list \<Rightarrow> byte list named \<Rightarrow> failure option \<times> byte list named" where
  "pshm_unlink_main bad argv t = unlink_prog bad ''%s shm-name'' ''shm_unlink'' argv t"

section \<open>What the tools keep\<close>

lemma open_existing_cases:
  "open_existing bad nm t = (case bad nm of Some e \<Rightarrow> Inl e | None \<Rightarrow> (case t nm of None \<Rightarrow> Inl ENOENT | Some x \<Rightarrow> Inr x))"
  by (simp add: open_existing_def posix_open_def split: option.split)

lemma unlink_prog_valid: "all_objects ok t \<Longrightarrow> all_objects ok (snd (unlink_prog bad usage call argv t))"
  using all_objects_unlink [of ok t bad "argv ! 1"] by (auto simp: unlink_prog_def split: prod.split sum.split)

lemma pmsg_create_valid:
  assumes "all_objects queue_valid t"
  shows "all_objects queue_valid (snd (pmsg_create_main bad lim argv t))"
  using pqueue.open_valid [OF _ assms]
  by (auto simp: pmsg_create_main_def assms split: prod.split option.split list.split sum.split gn_exit.split)

lemma psem_create_valid:
  assumes "all_objects sem_ok t"
  shows "all_objects sem_ok (snd (psem_create_main bad argv t))"
  using psem.open_valid [OF _ assms]
  by (auto simp: psem_create_main_def assms split: prod.split list.split sum.split gn_exit.split)

text \<open>The place of a new message: behind those of the same or a higher priority.\<close>

definition mq_insert :: "int \<times> byte list \<Rightarrow> (int \<times> byte list) list \<Rightarrow> (int \<times> byte list) list" where
  "mq_insert m ms = takeWhile (\<lambda>x. fst m \<le> fst x) ms @ m # dropWhile (\<lambda>x. fst m \<le> fst x) ms"

lemma dropWhile_lower:
  assumes "sorted (map (\<lambda>m. - fst m) ms)" "x \<in> set (dropWhile (\<lambda>x. p \<le> fst x) ms)"
  shows "fst x < (p :: int)"
  using assms by (induction ms) (auto split: if_splits)

lemma mq_insert_sorted: "sorted (map (\<lambda>m. - fst m) ms) \<Longrightarrow> sorted (map (\<lambda>m. - fst m) (mq_insert m ms))"
proof (induction ms)
  case (Cons x ms)
  then show ?case by (fastforce simp: mq_insert_def dest: set_takeWhileD set_dropWhileD)
qed (simp add: mq_insert_def)

lemma mset_mq_insert [simp]: "mset (mq_insert m ms) = add_mset m (mset ms)"
  by (induction ms) (auto simp: mq_insert_def)

lemma set_mq_insert [simp]: "set (mq_insert m ms) = insert m (set ms)"
  by (metis mset_mq_insert set_mset_add_mset_insert set_mset_mset)

lemma length_mq_insert [simp]: "length (mq_insert m ms) = Suc (length ms)"
  by (metis mset_mq_insert size_add_mset size_mset)

lemma mq_insert_sort_key: "mq_insert m (sort_key (\<lambda>m. - fst m) ms) = sort_key (\<lambda>m. - fst m) (ms @ [m])"
proof (rule properties_for_sort_key [symmetric])
  let ?s = "sort_key (\<lambda>m. - fst m) ms"
  fix k assume "k \<in> set (mq_insert m ?s)"
  have stable: "filter (\<lambda>x. - fst k = - fst x) ?s = filter (\<lambda>x. - fst k = - fst x) ms"
    using sort_key_stable [of "\<lambda>m. - fst m" "- fst k" ms] by (simp add: eq_commute)
  have split: "filter P ?s = filter P (takeWhile (\<lambda>x. fst m \<le> fst x) ?s) @ filter P (dropWhile (\<lambda>x. fst m \<le> fst x) ?s)" for P
    by (metis filter_append takeWhile_dropWhile_id)
  show "filter (\<lambda>x. - fst k = - fst x) (mq_insert m ?s) = filter (\<lambda>x. - fst k = - fst x) (ms @ [m])"
  proof (cases "fst k = fst m")
    case True
    have "filter (\<lambda>x. fst m = fst x) (dropWhile (\<lambda>x. fst m \<le> fst x) ?s) = []"
      using dropWhile_lower [of ?s _ "fst m"] by (force simp: filter_empty_conv)
    with split [of "\<lambda>x. fst m = fst x"] show ?thesis using stable True by (simp add: mq_insert_def)
  next
    case False
    then show ?thesis
      using stable split [of "\<lambda>x. fst k = fst x"] by (simp add: mq_insert_def)
  qed
qed (simp_all add: mq_insert_sorted)

lemma mq_send_valid:
  assumes "queue_valid q" "mq_send nonblock prio body q = Ends (r, q')" "0 \<le> prio"
  shows "queue_valid q'"
proof (cases "q' = q")
  case False
  then have q': "q' = q\<lparr>queued := mq_insert (prio, body) (queued q)\<rparr>" and
    b: "prio < MQ_PRIO_MAX" "int (length body) \<le> msgsize q" "int (length (queued q)) < maxmsg q"
    using assms(2) by (auto simp: mq_send_def mq_insert_def split: if_splits)
  with assms(1,3) show ?thesis by (auto simp: queue_valid_def mq_insert_sorted)
qed (use assms(1) in simp)

lemma mq_receive_valid: "\<lbrakk>queue_valid q; mq_receive nonblock q = Ends (r, q')\<rbrakk> \<Longrightarrow> queue_valid q'"
  by (cases "queued q") (force simp: queue_valid_def mq_receive_def split: if_splits)+

lemma pmsg_send_valid:
  assumes "all_objects queue_valid t" "pmsg_send_main bad argv t = Ends (r, t')"
  shows "all_objects queue_valid t'"
proof (cases "t' = t")
  case False
  obtain es ops where o: "getopt (\<lambda>c. n_spec c) (tl argv) = (es, ops)" by fastforce
  from False assms(2) o obtain q nb prio r' q' where q: "t (ops ! 0) = Some q" "t' = t(ops ! 0 \<mapsto> q')" "0 \<le> prio"
    "mq_send nb prio (ops ! 1) q = Ends (r', q')"
    by (auto simp: pmsg_send_main_def open_existing_cases Let_def to_unsigned_def
        split: if_splits sum.splits option.splits outcome.splits; fastforce)
  have "queue_valid q" using assms(1) q(1) by (auto simp: all_objects_def)
  with mq_send_valid [OF _ q(4,3)] q(2) assms(1) show ?thesis by (simp add: all_objects_upd)
qed (use assms(1) in simp)

lemma pmsg_receive_valid:
  assumes "all_objects queue_valid t" "pmsg_receive_main bad m tty werr argv t = Ends (r, s, t')"
  shows "all_objects queue_valid t'"
proof (cases "t' = t")
  case False
  obtain es ops where o: "getopt (\<lambda>c. n_spec c) (tl argv) = (es, ops)" by fastforce
  from False assms(2) o obtain q nb r' q' where q: "t (ops ! 0) = Some q" "t' = t(ops ! 0 \<mapsto> q')"
    "mq_receive nb q = Ends (r', q')"
    by (auto simp: pmsg_receive_main_def open_existing_cases Let_def
        split: if_splits sum.splits option.splits outcome.splits; fastforce)
  have "queue_valid q" using assms(1) q(1) by (auto simp: all_objects_def)
  with mq_receive_valid [OF _ q(3)] q(2) assms(1) show ?thesis by (simp add: all_objects_upd)
qed (use assms(1) in simp)

lemma psem_progs_valid:
  assumes "all_objects sem_ok t"
  shows "all_objects sem_ok (snd (psem_post_main bad argv t))" "all_objects sem_ok (snd (psem_trywait_main bad argv t))"
    "psem_wait_main bad pid argv t = Ends (r, t') \<Longrightarrow> all_objects sem_ok t'"
  using assms
  by (auto simp: psem_post_main_def psem_trywait_main_def psem_wait_main_def open_existing_cases all_objects_def sem_ok_def
      split: if_splits sum.splits option.splits; force)+

section \<open>Runs of the tools\<close>

text \<open>Messages given as text and priority, sent one after the other; \<open>None\<close> when a program does not succeed.\<close>

fun send_all :: "names \<Rightarrow> string \<Rightarrow> (string \<times> string) list \<Rightarrow> pmq named \<Rightarrow> pmq named option" where
  "send_all bad nm [] t = Some t"
| "send_all bad nm ((body, prio) # ms) t =
     (case pmsg_send_main bad [''pmsg_send'', nm, body, prio] t of
        Ends (None, t1) \<Rightarrow> send_all bad nm ms t1 | _ \<Rightarrow> None)"

fun receive_all :: "names \<Rightarrow> bool \<Rightarrow> string \<Rightarrow> nat \<Rightarrow> pmq named \<Rightarrow> (string list \<times> pmq named) option" where
  "receive_all bad tty nm 0 t = Some ([], t)"
| "receive_all bad tty nm (Suc n) t =
     (case pmsg_receive_main bad True tty None [''pmsg_receive'', nm] t of
        Ends (None, s, t1) \<Rightarrow> map_option (map_prod (Cons s) id) (receive_all bad tty nm n t1) | _ \<Rightarrow> None)"

definition read_text :: "bool \<Rightarrow> int \<times> byte list \<Rightarrow> string" where
  "read_text tty m =
     (let line = ''Read '' @ show_int (int (length (snd m))) @ '' bytes; priority = '' @ show_int (fst m) @ [LF]
      in if tty then line @ snd m @ [LF] else snd m @ [LF] @ line)"

definition sendable :: "pmq \<Rightarrow> string \<times> string \<Rightarrow> bool" where
  "sendable q m \<longleftrightarrow>
     operand (fst m) \<and> operand (snd m) \<and> 0 \<le> atoi (snd m) \<and> atoi (snd m) < MQ_PRIO_MAX \<and> int (length (fst m)) \<le> msgsize q"

lemma send_all_sorts:
  assumes "bad nm = None" "operand nm" "t nm = Some (q\<lparr>queued := sort_key (\<lambda>m. - fst m) old\<rparr>)"
    and "\<forall>m\<in>set ms. sendable q m" "int (length old + length ms) \<le> maxmsg q"
  shows "send_all bad nm ms t =
    Some (t(nm \<mapsto> q\<lparr>queued := sort_key (\<lambda>m. - fst m) (old @ map (\<lambda>(b, p). (atoi p, b)) ms)\<rparr>))"
  using assms(3-5)
proof (induction ms arbitrary: t old)
  case Nil
  then show ?case by (simp add: fun_upd_idem)
next
  case (Cons m ms)
  obtain b p where m: "m = (b, p)" by fastforce
  let ?s = "sort_key (\<lambda>m. - fst m) old"
  have pm: "operand b" "operand p" "0 \<le> atoi p" "atoi p < MQ_PRIO_MAX" "int (length b) \<le> msgsize q"
    using Cons.prems(2) m by (auto simp: sendable_def)
  have "mq_send False (atoi p) b (q\<lparr>queued := ?s\<rparr>) =
      Ends (Inr (), q\<lparr>queued := sort_key (\<lambda>m. - fst m) (old @ [(atoi p, b)])\<rparr>)"
    using pm Cons.prems(3) by (auto simp: mq_send_def mq_insert_def simp flip: mq_insert_sort_key)
  moreover have "to_unsigned 32 (atoi p) = atoi p" using pm(3,4) by (simp add: to_unsigned_def)
  ultimately have "pmsg_send_main bad [''pmsg_send'', nm, b, p] t =
      Ends (None, t(nm \<mapsto> q\<lparr>queued := sort_key (\<lambda>m. - fst m) (old @ [(atoi p, b)])\<rparr>))"
    using assms(1,2) pm(1,2) Cons.prems(1)
    by (simp add: pmsg_send_main_def getopt_operand getopt_Nil open_existing_cases Let_def del: getopt.simps(2))
  moreover have "send_all bad nm ms (t(nm \<mapsto> q\<lparr>queued := sort_key (\<lambda>m. - fst m) (old @ [(atoi p, b)])\<rparr>)) =
      Some ((t(nm \<mapsto> q\<lparr>queued := sort_key (\<lambda>m. - fst m) (old @ [(atoi p, b)])\<rparr>))
        (nm \<mapsto> q\<lparr>queued := sort_key (\<lambda>m. - fst m) ((old @ [(atoi p, b)]) @ map (\<lambda>(b, p). (atoi p, b)) ms)\<rparr>))"
    using Cons.prems by (intro Cons.IH) auto
  ultimately show ?case
    unfolding m send_all.simps fun_upd_upd by (simp only: outcome.case prod.case option.case append_assoc append.simps list.map)
qed

lemma receive_all_in_order:
  assumes "bad nm = None" "operand nm" "t nm = Some (q\<lparr>queued := ms\<rparr>)"
  shows "receive_all bad tty nm (length ms) t = Some (map (read_text tty) ms, t(nm \<mapsto> q\<lparr>queued := []\<rparr>))"
  using assms(3)
proof (induction ms arbitrary: t)
  case Nil
  then show ?case by (simp add: fun_upd_idem)
next
  case (Cons m ms)
  have "pmsg_receive_main bad True tty None [''pmsg_receive'', nm] t = Ends (None, read_text tty m, t(nm \<mapsto> q\<lparr>queued := ms\<rparr>))"
    using assms(1,2) Cons.prems
    by (cases m) (simp add: pmsg_receive_main_def getopt_operand getopt_Nil open_existing_cases mq_receive_def read_text_def Let_def
        del: getopt.simps(2))
  moreover have "receive_all bad tty nm (length ms) (t(nm \<mapsto> q\<lparr>queued := ms\<rparr>)) =
      Some (map (read_text tty) ms, (t(nm \<mapsto> q\<lparr>queued := ms\<rparr>))(nm \<mapsto> q\<lparr>queued := []\<rparr>))"
    by (rule Cons.IH) simp
  ultimately show ?case
    unfolding list.size receive_all.simps fun_upd_upd by (simp add: fun_upd_def)
qed

lemma pshm_round_trip:
  assumes "bad nm = None" "nm \<noteq> ''--help''" "t nm = Some x" "int (length str) \<le> big"
  shows "str \<noteq> [] \<Longrightarrow> \<exists>out. pshm_write_main bad big None None [p, nm, str] t = (None, out, t(nm \<mapsto> str)) \<and>
      pshm_read_main bad None None [p, nm] (t(nm \<mapsto> str)) = Inr (str @ [LF])"
    and "\<exists>out. pshm_write_main bad big mm cl [p, nm, []] t = (Some (ErrExit ''mmap'' EINVAL), out, t(nm \<mapsto> [])) \<and>
      pshm_read_main bad mm cl [p, nm] (t(nm \<mapsto> [])) = Inl (ErrExit ''mmap'' EINVAL)"
  using assms
  by (auto simp: pshm_write_main_def pshm_read_main_def open_existing_cases resize_def mmap_error_def Let_def)

lemma psem_post_wait:
  assumes "bad nm = None" "nm \<noteq> ''--help''" "t nm = Some v" "0 \<le> v" "v < INT_MAX"
  shows "psem_post_main bad [p, nm] t = (None, t(nm \<mapsto> v + 1)) \<and>
    psem_wait_main bad pid [p, nm] (t(nm \<mapsto> v + 1)) = Ends (Inr (pid @ '' sem_wait() succeeded'' @ [LF]), t) \<and>
    psem_getvalue_main bad [p, nm] t = Inr (show_int v @ [LF]) \<and>
    (v = 0 \<longrightarrow> psem_wait_main bad pid [p, nm] t = Sleeps \<and>
      psem_trywait_main bad [p, nm] t = (Some (ErrExit ''sem_trywait'' EAGAIN), t))"
  using assms
  by (auto simp: psem_post_main_def psem_wait_main_def psem_getvalue_main_def psem_trywait_main_def open_existing_cases
      fun_upd_idem)

text \<open>
  C29: Whatever their arguments are, the tools for POSIX message queues and semaphores keep every queue within its
  limits and ordered by priority, and every value between 0 and \<open>INT_MAX\<close>. Messages that are sent to an empty queue are
  received in the order of their priorities, the highest first and those of the same priority as they were sent, each
  exactly once and unchanged, and the queue is then empty again; but when the output is no terminal the message is
  printed before the line that announces it. A post makes the next wait return and restores the value; at 0 a wait
  sleeps and a trywait fails. What pshm_write stores, pshm_read prints; the empty string makes both fail.
\<close>

theorem posix_tools_correct:
  assumes "all_objects queue_valid t" "all_objects sem_ok u" "bad nm = None" "operand nm" "nm \<noteq> ''--help''"
    and "t nm = Some q" "queued q = []" "\<forall>m\<in>set ms. sendable q m" "int (length ms) \<le> maxmsg q"
    and "u nm = Some v" "v < INT_MAX" "sh nm = Some x" "int (length str) \<le> big"
  shows "(all_objects queue_valid (snd (pmsg_create_main bad lim argv t)) \<and>
      (\<forall>r t'. pmsg_send_main bad argv t = Ends (r, t') \<longrightarrow> all_objects queue_valid t') \<and>
      (\<forall>r s t'. pmsg_receive_main bad mal tty werr argv t = Ends (r, s, t') \<longrightarrow> all_objects queue_valid t') \<and>
      all_objects queue_valid (snd (pmsg_unlink_main bad argv t)) \<and>
      all_objects sem_ok (snd (psem_create_main bad argv u)) \<and> all_objects sem_ok (snd (psem_post_main bad argv u)) \<and>
      (\<forall>r u'. psem_wait_main bad pid argv u = Ends (r, u') \<longrightarrow> all_objects sem_ok u') \<and>
      all_objects sem_ok (snd (psem_trywait_main bad argv u)) \<and> all_objects sem_ok (snd (psem_unlink_main bad argv u))) \<and>
    (\<exists>t'. send_all bad nm ms t = Some t' \<and>
      receive_all bad tty nm (length ms) t' =
        Some (map (read_text tty) (sort_key (\<lambda>m. - fst m) (map (\<lambda>(b, p). (atoi p, b)) ms)), t)) \<and>
    (psem_post_main bad [p, nm] u = (None, u(nm \<mapsto> v + 1)) \<and>
      psem_wait_main bad pid [p, nm] (u(nm \<mapsto> v + 1)) = Ends (Inr (pid @ '' sem_wait() succeeded'' @ [LF]), u) \<and>
      psem_getvalue_main bad [p, nm] u = Inr (show_int v @ [LF]) \<and>
      (v = 0 \<longrightarrow> psem_wait_main bad pid [p, nm] u = Sleeps \<and>
        psem_trywait_main bad [p, nm] u = (Some (ErrExit ''sem_trywait'' EAGAIN), u))) \<and>
    ((str \<noteq> [] \<longrightarrow> (\<exists>out. pshm_write_main bad big None None [p, nm, str] sh = (None, out, sh(nm \<mapsto> str)) \<and>
        pshm_read_main bad None None [p, nm] (sh(nm \<mapsto> str)) = Inr (str @ [LF]))) \<and>
      (\<exists>out. pshm_write_main bad big mm cl [p, nm, []] sh = (Some (ErrExit ''mmap'' EINVAL), out, sh(nm \<mapsto> [])) \<and>
        pshm_read_main bad mm cl [p, nm] (sh(nm \<mapsto> [])) = Inl (ErrExit ''mmap'' EINVAL)))"
proof -
  have keeps: "all_objects queue_valid (snd (pmsg_unlink_main bad argv t))" "all_objects sem_ok (snd (psem_unlink_main bad argv u))"
    using assms(1,2) by (simp_all add: pmsg_unlink_main_def psem_unlink_main_def unlink_prog_valid)
  have v: "0 \<le> v" using assms(2,10) by (auto simp: all_objects_def sem_ok_def)
  let ?s = "sort_key (\<lambda>m. - fst m) (map (\<lambda>(b, p). (atoi p, b)) ms)"
  have q: "q\<lparr>queued := []\<rparr> = q" using assms(7) by (cases q) simp
  have sent: "send_all bad nm ms t = Some (t(nm \<mapsto> q\<lparr>queued := ?s\<rparr>))"
    using send_all_sorts [where bad = bad and nm = nm and t = t and q = q and old = "[]" and ms = ms] assms(3,4,6,8,9) q by simp
  have "receive_all bad tty nm (length ?s) (t(nm \<mapsto> q\<lparr>queued := ?s\<rparr>)) = Some (map (read_text tty) ?s, t)"
    using receive_all_in_order [where bad = bad and nm = nm and t = "t(nm \<mapsto> q\<lparr>queued := ?s\<rparr>)" and q = q and ms = ?s and tty = tty] assms(3,4,6)
    unfolding q fun_upd_upd by (simp add: fun_upd_triv [of t nm, unfolded assms(6)])
  with sent have rt: "\<exists>t'. send_all bad nm ms t = Some t' \<and> receive_all bad tty nm (length ms) t' = Some (map (read_text tty) ?s, t)"
    by simp
  note sem = psem_post_wait [where bad = bad and nm = nm and t = u and v = v and p = p and pid = pid, OF assms(3,5,10) v assms(11)]
  note shm = pshm_round_trip [where bad = bad and nm = nm and t = sh and x = x and str = str and big = big and p = p, OF assms(3,5,12,13)]
  show ?thesis
    using keeps sem
    by (intro conjI allI impI rt shm) (blast intro: pmsg_create_valid [OF assms(1)] pmsg_send_valid [OF assms(1)]
        pmsg_receive_valid [OF assms(1)] psem_create_valid [OF assms(2)] psem_progs_valid [OF assms(2)])+
qed

theorem posix_tools_correct_witness:
  "\<exists>t'. send_all (\<lambda>_. None) ''/q'' [(''a'', ''1''), (''b'', ''5''), (''c'', ''1'')]
       [''/q'' \<mapsto> \<lparr>maxmsg = 10, msgsize = 100, queued = []\<rparr>] = Some t' \<and>
     receive_all (\<lambda>_. None) True ''/q'' 3 t' = Some (map (read_text True) [(5, ''b''), (1, ''a''), (1, ''c'')],
       [''/q'' \<mapsto> \<lparr>maxmsg = 10, msgsize = 100, queued = []\<rparr>])"
proof -
  let ?q = "\<lparr>maxmsg = 10, msgsize = 100, queued = []\<rparr>"
  let ?ms = "[(''a'', ''1''), (''b'', ''5''), (''c'', ''1'')]"
  have a: "atoi ''1'' = 1" "atoi ''5'' = 5" by code_simp+
  have ok: "all_objects queue_valid [''/q'' \<mapsto> ?q]" "all_objects sem_ok [''/q'' \<mapsto> 0]" "\<forall>m\<in>set ?ms. sendable ?q m"
    by (simp_all add: all_objects_def queue_valid_def sem_ok_def sendable_def operand_def a)
  note all = posix_tools_correct [where t = "[''/q'' \<mapsto> ?q]" and u = "[''/q'' \<mapsto> 0]" and bad = "\<lambda>_. None" and nm = "''/q''"
      and q = ?q and ms = ?ms and v = 0 and sh = "[''/q'' \<mapsto> []]" and x = "[]" and str = "[]" and big = 0 and tty = True,
      OF ok(1,2) _ _ _ _ _ ok(3)]
  show ?thesis
    using all [THEN conjunct2, THEN conjunct1] by (simp add: operand_def a numeral_3_eq_3)
qed

end
