(* ===== verification/DirTools.thy ===== *)
theory DirTools
  imports Complex_Main CString ErrorFuns
begin

text \<open>
  Programs that read directories: \<open>dirs_links/list_files.c\<close>, \<open>list_files_readdir_r.c\<close>, \<open>file_type_stats.c\<close> and \<open>nftw_dir_tree.c\<close>.
  What \<open>opendir\<close> and \<open>readdir\<close> give is an argument; so is \<open>nftw\<close>, as the list of the calls that it makes.
\<close>

section \<open>Listing a directory\<close>

text \<open>
  A directory that can be opened: the names that it yields, the error that ends them if any, and that of \<open>closedir\<close>. The
  results are the end of the program if it ends, standard output and the messages of \<open>errMsg\<close>.
\<close>

record dir_stream =
  entries :: "string list"
  read_error :: "errno option"
  close_error :: "errno option"

type_synonym dirs = "string \<Rightarrow> errno + dir_stream"

datatype readdir_r = R_Error errno | R_End | R_Entry string

definition print_entry :: "string \<Rightarrow> string \<Rightarrow> string" where
  "print_entry dirpath nm =
     (if nm = ''.'' \<or> nm = ''..'' then []
      else (if dirpath = ''.'' then [] else dirpath @ ''/'') @ nm @ [LF])"

text \<open>\<open>readdir\<close>: the loop ends with \<open>NULL\<close>, and \<open>errno\<close> tells an error from the end.\<close>

fun list_loop :: "string \<Rightarrow> string list \<Rightarrow> errno option \<Rightarrow> errno option \<times> string" where
  "list_loop dirpath [] e = (e, [])"
| "list_loop dirpath (nm # nms) e = map_prod id (\<lambda>prn. print_entry dirpath nm @ prn) (list_loop dirpath nms e)"

definition listFiles :: "dirs \<Rightarrow> string \<Rightarrow> failure option \<times> string \<times> string list" where
  "listFiles fs dirpath =
     (case fs dirpath of
        Inl e \<Rightarrow> (None, [], [''opendir failed on '' @ dirpath])
      | Inr d \<Rightarrow>
          (case list_loop dirpath (entries d) (read_error d) of
             (Some e, prn) \<Rightarrow> (Some (ErrExit ''readdir'' e), prn, [])
           | (None, prn) \<Rightarrow> (None, prn, if close_error d = None then [] else [''closedir''])))"

text \<open>\<open>readdir_r\<close>: every call returns an error number, the end or an entry.\<close>

definition readdir_r_calls :: "dir_stream \<Rightarrow> readdir_r list" where
  "readdir_r_calls d = map R_Entry (entries d) @ [case read_error d of Some e \<Rightarrow> R_Error e | None \<Rightarrow> R_End]"

fun list_loop_r :: "string \<Rightarrow> readdir_r list \<Rightarrow> failure option \<times> string" where
  "list_loop_r dirpath [] = (None, [])"
| "list_loop_r dirpath (R_Error e # rs) = (Some (ErrExit ''readdir_r'' e), [])"
| "list_loop_r dirpath (R_End # rs) = (None, [])"
| "list_loop_r dirpath (R_Entry nm # rs) = map_prod id (\<lambda>prn. print_entry dirpath nm @ prn) (list_loop_r dirpath rs)"

text \<open>The second version also allocates the buffer for an entry, before the directory is opened.\<close>

definition listFiles_r :: "bool \<Rightarrow> dirs \<Rightarrow> string \<Rightarrow> failure option \<times> string \<times> string list" where
  "listFiles_r malloc_ok fs dirpath =
     (if \<not> malloc_ok then (Some (ErrExit ''malloc'' ENOMEM), [], [])
      else case fs dirpath of
        Inl e \<Rightarrow> (None, [], [''opendir failed on '' @ dirpath])
      | Inr d \<Rightarrow>
          (case list_loop_r dirpath (readdir_r_calls d) of
             (Some f, prn) \<Rightarrow> (Some f, prn, [])
           | (None, prn) \<Rightarrow> (None, prn, if close_error d = None then [] else [''closedir''])))"

fun list_args ::
    "(string \<Rightarrow> failure option \<times> string \<times> string list) \<Rightarrow> string list \<Rightarrow> failure option \<times> string \<times> string list" where
  "list_args lf [] = (None, [], [])"
| "list_args lf (a # as) =
     (case lf a of
        (Some f, prn, ms) \<Rightarrow> (Some f, prn, ms)
      | (None, prn, ms) \<Rightarrow> (case list_args lf as of (r, prn', ms') \<Rightarrow> (r, prn @ prn', ms @ ms')))"

definition list_files_main :: "dirs \<Rightarrow> string list \<Rightarrow> failure option \<times> string \<times> string list" where
  "list_files_main fs argv =
     (if 1 < length argv \<and> argv ! 1 = ''--help'' then (Some (UsageErr ''%s [dir-path...]''), [], [])
      else if length argv = 1 then listFiles fs ''.''
      else list_args (listFiles fs) (tl argv))"

definition list_files_r_main :: "bool \<Rightarrow> dirs \<Rightarrow> string list \<Rightarrow> failure option \<times> string \<times> string list" where
  "list_files_r_main malloc_ok fs argv =
     (if length argv = 1 then listFiles_r malloc_ok fs ''.''
      else list_args (listFiles_r malloc_ok fs) (tl argv))"

section \<open>Walking a tree\<close>

datatype ftype = S_IFREG | S_IFDIR | S_IFCHR | S_IFBLK | S_IFLNK | S_IFIFO | S_IFSOCK | S_IFother

datatype ftw_flag = FTW_F | FTW_D | FTW_DNR | FTW_DP | FTW_SL | FTW_SLN | FTW_NS

text \<open>What \<open>nftw\<close> passes to the function that it calls.\<close>

record visit =
  pathname :: string
  st_type :: ftype
  st_ino :: int
  vflag :: ftw_flag
  vbase :: nat
  vlevel :: nat

record counts =
  numReg :: int
  numDir :: int
  numSymLk :: int
  numSocket :: int
  numFifo :: int
  numChar :: int
  numBlock :: int

definition countFile :: "visit \<Rightarrow> counts \<Rightarrow> counts" where
  "countFile v c =
     (case st_type v of
        S_IFREG \<Rightarrow> c\<lparr>numReg := numReg c + 1\<rparr>
      | S_IFDIR \<Rightarrow> c\<lparr>numDir := numDir c + 1\<rparr>
      | S_IFCHR \<Rightarrow> c\<lparr>numChar := numChar c + 1\<rparr>
      | S_IFBLK \<Rightarrow> c\<lparr>numBlock := numBlock c + 1\<rparr>
      | S_IFLNK \<Rightarrow> c\<lparr>numSymLk := numSymLk c + 1\<rparr>
      | S_IFIFO \<Rightarrow> c\<lparr>numFifo := numFifo c + 1\<rparr>
      | S_IFSOCK \<Rightarrow> c\<lparr>numSocket := numSocket c + 1\<rparr>
      | S_IFother \<Rightarrow> c)"

abbreviation (input) no_counts :: counts where
  "no_counts \<equiv> \<lparr>numReg = 0, numDir = 0, numSymLk = 0, numSocket = 0, numFifo = 0, numChar = 0, numBlock = 0\<rparr>"

text \<open>
  A line of \<open>printStats\<close> with its number and the percentage, which is printed with one digit; \<open>calls\<close> are the calls that \<open>nftw\<close>
  makes with \<open>FTW_PHYS\<close> for the argument, or the error it fails with.
\<close>

text \<open>How the programs end when they do not succeed: with their usage, or with \<open>perror\<close>.\<close>

datatype walk_end = W_Usage string | W_Perror string errno

datatype stats_line = No_files | Total int | Stats string int real

definition printStats :: "string \<Rightarrow> int \<Rightarrow> int \<Rightarrow> stats_line" where
  "printStats msg num numFiles = Stats msg num (real_of_int num * 100 / real_of_int numFiles)"

definition file_type_stats_main :: "(string \<Rightarrow> visit list result) \<Rightarrow> string list \<Rightarrow> walk_end + stats_line list" where
  "file_type_stats_main calls argv =
     (if length argv \<noteq> 2 \<or> argv ! 1 = ''--help'' then Inl (W_Usage ''%s dir-path'')
      else case calls (argv ! 1) of
        Inl e \<Rightarrow> Inl (W_Perror ''nftw'' e)
      | Inr vs \<Rightarrow>
          (let c = fold countFile vs no_counts;
               numFiles = numReg c + numDir c + numSymLk c + numSocket c + numFifo c + numChar c + numBlock c
           in Inr (if numFiles = 0 then [No_files]
                   else [Total numFiles, printStats ''Regular:'' (numReg c) numFiles, printStats ''Directory:'' (numDir c) numFiles,
                         printStats ''Char device:'' (numChar c) numFiles, printStats ''Block device:'' (numBlock c) numFiles,
                         printStats ''Symbolic link:'' (numSymLk c) numFiles, printStats ''FIFO:'' (numFifo c) numFiles,
                         printStats ''Socket:'' (numSocket c) numFiles])))"

definition pad :: "nat \<Rightarrow> string \<Rightarrow> string" where
  "pad n s = replicate (n - length s) CHR '' '' @ s"

definition type_letter :: "ftype \<Rightarrow> string" where
  "type_letter t =
     (case t of S_IFREG \<Rightarrow> ''-'' | S_IFDIR \<Rightarrow> ''d'' | S_IFCHR \<Rightarrow> ''c'' | S_IFBLK \<Rightarrow> ''b'' | S_IFLNK \<Rightarrow> ''l'' | S_IFIFO \<Rightarrow> ''p''
      | S_IFSOCK \<Rightarrow> ''s'' | S_IFother \<Rightarrow> ''?'')"

definition flag_text :: "ftw_flag \<Rightarrow> string" where
  "flag_text f =
     (case f of FTW_D \<Rightarrow> ''D  '' | FTW_DNR \<Rightarrow> ''DNR'' | FTW_DP \<Rightarrow> ''DP '' | FTW_F \<Rightarrow> ''F  '' | FTW_SL \<Rightarrow> ''SL '' | FTW_SLN \<Rightarrow> ''SLN''
      | FTW_NS \<Rightarrow> ''NS '')"

definition dirTree :: "visit \<Rightarrow> string" where
  "dirTree v =
     type_letter (st_type v) @ '' '' @ flag_text (vflag v) @ ''  '' @
     (if vflag v \<noteq> FTW_NS then pad 7 (show_int (st_ino v)) @ '' '' else ''        '') @
     '' '' @ replicate (4 * vlevel v) CHR '' '' @ drop (vbase v) (pathname v) @ [LF]"

definition dmp_spec :: "char \<Rightarrow> bool option" where
  "dmp_spec c = (if c \<in> set ''dmp'' then Some False else None)"

text \<open>\<open>calls dir d m p\<close>: the calls of \<open>nftw\<close> with the flags that were given.\<close>

definition nftw_dir_tree_main ::
    "(string \<Rightarrow> bool \<Rightarrow> bool \<Rightarrow> bool \<Rightarrow> visit list result) \<Rightarrow> string list \<Rightarrow> walk_end + string" where
  "nftw_dir_tree_main calls argv =
     (case getopt dmp_spec (tl argv) of (es, ops) \<Rightarrow>
        if \<exists>e\<in>set es. fst e \<notin> set ''dmp'' then Inl (W_Usage [])
        else if 1 < length ops then Inl (W_Usage [])
        else (case calls (if ops \<noteq> [] then hd ops else ''.'') (CHR ''d'' \<in> fst ` set es) (CHR ''m'' \<in> fst ` set es)
                     (CHR ''p'' \<in> fst ` set es) of
                Inl e \<Rightarrow> Inl (W_Perror ''nftw'' e)
              | Inr vs \<Rightarrow> Inr (concat (map dirTree vs))))"

section \<open>What is listed\<close>

lemma list_loop_out: "list_loop d nms e = (e, concat (map (print_entry d) nms))"
  by (induction nms) simp_all

lemma list_loop_r_out:
  "list_loop_r d (readdir_r_calls ds) = (map_option (ErrExit ''readdir_r'') (read_error ds), concat (map (print_entry d) (entries ds)))"
proof -
  have "list_loop_r d (map R_Entry nms @ [case e of Some e \<Rightarrow> R_Error e | None \<Rightarrow> R_End]) =
      (map_option (ErrExit ''readdir_r'') e, concat (map (print_entry d) nms))" for nms e
    by (induction nms) (simp_all split: option.split)
  then show ?thesis by (simp add: readdir_r_calls_def)
qed

text \<open>What one directory contributes when its entries can be read.\<close>

definition listing :: "dirs \<Rightarrow> string \<Rightarrow> string" where
  "listing fs a =
     (case fs a of
        Inl e \<Rightarrow> []
      | Inr d \<Rightarrow> concat (map (\<lambda>nm. (if a = ''.'' then nm else a @ ''/'' @ nm) @ [LF])
                          (filter (\<lambda>nm. nm \<notin> {''.'', ''..''}) (entries d))))"

lemma print_entries:
  "concat (map (print_entry a) nms) =
     concat (map (\<lambda>nm. (if a = ''.'' then nm else a @ ''/'' @ nm) @ [LF]) (filter (\<lambda>nm. nm \<notin> {''.'', ''..''}) nms))"
  by (induction nms) (simp_all add: print_entry_def)

definition readable :: "dirs \<Rightarrow> string \<Rightarrow> bool" where
  "readable fs a \<longleftrightarrow> (\<forall>d. fs a = Inr d \<longrightarrow> read_error d = None)"

lemma listFiles_versions:
  assumes "readable fs a"
  shows "\<exists>ms. listFiles fs a = (None, listing fs a, ms) \<and> listFiles_r True fs a = (None, listing fs a, ms)"
  using assms
  by (auto simp: listFiles_def listFiles_r_def listing_def readable_def list_loop_out list_loop_r_out print_entries split: sum.split)

lemma list_args_versions:
  assumes "\<forall>a\<in>set as. readable fs a"
  shows "\<exists>ms. list_args (listFiles fs) as = (None, concat (map (listing fs) as), ms) \<and>
    list_args (listFiles_r True fs) as = (None, concat (map (listing fs) as), ms)"
  using assms
proof (induction as)
  case (Cons a as)
  obtain ms where "listFiles fs a = (None, listing fs a, ms)" "listFiles_r True fs a = (None, listing fs a, ms)"
    using listFiles_versions Cons.prems by (meson list.set_intros(1))
  with Cons show ?case by auto
qed simp

section \<open>What is walked\<close>

text \<open>A file tree, and what \<open>nftw\<close> promises with \<open>FTW_PHYS\<close>: every file once, a directory before or, with \<open>FTW_DEPTH\<close>, after its files.\<close>

datatype ftree = Node string ftype int "ftree list"

fun phys_walk :: "bool \<Rightarrow> string \<Rightarrow> nat \<Rightarrow> ftree \<Rightarrow> visit list" where
  "phys_walk deep pre lv (Node nm ty ino ch) =
     (let v = \<lparr>pathname = pre @ nm, st_type = ty, st_ino = ino,
               vflag = (if ty = S_IFDIR then (if deep then FTW_DP else FTW_D) else if ty = S_IFLNK then FTW_SL else FTW_F),
               vbase = length pre, vlevel = lv\<rparr>;
          vs = concat (map (phys_walk deep (pre @ nm @ ''/'') (lv + 1)) ch)
      in if deep then vs @ [v] else v # vs)"

fun types_in :: "ftree \<Rightarrow> ftype list" where
  "types_in (Node nm ty ino ch) = ty # concat (map types_in ch)"

definition how_many_of :: "ftype \<Rightarrow> ftree \<Rightarrow> int" where
  "how_many_of ty t = int (count_list (types_in t) ty)"

lemma phys_walk_types: "map st_type (phys_walk False pre lv t) = types_in t"
proof (induction t arbitrary: pre lv)
  case (Node nm ty ino ch)
  then show ?case by (simp add: Let_def map_concat comp_def cong: map_cong)
qed

lemma fold_countFile:
  "fold countFile vs c =
     \<lparr>numReg = numReg c + int (count_list (map st_type vs) S_IFREG), numDir = numDir c + int (count_list (map st_type vs) S_IFDIR),
      numSymLk = numSymLk c + int (count_list (map st_type vs) S_IFLNK), numSocket = numSocket c + int (count_list (map st_type vs) S_IFSOCK),
      numFifo = numFifo c + int (count_list (map st_type vs) S_IFIFO), numChar = numChar c + int (count_list (map st_type vs) S_IFCHR),
      numBlock = numBlock c + int (count_list (map st_type vs) S_IFBLK)\<rparr>"
proof (induction vs arbitrary: c)
  case (Cons v vs)
  show ?case unfolding fold_Cons comp_apply Cons.IH by (cases "st_type v") (simp_all add: countFile_def)
qed simp

lemma count_types:
  "S_IFother \<notin> set xs \<Longrightarrow> count_list xs S_IFREG + count_list xs S_IFDIR + count_list xs S_IFLNK + count_list xs S_IFSOCK +
     count_list xs S_IFIFO + count_list xs S_IFCHR + count_list xs S_IFBLK = length xs"
proof (induction xs)
  case (Cons x xs)
  then show ?case by (cases x) auto
qed simp

text \<open>The tree as nftw\_dir\_tree shows it.\<close>

fun show_tree :: "bool \<Rightarrow> nat \<Rightarrow> ftree \<Rightarrow> string" where
  "show_tree deep lv (Node nm ty ino ch) =
     (let line = type_letter ty @ '' '' @
            flag_text (if ty = S_IFDIR then (if deep then FTW_DP else FTW_D) else if ty = S_IFLNK then FTW_SL else FTW_F) @ ''  '' @
            pad 7 (show_int ino) @ '' '' @ '' '' @ replicate (4 * lv) CHR '' '' @ nm @ [LF];
          below = concat (map (show_tree deep (lv + 1)) ch)
      in if deep then below @ line else line @ below)"

lemma dirTree_walk: "concat (map dirTree (phys_walk deep pre lv t)) = show_tree deep lv t"
proof (induction t arbitrary: pre lv)
  case (Node nm ty ino ch)
  have "concat (map dirTree (concat (map f ch))) = concat (map (\<lambda>x. concat (map dirTree (f x))) ch)" for f
    by (induction ch) simp_all
  then have kids: "concat (map dirTree (concat (map (phys_walk deep (pre @ nm @ ''/'') (lv + 1)) ch))) =
      concat (map (show_tree deep (lv + 1)) ch)"
    using Node by (simp cong: map_cong)
  have line: "dirTree \<lparr>pathname = pre @ nm, st_type = ty, st_ino = ino,
        vflag = (if ty = S_IFDIR then (if deep then FTW_DP else FTW_D) else if ty = S_IFLNK then FTW_SL else FTW_F),
        vbase = length pre, vlevel = lv\<rparr> =
      type_letter ty @ '' '' @
        flag_text (if ty = S_IFDIR then (if deep then FTW_DP else FTW_D) else if ty = S_IFLNK then FTW_SL else FTW_F) @ ''  '' @
        pad 7 (show_int ino) @ '' '' @ '' '' @ replicate (4 * lv) CHR '' '' @ nm @ [LF]"
    by (simp add: dirTree_def)
  show ?case
    unfolding phys_walk.simps show_tree.simps Let_def line [symmetric] kids [symmetric] by simp
qed



end
