(* ===== verification/Pipes.thy ===== *)
theory Pipes
  imports Steps NumArgs
begin

text \<open>
  Processes that talk through pipes: \<open>pipes/change_case.c\<close>, \<open>simple_pipe.c\<close> and \<open>pipe_sync.c\<close>. A step is one call of one process.
  A pipe is the bytes in it; a read takes what is there, at most the size of the buffer, and sees the end of file when
  the pipe is empty and its other end is closed. A process that ends closes its descriptors. Standard output takes
  whole writes or fails.
\<close>

section \<open>change\_case\<close>

abbreviation (input) CC_BUF :: nat where "CC_BUF \<equiv> 100"

datatype cc_parent = P_Read | P_Send "byte list" | P_Recv | P_Show "byte list" | P_Exit | P_Fail string
datatype cc_child = K_Read | K_Send "byte list" | K_Exit

text \<open>\<open>chunks\<close>: what the calls of \<open>read\<close> on standard input return, and the error after them, if any.\<close>

record cc =
  chunks :: "byte list list"
  in_error :: "errno option"
  outbound :: "byte list"
  inbound :: "byte list"
  shown :: "byte list"
  ppc :: cc_parent
  kpc :: cc_child

fun over :: "cc_parent \<Rightarrow> bool" where
  "over P_Exit = True" | "over (P_Fail _) = True" | "over _ = False"

definition cc_parent_next :: "bool \<Rightarrow> cc \<Rightarrow> cc option" where
  "cc_parent_next ok s =
     (case ppc s of
        P_Read \<Rightarrow>
          (case chunks s of
             [] \<Rightarrow> Some (s\<lparr>ppc := (if in_error s = None then P_Exit else P_Fail ''read'')\<rparr>)
           | b # bs \<Rightarrow> Some (s\<lparr>chunks := bs, ppc := P_Send b\<rparr>))
      | P_Send b \<Rightarrow> Some (s\<lparr>outbound := outbound s @ b, ppc := P_Recv\<rparr>)
      | P_Recv \<Rightarrow>
          if inbound s \<noteq> [] then Some (s\<lparr>inbound := drop CC_BUF (inbound s), ppc := P_Show (take CC_BUF (inbound s))\<rparr>)
          else if kpc s = K_Exit then Some (s\<lparr>ppc := P_Read\<rparr>) else None
      | P_Show b \<Rightarrow> Some (if ok then s\<lparr>shown := shown s @ b, ppc := P_Read\<rparr> else s\<lparr>ppc := P_Fail ''write''\<rparr>)
      | P_Exit \<Rightarrow> None
      | P_Fail _ \<Rightarrow> None)"

definition cc_child_next :: "cc \<Rightarrow> cc option" where
  "cc_child_next s =
     (case kpc s of
        K_Read \<Rightarrow>
          if outbound s \<noteq> []
          then Some (s\<lparr>outbound := drop CC_BUF (outbound s), kpc := K_Send (map toupper (take CC_BUF (outbound s)))\<rparr>)
          else if over (ppc s) then Some (s\<lparr>kpc := K_Exit\<rparr>) else None
      | K_Send b \<Rightarrow> Some (s\<lparr>inbound := inbound s @ b, kpc := K_Read\<rparr>)
      | K_Exit \<Rightarrow> None)"

definition cc_step :: "cc \<Rightarrow> cc \<Rightarrow> bool" where
  "cc_step s t \<longleftrightarrow> (\<exists>ok. cc_parent_next ok s = Some t) \<or> cc_child_next s = Some t"

text \<open>\<open>main\<close> up to \<open>fork\<close>, given the errors of the calls.\<close>

definition change_case_main ::
    "errno option \<Rightarrow> errno option \<Rightarrow> errno option \<Rightarrow> byte list list \<Rightarrow> errno option \<Rightarrow> failure + cc" where
  "change_case_main pipe1 pipe2 fork bs ie =
     (case pipe1 of
        Some e \<Rightarrow> Inl (ErrExit ''pipe'' e)
      | None \<Rightarrow>
          (case pipe2 of
             Some e \<Rightarrow> Inl (ErrExit ''pipe'' e)
           | None \<Rightarrow>
               (case fork of
                  Some e \<Rightarrow> Inl (ErrExit ''fork'' e)
                | None \<Rightarrow> Inr \<lparr>chunks = bs, in_error = ie, outbound = [], inbound = [], shown = [], ppc = P_Read, kpc = K_Read\<rparr>)))"

text \<open>Where the one block that is under way is, and that nothing is lost.\<close>

fun in_parent :: "cc_parent \<Rightarrow> byte list" where
  "in_parent (P_Send b) = map toupper b" | "in_parent (P_Show b) = b" | "in_parent _ = []"

fun in_child :: "cc_child \<Rightarrow> byte list" where
  "in_child (K_Send b) = b" | "in_child _ = []"

definition cc_data :: "cc \<Rightarrow> byte list" where
  "cc_data s =
     shown s @ in_child (kpc s) @ map toupper (outbound s) @ inbound s @ in_parent (ppc s) @ map toupper (concat (chunks s))"

definition cc_shape :: "cc \<Rightarrow> bool" where
  "cc_shape s \<longleftrightarrow>
     (\<forall>b\<in>set (chunks s). b \<noteq> [] \<and> length b \<le> CC_BUF) \<and>
     (case ppc s of
        P_Recv \<Rightarrow>
          (\<exists>b. b \<noteq> [] \<and> length b \<le> CC_BUF \<and>
            ((outbound s = b \<and> kpc s = K_Read \<and> inbound s = []) \<or>
             (outbound s = [] \<and> kpc s = K_Send b \<and> inbound s = []) \<or>
             (outbound s = [] \<and> kpc s = K_Read \<and> inbound s = b)))
      | P_Send b \<Rightarrow> b \<noteq> [] \<and> length b \<le> CC_BUF \<and> outbound s = [] \<and> inbound s = [] \<and> kpc s = K_Read
      | P_Show b \<Rightarrow> outbound s = [] \<and> inbound s = [] \<and> kpc s = K_Read
      | P_Read \<Rightarrow> outbound s = [] \<and> inbound s = [] \<and> kpc s = K_Read
      | _ \<Rightarrow> outbound s = [] \<and> inbound s = [] \<and> (\<forall>b. kpc s \<noteq> K_Send b)) \<and>
     (ppc s = P_Exit \<longrightarrow> chunks s = [] \<and> in_error s = None)"

definition cc_inv :: "byte list \<Rightarrow> cc \<Rightarrow> bool" where
  "cc_inv input s \<longleftrightarrow> cc_shape s \<and> (ppc s \<noteq> P_Fail ''write'' \<longrightarrow> cc_data s = map toupper input)"

fun parent_work :: "cc_parent \<Rightarrow> nat" where
  "parent_work P_Read = 1" | "parent_work (P_Send _) = 8" | "parent_work P_Recv = 2" | "parent_work (P_Show _) = 3"
| "parent_work P_Exit = 0" | "parent_work (P_Fail _) = 0"

fun child_work :: "cc_child \<Rightarrow> nat" where
  "child_work K_Read = 1" | "child_work (K_Send _) = 4" | "child_work K_Exit = 0"

definition cc_work :: "cc \<Rightarrow> nat" where
  "cc_work s = 9 * length (chunks s) + parent_work (ppc s) + child_work (kpc s) +
     (if outbound s = [] then 0 else 4) + (if inbound s = [] then 0 else 2)"

definition cc_final :: "cc \<Rightarrow> bool" where
  "cc_final s \<longleftrightarrow> over (ppc s) \<and> kpc s = K_Exit"

lemma cc_recv_block:
  assumes "cc_shape s" "ppc s = P_Recv"
  obtains b where "b \<noteq> []" "length b \<le> CC_BUF"
    "outbound s = b \<and> kpc s = K_Read \<and> inbound s = [] \<or> outbound s = [] \<and> kpc s = K_Send b \<and> inbound s = [] \<or>
     outbound s = [] \<and> kpc s = K_Read \<and> inbound s = b"
  using assms by (simp add: cc_shape_def) blast

lemma cc_shape_bounds:
  assumes "cc_shape s"
  shows "length (outbound s) \<le> CC_BUF \<and> length (inbound s) \<le> CC_BUF"
proof (cases "ppc s = P_Recv")
  case True
  from cc_recv_block [OF assms this] show ?thesis by fastforce
next
  case False
  with assms show ?thesis by (cases "ppc s") (simp_all add: cc_shape_def)
qed

lemma cc_parent_ok:
  assumes "cc_shape s"
  shows "pred_option (\<lambda>t. cc_shape t \<and> cc_work t < cc_work s \<and> (ppc t \<noteq> P_Fail ''write'' \<longrightarrow> cc_data t = cc_data s))
    (cc_parent_next ok s)"
proof (cases "ppc s")
  case P_Read
  with assms show ?thesis
    by (cases "chunks s"; cases "in_error s") (simp_all add: cc_parent_next_def cc_shape_def cc_work_def cc_data_def)
next
  case P_Recv
  from cc_recv_block [OF assms P_Recv] consider "inbound s = []" "kpc s \<noteq> K_Exit"
    | "inbound s \<noteq> []" "length (inbound s) \<le> CC_BUF" "outbound s = []" "kpc s = K_Read"
    by fastforce
  then show ?thesis
    using assms P_Recv by cases (simp_all add: cc_parent_next_def cc_shape_def cc_work_def cc_data_def)
next
  case (P_Send b)
  with assms show ?thesis
    by (simp add: cc_parent_next_def cc_shape_def cc_work_def cc_data_def)
next
  case (P_Show b)
  with assms show ?thesis
    by (cases ok) (simp_all add: cc_parent_next_def cc_shape_def cc_work_def cc_data_def)
qed (simp_all add: cc_parent_next_def)

lemma cc_child_ok:
  assumes "cc_shape s"
  shows "pred_option (\<lambda>t. cc_shape t \<and> cc_work t < cc_work s \<and> cc_data t = cc_data s \<and> ppc t = ppc s) (cc_child_next s)"
proof (cases "kpc s")
  case K_Read
  with assms show ?thesis
    by (cases "ppc s") (auto simp: cc_child_next_def cc_shape_def cc_work_def cc_data_def)
next
  case (K_Send b)
  with assms show ?thesis
    by (cases "ppc s") (simp_all add: cc_child_next_def cc_shape_def cc_work_def cc_data_def)
qed (simp add: cc_child_next_def)

lemma cc_parent_next_over: "over (ppc s) \<Longrightarrow> cc_parent_next ok s = None"
  by (cases "ppc s") (simp_all add: cc_parent_next_def)

lemma cc_step_ok:
  assumes "cc_inv input s" "cc_step s t"
  shows "cc_inv input t \<and> cc_work t < cc_work s"
proof -
  have s: "cc_shape s" using assms(1) by (simp add: cc_inv_def)
  from assms(2) consider ok where "cc_parent_next ok s = Some t" | "cc_child_next s = Some t" by (auto simp: cc_step_def)
  then show ?thesis
  proof cases
    case 1
    then have "\<not> over (ppc s)" using cc_parent_next_over [of s ok] by auto
    then have "ppc s \<noteq> P_Fail ''write''" by auto
    with 1 cc_parent_ok [OF s, of ok] assms(1) show ?thesis by (simp add: cc_inv_def)
  next
    case 2
    with cc_child_ok [OF s] assms(1) show ?thesis by (simp add: cc_inv_def)
  qed
qed

interpretation cc_run: live_system cc_step "cc_inv input" cc_work cc_final
  for input
proof
  fix s t assume a: "cc_inv input s" "cc_step s t"
  show "cc_inv input t" "cc_work t < cc_work s"
    using cc_step_ok [OF a] by blast+
next
  fix s assume a: "cc_inv input s" "\<not> cc_final s"
  show "\<exists>t. cc_step s t"
  proof (cases "kpc s")
    case K_Read
    then show ?thesis
      using a by (cases "ppc s") (auto simp: cc_step_def cc_parent_next_def cc_child_next_def cc_inv_def cc_shape_def cc_final_def split: list.split)
  next
    case K_Exit
    then show ?thesis
      using a by (cases "ppc s") (auto simp: cc_step_def cc_parent_next_def cc_inv_def cc_shape_def cc_final_def)
  qed (auto simp: cc_step_def cc_child_next_def)
qed

section \<open>simple\_pipe\<close>

abbreviation (input) SP_BUF :: nat where "SP_BUF \<equiv> 10"

datatype sp_parent = S_Write | S_Close | S_Wait | S_Exit
datatype sp_child = C_Read | C_Show "byte list" | C_Newline | C_Exit | C_Fail

text \<open>
  \<open>unsent\<close>: what the parent's \<open>write\<close> has still to put into the pipe, which holds \<open>cap\<close> bytes; the call goes on while there is room.
\<close>

record sp =
  unsent :: "byte list"
  pipe :: "byte list"
  printed :: "byte list"
  spc :: sp_parent
  cpc :: sp_child

definition sp_parent_next :: "nat \<Rightarrow> nat \<Rightarrow> sp \<Rightarrow> sp option" where
  "sp_parent_next cap n s =
     (case spc s of
        S_Write \<Rightarrow>
          if unsent s = [] then Some (s\<lparr>spc := S_Close\<rparr>)
          else if 0 < n \<and> n \<le> length (unsent s) \<and> length (pipe s) + n \<le> cap
          then Some (s\<lparr>pipe := pipe s @ take n (unsent s), unsent := drop n (unsent s)\<rparr>)
          else None
      | S_Close \<Rightarrow> Some (s\<lparr>spc := S_Wait\<rparr>)
      | S_Wait \<Rightarrow> if cpc s = C_Exit \<or> cpc s = C_Fail then Some (s\<lparr>spc := S_Exit\<rparr>) else None
      | S_Exit \<Rightarrow> None)"

text \<open>\<open>ok\<close>: whether \<open>write\<close> to standard output succeeds.\<close>

definition sp_child_next :: "bool \<Rightarrow> sp \<Rightarrow> sp option" where
  "sp_child_next ok s =
     (case cpc s of
        C_Read \<Rightarrow>
          if pipe s \<noteq> [] then Some (s\<lparr>pipe := drop SP_BUF (pipe s), cpc := C_Show (take SP_BUF (pipe s))\<rparr>)
          else if spc s = S_Wait \<or> spc s = S_Exit then Some (s\<lparr>cpc := C_Newline\<rparr>) else None
      | C_Show b \<Rightarrow> Some (if ok then s\<lparr>printed := printed s @ b, cpc := C_Read\<rparr> else s\<lparr>cpc := C_Fail\<rparr>)
      | C_Newline \<Rightarrow> Some (if ok then s\<lparr>printed := printed s @ [LF], cpc := C_Exit\<rparr> else s\<lparr>cpc := C_Exit\<rparr>)
      | C_Exit \<Rightarrow> None
      | C_Fail \<Rightarrow> None)"

text \<open>The steps while standard output can be written: then no step of the child fails.\<close>

definition sp_step :: "nat \<Rightarrow> sp \<Rightarrow> sp \<Rightarrow> bool" where
  "sp_step cap s t \<longleftrightarrow> (\<exists>n. sp_parent_next cap n s = Some t) \<or> sp_child_next True s = Some t"

definition simple_pipe_main :: "string list \<Rightarrow> errno option \<Rightarrow> errno option \<Rightarrow> failure + sp" where
  "simple_pipe_main argv perr ferr =
     (if length argv \<noteq> 2 \<or> argv ! 1 = ''--help'' then Inl (UsageErr ''%s string'')
      else case perr of
        Some e \<Rightarrow> Inl (ErrExit ''pipe'' e)
      | None \<Rightarrow>
          (case ferr of
             Some e \<Rightarrow> Inl (ErrExit ''fork'' e)
           | None \<Rightarrow> Inr \<lparr>unsent = argv ! 1, pipe = [], printed = [], spc = S_Write, cpc = C_Read\<rparr>))"

fun shown_by :: "sp_child \<Rightarrow> byte list" where
  "shown_by (C_Show b) = b" | "shown_by _ = []"

definition sp_data :: "sp \<Rightarrow> byte list" where
  "sp_data s = printed s @ shown_by (cpc s) @ pipe s @ unsent s"

definition sp_inv :: "string \<Rightarrow> sp \<Rightarrow> bool" where
  "sp_inv str s \<longleftrightarrow>
     cpc s \<noteq> C_Fail \<and> (spc s \<noteq> S_Write \<longrightarrow> unsent s = []) \<and> (spc s = S_Exit \<longrightarrow> cpc s = C_Exit) \<and>
     (cpc s = C_Newline \<or> cpc s = C_Exit \<longrightarrow> pipe s = [] \<and> (spc s = S_Wait \<or> spc s = S_Exit)) \<and>
     sp_data s = str @ (if cpc s = C_Exit then [LF] else [])"

fun sparent_work :: "sp_parent \<Rightarrow> nat" where
  "sparent_work S_Write = 3" | "sparent_work S_Close = 2" | "sparent_work S_Wait = 1" | "sparent_work S_Exit = 0"

fun schild_work :: "sp_child \<Rightarrow> nat" where
  "schild_work C_Read = 2" | "schild_work (C_Show _) = 3" | "schild_work C_Newline = 1" | "schild_work C_Exit = 0" | "schild_work C_Fail = 0"

definition sp_work :: "sp \<Rightarrow> nat" where
  "sp_work s = 3 * length (unsent s) + 2 * length (pipe s) + sparent_work (spc s) + schild_work (cpc s)"

lemma sp_parent_ok:
  assumes "sp_inv str s"
  shows "pred_option (\<lambda>t. sp_inv str t \<and> sp_work t < sp_work s) (sp_parent_next cap n s)"
proof (cases "spc s")
  case S_Write
  with assms show ?thesis
    by (auto simp: sp_parent_next_def sp_inv_def sp_work_def sp_data_def)
next
  case S_Wait
  with assms show ?thesis by (auto simp: sp_parent_next_def sp_inv_def sp_work_def sp_data_def)
next
  case S_Close
  with assms show ?thesis by (auto simp: sp_parent_next_def sp_inv_def sp_work_def sp_data_def)
qed (simp add: sp_parent_next_def)

lemma sp_child_ok:
  assumes "sp_inv str s"
  shows "pred_option (\<lambda>t. sp_inv str t \<and> sp_work t < sp_work s) (sp_child_next True s)"
proof (cases "cpc s")
  case C_Read
  have "3 \<le> 2 * length (pipe s) - 2 * length (drop SP_BUF (pipe s)) + 1" if "pipe s \<noteq> []"
    using that by (cases "pipe s") auto
  with C_Read assms show ?thesis
    by (cases "pipe s") (auto simp: sp_child_next_def sp_inv_def sp_work_def sp_data_def)
next
  case C_Newline
  with assms show ?thesis by (auto simp: sp_child_next_def sp_inv_def sp_work_def sp_data_def)
qed (use assms in \<open>simp_all add: sp_child_next_def sp_inv_def sp_work_def sp_data_def\<close>)

interpretation sp_run: live_system "sp_step (Suc c)" "sp_inv str" sp_work "\<lambda>s. spc s = S_Exit"
  for c str
proof
  fix s t assume a: "sp_inv str s" "sp_step (Suc c) s t"
  then consider n where "sp_parent_next (Suc c) n s = Some t" | "sp_child_next True s = Some t" by (auto simp: sp_step_def)
  then have "sp_inv str t \<and> sp_work t < sp_work s"
    using sp_parent_ok [OF a(1), of "Suc c"] sp_child_ok [OF a(1)] by cases (metis option.pred_inject(2))+
  then show "sp_inv str t" "sp_work t < sp_work s" by blast+
next
  fix s assume a: "sp_inv str s" "spc s \<noteq> S_Exit"
  show "\<exists>t. sp_step (Suc c) s t"
  proof (cases "cpc s")
    case C_Read
    show ?thesis
    proof (cases "pipe s = []")
      case True
      then have "sp_parent_next (Suc c) 1 s \<noteq> None \<or> sp_child_next True s \<noteq> None"
        using C_Read a by (cases "spc s"; cases "unsent s") (auto simp: sp_parent_next_def sp_child_next_def)
      then show ?thesis unfolding sp_step_def by blast
    qed (use C_Read in \<open>auto simp: sp_step_def sp_child_next_def\<close>)
  qed (use a in \<open>auto simp: sp_step_def sp_child_next_def sp_parent_next_def sp_inv_def\<close>)
qed

section \<open>pipe\_sync\<close>

datatype ps_parent = Y_Fork nat | Y_Close | Y_Read | Y_Ready | Y_Exit | Y_Failed
datatype ps_child = Z_None | Z_Sleep | Z_Closing | Z_Closed
datatype ps_event = Started | Closing nat | Ready_to_go

text \<open>
  Children \<open>0 .. n - 1\<close>; \<open>hasw\<close> says whether the parent has the write end open, which each child has from its creation until it
  closes it. Nothing is ever written, so \<open>read\<close> returns, with the end of file, when no write end is open.
\<close>

record ps =
  kid :: "nat \<Rightarrow> ps_child"
  hasw :: bool
  ypc :: ps_parent
  events :: "ps_event list"

definition ps_start :: ps where
  "ps_start = \<lparr>kid = (\<lambda>_. Z_None), hasw = True, ypc = Y_Fork 0, events = [Started]\<rparr>"

fun holds_write :: "ps_child \<Rightarrow> bool" where
  "holds_write Z_Sleep = True" | "holds_write Z_Closing = True" | "holds_write _ = False"

definition ps_parent_next :: "nat \<Rightarrow> bool \<Rightarrow> ps \<Rightarrow> ps option" where
  "ps_parent_next n ok s =
     (case ypc s of
        Y_Fork j \<Rightarrow>
          Some (if \<not> j < n then s\<lparr>ypc := Y_Close\<rparr>
                else if ok then s\<lparr>kid := (kid s)(j := Z_Sleep), ypc := Y_Fork (j + 1)\<rparr>
                else s\<lparr>ypc := Y_Failed\<rparr>)
      | Y_Close \<Rightarrow> Some (s\<lparr>hasw := False, ypc := Y_Read\<rparr>)
      | Y_Read \<Rightarrow> if \<not> hasw s \<and> (\<forall>k<n. \<not> holds_write (kid s k)) then Some (s\<lparr>ypc := Y_Ready\<rparr>) else None
      | Y_Ready \<Rightarrow> Some (s\<lparr>events := events s @ [Ready_to_go], ypc := Y_Exit\<rparr>)
      | Y_Exit \<Rightarrow> None
      | Y_Failed \<Rightarrow> None)"

text \<open>A child whose argument is not a number ends, in \<open>getInt\<close>, without the message.\<close>

definition ps_child_next :: "(nat \<Rightarrow> bool) \<Rightarrow> nat \<Rightarrow> ps \<Rightarrow> ps option" where
  "ps_child_next num k s =
     (case kid s k of
        Z_Sleep \<Rightarrow>
          Some (if \<not> num k then s\<lparr>kid := (kid s)(k := Z_Closed)\<rparr>
                else s\<lparr>events := events s @ [Closing (k + 1)], kid := (kid s)(k := Z_Closing)\<rparr>)
      | Z_Closing \<Rightarrow> Some (s\<lparr>kid := (kid s)(k := Z_Closed)\<rparr>)
      | _ \<Rightarrow> None)"

definition ps_over :: "ps \<Rightarrow> bool" where
  "ps_over s \<longleftrightarrow> ypc s = Y_Exit \<or> ypc s = Y_Failed"

definition ps_step :: "(nat \<Rightarrow> bool) \<Rightarrow> nat \<Rightarrow> ps \<Rightarrow> ps \<Rightarrow> bool" where
  "ps_step num n s t \<longleftrightarrow> \<not> ps_over s \<and> ((\<exists>ok. ps_parent_next n ok s = Some t) \<or> (\<exists>k<n. ps_child_next num k s = Some t))"

fun created :: "ps_parent \<Rightarrow> nat \<Rightarrow> nat \<Rightarrow> bool" where
  "created (Y_Fork j) n k = (k < j)" | "created _ n k = (k < n)"

definition ps_inv :: "(nat \<Rightarrow> bool) \<Rightarrow> nat \<Rightarrow> ps \<Rightarrow> bool" where
  "ps_inv num n s \<longleftrightarrow>
     ypc s = Y_Failed \<or>
     (\<forall>k<n. kid s k = Z_None \<longleftrightarrow> \<not> created (ypc s) n k) \<and> (\<forall>j. ypc s = Y_Fork j \<longrightarrow> j \<le> n) \<and>
     (hasw s \<longleftrightarrow> (\<exists>j. ypc s = Y_Fork j) \<or> ypc s = Y_Close) \<and>
     (ypc s = Y_Ready \<or> ypc s = Y_Exit \<longrightarrow> (\<forall>k<n. kid s k = Z_Closed)) \<and>
     (\<forall>k<n. num k \<and> (kid s k = Z_Closing \<or> kid s k = Z_Closed) \<longrightarrow> Closing (k + 1) \<in> set (events s)) \<and>
     (if ypc s = Y_Exit then \<exists>es. events s = es @ [Ready_to_go] \<and> Ready_to_go \<notin> set es else Ready_to_go \<notin> set (events s))"

fun pskid_work :: "ps_child \<Rightarrow> nat" where
  "pskid_work Z_None = 3" | "pskid_work Z_Sleep = 2" | "pskid_work Z_Closing = 1" | "pskid_work Z_Closed = 0"

fun psparent_work :: "nat \<Rightarrow> ps_parent \<Rightarrow> nat" where
  "psparent_work n (Y_Fork j) = 5 + (n - j)" | "psparent_work n Y_Close = 4" | "psparent_work n Y_Read = 3"
| "psparent_work n Y_Ready = 2" | "psparent_work n Y_Exit = 0" | "psparent_work n Y_Failed = 0"

definition ps_work :: "nat \<Rightarrow> ps \<Rightarrow> nat" where
  "ps_work n s = psparent_work n (ypc s) + (\<Sum>k<n. pskid_work (kid s k))"

lemma pskid_work_upd:
  fixes n :: nat
  assumes "k < n" "pskid_work c \<le> pskid_work (f k)"
  shows "(\<Sum>i<n. pskid_work ((f(k := c)) i)) + (pskid_work (f k) - pskid_work c) = (\<Sum>i<n. pskid_work (f i))"
proof -
  have "(\<Sum>i\<in>{..<n} - {k}. pskid_work ((f(k := c)) i)) = (\<Sum>i\<in>{..<n} - {k}. pskid_work (f i))"
    by (rule sum.cong) auto
  then show ?thesis
    using sum.remove [of "{..<n}" k "\<lambda>i. pskid_work ((f(k := c)) i)"] sum.remove [of "{..<n}" k "\<lambda>i. pskid_work (f i)"] assms
    by simp
qed

lemma ps_kid_upd:
  assumes "ps_inv num n s" "ypc s \<notin> {Y_Ready, Y_Exit, Y_Failed}" "k < n" "kid s k \<noteq> Z_None" "c \<noteq> Z_None"
    and "set (events s) \<subseteq> set es" "Ready_to_go \<notin> set es" "num k \<longrightarrow> Closing (k + 1) \<in> set es"
  shows "ps_inv num n (s\<lparr>events := es, kid := (kid s)(k := c)\<rparr>)"
  using assms by (simp add: ps_inv_def subset_iff)

lemma ps_child_ok:
  assumes "ps_inv num n s" "\<not> ps_over s" "k < n"
  shows "pred_option (\<lambda>t. ps_inv num n t \<and> ps_work n t < ps_work n s) (ps_child_next num k s)"
proof (cases "holds_write (kid s k)")
  case True
  then have k: "kid s k \<noteq> Z_None" "kid s k \<noteq> Z_Closed" by auto
  have r: "Ready_to_go \<notin> set (events s)" "kid s k = Z_Closing \<and> num k \<longrightarrow> Closing (k + 1) \<in> set (events s)"
    using assms by (auto simp: ps_inv_def ps_over_def)
  have y: "ypc s \<notin> {Y_Ready, Y_Exit, Y_Failed}" using assms k by (auto simp: ps_inv_def ps_over_def)
  note upd = ps_kid_upd [OF assms(1) y assms(3) k(1)]
  have e: "s\<lparr>events := events s, kid := x\<rparr> = s\<lparr>kid := x\<rparr>" for x by (cases s) simp
  show ?thesis
  proof (cases "kid s k")
    case Z_Sleep
    with r upd [of Z_Closed "events s"] upd [of Z_Closing "events s @ [Closing (k + 1)]"]
      pskid_work_upd [OF assms(3), of Z_Closing "kid s"] pskid_work_upd [OF assms(3), of Z_Closed "kid s"]
    show ?thesis by (cases "num k") (simp_all add: ps_child_next_def ps_work_def e subset_insertI del: fun_upd_apply)
  next
    case Z_Closing
    with r upd [of Z_Closed "events s"] pskid_work_upd [OF assms(3), of Z_Closed "kid s"]
    show ?thesis by (simp add: ps_child_next_def ps_work_def e del: fun_upd_apply)
  qed (use k in simp_all)
qed (cases "kid s k"; simp add: ps_child_next_def)

lemma ps_parent_ok:
  assumes "ps_inv num n s" "\<not> ps_over s"
  shows "pred_option (\<lambda>t. ps_inv num n t \<and> ps_work n t < ps_work n s) (ps_parent_next n ok s)"
proof (cases "ypc s")
  case (Y_Fork j)
  show ?thesis
  proof (cases "j < n \<and> ok")
    case True
    then have "kid s j = Z_None" using assms Y_Fork by (auto simp: ps_inv_def ps_over_def)
    then show ?thesis
      using True assms Y_Fork pskid_work_upd [of j n Z_Sleep "kid s"]
      by (auto simp: ps_parent_next_def ps_inv_def ps_over_def ps_work_def less_Suc_eq simp del: fun_upd_apply) (auto split: if_splits)
  next
    case False
    then show ?thesis
      using assms Y_Fork by (auto simp: ps_parent_next_def ps_inv_def ps_over_def ps_work_def)
  qed
next
  case Y_Read
  show ?thesis
  proof (cases "\<not> hasw s \<and> (\<forall>k<n. \<not> holds_write (kid s k))")
    case True
    then have "\<forall>k<n. kid s k = Z_Closed"
      using assms(1) Y_Read by (auto simp: ps_inv_def) (metis holds_write.simps(1,2) ps_child.exhaust)
    with True assms Y_Read show ?thesis
      by (simp add: ps_parent_next_def ps_inv_def ps_work_def)
  next
    case False
    with Y_Read have "ps_parent_next n ok s = None" by (auto simp: ps_parent_next_def)
    then show ?thesis by simp
  qed
qed (use assms in \<open>auto simp: ps_parent_next_def ps_inv_def ps_over_def ps_work_def\<close>)

interpretation ps_run: live_system "ps_step num n" "ps_inv num n" "ps_work n" ps_over
  for num n
proof
  fix s t assume a: "ps_inv num n s" "ps_step num n s t"
  then have o: "\<not> ps_over s" by (simp add: ps_step_def)
  from a(2) consider ok where "ps_parent_next n ok s = Some t" | k where "k < n" "ps_child_next num k s = Some t"
    by (auto simp: ps_step_def)
  then have "ps_inv num n t \<and> ps_work n t < ps_work n s"
  proof cases
    case (1 ok)
    with ps_parent_ok [OF a(1) o, of ok] show ?thesis by simp
  next
    case (2 k)
    with ps_child_ok [OF a(1) o, of k] show ?thesis by simp
  qed
  then show "ps_inv num n t" "ps_work n t < ps_work n s" by blast+
next
  fix s assume a: "ps_inv num n s" "\<not> ps_over s"
  show "\<exists>t. ps_step num n s t"
  proof (cases "\<exists>k<n. holds_write (kid s k)")
    case True
    then obtain k where "k < n" "holds_write (kid s k)" by blast
    then have "k < n" "\<exists>t. ps_child_next num k s = Some t" by (cases "kid s k"; simp add: ps_child_next_def)+
    then show ?thesis using a(2) unfolding ps_step_def by blast
  next
    case False
    with a have "\<exists>t. ps_parent_next n True s = Some t"
      by (cases "ypc s") (auto simp: ps_parent_next_def ps_inv_def ps_over_def)
    then show ?thesis using a(2) unfolding ps_step_def by blast
  qed
qed

text \<open>\<open>main\<close> up to the loop: which arguments \<open>getInt\<close> takes, how many there are, and the first state.\<close>

definition pipe_sync_main :: "string list \<Rightarrow> errno option \<Rightarrow> failure + (nat \<Rightarrow> bool) \<times> nat \<times> ps" where
  "pipe_sync_main argv perr =
     (if length argv < 2 \<or> argv ! 1 = ''--help'' then Inl (UsageErr ''%s sleep-time...'')
      else case perr of
        Some e \<Rightarrow> Inl (ErrExit ''pipe'' e)
      | None \<Rightarrow>
          Inr (\<lambda>k. \<not> isl (getInt (Some (argv ! (k + 1))) GN_NONNEG (Some ''sleep-time'')), length argv - 1, ps_start))"

section \<open>What comes out\<close>

lemma change_case_starts:
  assumes "change_case_main None None None bs ie = Inr s" "\<forall>b\<in>set bs. b \<noteq> [] \<and> length b \<le> CC_BUF"
  shows "cc_inv (concat bs) s"
  using assms by (auto simp: change_case_main_def cc_inv_def cc_shape_def cc_data_def)

lemma simple_pipe_starts: "simple_pipe_main [p, str] None None = Inr s \<Longrightarrow> sp_inv str s"
  by (auto simp: simple_pipe_main_def sp_inv_def sp_data_def split: if_splits)

lemma pipe_sync_starts: "pipe_sync_main argv None = Inr (num, n, v0) \<Longrightarrow> ps_inv num n v0"
  by (auto simp: pipe_sync_main_def ps_inv_def ps_start_def split: if_splits)



end
