(* ===== verification/Bench.thy ===== *)
theory Bench
  imports FileTools "HOL-Library.Multiset"
begin

text \<open>
  \<open>14-file-systems/benchmarkwrites.c\<close>: the program that creates many files in a directory, in order or
  shuffled, and removes them in order. The times it takes are not modelled. A value \<open>None\<close> stands for
  writing outside an array.
\<close>

section \<open>shuffle\<close>

abbreviation (input) RAND_MAX :: nat where "RAND_MAX \<equiv> 2147483647"

text \<open>\<open>rnd i\<close> is what the call of \<open>rand\<close> in round \<open>i\<close> returns.\<close>

function shuffle_loop :: "(nat \<Rightarrow> nat) \<Rightarrow> nat \<Rightarrow> nat \<Rightarrow> nat list \<Rightarrow> nat list option" where
  "shuffle_loop rnd n i a =
     (if i < n - 1
      then let j = i + rnd i div (RAND_MAX div (n - i) + 1)
           in if i < length a \<and> j < length a then shuffle_loop rnd n (i + 1) (a[j := a ! i, i := a ! j]) else None
      else Some a)"
  by auto
termination by (relation "measure (\<lambda>(rnd, n, i, a). n - i)") auto

declare shuffle_loop.simps [simp del]

definition shuffle :: "(nat \<Rightarrow> nat) \<Rightarrow> nat list \<Rightarrow> nat \<Rightarrow> nat list option" where
  "shuffle rnd a n = (if 1 < n then shuffle_loop rnd n 0 a else Some a)"

lemma rand_index:
  assumes "r \<le> M" "0 < (m :: nat)"
  shows "r div (M div m + 1) < m"
proof -
  have "M < m * (M div m) + m"
    using assms(2) mod_less_divisor [of m M] mult_div_mod_eq [of m M] by linarith
  with assms(1) show ?thesis by (intro less_mult_imp_div_less) simp
qed

lemma shuffle_loop_ok:
  assumes "\<And>i. rnd i \<le> RAND_MAX" "length a = n"
  shows "\<exists>b. shuffle_loop rnd n i a = Some b \<and> mset b = mset a"
  using assms
proof (induction rnd n i a rule: shuffle_loop.induct)
  case (1 rnd n i a)
  define j where "j = i + rnd i div (RAND_MAX div (n - i) + 1)"
  show ?case
  proof (cases "i < n - 1")
    case True
    have "rnd i div (RAND_MAX div (n - i) + 1) < n - i" using rand_index [OF "1.prems"(1) [of i], of "n - i"] True by linarith
    then have j: "j < n" by (simp add: j_def)
    have i: "i < length a" "j < length a" using True j "1.prems"(2) by auto
    have "shuffle_loop rnd n i a = shuffle_loop rnd n (i + 1) (a[j := a ! i, i := a ! j])"
      using True i by (simp add: shuffle_loop.simps [of _ _ i] j_def Let_def)
    moreover have "\<exists>b. shuffle_loop rnd n (i + 1) (a[j := a ! i, i := a ! j]) = Some b \<and>
        mset b = mset (a[j := a ! i, i := a ! j])"
      using "1.IH" [OF True j_def] "1.prems" i by simp
    moreover have "mset (a[j := a ! i, i := a ! j]) = mset a"
      by (rule mset_swap [OF i])
    ultimately show ?thesis by simp
  qed (simp add: shuffle_loop.simps)
qed

lemma shuffle_permutes:
  "\<lbrakk>\<And>i. rnd i \<le> RAND_MAX; length a = n\<rbrakk> \<Longrightarrow> \<exists>b. shuffle rnd a n = Some b \<and> mset b = mset a"
  using shuffle_loop_ok by (auto simp: shuffle_def)

section \<open>The program\<close>

text \<open>
  The files and descriptors, the directories, and the errors of \<open>mkdir\<close> and \<open>unlink\<close>, if any.
\<close>

record bworld =
  krn :: kernel
  dirs :: "string \<Rightarrow> bool"
  nomkdir :: "string \<rightharpoonup> errno"
  nounlink :: "string \<rightharpoonup> errno"

definition sys_unlink :: "(string \<rightharpoonup> errno) \<Rightarrow> string \<Rightarrow> kernel \<Rightarrow> unit result \<times> kernel" where
  "sys_unlink no p k =
     (case no p of
        Some e \<Rightarrow> (Inl e, k)
      | None \<Rightarrow> (case dir k p of None \<Rightarrow> (Inl ENOENT, k) | Some _ \<Rightarrow> (Inr (), k\<lparr>dir := (dir k)(p := None)\<rparr>)))"

text \<open>The ends of the program: all but the last with status 1.\<close>

datatype bench_end =
    Invalid_options | No_memory | No_mkdir string | Not_directory string | No_open string | No_unlink string
  | Finished int bool

definition bench_status :: "bench_end \<Rightarrow> int" where
  "bench_status e = (case e of Finished _ _ \<Rightarrow> 0 | _ \<Rightarrow> 1)"

record bench_opts =
  number_files :: int
  randomize :: bool
  dirname :: string

definition bench_spec :: "char \<Rightarrow> bool option" where
  "bench_spec c = (if c = CHR ''n'' then Some True else if c = CHR ''r'' then Some False else None)"

fun bench_options_loop :: "(char \<times> string) list \<Rightarrow> bench_opts \<Rightarrow> bench_opts option" where
  "bench_options_loop [] b = Some b"
| "bench_options_loop ((c, optarg) # es) b =
     (if c = CHR ''n'' then bench_options_loop es (b\<lparr>number_files := atoi optarg\<rparr>)
      else if c = CHR ''r'' then bench_options_loop es (b\<lparr>randomize := True\<rparr>)
      else None)"

text \<open>The array \<open>dirname\<close> has 1028 characters, \<open>filepath\<close> 1024.\<close>

definition bench_parse_options :: "string list \<Rightarrow> (bench_end + bench_opts) option" where
  "bench_parse_options args =
     (case getopt bench_spec args of
        (es, ops) \<Rightarrow>
          (case bench_options_loop es \<lparr>number_files = 10000, randomize = False, dirname = []\<rparr> of
             None \<Rightarrow> Some (Inl Invalid_options)
           | Some b \<Rightarrow>
               if length ops \<noteq> 1 then Some (Inl Invalid_options)
               else if length (hd ops) < 1028 then Some (Inr (b\<lparr>dirname := hd ops\<rparr>)) else None))"

definition bench_path :: "string \<Rightarrow> nat \<Rightarrow> string" where
  "bench_path d x = d @ ''/x'' @ replicate (6 - length (show_nat x)) CHR ''0'' @ show_nat x"

fun bench_create :: "string \<Rightarrow> nat list \<Rightarrow> kernel \<Rightarrow> (bench_end option \<times> kernel) option" where
  "bench_create d [] k = Some (None, k)"
| "bench_create d (x # xs) k =
     (if length (bench_path d x) < 1024
      then (case sys_open (bench_path d x) [O_RDONLY, O_CREAT] k of
              (Inl e, k1) \<Rightarrow> Some (Some (No_open (bench_path d x)), k1)
            | (Inr fd, k1) \<Rightarrow>
                (case sys_write fd k1 ''z'' of
                   (_, k2) \<Rightarrow> (case sys_close fd k2 of (_, k3) \<Rightarrow> bench_create d xs k3)))
      else None)"

fun bench_delete :: "(string \<rightharpoonup> errno) \<Rightarrow> string \<Rightarrow> nat list \<Rightarrow> kernel \<Rightarrow> (bench_end option \<times> kernel) option" where
  "bench_delete no d [] k = Some (None, k)"
| "bench_delete no d (x # xs) k =
     (if length (bench_path d x) < 1024
      then (case sys_unlink no (bench_path d x) k of
              (Inl e, k1) \<Rightarrow> Some (Some (No_unlink (bench_path d x)), k1)
            | (Inr _, k1) \<Rightarrow> bench_delete no d xs k1)
      else None)"

text \<open>
  \<open>stat\<close>, and \<open>mkdir\<close> where it fails. \<open>alloc\<close> says which sizes \<open>malloc\<close> can provide; the product of the size of an \<open>int\<close>
  and \<open>number_files\<close> is computed in \<open>size_t\<close>.
\<close>

definition bench_directory :: "string \<Rightarrow> bworld \<Rightarrow> bench_end option \<times> bworld" where
  "bench_directory d w =
     (if dirs w d then (None, w)
      else if dir (krn w) d \<noteq> None then (Some (Not_directory d), w)
      else case nomkdir w d of
        Some e \<Rightarrow> (Some (No_mkdir d), w)
      | None \<Rightarrow> (None, w\<lparr>dirs := (dirs w)(d := True)\<rparr>))"

definition runbenchmark :: "(int \<Rightarrow> bool) \<Rightarrow> (nat \<Rightarrow> nat) \<Rightarrow> bench_opts \<Rightarrow> bworld \<Rightarrow> (bench_end \<times> bworld) option" where
  "runbenchmark alloc rnd b w =
     (if \<not> alloc (4 * number_files b mod 2 ^ 64) then Some (No_memory, w)
      else case bench_directory (dirname b) w of
        (Some e, w1) \<Rightarrow> Some (e, w1)
      | (None, w1) \<Rightarrow>
          (let ordered = [0..<nat (number_files b)]
           in case (if randomize b then shuffle rnd ordered (nat (number_files b mod 2 ^ 64)) else Some ordered) of
                None \<Rightarrow> None
              | Some numbers \<Rightarrow>
                  (case bench_create (dirname b) numbers (krn w1) of
                     None \<Rightarrow> None
                   | Some (Some e, k) \<Rightarrow> Some (e, w1\<lparr>krn := k\<rparr>)
                   | Some (None, k) \<Rightarrow>
                       (case bench_delete (nounlink w1) (dirname b) ordered k of
                          None \<Rightarrow> None
                        | Some (Some e, k') \<Rightarrow> Some (e, w1\<lparr>krn := k'\<rparr>)
                        | Some (None, k') \<Rightarrow> Some (Finished (number_files b) (randomize b), w1\<lparr>krn := k'\<rparr>)))))"

definition bench_main :: "(int \<Rightarrow> bool) \<Rightarrow> (nat \<Rightarrow> nat) \<Rightarrow> string list \<Rightarrow> bworld \<Rightarrow> (bench_end \<times> bworld) option" where
  "bench_main alloc rnd argv w =
     (case bench_parse_options (tl argv) of
        None \<Rightarrow> None
      | Some (Inl e) \<Rightarrow> Some (e, w)
      | Some (Inr b) \<Rightarrow> runbenchmark alloc rnd b w)"

section \<open>Names\<close>

lemma strtol_value_zeros: "strtol_value 10 (replicate m CHR ''0'' @ s) = strtol_value 10 s"
proof (induction m)
  case (Suc m)
  then show ?case by (simp add: strtol_value_def digit_val_def)
qed simp

lemma bench_path_inj: "bench_path d x = bench_path d y \<longleftrightarrow> x = y"
proof
  assume "bench_path d x = bench_path d y"
  then have "strtol_value 10 (replicate (6 - length (show_nat x)) CHR ''0'' @ show_nat x) =
      strtol_value 10 (replicate (6 - length (show_nat y)) CHR ''0'' @ show_nat y)"
    by (simp add: bench_path_def)
  then show "x = y" unfolding strtol_value_zeros strtol_value_show_nat .
qed simp

lemma bench_path_length: "x < 1000000 \<Longrightarrow> length (bench_path d x) = length d + 8"
  using show_nat_length [of x 5] by (simp add: bench_path_def)

section \<open>Creating and deleting\<close>

text \<open>
  The access mode of a descriptor from \<open>open\<close> with \<open>O_CREAT\<close> alone is \<open>O_RDONLY\<close>: the one byte cannot be
  written.
\<close>

definition created_from :: "kernel \<Rightarrow> string set \<Rightarrow> kernel \<Rightarrow> bool" where
  "created_from k ps k' \<longleftrightarrow>
     wf_kernel k' \<and> fdt k' = fdt k \<and> denied k' = denied k \<and> inodes k \<le> inodes k' \<and>
     (\<forall>p. p \<notin> ps \<longrightarrow> dir k' p = dir k p) \<and> (\<forall>i<inodes k. bytes k' i = bytes k i) \<and>
     (\<forall>p\<in>ps. \<exists>i. dir k' p = Some i \<and> i < inodes k' \<and> bytes k' i = (case dir k p of None \<Rightarrow> [] | Some j \<Rightarrow> bytes k j))"

lemma created_from_refl: "wf_kernel k \<Longrightarrow> created_from k {} k"
  by (simp add: created_from_def)

lemma created_from_trans:
  assumes "created_from k {p} k1" "created_from k1 ps k2" "wf_kernel k"
  shows "created_from k (insert p ps) k2"
proof -
  have old: "j < inodes k" if "dir k q = Some j" for q j
    using that assms(3) by (auto simp: wf_kernel_def ran_def)
  have "\<exists>i. dir k2 q = Some i \<and> i < inodes k2 \<and> bytes k2 i = (case dir k q of None \<Rightarrow> [] | Some j \<Rightarrow> bytes k j)"
    if q: "q \<in> insert p ps" for q
  proof (cases "q = p")
    case True
    then obtain i where i: "dir k1 q = Some i" "i < inodes k1"
        "bytes k1 i = (case dir k q of None \<Rightarrow> [] | Some j \<Rightarrow> bytes k j)"
      using assms(1) by (auto simp: created_from_def)
    show ?thesis
    proof (cases "q \<in> ps")
      case True
      with i assms(2) show ?thesis by (fastforce simp: created_from_def)
    next
      case False
      with i assms(2) show ?thesis by (auto simp: created_from_def)
    qed
  next
    case False
    then have "dir k1 q = dir k q" using assms(1) by (simp add: created_from_def)
    moreover have "\<forall>j. dir k q = Some j \<longrightarrow> bytes k1 j = bytes k j" using assms(1) old by (auto simp: created_from_def)
    ultimately show ?thesis using assms(2) q False by (fastforce simp: created_from_def split: option.splits)
  qed
  then show ?thesis using assms(1,2) by (auto simp: created_from_def)
qed

lemma create_one:
  assumes "wf_kernel k" "0 < free_fds k" "denied k p = None"
  obtains fd k1 where "sys_open p [O_RDONLY, O_CREAT] k = (Inr fd, k1)" "sys_write fd k1 bs = (Inl EBADF, k1)"
    "created_from k {p} (snd (sys_close fd k1))"
proof -
  obtain fd k1 where o: "sys_open p [O_RDONLY, O_CREAT] k = (Inr fd, k1)" "opened k p [O_RDONLY, O_CREAT] fd k1"
    using sys_open_ok [of k p "[O_RDONLY, O_CREAT]"] assms by auto
  have g: "of_get k1 fd = Some (new_open_file (open_ino k p) [O_RDONLY, O_CREAT])" by (rule opened_get [OF o(2)])
  then have w: "sys_write fd k1 bs = (Inl EBADF, k1)" by (simp add: sys_write_def new_open_file_def)
  have d: "fd_get k1 fd = Some \<lparr>fd_of = length (oft k), fd_cloexec = False\<rparr>" using o(2) by (auto simp: opened_def fd_get_def)
  then have c: "snd (sys_close fd k1) = k1\<lparr>fdt := fdt k\<rparr>"
    using opened_close [OF o(2)] by (simp add: sys_close_def)
  have wf: "wf_kernel (k1\<lparr>fdt := fdt k\<rparr>)"
    using opened_wf [OF assms(1) o(2)] assms(1) o(2) by (auto simp: wf_kernel_def opened_def intro: less_SucI)
  have ino: "open_ino k p < inodes k1" "inodes k \<le> inodes k1" "open_ino k p < inodes k \<longleftrightarrow> dir k p \<noteq> None"
    using assms(1) o(2) by (auto simp: wf_kernel_def open_ino_def opened_def ran_def split: option.splits)
  have "created_from k {p} (snd (sys_close fd k1))"
    unfolding c created_from_def
    using o(2) wf ino opened_bytes(1) [OF o(2)] by (auto simp: opened_def)
  with o(1) w that show thesis by blast
qed

lemma bench_create_ok:
  assumes "wf_kernel k" "0 < free_fds k" "\<forall>x\<in>set xs. denied k (bench_path d x) = None \<and> length (bench_path d x) < 1024"
  shows "\<exists>k'. bench_create d xs k = Some (None, k') \<and> created_from k (bench_path d ` set xs) k'"
  using assms
proof (induction xs arbitrary: k)
  case (Cons x xs)
  obtain fd k1 where o: "sys_open (bench_path d x) [O_RDONLY, O_CREAT] k = (Inr fd, k1)"
      "sys_write fd k1 ''z'' = (Inl EBADF, k1)" and c: "created_from k {bench_path d x} (snd (sys_close fd k1))"
    using create_one [of k "bench_path d x"] Cons.prems by auto
  obtain k2 where k2: "snd (sys_close fd k1) = k2" by blast
  have "\<exists>k'. bench_create d xs k2 = Some (None, k') \<and> created_from k2 (bench_path d ` set xs) k'"
    using c Cons.prems unfolding k2 by (intro Cons.IH) (auto simp: created_from_def free_fds_def)
  then obtain k' where "bench_create d xs k2 = Some (None, k')" "created_from k2 (bench_path d ` set xs) k'" by blast
  with o created_from_trans [OF c [unfolded k2] _ Cons.prems(1)] Cons.prems(3) k2
  show ?case by (cases "sys_close fd k1") simp
qed (simp add: created_from_refl)

lemma bench_delete_ok:
  assumes "distinct xs" "\<forall>x\<in>set xs. no (bench_path d x) = None \<and> length (bench_path d x) < 1024 \<and> dir k (bench_path d x) \<noteq> None"
  shows "bench_delete no d xs k = Some (None, k\<lparr>dir := dir k |` (- bench_path d ` set xs)\<rparr>)"
  using assms
proof (induction xs arbitrary: k)
  case (Cons x xs)
  let ?k = "k\<lparr>dir := (dir k)(bench_path d x := None)\<rparr>"
  have u: "sys_unlink no (bench_path d x) k = (Inr (), ?k)"
    using Cons.prems by (auto simp: sys_unlink_def)
  have r: "dir ?k |` (- bench_path d ` set xs) = dir k |` (- bench_path d ` set (x # xs))"
    by (auto simp: restrict_map_def fun_eq_iff)
  have "bench_delete no d xs ?k = Some (None, ?k\<lparr>dir := dir ?k |` (- bench_path d ` set xs)\<rparr>)"
    using Cons.prems by (intro Cons.IH) (auto simp: bench_path_inj)
  then show ?case using u Cons.prems(2) unfolding r by simp
qed (simp add: restrict_map_def)

section \<open>What the program leaves\<close>

lemma bench_options:
  assumes "operand d" "INT_MIN \<le> z" "z \<le> INT_MAX" "args = (if r then [''-r''] else []) @ [''-n'', show_int z, d]"
  shows "bench_parse_options args =
    (if length d < 1028 then Some (Inr \<lparr>number_files = z, randomize = r, dirname = d\<rparr>) else None)"
proof -
  have "getopt bench_spec args = ((if r then [(CHR ''r'', [])] else []) @ [(CHR ''n'', show_int z)], [d])"
    using assms(1,4) by (simp add: bench_spec_def cstr_simps del: getopt.simps(2))
  then show ?thesis using assms(2,3) by (auto simp: bench_parse_options_def atoi_show_int)
qed

definition bench_numbers :: "(nat \<Rightarrow> nat) \<Rightarrow> bool \<Rightarrow> nat \<Rightarrow> nat list option" where
  "bench_numbers rnd r n = (if r then shuffle rnd [0..<n] n else Some [0..<n])"

lemma bench_numbers_ok:
  assumes "\<And>i. rnd i \<le> RAND_MAX"
  obtains ns where "bench_numbers rnd r n = Some ns" "mset ns = mset [0..<n]" "set ns = {..<n}"
proof -
  obtain ns where ns: "bench_numbers rnd r n = Some ns" "mset ns = mset [0..<n]"
    using shuffle_permutes [of rnd "[0..<n]" n] assms by (cases r) (auto simp: bench_numbers_def)
  from mset_eq_setD [OF ns(2)] have "set ns = {..<n}" by (simp add: atLeast0LessThan)
  with ns show thesis by (rule that)
qed

definition directory_ok :: "string \<Rightarrow> bworld \<Rightarrow> bool" where
  "directory_ok d w \<longleftrightarrow> dirs w d \<or> dir (krn w) d = None \<and> nomkdir w d = None"

lemma bench_directory_ok: "directory_ok d w \<Longrightarrow> bench_directory d w = (None, w\<lparr>dirs := (dirs w)(d := True)\<rparr>)"
  by (auto simp: directory_ok_def bench_directory_def fun_upd_idem)

lemma runbenchmark_steps:
  assumes "int n \<le> INT_MAX" "alloc (4 * int n)" "directory_ok d w" "bench_numbers rnd r n = Some ns"
  shows "runbenchmark alloc rnd \<lparr>number_files = int n, randomize = r, dirname = d\<rparr> w =
    (let w1 = w\<lparr>dirs := (dirs w)(d := True)\<rparr> in
     case bench_create d ns (krn w) of
       None \<Rightarrow> None
     | Some (Some e, k) \<Rightarrow> Some (e, w1\<lparr>krn := k\<rparr>)
     | Some (None, k) \<Rightarrow>
         (case bench_delete (nounlink w) d [0..<n] k of
            None \<Rightarrow> None
          | Some (Some e, k') \<Rightarrow> Some (e, w1\<lparr>krn := k'\<rparr>)
          | Some (None, k') \<Rightarrow> Some (Finished (int n) r, w1\<lparr>krn := k'\<rparr>)))"
proof -
  have m: "4 * int n mod 2 ^ 64 = 4 * int n" "nat (int n mod 2 ^ 64) = n" using assms(1) by simp_all
  have w: "krn (w\<lparr>dirs := x\<rparr>) = krn w" "nounlink (w\<lparr>dirs := x\<rparr>) = nounlink w" for x by simp_all
  show ?thesis
    unfolding runbenchmark_def bench_opts.simps m nat_int bench_directory_ok [OF assms(3)] Let_def
      assms(4) [unfolded bench_numbers_def]
    by (simp only: assms(2) if_True if_False not_True_eq_False prod.case option.case w)
qed

lemma bench_main_steps:
  assumes "operand d" "INT_MIN \<le> z" "z \<le> INT_MAX" "args = (if r then [''-r''] else []) @ [''-n'', show_int z, d]"
  shows "bench_main alloc rnd (prog # args) w =
    (if length d < 1028 then runbenchmark alloc rnd \<lparr>number_files = z, randomize = r, dirname = d\<rparr> w else None)"
  using bench_options [OF assms] by (simp add: bench_main_def)

lemma bench_overflow:
  assumes "ns \<noteq> []" "\<forall>x\<in>set ns. x < 1000000" "1016 \<le> length d"
  shows "bench_create d ns k = None"
  using assms by (cases ns) (auto simp: bench_path_length)

lemma bench_loops:
  assumes "wf_kernel k0" "0 < free_fds k0" "set ns = {..<n}" "n \<le> 1000000" "length d < 1016"
    and "\<forall>x<n. denied k0 (bench_path d x) = None \<and> no (bench_path d x) = None"
  obtains k where "bench_create d ns k0 = Some (None, k)" "created_from k0 (bench_path d ` {..<n}) k"
    "bench_delete no d [0..<n] k = Some (None, k\<lparr>dir := dir k0 |` (- bench_path d ` {..<n})\<rparr>)"
proof -
  have short: "length (bench_path d x) < 1024" if "x < n" for x
    using that assms(4,5) by (simp add: bench_path_length)
  then have "\<forall>x\<in>set ns. denied k0 (bench_path d x) = None \<and> length (bench_path d x) < 1024"
    using assms(3,6) by simp
  from bench_create_ok [OF assms(1,2) this] obtain k where k: "bench_create d ns k0 = Some (None, k)"
      "created_from k0 (bench_path d ` {..<n}) k"
    unfolding assms(3) by blast
  have "\<forall>x\<in>set [0..<n]. no (bench_path d x) = None \<and> length (bench_path d x) < 1024 \<and> dir k (bench_path d x) \<noteq> None"
    using short assms(6) k(2) by (fastforce simp: created_from_def)
  from bench_delete_ok [OF _ this]
  have "bench_delete no d [0..<n] k = Some (None, k\<lparr>dir := dir k |` (- bench_path d ` {..<n})\<rparr>)"
    by (simp add: atLeast0LessThan)
  moreover have "dir k |` (- bench_path d ` {..<n}) = dir k0 |` (- bench_path d ` {..<n})"
    using k(2) by (auto simp: created_from_def restrict_map_def fun_eq_iff)
  ultimately show thesis using k that by simp
qed

text \<open>
  C16: A run of benchmarkwrites for up to a million files, in order or shuffled, in a directory that exists or can be made, with a path that fits,
  creates exactly the files with these numbers, for every result of \<open>rand\<close>, removes them and ends with status 0; it leaves all other files, the
  contents of all files and the descriptors as they were, but files that had these names before are gone. The files that are
  created never get their byte: a new one is empty, an old one keeps its content. A path too long for the
  program's arrays leaves them; a negative number of files ends in the message on memory, if \<open>malloc\<close> refuses sizes above \<open>PTRDIFF_MAX\<close>.
\<close>

theorem benchmark_correct:
  assumes "wf_kernel (krn w)" "0 < free_fds (krn w)" "\<And>i. rnd i \<le> RAND_MAX" "operand d" "0 < n" "n \<le> 1000000"
    and "\<And>m. alloc m \<Longrightarrow> m \<le> LONG_MAX" "alloc (4 * int n)" "directory_ok d w"
    and "\<forall>x<n. denied (krn w) (bench_path d x) = None \<and> nounlink w (bench_path d x) = None"
    and "args = (if r then [''-r''] else []) @ [''-n'', show_int (int n), d]"
  shows "(if length d < 1016
    then \<exists>w' ns k. bench_main alloc rnd (prog # args) w = Some (Finished (int n) r, w') \<and>
      dirs w' = (dirs w)(d := True) \<and> dir (krn w') = dir (krn w) |` (- bench_path d ` {..<n}) \<and>
      fdt (krn w') = fdt (krn w) \<and> (\<forall>i<inodes (krn w). bytes (krn w') i = bytes (krn w) i) \<and>
      bench_numbers rnd r n = Some ns \<and> mset ns = mset [0..<n] \<and> bench_create d ns (krn w) = Some (None, k) \<and>
      (\<forall>x<n. \<exists>i. dir k (bench_path d x) = Some i \<and>
        bytes k i = (case dir (krn w) (bench_path d x) of None \<Rightarrow> [] | Some j \<Rightarrow> bytes (krn w) j))
    else bench_main alloc rnd (prog # args) w = None) \<and>
    (INT_MIN \<le> z \<and> z < 0 \<and> length d < 1028 \<longrightarrow>
      bench_main alloc rnd [prog, ''-n'', show_int z, d] w = Some (No_memory, w))" (is "?runs \<and> ?negative")
proof (rule conjI)
  obtain ns where ns: "bench_numbers rnd r n = Some ns" "mset ns = mset [0..<n]" "set ns = {..<n}"
    using bench_numbers_ok [OF assms(3)] .
  have n: "INT_MIN \<le> int n" "int n \<le> INT_MAX" using assms(6) by simp_all
  have "\<forall>x\<in>set ns. x < n" "0 \<in> set ns" unfolding ns(3) using assms(5) by simp_all
  then have small: "\<forall>x\<in>set ns. x < 1000000" "ns \<noteq> []" using less_le_trans [OF _ assms(6)] by (simp, cases ns) simp_all
  note run = bench_main_steps [OF assms(4) n assms(11), of alloc rnd prog w]
    runbenchmark_steps [where alloc = alloc, OF n(2) assms(8,9) ns(1), unfolded Let_def]
  show ?runs
  proof (cases "length d < 1016")
    case True
    obtain k where k: "bench_create d ns (krn w) = Some (None, k)" "created_from (krn w) (bench_path d ` {..<n}) k"
      and del: "bench_delete (nounlink w) d [0..<n] k = Some (None, k\<lparr>dir := dir (krn w) |` (- bench_path d ` {..<n})\<rparr>)"
      using bench_loops [OF assms(1,2) ns(3) assms(6) True assms(10)] .
    let ?w = "w\<lparr>dirs := (dirs w)(d := True), krn := k\<lparr>dir := dir (krn w) |` (- bench_path d ` {..<n})\<rparr>\<rparr>"
    have "bench_main alloc rnd (prog # args) w = Some (Finished (int n) r, ?w)"
      using True by (simp add: run k(1) del)
    moreover have "\<forall>x<n. \<exists>i. dir k (bench_path d x) = Some i \<and>
        bytes k i = (case dir (krn w) (bench_path d x) of None \<Rightarrow> [] | Some j \<Rightarrow> bytes (krn w) j)"
      using k(2) by (fastforce simp: created_from_def)
    ultimately show ?thesis
      unfolding if_P [OF True] using ns(1,2) k
      by (intro exI [of _ ?w] exI [of _ ns] exI [of _ k]) (simp add: created_from_def)
  next
    case False
    then show ?thesis using bench_overflow [OF small(2,1), of d "krn w"] by (simp add: run)
  qed
next
  have "\<not> alloc (4 * z mod 2 ^ 64)" if "INT_MIN \<le> z" "z < 0"
  proof -
    have "4 * z mod 2 ^ 64 = (4 * z + 2 ^ 64) mod 2 ^ 64" by (rule mod_add_self2 [symmetric])
    also have "\<dots> = 4 * z + 2 ^ 64" using that by (intro mod_pos_pos_trivial) simp_all
    finally show ?thesis using assms(7) [of "4 * z + 2 ^ 64"] that by auto
  qed
  then show ?negative
    using bench_main_steps [of d z _ False alloc rnd prog w] assms(4) by (simp add: runbenchmark_def)
qed

definition small_world :: bworld where
  "small_world = \<lparr>krn = small_kernel, dirs = (\<lambda>_. False), nomkdir = Map.empty, nounlink = Map.empty\<rparr>"

theorem benchmark_correct_witness:
  "\<exists>w'. bench_main (\<lambda>m. m \<le> 1000000) (\<lambda>_. 0) [''bench'', ''-r'', ''-n'', show_int 3, ''t''] small_world = Some (Finished 3 True, w') \<and>
     dirs w' ''t'' \<and> dir (krn w') = Map.empty"
proof -
  have k: "wf_kernel (krn small_world)" "0 < free_fds (krn small_world)"
    by (simp_all add: small_world_def small_kernel_def wf_kernel_def free_fds_def)
  have "operand ''t''" "directory_ok ''t'' small_world" by (simp_all add: operand_def directory_ok_def small_world_def small_kernel_def)
  with benchmark_correct [OF k, of "\<lambda>_. 0" "''t''" 3 "\<lambda>m. m \<le> 1000000" "[''-r'', ''-n'', show_int 3, ''t'']" True "''bench''", THEN conjunct1]
  show ?thesis by (auto simp: small_world_def small_kernel_def)
qed

end
