(* ===== verification/Exercises.thy ===== *)
theory Exercises
  imports FilePrograms Acl
begin

text \<open>
  Short solutions of exercises: \<open>04-file-io-universal-io-model/tee.c\<close>, \<open>05-file-io-further-details/append_seek.c\<close> and
  \<open>large_file.c\<close>, \<open>13-file-io-buffering/copy.c\<close> and \<open>17-access-control-lists/dispacl.c\<close>. The programs on descriptors use the calls of Files.
\<close>

section \<open>append\_seek and large\_file\<close>

definition append_seek_main :: "string list \<Rightarrow> kernel \<Rightarrow> int \<times> string \<times> kernel" where
  "append_seek_main argv k =
     (if length argv \<noteq> 2 then (1, ''Must specify a file (argument 1)'' @ [LF], k)
      else
        (let (r, k1) = sys_open (argv ! 1) [O_RDWR, O_APPEND] k;
             fd = ret r;
             (_, k2) = sys_lseek fd 0 SEEK_SET k1;
             (_, k3) = sys_write fd k2 (''Hello, world!'' @ [NUL]);
             (_, k4) = sys_close fd k3
         in (0, [], k4)))"

definition atoll :: "string \<Rightarrow> int" where
  "atoll s = fst (strtol s 10)"

definition large_file_main :: "string list \<Rightarrow> kernel \<Rightarrow> int \<times> string \<times> kernel" where
  "large_file_main argv k =
     (if length argv \<noteq> 3 \<or> argv ! 1 = ''--help'' then (1, argv ! 0 @ '' pathname offset'' @ [LF], k)
      else case sys_open (argv ! 1) [O_RDWR, O_CREAT] k of
        (Inl _, k1) \<Rightarrow> (1, ''open'' @ [LF], k1)
      | (Inr fd, k1) \<Rightarrow>
          (case sys_lseek fd (atoll (argv ! 2)) SEEK_SET k1 of
             (Inl _, k2) \<Rightarrow> (1, ''lseek'' @ [LF], k2)
           | (Inr _, k2) \<Rightarrow>
               (case sys_write fd k2 ''text'' of
                  (Inl _, k3) \<Rightarrow> (1, ''write'' @ [LF], k3)
                | (Inr _, k3) \<Rightarrow> (0, ''Success'' @ [LF], k3))))"

lemma sys_write_append:
  "\<lbrakk>of_get k fd = Some f; of_wr f; of_append f; length (bytes k (of_ino f)) + length bs \<le> fsize_max k\<rbrakk> \<Longrightarrow>
   sys_write fd k bs = (Inr (length bs),
     of_put fd (f\<lparr>of_pos := length (bytes k (of_ino f)) + length bs\<rparr>) (k\<lparr>bytes := (bytes k)(of_ino f := bytes k (of_ino f) @ bs)\<rparr>))"
  by (auto simp: sys_write_def Let_def)

lemma append_seek_existing:
  assumes "0 < free_fds k" "denied k p = None" "dir k p = Some i" "length (bytes k i) + 14 \<le> fsize_max k"
  shows "\<exists>k'. append_seek_main [prog, p] k = (0, [], k') \<and> dir k' = dir k \<and> fdt k' = fdt k \<and>
    bytes k' = (bytes k)(i := bytes k i @ ''Hello, world!'' @ [NUL])"
proof -
  let ?fl = "[O_RDWR, O_APPEND]"
  obtain fd k1 where o: "sys_open p ?fl k = (Inr fd, k1)" "opened k p ?fl fd k1"
    using sys_open_ok [of k p ?fl] assms by auto
  let ?f = "new_open_file i ?fl"
  have ino: "open_ino k p = i" using assms(3) by (simp add: open_ino_def)
  have g: "of_get k1 fd = Some ?f" using opened_get [OF o(2)] ino by simp
  have k1: "bytes k1 = bytes k" "dir k1 = dir k" "fsize_max k1 = fsize_max k"
    using o(2) assms(3) ino by (auto simp: opened_def fun_upd_idem)
  let ?bs = "''Hello, world!'' @ [NUL]"
  let ?k2 = "of_put fd (?f\<lparr>of_pos := 0\<rparr>) k1"
  have l: "sys_lseek fd 0 SEEK_SET k1 = (Inr 0, ?k2)" using sys_lseek_ok [OF g, of 0 0 SEEK_SET] by simp
  have "sys_write fd ?k2 ?bs = (Inr (length ?bs), of_put fd (?f\<lparr>of_pos := length (bytes k i) + length ?bs\<rparr>)
      (?k2\<lparr>bytes := (bytes k)(i := bytes k i @ ?bs)\<rparr>))"
    using sys_write_append [of ?k2 fd "?f\<lparr>of_pos := 0\<rparr>" ?bs] g k1 assms(4) by (simp add: new_open_file_def)
  moreover have "fd_get k1 fd = Some \<lparr>fd_of = length (oft k), fd_cloexec = False\<rparr>" using o(2) by (auto simp: opened_def fd_get_def)
  ultimately show ?thesis
    using o(1) l k1 opened_close [OF o(2)] by (simp add: append_seek_main_def ret_def sys_close_def)
qed

lemma append_seek_missing:
  "dir k p = None \<Longrightarrow> append_seek_main [prog, p] k = (0, [], k)"
  by (auto simp: append_seek_main_def sys_open_def ret_def sys_lseek_def sys_write_def sys_close_def of_get_def fd_get_def
      split: option.split)

lemma large_file_result:
  assumes "0 < free_fds k" "denied k p = None" "p \<noteq> ''--help''" "old = (case dir k p of None \<Rightarrow> [] | Some i \<Rightarrow> bytes k i)"
  shows "\<exists>k'. large_file_main [prog, p, s] k = (if 0 \<le> atoll s \<and> nat (atoll s) < fsize_max k then (0, ''Success'' @ [LF], k') else (1, if atoll s < 0 then ''lseek'' @ [LF] else ''write'' @ [LF], k')) \<and>
    dir k' = (dir k)(p \<mapsto> open_ino k p) \<and>
    bytes k' = (bytes k)(open_ino k p :=
      if 0 \<le> atoll s then write_at (nat (atoll s)) (take (fsize_max k - nat (atoll s)) ''text'') old else old)"
proof -
  let ?fl = "[O_RDWR, O_CREAT]"
  obtain fd k1 where o: "sys_open p ?fl k = (Inr fd, k1)" "opened k p ?fl fd k1"
    using sys_open_ok [of k p ?fl] assms by auto
  let ?f = "new_open_file (open_ino k p) ?fl"
  have g: "of_get k1 fd = Some ?f" by (rule opened_get [OF o(2)])
  have k1: "bytes k1 (open_ino k p) = old" "(bytes k1)(open_ino k p := x) = (bytes k)(open_ino k p := x)"
    "dir k1 = (dir k)(p \<mapsto> open_ino k p)" "fsize_max k1 = fsize_max k" for x
    using opened_bytes [OF o(2)] o(2) assms(4) by (simp_all add: opened_def)
  have k1': "bytes k1 = (bytes k)(open_ino k p := old)" using k1(1,2) by (metis fun_upd_triv)
  show ?thesis
  proof (cases "0 \<le> atoll s")
    case False
    then have "large_file_main [prog, p, s] k = (1, ''lseek'' @ [LF], k1)"
      using o(1) g assms(3) by (simp add: large_file_main_def sys_lseek_def)
    with False k1 k1' show ?thesis by simp
  next
    case True
    let ?k2 = "of_put fd (?f\<lparr>of_pos := nat (atoll s)\<rparr>) k1"
    have l: "sys_lseek fd (atoll s) SEEK_SET k1 = (Inr (atoll s), ?k2)"
      using sys_lseek_ok [OF g, of "atoll s" "atoll s" SEEK_SET] True by simp
    show ?thesis
    proof (cases "nat (atoll s) < fsize_max k")
      case fits: True
      have t: "take (min (Suc (Suc (Suc (Suc 0)))) m) ''text'' = take m ''text''" for m by (simp add: min_def)
      from fits have "min 4 (fsize_max k - nat (atoll s)) \<noteq> 0" by simp
      then show ?thesis
        using o(1) l assms(3) True fits g k1 k1'
        by (auto simp: large_file_main_def sys_write_def new_open_file_def Let_def t simp del: take_Cons)
    next
      case False
      then show ?thesis
        using o(1) l assms(3) True g k1 k1'
        by (auto simp: large_file_main_def sys_write_def new_open_file_def Let_def write_at_def)
    qed
  qed
qed

section \<open>copy of chapter 13\<close>

text \<open>This version of copy prints a message where the other one stops, and goes on.\<close>

partial_function (option) copy13_loop :: "int \<Rightarrow> int \<Rightarrow> string \<Rightarrow> kernel \<Rightarrow> (string \<times> kernel) option" where
  "copy13_loop inputFd outputFd msgs k =
     (case sys_read inputFd k 1024 of
        (Inl e, k1) \<Rightarrow> Some (msgs @ ''read'', k1)
      | (Inr buf, k1) \<Rightarrow>
          if buf = [] then Some (msgs, k1)
          else (case sys_write outputFd k1 buf of
                  (r, k2) \<Rightarrow>
                    copy13_loop inputFd outputFd (if r = Inr (length buf) then msgs else msgs @ ''couldn't write whole buffer'') k2))"

definition copy13_main :: "string list \<Rightarrow> kernel \<Rightarrow> (int \<times> string \<times> kernel) option" where
  "copy13_main argv k =
     (if length argv \<noteq> 3 \<or> argv ! 1 = ''--help'' then Some (0, argv ! 0 @ '' old-file new-file'' @ [LF], k)
      else
        (let (r1, k1) = sys_open (argv ! 1) [O_RDONLY] k;
             inputFd = ret r1;
             msgs = (if inputFd = - 1 then ''opening file '' @ argv ! 1 else [])
         in case sys_open (argv ! 2) [O_CREAT, O_WRONLY, O_TRUNC] k1 of
              (Inl _, k2) \<Rightarrow> Some (0, msgs @ ''opening file '' @ argv ! 2, k2)
            | (Inr outputFd, k2) \<Rightarrow>
                (case copy13_loop inputFd outputFd msgs k2 of
                   None \<Rightarrow> None
                 | Some (msgs, k3) \<Rightarrow>
                     (let (c1, k4) = sys_close inputFd k3;
                          (c2, k5) = sys_close outputFd k4
                      in Some (0, msgs @ (if isl c1 then ''close input'' else []) @ (if isl c2 then ''close output'' else []), k5)))))"

lemma copy13_loop_of_copy:
  assumes "copy_loop i j k = Some (None, k')"
  shows "copy13_loop i j msgs k = Some (msgs, k')"
proof -
  define P where "P i j k y \<longleftrightarrow> fst y = None \<longrightarrow> copy13_loop i j msgs k = Some (msgs, snd y)"
    for i j k and y :: "failure option \<times> kernel"
  have "P i j k (None, k')"
  proof (rule copy_loop.raw_induct [OF _ assms])
    fix f i j k y
    assume IH: "\<And>i j k y. f i j k = Some y \<Longrightarrow> P i j k y"
      and body: "(case sys_read i k BUF_SIZE of
        (Inl e, k1) \<Rightarrow> Some (Some (ErrExit ''read'' e), k1)
      | (Inr buf, k1) \<Rightarrow>
          if buf = [] then Some (None, k1)
          else (case sys_write j k1 buf of
                  (Inl e, k2) \<Rightarrow> Some (Some (Fatal ''couldn't write whole buffer''), k2)
                | (Inr m, k2) \<Rightarrow>
                    if m \<noteq> length buf then Some (Some (Fatal ''couldn't write whole buffer''), k2)
                    else f i j k2)) = Some y"
    obtain r k1 where r: "sys_read i k BUF_SIZE = (r, k1)" by fastforce
    show "P i j k y"
    proof (cases r)
      case (Inr buf)
      obtain m k2 where m: "sys_write j k1 buf = (m, k2)" by fastforce
      show ?thesis
      proof (cases "buf = [] \<or> m \<noteq> Inr (length buf)")
        case True
        with body r m Inr show ?thesis
          unfolding P_def by (subst copy13_loop.simps) (cases m; auto split: if_splits)
      next
        case False
        with body r m Inr IH [of i j k2 y] show ?thesis
          unfolding P_def by (subst copy13_loop.simps) simp
      qed
    qed (use body r in \<open>auto simp: P_def\<close>)
  qed
  then show ?thesis by (simp add: P_def)
qed

lemma sys_open_nonneg: "sys_open p fl k = (Inr fd, k') \<Longrightarrow> 0 \<le> fd"
  by (auto simp: sys_open_def split: option.splits if_splits)

lemma copy13_of_copy:
  assumes "copy_main [prog, src, dst] k = Some (None, k')"
  shows "copy13_main [prog, src, dst] k = Some (0, [], k')"
  using assms copy13_loop_of_copy sys_open_nonneg [of src "[O_RDONLY]" k]
  by (fastforce simp: copy_main_def copy13_main_def close_two_def ret_def Let_def
      split: if_splits prod.splits sum.splits option.splits)

lemma copy13_missing:
  assumes "0 < free_fds k" "denied k dst = None" "dir k src = None" "denied k src = None" "src \<noteq> ''--help''"
  shows "\<exists>k'. copy13_main [prog, src, dst] k = Some (0, ''opening file '' @ src @ ''read'' @ ''close input'', k') \<and>
      dir k' = (dir k)(dst \<mapsto> open_ino k dst) \<and> fdt k' = fdt k \<and> bytes k' = (bytes k)(open_ino k dst := [])"
    and "copy_main [prog, src, dst] k = Some (Some (ErrExit ''opening file %s'' ENOENT), k)"
proof -
  obtain i where "lowest_free 0 (fdt k) = Some i" using free_fds_lowest [OF assms(1)] by blast
  then have o: "sys_open src [O_RDONLY] k = (Inl ENOENT, k)" using assms(3,4) by (simp add: sys_open_def)
  then show "copy_main [prog, src, dst] k = Some (Some (ErrExit ''opening file %s'' ENOENT), k)"
    using assms(5) by (simp add: copy_main_def)
  let ?fl = "[O_CREAT, O_WRONLY, O_TRUNC]"
  obtain fd k2 where d: "sys_open dst ?fl k = (Inr fd, k2)" "opened k dst ?fl fd k2"
    using sys_open_ok [of k dst ?fl] assms(1,2) by auto
  have n: "fd_get k' (- 1) = None" "of_get k' (- 1) = None" for k' by (simp_all add: fd_get_def of_get_def)
  have "copy13_loop (- 1) fd ms k2 = Some (ms @ ''read'', k2)" for ms
    by (subst copy13_loop.simps) (simp add: sys_read_def n)
  moreover have "fd_get k2 fd = Some \<lparr>fd_of = length (oft k), fd_cloexec = False\<rparr>" using d(2) by (auto simp: opened_def fd_get_def)
  ultimately show "\<exists>k'. copy13_main [prog, src, dst] k = Some (0, ''opening file '' @ src @ ''read'' @ ''close input'', k') \<and>
      dir k' = (dir k)(dst \<mapsto> open_ino k dst) \<and> fdt k' = fdt k \<and> bytes k' = (bytes k)(open_ino k dst := [])"
    using o d assms(5) opened_close [OF d(2)] by (simp add: copy13_main_def ret_def sys_close_def n opened_def)
qed

section \<open>tee\<close>

text \<open>
  Files by name, and the names that cannot be opened. \<open>fopen\<close> for writing empties the file, for appending it
  keeps it; what is written to a stream comes after what was there. (A stream writes at its own offset and
  through a buffer; the model is that of streams on different files.) \<open>None\<close> stands for undefined behaviour: a write outside
  the array \<open>files\<close> of 20 streams, \<open>fclose\<close> of an array element that was not set, \<open>fread\<close> from a null pointer. The messages on
  standard error are not part of the model.
\<close>

record tee_fs =
  contents :: "string \<rightharpoonup> byte list"
  noopen :: "string \<Rightarrow> bool"

definition tee_spec :: "char \<Rightarrow> bool option" where
  "tee_spec c = (if c = CHR ''a'' then Some False else None)"

fun tee_parse_args :: "(char \<times> string) list \<Rightarrow> bool \<Rightarrow> bool option" where
  "tee_parse_args [] append_mode = Some append_mode"
| "tee_parse_args ((c, _) # es) append_mode = (if c = CHR ''a'' then tee_parse_args es True else None)"

definition tee_fopen :: "bool \<Rightarrow> string \<Rightarrow> tee_fs \<Rightarrow> tee_fs option" where
  "tee_fopen append_mode p fs =
     (if noopen fs p then None
      else Some (fs\<lparr>contents := (contents fs)(p \<mapsto> (case contents fs p of Some b \<Rightarrow> if append_mode then b else [] | None \<Rightarrow> []))\<rparr>))"

fun tee_open_files :: "bool \<Rightarrow> nat \<Rightarrow> string list \<Rightarrow> tee_fs \<Rightarrow> tee_fs option" where
  "tee_open_files append_mode i [] fs = Some fs"
| "tee_open_files append_mode i (p # ps) fs =
     (case tee_fopen append_mode p fs of
        None \<Rightarrow> None
      | Some fs1 \<Rightarrow> if i < 20 then tee_open_files append_mode (i + 1) ps fs1 else None)"

definition tee_fwrite :: "byte list \<Rightarrow> string \<Rightarrow> tee_fs \<Rightarrow> tee_fs" where
  "tee_fwrite bs p fs = fs\<lparr>contents := (contents fs)(p := map_option (\<lambda>b. b @ bs) (contents fs p))\<rparr>"

function tee_loop :: "byte list \<Rightarrow> string list \<Rightarrow> string \<Rightarrow> tee_fs \<Rightarrow> string \<times> tee_fs" where
  "tee_loop input ps out_text fs =
     (if input = [] then (out_text, fs)
      else tee_loop (drop 100 input) ps (out_text @ take 100 input) (fold (tee_fwrite (take 100 input)) ps fs))"
  by auto
termination by (relation "measure (\<lambda>(input, _). length input)") auto

declare tee_loop.simps [simp del]

definition tee_main :: "string list \<Rightarrow> tee_fs \<Rightarrow> (int \<times> string \<times> tee_fs) option" where
  "tee_main argv fs =
     (case getopt tee_spec (tl argv) of
        (es, ps) \<Rightarrow>
          (case tee_parse_args es False of
             None \<Rightarrow> Some (1, [], fs)
           | Some append_mode \<Rightarrow>
               (case tee_open_files append_mode 0 ps fs of
                  None \<Rightarrow> None
                | Some fs1 \<Rightarrow>
                    if noopen fs1 ''tee.c'' then None
                    else (case contents fs1 ''tee.c'' of
                            None \<Rightarrow> None
                          | Some input \<Rightarrow> (case tee_loop input ps [] fs1 of (out_text, fs2) \<Rightarrow> Some (0, out_text, fs2))))))"

text \<open>What appending a text to some files does.\<close>

definition appended :: "string set \<Rightarrow> byte list \<Rightarrow> tee_fs \<Rightarrow> tee_fs" where
  "appended ps bs fs = fs\<lparr>contents := (\<lambda>p. if p \<in> ps then map_option (\<lambda>b. b @ bs) (contents fs p) else contents fs p)\<rparr>"

lemma tee_fwrites: "distinct ps \<Longrightarrow> fold (tee_fwrite bs) ps fs = appended (set ps) bs fs"
  by (induction ps arbitrary: fs) (auto simp: tee_fwrite_def appended_def fun_eq_iff)

lemma appended_Nil: "appended ps [] fs = fs"
  by (cases fs) (simp add: appended_def option.map_ident fun_eq_iff)

lemma appended_appended: "appended ps cs (appended ps bs fs) = appended ps (bs @ cs) fs"
  by (auto simp: appended_def fun_eq_iff option.map_comp comp_def intro: option.map_cong)

lemma tee_loop_result: "distinct ps \<Longrightarrow> tee_loop input ps out_text fs = (out_text @ input, appended (set ps) input fs)"
proof (induction input ps out_text fs rule: tee_loop.induct)
  case (1 input ps out_text fs)
  show ?case
  proof (cases "input = []")
    case True
    then show ?thesis
      by (simp add: tee_loop.simps appended_Nil)
  next
    case False
    with 1 show ?thesis
      by (simp add: tee_loop.simps [of input] tee_fwrites appended_appended)
  qed
qed

definition tee_opened :: "bool \<Rightarrow> string set \<Rightarrow> tee_fs \<Rightarrow> tee_fs" where
  "tee_opened a ps fs = fs\<lparr>contents := (\<lambda>p. if p \<in> ps
     then Some (case contents fs p of Some b \<Rightarrow> if a then b else [] | None \<Rightarrow> []) else contents fs p)\<rparr>"

lemma tee_open_files_result:
  "distinct ps \<Longrightarrow> tee_open_files a i ps fs =
    (if (\<forall>p\<in>set ps. \<not> noopen fs p) \<and> (ps = [] \<or> i + length ps \<le> 20) then Some (tee_opened a (set ps) fs) else None)"
proof (induction ps arbitrary: i fs)
  case (Cons p ps)
  show ?case
  proof (cases "noopen fs p")
    case False
    let ?fs = "fs\<lparr>contents := (contents fs)(p \<mapsto> (case contents fs p of Some b \<Rightarrow> if a then b else [] | None \<Rightarrow> []))\<rparr>"
    have "tee_opened a (set ps) ?fs = tee_opened a (set (p # ps)) fs"
      using Cons.prems by (auto simp: tee_opened_def fun_eq_iff)
    moreover have "tee_open_files a i (p # ps) fs = (if i < 20 then tee_open_files a (i + 1) ps ?fs else None)"
      using False by (simp add: tee_fopen_def)
    moreover have "i < 20 \<and> (ps = [] \<or> i + 1 + length ps \<le> 20) \<longleftrightarrow> i + length (p # ps) \<le> 20" by auto
    ultimately show ?thesis using False Cons.prems Cons.IH [of "i + 1" ?fs] by auto
  qed (simp add: tee_fopen_def)
qed (simp add: tee_opened_def)

lemma tee_result:
  assumes "\<forall>p\<in>set ps. operand p" "distinct ps" "''tee.c'' \<notin> set ps" "contents fs ''tee.c'' = Some input" "\<not> noopen fs ''tee.c''"
  shows "tee_main (prog # (if a then [''-a''] else []) @ ps) fs =
    (if length ps \<le> 20 \<and> (\<forall>p\<in>set ps. \<not> noopen fs p)
     then Some (0, input, fs\<lparr>contents := (\<lambda>p. if p \<in> set ps
       then Some ((case contents fs p of Some b \<Rightarrow> if a then b else [] | None \<Rightarrow> []) @ input) else contents fs p)\<rparr>)
     else None)"
proof -
  have ops: "getopt tee_spec ps = ([], ps)"
    using assms(1) by (induction ps) (simp_all add: getopt_operand del: getopt.simps(2))
  have g: "getopt tee_spec ((if a then [''-a''] else []) @ ps) = ((if a then [(CHR ''a'', [])] else []), ps)"
    using ops by (cases a) (simp_all add: getopt_flag tee_spec_def del: getopt.simps(2))
  have o: "tee_open_files a 0 ps fs = (if length ps \<le> 20 \<and> (\<forall>p\<in>set ps. \<not> noopen fs p) then Some (tee_opened a (set ps) fs) else None)"
    using tee_open_files_result [OF assms(2), of a 0 fs] by (cases ps) auto
  have "appended (set ps) input (tee_opened a (set ps) fs) = fs\<lparr>contents := (\<lambda>p. if p \<in> set ps
       then Some ((case contents fs p of Some b \<Rightarrow> if a then b else [] | None \<Rightarrow> []) @ input) else contents fs p)\<rparr>"
    by (auto simp: appended_def tee_opened_def fun_eq_iff)
  moreover have "contents (tee_opened a (set ps) fs) ''tee.c'' = Some input" "noopen (tee_opened a (set ps) fs) = noopen fs"
    using assms(3,4) by (simp_all add: tee_opened_def)
  moreover have "tee_parse_args (if a then [(CHR ''a'', [])] else []) False = Some a" by simp
  ultimately show ?thesis
    using assms(5) by (simp add: tee_main_def g o tee_loop_result [OF assms(2)])
qed

section \<open>dispacl\<close>

definition dispacl_usage :: string where
  "dispacl_usage = ''Usage:n $ ./prog_dispacl u <user> <file>'' @ [LF] @ '' $ ./prog_dispacl g <group> <file>'' @ [LF]"

definition tag_name :: "acl_tag \<Rightarrow> string" where
  "tag_name t =
     (if t = ACL_USER_OBJ then ''user_obj'' else if t = ACL_USER then ''user'' else if t = ACL_GROUP_OBJ then ''group_obj''
      else if t = ACL_GROUP then ''group'' else if t = ACL_MASK then ''mask'' else if t = ACL_OTHER then ''other'' else ''???'')"

definition pad_right :: "nat \<Rightarrow> string \<Rightarrow> string" where
  "pad_right n s = s @ replicate (n - length s) CHR '' ''"

text \<open>The variables \<open>file\<close>, \<open>user\<close> and \<open>group\<close>, or what is written to standard error before the process ends.\<close>

definition dispacl_parse_arguments :: "string list \<Rightarrow> string + string \<times> string option \<times> string option" where
  "dispacl_parse_arguments argv =
     (if length argv \<noteq> 4 then Inl (''Expected 3 arguments'' @ [LF] @ dispacl_usage)
      else if argv ! 1 = ''u'' then Inr (argv ! 3, Some (argv ! 2), None)
      else if argv ! 1 = ''g'' then Inr (argv ! 3, None, Some (argv ! 2))
      else Inl dispacl_usage)"

text \<open>\<open>getacl\<close> is \<open>acl_get_file\<close> for access ACLs. The result: status, standard output, standard error.\<close>

definition do_display_acl :: "(string \<Rightarrow> acl result) \<Rightarrow> string \<Rightarrow> int \<times> string \<times> string" where
  "do_display_acl getacl file =
     (case getacl file of
        Inl _ \<Rightarrow> (1, [], ''Unable to open ACL for file '' @ file @ [LF])
      | Inr es \<Rightarrow> (0, concat (map (\<lambda>e. pad_right 12 (tag_name (e_tag e)) @ [LF]) es), []))"

definition dispacl_main :: "(string \<Rightarrow> acl result) \<Rightarrow> string list \<Rightarrow> int \<times> string \<times> string" where
  "dispacl_main getacl argv =
     (case dispacl_parse_arguments argv of
        Inl msg \<Rightarrow> (1, [], msg)
      | Inr (file, usr, grp) \<Rightarrow> do_display_acl getacl file)"

lemma pad_right_tag: "length (pad_right 12 (tag_name t)) = 12"
  by (cases t) (simp_all add: pad_right_def tag_name_def)

lemma pad_tag_inj: "pad_right 12 (tag_name t) = pad_right 12 (tag_name u) \<longleftrightarrow> t = u"
  by (cases t; cases u) (simp_all add: pad_right_def tag_name_def numeral_eq_Suc)

lemma dispacl_shows_tags:
  "concat (map (\<lambda>e. pad_right 12 (tag_name (e_tag e)) @ [LF]) es) = concat (map (\<lambda>e. pad_right 12 (tag_name (e_tag e)) @ [LF]) es') \<longleftrightarrow>
   map e_tag es = map e_tag es'"
proof (induction es arbitrary: es')
  case Nil
  then show ?case by (cases es') auto
next
  case (Cons e es)
  then show ?case by (cases es') (auto simp: append_eq_append_conv pad_right_tag pad_tag_inj)
qed

section \<open>What the solutions do\<close>

lemma dispacl_output:
  assumes "ug = ''u'' \<or> ug = ''g''" "getacl f = Inr es" "getacl f' = Inr es'"
  shows "dispacl_main getacl [prog, ug, nm, f] = dispacl_main getacl [prog, ''u'', nm', f]"
    and "dispacl_main getacl [prog, ug, nm, f] = dispacl_main getacl [prog, ug, nm, f'] \<longleftrightarrow> map e_tag es = map e_tag es'"
  using assms by (auto simp: dispacl_main_def dispacl_parse_arguments_def do_display_acl_def dispacl_shows_tags)

text \<open>
  C20: \<open>append_seek\<close> appends its text, with the null byte, to the file in spite of \<open>lseek\<close>, and with no such file it reports success and
  does nothing. \<open>large_file\<close> writes at the offset, which leaves null bytes before it, and refuses a negative one. The copy of chapter 13
  does what that of chapter 4 does whenever this one succeeds; but without a source file it empties the destination
  and ends with status 0, where the other one stops. \<open>tee\<close> copies the file \<open>tee.c\<close>, not its input, to standard output and to up to 20 files, emptied or with
  \<open>-a\<close> extended; with more files, or one that cannot be opened, its behaviour is undefined. \<open>dispacl\<close> prints the tags of the
  entries of the ACL, all of them and in order, and nothing that depends on the user or group that was asked for.
\<close>

theorem exercise_solutions:
  assumes "0 < free_fds k" "denied k p = None" "p \<noteq> ''--help''" "old = (case dir k p of None \<Rightarrow> [] | Some i \<Rightarrow> bytes k i)"
    and "\<forall>q\<in>set ps. operand q" "distinct ps" "''tee.c'' \<notin> set ps" "contents fs ''tee.c'' = Some input" "\<not> noopen fs ''tee.c''"
    and "ug = ''u'' \<or> ug = ''g''" "getacl f = Inr es" "getacl f' = Inr es'"
  shows "(if dir k p = None then append_seek_main [prog, p] k = (0, [], k)
      else length old + 14 \<le> fsize_max k \<longrightarrow> (\<exists>k'. append_seek_main [prog, p] k = (0, [], k') \<and> dir k' = dir k \<and> fdt k' = fdt k \<and>
        bytes k' = (bytes k)(the (dir k p) := old @ ''Hello, world!'' @ [NUL]))) \<and>
    (\<exists>k'. large_file_main [prog, p, s] k =
        (if 0 \<le> atoll s \<and> nat (atoll s) < fsize_max k then (0, ''Success'' @ [LF], k')
         else (1, if atoll s < 0 then ''lseek'' @ [LF] else ''write'' @ [LF], k')) \<and>
      dir k' = (dir k)(p \<mapsto> open_ino k p) \<and>
      bytes k' = (bytes k)(open_ino k p :=
        if 0 \<le> atoll s then write_at (nat (atoll s)) (take (fsize_max k - nat (atoll s)) ''text'') old else old)) \<and>
    (copy_main [prog, src, dst] k = Some (None, k') \<longrightarrow> copy13_main [prog, src, dst] k = Some (0, [], k')) \<and>
    (dir k p = None \<and> denied k dst = None \<longrightarrow>
      (\<exists>k'. copy13_main [prog, p, dst] k = Some (0, ''opening file '' @ p @ ''read'' @ ''close input'', k') \<and>
        dir k' = (dir k)(dst \<mapsto> open_ino k dst) \<and> fdt k' = fdt k \<and> bytes k' = (bytes k)(open_ino k dst := [])) \<and>
      copy_main [prog, p, dst] k = Some (Some (ErrExit ''opening file %s'' ENOENT), k)) \<and>
    tee_main (prog # (if a then [''-a''] else []) @ ps) fs =
      (if length ps \<le> 20 \<and> (\<forall>q\<in>set ps. \<not> noopen fs q)
       then Some (0, input, fs\<lparr>contents := (\<lambda>q. if q \<in> set ps
         then Some ((case contents fs q of Some b \<Rightarrow> if a then b else [] | None \<Rightarrow> []) @ input) else contents fs q)\<rparr>)
       else None) \<and>
    dispacl_main getacl [prog, ug, nm, f] = dispacl_main getacl [prog, ''u'', nm', f] \<and>
    (dispacl_main getacl [prog, ug, nm, f] = dispacl_main getacl [prog, ug, nm, f'] \<longleftrightarrow> map e_tag es = map e_tag es')"
proof (intro conjI)
  show "if dir k p = None then append_seek_main [prog, p] k = (0, [], k)
      else length old + 14 \<le> fsize_max k \<longrightarrow> (\<exists>k'. append_seek_main [prog, p] k = (0, [], k') \<and> dir k' = dir k \<and> fdt k' = fdt k \<and>
        bytes k' = (bytes k)(the (dir k p) := old @ ''Hello, world!'' @ [NUL]))"
    using append_seek_missing append_seek_existing [OF assms(1,2)] assms(4) by (cases "dir k p") auto
  show "dir k p = None \<and> denied k dst = None \<longrightarrow>
      (\<exists>k'. copy13_main [prog, p, dst] k = Some (0, ''opening file '' @ p @ ''read'' @ ''close input'', k') \<and>
        dir k' = (dir k)(dst \<mapsto> open_ino k dst) \<and> fdt k' = fdt k \<and> bytes k' = (bytes k)(open_ino k dst := [])) \<and>
      copy_main [prog, p, dst] k = Some (Some (ErrExit ''opening file %s'' ENOENT), k)"
    using copy13_missing [OF assms(1) _ _ assms(2,3)] by blast
  show "copy_main [prog, src, dst] k = Some (None, k') \<longrightarrow> copy13_main [prog, src, dst] k = Some (0, [], k')"
    using copy13_of_copy by blast
qed (fact large_file_result [OF assms(1-4)] tee_result [OF assms(5-9)] dispacl_output [OF assms(10-12)])+

theorem exercise_solutions_witness:
  "\<exists>k'. append_seek_main [''p'', ''f''] (disk [''f'' \<mapsto> 0] [''old'']) = (0, [], k') \<and> bytes k' 0 = ''oldHello, world!'' @ [NUL]"
proof -
  let ?fs = "\<lparr>contents = [''tee.c'' \<mapsto> ''int''], noopen = (\<lambda>_. False)\<rparr>"
  from exercise_solutions [of "disk [''f'' \<mapsto> 0] [''old'']" "''f''" "''old''" "[]" ?fs "''int''" "''u''" "\<lambda>_. Inr []" "''x''" "[]" "''x''" "[]" "''p''",
      THEN conjunct1]
  show ?thesis by auto
qed

end
