(* ===== verification/Dgram.thy ===== *)
theory Dgram
  imports Relay Files CString
begin

text \<open>
  Datagrams and whole files over sockets: the servers and clients \<open>sockets/ud_ucase_*.c\<close>, \<open>i6d_ucase_*.c\<close> and \<open>id_echo_*.c\<close>, and
  \<open>sockets/sendfile.c\<close>, which is written with \<open>read\<close>, \<open>write\<close> and \<open>lseek\<close>.
\<close>

section \<open>Servers\<close>

text \<open>
  A turn of a server: the error of \<open>recvfrom\<close>, or a datagram with the address of its sender and whether \<open>sendto\<close> to it succeeds.
  \<open>recvfrom\<close> cuts a datagram to the size of the buffer. A server that has used up its turns waits (\<open>None\<close> as its end).
\<close>

type_synonym 'a dgram_turn = "errno + 'a \<times> byte list \<times> bool"

abbreviation (input) UCASE_BUF :: nat where "UCASE_BUF \<equiv> 10"
abbreviation (input) ID_ECHO_BUF :: nat where "ID_ECHO_BUF \<equiv> 500"

fun ucase_serve ::
    "(nat \<Rightarrow> 'a \<Rightarrow> string) \<Rightarrow> 'a dgram_turn list \<Rightarrow> string \<Rightarrow> ('a \<times> byte list) list \<Rightarrow> failure option \<times> string \<times> ('a \<times> byte list) list" where
  "ucase_serve note_text [] printed sent = (None, printed, sent)"
| "ucase_serve note_text (Inl e # ts) printed sent = (Some (ErrExit ''recvfrom'' e), printed, sent)"
| "ucase_serve note_text (Inr (a, msg, ok) # ts) printed sent =
     (let buf = take UCASE_BUF msg;
          printed1 = printed @ note_text (length buf) a;
          buf1 = map toupper buf
      in if ok then ucase_serve note_text ts printed1 (sent @ [(a, buf1)]) else (Some (Fatal ''sendto''), printed1, sent))"

definition ud_ucase_note :: "nat \<Rightarrow> string \<Rightarrow> string" where
  "ud_ucase_note n path = ''Server received '' @ show_nat n @ '' bytes from '' @ path @ [LF]"

definition ud_ucase_sv_main ::
    "errno option \<Rightarrow> errno option \<Rightarrow> errno option \<Rightarrow> string dgram_turn list \<Rightarrow> failure option \<times> string \<times> (string \<times> byte list) list" where
  "ud_ucase_sv_main sock rm bnd ts =
     (case sock of
        Some e \<Rightarrow> (Some (ErrExit ''socket'' e), [], [])
      | None \<Rightarrow>
          if rm \<noteq> None \<and> rm \<noteq> Some ENOENT then (Some (ErrExit ''remove-%s'' (the rm)), [], [])
          else case bnd of
            Some e \<Rightarrow> (Some (ErrExit ''bind'' e), [], [])
          | None \<Rightarrow> ucase_serve ud_ucase_note ts [] [])"

text \<open>An IPv6 address with its port; \<open>ntop\<close> is \<open>inet_ntop\<close>.\<close>

definition i6d_ucase_note :: "('v \<Rightarrow> string option) \<Rightarrow> nat \<Rightarrow> 'v \<times> nat \<Rightarrow> string" where
  "i6d_ucase_note ntop n a =
     (case ntop (fst a) of
        None \<Rightarrow> ''Couldn't convert client address to string'' @ [LF]
      | Some s \<Rightarrow> ''Server received '' @ show_nat n @ '' bytes from ('' @ s @ '', '' @ show_nat (snd a) @ '')'' @ [LF])"

definition i6d_ucase_sv_main ::
    "('v \<Rightarrow> string option) \<Rightarrow> errno option \<Rightarrow> errno option \<Rightarrow> ('v \<times> nat) dgram_turn list \<Rightarrow>
       failure option \<times> string \<times> (('v \<times> nat) \<times> byte list) list" where
  "i6d_ucase_sv_main ntop sock bnd ts =
     (case sock of
        Some e \<Rightarrow> (Some (ErrExit ''socket'' e), [], [])
      | None \<Rightarrow>
          (case bnd of
             Some e \<Rightarrow> (Some (ErrExit ''bind'' e), [], [])
           | None \<Rightarrow> ucase_serve (i6d_ucase_note ntop) ts [] []))"

text \<open>The echo server logs a failed \<open>sendto\<close> and goes on.\<close>

fun id_echo_serve ::
    "'a dgram_turn list \<Rightarrow> 'a list \<Rightarrow> ('a \<times> byte list) list \<Rightarrow> failure option \<times> 'a list \<times> ('a \<times> byte list) list" where
  "id_echo_serve [] warned sent = (None, warned, sent)"
| "id_echo_serve (Inl e # ts) warned sent = (Some (ErrExit ''recvfrom'' e), warned, sent)"
| "id_echo_serve (Inr (a, msg, ok) # ts) warned sent =
     (if ok then id_echo_serve ts warned (sent @ [(a, take ID_ECHO_BUF msg)]) else id_echo_serve ts (warned @ [a]) sent)"

text \<open>\<open>dmn\<close>: the error of \<open>becomeDaemon\<close>, if any; \<open>sfd\<close>: the result of \<open>inetBind\<close>. A failure of the latter is logged, and the status is 1.\<close>

definition id_echo_sv_main ::
    "errno option \<Rightarrow> int \<Rightarrow> 'a dgram_turn list \<Rightarrow> (failure + int) option \<times> 'a list \<times> ('a \<times> byte list) list" where
  "id_echo_sv_main dmn sfd ts =
     (case dmn of
        Some e \<Rightarrow> (Some (Inl (ErrExit ''becomeDaemon'' e)), [], [])
      | None \<Rightarrow>
          if sfd = - 1 then (Some (Inr 1), [], [])
          else case id_echo_serve ts [] [] of (f, warned, sent) \<Rightarrow> (map_option Inl f, warned, sent))"

section \<open>Clients\<close>

text \<open>
  What the network does with a message: whether \<open>sendto\<close> takes it, and the error of \<open>recvfrom\<close> or the datagram that arrives. \<open>%.*s\<close> prints up
  to a null byte.
\<close>

record dgram_net =
  takes :: "byte list \<Rightarrow> bool"
  answer :: "byte list \<Rightarrow> byte list result"

definition printed_text :: "byte list \<Rightarrow> string" where
  "printed_text bs = takeWhile (\<lambda>c. c \<noteq> NUL) bs"

fun ucase_client :: "dgram_net \<Rightarrow> nat \<Rightarrow> string list \<Rightarrow> string \<Rightarrow> failure option \<times> string" where
  "ucase_client net j [] printed = (None, printed)"
| "ucase_client net j (m # ms) printed =
     (if \<not> takes net m then (Some (Fatal ''sendto''), printed)
      else case answer net m of
        Inl e \<Rightarrow> (Some (ErrExit ''recvfrom'' e), printed)
      | Inr d \<Rightarrow> ucase_client net (j + 1) ms (printed @ ''Response '' @ show_nat j @ '': '' @ printed_text (take UCASE_BUF d) @ [LF]))"

definition ud_ucase_cl_main :: "errno option \<Rightarrow> errno option \<Rightarrow> dgram_net \<Rightarrow> string list \<Rightarrow> failure option \<times> string" where
  "ud_ucase_cl_main sock bnd net argv =
     (if length argv < 2 \<or> argv ! 1 = ''--help'' then (Some (UsageErr ''%s msg...''), [])
      else case sock of
        Some e \<Rightarrow> (Some (ErrExit ''socket'' e), [])
      | None \<Rightarrow>
          (case bnd of
             Some e \<Rightarrow> (Some (ErrExit ''bind'' e), [])
           | None \<Rightarrow> ucase_client net 1 (drop 1 argv) []))"

text \<open>\<open>pton\<close>: whether \<open>inet_pton\<close> accepts a text as an address.\<close>

definition i6d_ucase_cl_main :: "errno option \<Rightarrow> (string \<Rightarrow> bool) \<Rightarrow> dgram_net \<Rightarrow> string list \<Rightarrow> failure option \<times> string" where
  "i6d_ucase_cl_main sock pton net argv =
     (if length argv < 3 \<or> argv ! 1 = ''--help'' then (Some (UsageErr ''%s host-address msg...''), [])
      else case sock of
        Some e \<Rightarrow> (Some (ErrExit ''socket'' e), [])
      | None \<Rightarrow>
          if \<not> pton (argv ! 1) then (Some (Fatal (''inet_pton failed for address '' @ [CHR 0x27] @ ''%s'' @ [CHR 0x27])), [])
          else ucase_client net 1 (drop 2 argv) [])"

fun id_echo_client :: "dgram_net \<Rightarrow> string list \<Rightarrow> string \<Rightarrow> failure option \<times> string" where
  "id_echo_client net [] printed = (None, printed)"
| "id_echo_client net (m # ms) printed =
     (if \<not> takes net m then (Some (Fatal ''partial/failed write''), printed)
      else case answer net m of
        Inl e \<Rightarrow> (Some (ErrExit ''read'' e), printed)
      | Inr d \<Rightarrow>
          (let buf = take ID_ECHO_BUF d
           in id_echo_client net ms (printed @ ''['' @ show_nat (length buf) @ '' bytes] '' @ printed_text buf @ [LF])))"

definition id_echo_cl_main :: "int \<Rightarrow> dgram_net \<Rightarrow> string list \<Rightarrow> failure option \<times> string" where
  "id_echo_cl_main sfd net argv =
     (if length argv < 2 \<or> argv ! 1 = ''--help'' then (Some (UsageErr ''%s: host msg...''), [])
      else if sfd = - 1 then (Some (Fatal ''Could not connect to server socket''), [])
      else id_echo_client net (drop 2 argv) [])"

section \<open>sendfile\<close>

abbreviation (input) SENDFILE_BUF :: nat where "SENDFILE_BUF \<equiv> 8192"

datatype sf_end = Sent nat | Sf_error errno | Sf_fatal

text \<open>The input is an open file (Files), the output any descriptor.\<close>

function sendfile_loop :: "'w writer \<Rightarrow> nat \<Rightarrow> nat \<Rightarrow> cursor \<Rightarrow> 'w \<Rightarrow> sf_end \<times> cursor \<times> 'w" where
  "sendfile_loop wr count totSent f w =
     (if count = 0 then (Sent totSent, f, w)
      else case file_read f (min SENDFILE_BUF count) of
        (Inl e, f1) \<Rightarrow> (Sf_error e, f1, w)
      | (Inr buf, f1) \<Rightarrow>
          if buf = [] then (Sent totSent, f1, w)
          else (case wr w buf of
                  (Inl e, w1) \<Rightarrow> (Sf_error e, f1, w1)
                | (Inr m, w1) \<Rightarrow> if m = 0 then (Sf_fatal, f1, w1) else sendfile_loop wr (count - m) (totSent + m) f1 w1))"
  by pat_completeness auto
termination by (relation "measure (\<lambda>(wr, count, _). count)") auto

declare sendfile_loop.simps [simp del]

text \<open>\<open>lseek\<close> on a regular file fails for a negative offset only. The result, the value at \<open>offset\<close>, and both descriptors.\<close>

definition sendfile ::
    "'w writer \<Rightarrow> int option \<Rightarrow> nat \<Rightarrow> cursor \<Rightarrow> 'w \<Rightarrow> sf_end \<times> int option \<times> cursor \<times> 'w" where
  "sendfile wr off count f w =
     (case off of
        None \<Rightarrow> (case sendfile_loop wr count 0 f w of (r, f1, w1) \<Rightarrow> (r, None, f1, w1))
      | Some z \<Rightarrow>
          if z < 0 then (Sf_error EINVAL, off, f, w)
          else (case sendfile_loop wr count 0 (f\<lparr>offset := nat z\<rparr>) w of
                  (Sent n, f1, w1) \<Rightarrow> (Sent n, Some (int (offset f1)), f1\<lparr>offset := offset f\<rparr>, w1)
                | (r, f1, w1) \<Rightarrow> (r, off, f1, w1)))"

context whole_out
begin

lemma sendfile_loop_whole:
  assumes "rest = drop (offset f) (content f)"
  shows "\<exists>w'. sendfile_loop sys_write count tot f w =
      (Sent (tot + min count (length rest)), f\<lparr>offset := offset f + min count (length rest)\<rparr>, w') \<and>
    received w' = received w @ take count rest"
  using assms
proof (induction "count" arbitrary: tot f w rest rule: less_induct)
  case (less n)
  obtain bs where bs: "take (min SENDFILE_BUF n) rest = bs" by blast
  show ?case
  proof (cases "bs = []")
    case True
    then show ?thesis
      using less.prems bs by (subst sendfile_loop.simps) (auto simp: file_read_def Let_def)
  next
    case False
    define m where "m = length bs"
    have "0 < m" using False unfolding m_def length_greater_0_conv .
    then have m: "length bs = m" "0 < m" "m \<le> n" "m \<le> length rest" by (auto simp: m_def simp flip: bs)
    let ?f = "f\<lparr>offset := offset f + m\<rparr>"
    have r: "file_read f (min SENDFILE_BUF n) = (Inr bs, ?f)" unfolding file_read_def Let_def less.prems [symmetric] bs m(1) ..
    obtain w1 where w: "sys_write w bs = (Inr m, w1)" "received w1 = received w @ bs" using whole [OF False] m(1) by metis
    have "sendfile_loop sys_write n tot f w = sendfile_loop sys_write (n - m) (tot + m) ?f w1"
      using m(2,3) r w(1) False by (subst sendfile_loop.simps) simp
    moreover have "n - m < n" "drop m rest = drop (offset ?f) (content ?f)" using m(2,3) less.prems by (simp_all add: add.commute)
    from less.IH [OF this, of "tot + m" w1] obtain w2 where
      "sendfile_loop sys_write (n - m) (tot + m) ?f w1 = (Sent (tot + m + min (n - m) (length (drop m rest))),
         ?f\<lparr>offset := offset ?f + min (n - m) (length (drop m rest))\<rparr>, w2)"
      "received w2 = received w1 @ take (n - m) (drop m rest)" by blast
    moreover have "bs = take m rest" by (simp add: m_def min_def flip: bs)
    moreover have "take m rest @ take (n - m) (drop m rest) = take n rest" using m(3) by (simp flip: take_add)
    moreover have "m + min (n - m) (length (drop m rest)) = min n (length rest)" using m(3,4) by simp
    ultimately show ?thesis using w(2) by (simp add: add.assoc)
  qed
qed

end

lemma sendfile_whole:
  assumes "whole_out wr rcv" "rest = drop (case off of None \<Rightarrow> offset f | Some z \<Rightarrow> nat z) (content f)" "n = min count (length rest)"
  shows "case off of
      None \<Rightarrow> \<exists>w'. sendfile wr None count f w = (Sent n, None, f\<lparr>offset := offset f + n\<rparr>, w') \<and> rcv w' = rcv w @ take count rest
    | Some z \<Rightarrow> if z < 0 then sendfile wr off count f w = (Sf_error EINVAL, off, f, w)
        else \<exists>w'. sendfile wr off count f w = (Sent n, Some (z + int n), f, w') \<and> rcv w' = rcv w @ take count rest"
proof (cases off)
  case None
  with assms(2,3) whole_out.sendfile_loop_whole [OF assms(1), of rest f count 0 w] show ?thesis by (auto simp: sendfile_def)
next
  case (Some z)
  show ?thesis
  proof (cases "z < 0")
    case False
    obtain w' where "sendfile_loop wr count 0 (f\<lparr>offset := nat z\<rparr>) w = (Sent n, f\<lparr>offset := nat z + n\<rparr>, w')"
        "rcv w' = rcv w @ take count rest"
      using whole_out.sendfile_loop_whole [OF assms(1), of rest "f\<lparr>offset := nat z\<rparr>" count 0 w] assms(2,3) Some by auto
    with Some False show ?thesis by (simp add: sendfile_def)
  qed (simp add: Some sendfile_def)
qed

text \<open>A descriptor that takes one byte at a time, as a socket without space in its buffer may, and one that takes none.\<close>

definition byte_write :: "byte list writer" where
  "byte_write w bs = (Inr (length (take 1 bs)), w @ take 1 bs)"

definition broken_write :: "'w writer" where
  "broken_write w bs = (Inl EPIPE, w)"

lemma sendfile_loses:
  "sendfile byte_write None 3 \<lparr>content = ''abcdef'', offset = 0\<rparr> [] = (Sent 3, None, \<lparr>content = ''abcdef'', offset = 6\<rparr>, ''adf'')"
  by (simp add: sendfile_def sendfile_loop.simps byte_write_def file_read_def Let_def numeral_eq_Suc)

lemma sendfile_error_moves:
  assumes "0 \<le> z" "nat z < length (content f)" "0 < count"
  shows "\<exists>p. sendfile broken_write (Some z) count f w = (Sf_error EPIPE, Some z, f\<lparr>offset := p\<rparr>, w) \<and> nat z < p"
  using assms
  by (auto simp: sendfile_def sendfile_loop.simps [of _ count] file_read_def Let_def broken_write_def split: nat.split)

section \<open>Datagram services\<close>

lemma ucase_serve_good:
  "\<forall>t\<in>set ts. \<exists>a m. t = Inr (a, m, True) \<Longrightarrow>
   \<exists>printed. ucase_serve note_text (ts @ us) pr sent =
     ucase_serve note_text us printed (sent @ map (\<lambda>t. (fst (projr t), map toupper (take UCASE_BUF (fst (snd (projr t)))))) ts)"
proof (induction ts arbitrary: pr sent)
  case (Cons t ts)
  then obtain a m where "t = Inr (a, m, True)" by auto
  with Cons.IH [of "pr @ note_text (length (take UCASE_BUF m)) a" "sent @ [(a, map toupper (take UCASE_BUF m))]"] Cons.prems
  show ?case by (simp add: Let_def)
qed auto

lemma id_echo_serve_all:
  "id_echo_serve (map Inr ts) warned sent =
     (None, warned @ map fst (filter (\<lambda>(a, m, ok). \<not> ok) ts),
      sent @ map (\<lambda>(a, m, ok). (a, take ID_ECHO_BUF m)) (filter (\<lambda>(a, m, ok). ok) ts))"
  by (induction ts arbitrary: warned sent) auto

text \<open>A network that carries every message to the server and its reply back.\<close>

definition ucase_net :: "(nat \<Rightarrow> 'a \<Rightarrow> string) \<Rightarrow> 'a \<Rightarrow> dgram_net" where
  "ucase_net note_text a =
     \<lparr>takes = (\<lambda>_. True), answer = (\<lambda>m. Inr (snd (last (snd (snd (ucase_serve note_text [Inr (a, m, True)] [] []))))))\<rparr>"

definition id_echo_net :: "'a \<Rightarrow> dgram_net" where
  "id_echo_net a = \<lparr>takes = (\<lambda>_. True), answer = (\<lambda>m. Inr (snd (last (snd (snd (id_echo_serve [Inr (a, m, True)] [] [])))))) \<rparr>"

fun ucase_responses :: "nat \<Rightarrow> string list \<Rightarrow> string" where
  "ucase_responses j [] = []"
| "ucase_responses j (m # ms) = ''Response '' @ show_nat j @ '': '' @ map toupper (take 10 m) @ [LF] @ ucase_responses (j + 1) ms"

lemma toupper_no_NUL: "toupper c = NUL \<longleftrightarrow> c = NUL"
  by (auto simp: toupper_def char_of_eq_iff take_bit_eq_mod dest!: dvd_imp_le)

lemma printed_text_upper: "NUL \<notin> set m \<Longrightarrow> printed_text (map toupper (take n m)) = map toupper (take n m)"
  unfolding printed_text_def takeWhile_eq_all_conv using toupper_no_NUL by (auto dest: in_set_takeD)

lemma ucase_client_run:
  "\<forall>m\<in>set ms. NUL \<notin> set m \<Longrightarrow> ucase_client (ucase_net note_text a) j ms pr = (None, pr @ ucase_responses j ms)"
proof (induction ms arbitrary: j pr)
  case (Cons m ms)
  then have "printed_text (map toupper (take UCASE_BUF m)) = map toupper (take UCASE_BUF m)" by (simp add: printed_text_upper)
  with Cons show ?case by (simp add: ucase_net_def Let_def take_map)
qed simp

lemma id_echo_client_run:
  "\<forall>m\<in>set ms. NUL \<notin> set m \<Longrightarrow> id_echo_client (id_echo_net a) ms pr =
    (None, pr @ concat (map (\<lambda>m. ''['' @ show_nat (min 500 (length m)) @ '' bytes] '' @ take 500 m @ [LF]) ms))"
proof (induction ms arbitrary: pr)
  case (Cons m ms)
  then have "printed_text (take ID_ECHO_BUF m) = take ID_ECHO_BUF m"
    unfolding printed_text_def takeWhile_eq_all_conv by (auto dest: in_set_takeD)
  with Cons show ?case by (simp add: id_echo_net_def Let_def min.commute)
qed simp

text \<open>
  C40: The two upper-case services: a client prints for each message, numbered from 1, its first 10 bytes in upper case, cut by the
  buffers; the servers answer every sender in turn and end at the first answer that cannot be sent. The echo server answers all
  others then, and its client prints the first 500 bytes of each message with their number; with no message it prints nothing.
  \<open>sendfile\<close> sends exactly the bytes asked for that the file has, from the given offset, which it advances, or from the file offset, if every
  \<open>write\<close> takes all it gets; a negative offset is refused. If \<open>write\<close> takes less, bytes are lost though the count is right; and after an error of
  \<open>write\<close> the file offset is not what it was.
\<close>

theorem datagrams_and_sendfile:
  assumes "\<forall>m\<in>set ms. NUL \<notin> set m" "ms \<noteq> []" "hd ms \<noteq> ''--help''" "host \<noteq> ''--help''" "pton host" "sfd \<noteq> - 1"
    and "\<forall>t\<in>set ts. \<exists>a m. t = Inr (a, m, True)"
    and "whole_out wr rcv" "rest = drop (case off of None \<Rightarrow> offset f | Some z \<Rightarrow> nat z) (content f)" "n = min count (length rest)"
  shows "(ud_ucase_cl_main None None (ucase_net ud_ucase_note path) (prog # ms) = (None, ucase_responses 1 ms) \<and>
      i6d_ucase_cl_main None pton (ucase_net (i6d_ucase_note ntop) addr) (prog # host # ms) = (None, ucase_responses 1 ms) \<and>
      id_echo_cl_main sfd (id_echo_net peer) (prog # host # ms) =
        (None, concat (map (\<lambda>m. ''['' @ show_nat (min 500 (length m)) @ '' bytes] '' @ take 500 m @ [LF]) ms)) \<and>
      id_echo_cl_main sfd net [prog, host] = (None, [])) \<and>
    ((\<exists>pr. ud_ucase_sv_main None (Some ENOENT) None (ts @ Inr (a, m, False) # us) =
        (Some (Fatal ''sendto''), pr, map (\<lambda>t. (fst (projr t), map toupper (take 10 (fst (snd (projr t)))))) ts)) \<and>
      id_echo_sv_main None sfd (map Inr es) =
        (None, map fst (filter (\<lambda>(a, m, ok). \<not> ok) es), map (\<lambda>(a, m, ok). (a, take 500 m)) (filter (\<lambda>(a, m, ok). ok) es))) \<and>
    (case off of
      None \<Rightarrow> \<exists>w'. sendfile wr None count f w = (Sent n, None, f\<lparr>offset := offset f + n\<rparr>, w') \<and> rcv w' = rcv w @ take count rest
    | Some z \<Rightarrow> if z < 0 then sendfile wr off count f w = (Sf_error EINVAL, off, f, w)
        else \<exists>w'. sendfile wr off count f w = (Sent n, Some (z + int n), f, w') \<and> rcv w' = rcv w @ take count rest) \<and>
    sendfile byte_write None 3 \<lparr>content = ''abcdef'', offset = 0\<rparr> [] = (Sent 3, None, \<lparr>content = ''abcdef'', offset = 6\<rparr>, ''adf'') \<and>
    (0 \<le> z \<and> nat z < length (content f) \<and> 0 < count \<longrightarrow>
      (\<exists>p. sendfile broken_write (Some z) count f v = (Sf_error EPIPE, Some z, f\<lparr>offset := p\<rparr>, v) \<and> nat z < p))"
    (is "?clients \<and> ?servers \<and> _")
proof (intro conjI [of ?clients] conjI [of ?servers])
  have h: "ms ! 0 = hd ms" "0 < length ms" using assms(2) by (simp_all add: hd_conv_nth)
  show ?clients
    using h assms(3-6)
    by (simp add: ud_ucase_cl_main_def i6d_ucase_cl_main_def id_echo_cl_main_def ucase_client_run [OF assms(1)] id_echo_client_run [OF assms(1)])
  show ?servers
    using ucase_serve_good [OF assms(7), of ud_ucase_note "Inr (a, m, False) # us" "[]" "[]"] assms(6)
    by (auto simp: ud_ucase_sv_main_def id_echo_sv_main_def id_echo_serve_all Let_def)
qed (intro conjI impI sendfile_whole [OF assms(8-10)] sendfile_loses; elim conjE; rule sendfile_error_moves; assumption)

theorem datagrams_and_sendfile_witness:
  "ud_ucase_cl_main None None (ucase_net ud_ucase_note ''/tmp/c'') [''cl'', ''hello''] = (None, ''Response 1: HELLO'' @ [LF]) \<and>
   (\<exists>w'. sendfile stream_write (Some 2) 3 \<lparr>content = ''abcdef'', offset = 0\<rparr> [] = (Sent 3, Some 5, \<lparr>content = ''abcdef'', offset = 0\<rparr>, w') \<and>
     w' = ''cde'')"
proof -
  have up: "ucase_responses 1 [''hello''] = ''Response 1: HELLO'' @ [LF]" by (simp add: show_nat.simps toupper_def char_of_def bit_0)
  note all = datagrams_and_sendfile [where ms = "[''hello'']" and host = "''host''" and pton = "\<lambda>_. True" and sfd = 3 and ts = "[]" and wr = stream_write
      and rcv = "\<lambda>w. w" and rest = "''cdef''" and off = "Some 2" and f = "\<lparr>content = ''abcdef'', offset = 0\<rparr>" and count = 3 and n = 3
      and path = "''/tmp/c''" and prog = "''cl''" and ntop = "\<lambda>_ :: nat. None" and w = "[]"]
  from all [THEN conjunct1, THEN conjunct1]
  have "ud_ucase_cl_main None None (ucase_net ud_ucase_note ''/tmp/c'') [''cl'', ''hello''] = (None, ''Response 1: HELLO'' @ [LF])"
    using kept.whole_out_axioms by (simp add: up [simplified])
  moreover from all [THEN conjunct2, THEN conjunct2, THEN conjunct1]
  have "\<exists>w'. sendfile stream_write (Some 2) 3 \<lparr>content = ''abcdef'', offset = 0\<rparr> [] = (Sent 3, Some 5, \<lparr>content = ''abcdef'', offset = 0\<rparr>, w') \<and>
     w' = ''cde''"
    using kept.whole_out_axioms by (simp add: eval_nat_numeral)
  ultimately show ?thesis ..
qed

end
