(* ===== verification/Spec2Isabelle.thy ===== *)
theory Spec2Isabelle
  imports Prelude StreamIO Malloc Acl AttrBits EnvExec FilePrograms VectorIO MsgFile PidFile ProcTree SemOp SeqServices
    ShellCall ShmXfer CondVar Counters Races Pty Tail UserDb Strerror SemInit Reaper KernelTypes
    Xattr Tty Password Hup Relay PosixIpc DirTools Pipes Bench Exercises Dgram
begin

text \<open>
  Verification of the programs in the repository of exercises for \<^emph>\<open>The Linux Programming
  Interface\<close>: the author's solutions (the numbered directories \<open>03-...\<close> to \<open>17-...\<close> under \<open>src/\<close>) and the
  programs and the library of the book's distribution (\<open>src/tlpi-dist\<close>), which the solutions use.

  \<^bold>\<open>The repository.\<close> There is no single program. The parts are a library (\<open>tlpi-dist/lib\<close>: input and output
  loops, error reporting, numeric arguments, locks, semaphores, sockets, pseudoterminals, daemons) and
  command-line programs that call it and the kernel. They interact through files, pipes, message
  queues, shared memory, semaphores and locks, so the models fall into two kinds: functions for a single
  process, and step relations for processes or threads that run side by side.

  \<^bold>\<open>How the code is modelled.\<close> Every function of C is an Isabelle function (\<open>fun\<close>, \<open>definition\<close>), loops are
  recursive functions with a termination proof or \<open>partial_function (option)\<close> where the C loop need
  not end, and then \<open>None\<close> means that it does not. Buffers are lists of bytes, C strings lists of characters
  without the null byte, \<open>int\<close> and \<open>long\<close> integers with the conversions of Prelude written out where they matter,
  flag words 32-bit words. A failing call is \<open>Inl e\<close> with its \<open>errno\<close>; a program that ends with an
  error is a value of \<open>failure\<close> (ErrorFuns), and writing outside an array is a value too
  (\<open>None\<close>, or a constructor of its own), so that it can be proved absent or shown to happen. The kernel
  and the C library are not under \<open>src/\<close>: a system call is either an argument of the model (with what
  is assumed of it as a locale or a hypothesis) or, where the claims are about its effects, a small model of
  the documented behaviour (descriptors and files in Files, semaphores in Sems, locks in Locks).

  \<^bold>\<open>The theories.\<close>
  \<^item> Prelude: bytes, \<open>errno\<close>, machine integers, shared collections of rules and list lemmas. Steps: locales for
    step relations (invariants, termination, progress), interpreted by ShmXfer, CondVar, Counters, Races, SemInit, Reaper, Tty,
    Hup and Pipes.
    CString: \<open>strchr\<close>, \<open>strtol\<close>, \<open>getopt\<close>, \<open>getopt_long\<close>, \<open>fgets\<close>, decimal printing. Memory: byte-addressed memory.
  \<^item> StreamIO (\<open>lib/rdwrn.c\<close>, \<open>lib/read_line.c\<close>, \<open>sockets/read_line_buf.c\<close>): \<open>readn\<close>, \<open>writen\<close>, \<open>readLine\<close>, \<open>readLineBuf\<close> over
    locales for readable and writable descriptors; they return what the stream holds for any pattern of
    partial transfers and interruptions (C1, C3).
  \<^item> Malloc (\<open>07-.../po_malloc_free.c\<close>): the free list in memory, \<open>po_malloc\<close>, \<open>po_free\<close>; first fit, the list
    invariant, disjointness of blocks, and the two flaws of the code (C5, C7 and \<open>po_malloc_out_of_memory\<close>).
  \<^item> ErrorFuns, NumArgs (\<open>lib/error_functions.c\<close>, \<open>get_num.c\<close>, \<open>itimerspec_from_str.c\<close>, \<open>ugid_functions.c\<close>, and the
    programs \<open>sched_set\<close> and \<open>t_kill\<close>): messages and ends of processes, accepted numbers, round trips (C10 and \<open>itimerspec_round_trip\<close>).
  \<^item> Acl (\<open>acl/acl_update.c\<close>): the parser of ACL entries, their effect as updates of a finite map (C13). Xattr
    (\<open>16-.../setfattr.c\<close>): exactly the named files change (C14).
  \<^item> Files (\<open>05-.../dup.c\<close> and the file calls), FileTools and FilePrograms (\<open>copy\<close>, \<open>cpholes\<close>, \<open>holy_file\<close>, \<open>write_bytes\<close>),
    VectorIO (\<open>readv\<close>, \<open>writev\<close>), MsgFile (\<open>svmsg_file_*\<close>): \<open>dup2\<close> against its contract, exact results of the file
    programs, round trips (C18, C23, C30). SeekIO (\<open>fileio/seek_io.c\<close>): a refinement of sessions on one abstract file
    (C33). KernelTypes: a locale for the system calls on files as the only ways to change the kernel state, whose clients are
    these programs; they keep its type (C21). Tail (\<open>13-.../tail.c\<close>): what is printed, and where the code leaves its
    buffer (C11). Bench (\<open>14-.../benchmarkwrites.c\<close>): the files it creates and removes (C16). Exercises (\<open>04-.../tee.c\<close>, \<open>05-.../append_seek.c\<close>,
    \<open>large_file.c\<close>, \<open>13-.../copy.c\<close>, \<open>17-.../dispacl.c\<close>): what these solutions do, and where they do not do what they mean to (C20).
  \<^item> Chattr (\<open>15-.../chattr.c\<close>): attribute words as sets of letters. Perms (\<open>15-.../exercise6_chmod.c\<close>, \<open>lib/file_perms.c\<close>):
    modes as words, where the program agrees with \<open>chmod a+rX\<close> (C17 in AttrBits, for both).
  \<^item> Sems, SemOp (\<open>binary_sems\<close>, \<open>event_flags\<close>, \<open>svsem_op\<close>), ShmXfer (\<open>svshm_xfr_*\<close>): semaphores, the transfer through
    shared memory for every interleaving (C24, C27). SemInit (\<open>svsem_good_init\<close>, \<open>svsem_bad_init\<close>): a semaphore that any number
    of processes may create is initialised once (C4). IpcTools (\<open>svmsg_create\<close>, \<open>svsem_create\<close>, \<open>svshm_create\<close>, \<open>sv*_rm\<close>, \<open>svsem_setall\<close>,
    \<open>svmsg_send\<close>, \<open>svmsg_receive\<close>): a locale for the kinds of System V objects, identifiers and keys, messages by type (C36).
    PosixIpc (\<open>pmsg_*\<close>, \<open>psem_*\<close>, \<open>pshm_*\<close>): a locale for named objects; message queues as stable sorting by priority (C29).
  \<^item> Env, Exec, ShellCall (\<open>proc/setenv.c\<close>, \<open>procexec/execlp.c\<close>, \<open>procexec/system.c\<close>, \<open>print_wait_status.c\<close>):
    the environment as a map, the search along \<open>PATH\<close> (C28 in EnvExec), signal attributes around \<open>system\<close> (C32). Reaper (\<open>procexec/multi_SIGCHLD.c\<close>): a handler that
    loses no dead child (C19).
  \<^item> SeqNum (\<open>pipes/fifo_seqnum_*\<close>), NetSeq (\<open>sockets/is_seqnum_*\<close>, on StreamIO and Sockets): sequence numbers that do not
    overlap, client and server together (C15 in SeqServices). Relay (\<open>sockets/us_xfr_*\<close>, \<open>us_xfr_v2_*\<close>, \<open>is_echo_*\<close>): a locale for a loop
    that passes a stream on; transfers and echoes arrive complete (C26). Pipes (\<open>change_case\<close>, \<open>simple_pipe\<close>, \<open>pipe_sync\<close>): parents and
    children that talk through pipes, for every order of their steps (C22). Dgram (\<open>sockets/ud_ucase_*\<close>, \<open>i6d_ucase_*\<close>, \<open>id_echo_*\<close>,
    \<open>sendfile.c\<close>): datagrams there and back, and where \<open>sendfile\<close> loses bytes (C40).
  \<^item> Locks, PidFile (\<open>region_locking\<close>, \<open>i_fcntl_locking\<close>, \<open>create_pid_file\<close>): record locks exclude each other, one
    instance of a daemon (C34). Hup (\<open>daemons/daemon_SIGHUP.c\<close>): no signal is lost (C35).
  \<^item> DirTools (\<open>dirs_links/list_files*.c\<close>, \<open>file_type_stats.c\<close>, \<open>nftw_dir_tree.c\<close>): listings and walks of directory trees (C31).
  \<^item> UserDb (\<open>08-.../getpwnam.c\<close>, \<open>09-.../initgroups.c\<close>): lookups in the user and group databases (C25). Password
    (\<open>check_password.c\<close>, \<open>check_password_caps.c\<close>): who is authenticated, and with which capabilities (C8).
  \<^item> ProcFs, ProcTree (\<open>12-.../proclist.c\<close>, \<open>sherlock.c\<close>, \<open>pstree.c\<close>, \<open>proclib.c\<close>): what is printed of
    \<open>/proc\<close> (C37).
  \<^item> CondVar (\<open>threads/prod_condvar.c\<close>), Races (\<open>05-.../atomic_append.c\<close>, \<open>fileio/bad_exclusive_open.c\<close>): liveness of
    producers and consumer, what is lost without atomic appending (C38, C39).
  \<^item> Counters (\<open>threads/thread_incr.c\<close>, \<open>thread_incr_mutex.c\<close>, \<open>psem/thread_incr_psem.c\<close>): two threads that increment a
    variable, mutual exclusion, termination, lost updates without a guard (C12). Strerror (\<open>threads/strerror*.c\<close>): static,
    thread-specific and thread-local buffers (C2).
  \<^item> Sockets, Pty (\<open>inet_sockets\<close>, \<open>unix_sockets\<close>, \<open>pty_master_open\<close>, \<open>pty_fork\<close>, \<open>become_daemon\<close>): no leaked
    descriptors, the descriptors of a child on a terminal and of a daemon (C9). Tty (\<open>tty_functions.c\<close>,
    \<open>test_tty_functions.c\<close>, \<open>no_echo.c\<close>): the user's terminal settings come back (C6).

  \<^bold>\<open>Bounds and fuel.\<close> \<open>print_tree\<close> of ProcTree has a bound on its depth; the number of nodes is shown to be enough for every
  tree that \<open>make_tree\<close> builds. The other loops are total, or partial with \<open>None\<close> for a loop that never ends (C20 shows
  both cases for \<open>write_bytes\<close>). Hypotheses on sizes are those of the C types (\<open>INT_MAX\<close>).

  \<^bold>\<open>Not modelled.\<close> Programs that only print what a single system call returns, demonstrations of timing, signals and
  memory protection whose content is the kernel's behaviour, shared-library demonstrations, the programs for which the
  repository has no own logic, and \<open>06-.../myenviron.c\<close>, which does not compile. Copies of library files in other
  directories of \<open>tlpi-dist\<close> are the same code. Texts of usage messages are shortened in some models.
\<close>

end
